(* ===== verification/Base.thy ===== *)
theory Base
  imports Main "HOL-Library.Word" "HOL-Library.Char_ord" "HOL-Library.List_Lexorder"
    "HOL-Library.Product_Lexorder" "HOL-Library.Option_ord"
begin

text \<open>
  The prelude of the development: what every component model shares.

  \<^item> Rust's \<open>Result<T, E>\<close> is the sum \<open>'e + 'a\<close>, \<open>Inl\<close> for \<open>Err\<close> and \<open>Inr\<close> for \<open>Ok\<close>;
    \<open>and_then\<close> is the \<open>?\<close> operator.
  \<^item> Rust's fixed-width integers are words; \<open>checked_*\<close> and \<open>saturating_*\<close> are the
    standard library's operations on them.
  \<^item> A \<open>String\<close> is the list of its UTF-8 bytes (\<open>string\<close> is a list of 8-bit characters), so
    \<open>len()\<close> is \<open>length\<close>, and the derived \<open>Ord\<close> is the byte-wise lexicographic order of
    \<open>List_Lexorder\<close>.
  \<^item> A \<open>BTreeMap\<close> is an association list sorted by key, a \<open>BTreeSet\<close> a sorted list
    without duplicates: what the code observes of them is the lookup and the order of iteration.

  The locales are the contracts the components rely on: \<open>ordered_map\<close> for the
  \<open>BTreeMap\<close> operations, \<open>closed_enum\<close> for the string-coded closed enums,
  \<open>validated_newtype\<close> for the validate-on-construct newtypes.
\<close>

named_theorems result_simps "the result monad: and_then, map_err, ok_or"
named_theorems word_arith "checked and saturating arithmetic in terms of unat"
named_theorems btree_simps "ordered maps and sets: lookup, domain, sortedness"

section \<open>Integers\<close>

type_synonym u8 = "8 word"
type_synonym u16 = "16 word"
type_synonym u32 = "32 word"
type_synonym u64 = "64 word"
type_synonym u128 = "128 word"

definition checked_add :: "'a::len word \<Rightarrow> 'a word \<Rightarrow> 'a word option" where
  "checked_add a b = (if unat a + unat b < 2 ^ LENGTH('a) then Some (a + b) else None)"

definition checked_sub :: "'a::len word \<Rightarrow> 'a word \<Rightarrow> 'a word option" where
  "checked_sub a b = (if unat b \<le> unat a then Some (a - b) else None)"

definition checked_mul :: "'a::len word \<Rightarrow> 'a word \<Rightarrow> 'a word option" where
  "checked_mul a b = (if unat a * unat b < 2 ^ LENGTH('a) then Some (a * b) else None)"

definition saturating_add :: "'a::len word \<Rightarrow> 'a word \<Rightarrow> 'a word" where
  "saturating_add a b = (if unat a + unat b < 2 ^ LENGTH('a) then a + b else - 1)"

definition saturating_sub :: "'a::len word \<Rightarrow> 'a word \<Rightarrow> 'a word" where
  "saturating_sub a b = (if unat b \<le> unat a then a - b else 0)"

definition saturating_mul :: "'a::len word \<Rightarrow> 'a word \<Rightarrow> 'a word" where
  "saturating_mul a b = (if unat a * unat b < 2 ^ LENGTH('a) then a * b else - 1)"

lemma unat_minus_one_max: "unat (- 1 :: 'a::len word) = 2 ^ LENGTH('a) - 1"
  by (metis unsigned_minus_1_eq_mask mask_eq_exp_minus_1)

lemma checked_add_Some [word_arith]:
  "checked_add a b = Some c \<longleftrightarrow> unat c = unat a + unat b" for a b c :: "'a::len word"
proof -
  have "unat c < 2 ^ LENGTH('a)" by (rule unsigned_less)
  moreover have "unat a + unat b < 2 ^ LENGTH('a) \<Longrightarrow> unat (a + b) = unat a + unat b"
    by (simp add: unat_word_ariths)
  ultimately show ?thesis
    by (metis checked_add_def option.distinct(1) option.inject word_unat_eq_iff)
qed

lemma checked_sub_Some [word_arith]:
  "checked_sub a b = Some c \<longleftrightarrow> unat a = unat b + unat c" for a b c :: "'a::len word"
proof -
  have "unat b \<le> unat a \<Longrightarrow> unat (a - b) = unat a - unat b"
    by (simp add: unat_sub word_le_nat_alt)
  then show ?thesis
    by (auto simp: checked_sub_def word_unat_eq_iff)
qed

lemma checked_mul_Some [word_arith]:
  "checked_mul a b = Some c \<longleftrightarrow> unat c = unat a * unat b" for a b c :: "'a::len word"
proof -
  have "unat c < 2 ^ LENGTH('a)" by (rule unsigned_less)
  moreover have "unat a * unat b < 2 ^ LENGTH('a) \<Longrightarrow> unat (a * b) = unat a * unat b"
    by (simp add: unat_word_ariths)
  ultimately show ?thesis
    by (metis checked_mul_def option.distinct(1) option.inject word_unat_eq_iff)
qed

lemma checked_add_None [word_arith]:
  "checked_add a b = None \<longleftrightarrow> 2 ^ LENGTH('a) \<le> unat a + unat b" for a b :: "'a::len word"
  by (auto simp: checked_add_def)

lemma checked_sub_None [word_arith]:
  "checked_sub a b = None \<longleftrightarrow> unat a < unat b" for a b :: "'a::len word"
  by (auto simp: checked_sub_def)

lemma checked_mul_None [word_arith]:
  "checked_mul a b = None \<longleftrightarrow> 2 ^ LENGTH('a) \<le> unat a * unat b" for a b :: "'a::len word"
  by (auto simp: checked_mul_def)

lemma unat_saturating_add [word_arith]:
  "unat (saturating_add a b) = min (unat a + unat b) (2 ^ LENGTH('a) - 1)" for a b :: "'a::len word"
  by (auto simp: saturating_add_def unat_word_ariths unat_minus_one_max)

lemma unat_saturating_sub [word_arith]:
  "unat (saturating_sub a b) = unat a - unat b" for a b :: "'a::len word"
  by (auto simp: saturating_sub_def unat_sub word_le_nat_alt)

lemma unat_saturating_mul [word_arith]:
  "unat (saturating_mul a b) = min (unat a * unat b) (2 ^ LENGTH('a) - 1)" for a b :: "'a::len word"
  by (auto simp: saturating_mul_def unat_word_ariths unat_minus_one_max)

section \<open>Results\<close>

definition and_then :: "'e + 'a \<Rightarrow> ('a \<Rightarrow> 'e + 'b) \<Rightarrow> 'e + 'b" where
  "and_then r f = (case r of Inl e \<Rightarrow> Inl e | Inr x \<Rightarrow> f x)"

definition map_err :: "('e \<Rightarrow> 'f) \<Rightarrow> 'e + 'a \<Rightarrow> 'f + 'a" where
  "map_err f r = (case r of Inl e \<Rightarrow> Inl (f e) | Inr x \<Rightarrow> Inr x)"

definition ok_or :: "'a option \<Rightarrow> 'e \<Rightarrow> 'e + 'a" where
  "ok_or m e = (case m of None \<Rightarrow> Inl e | Some x \<Rightarrow> Inr x)"

definition is_ok :: "'e + 'a \<Rightarrow> bool" where
  "is_ok r = (case r of Inl _ \<Rightarrow> False | Inr _ \<Rightarrow> True)"

lemma and_then_simps [simp, code]:
  "and_then (Inl e) f = Inl e"
  "and_then (Inr x) f = f x"
  by (simp_all add: and_then_def)

lemma map_err_simps [simp, code]:
  "map_err f (Inl e) = Inl (f e)"
  "map_err f (Inr x) = Inr x"
  by (simp_all add: map_err_def)

lemma ok_or_simps [simp, code]:
  "ok_or None e = Inl e"
  "ok_or (Some x) e = Inr x"
  by (simp_all add: ok_or_def)

lemma is_ok_simps [simp, code]:
  "\<not> is_ok (Inl e)"
  "is_ok (Inr x)"
  by (simp_all add: is_ok_def)

lemma and_then_Inr [result_simps]: "and_then r f = Inr y \<longleftrightarrow> (\<exists>x. r = Inr x \<and> f x = Inr y)"
  by (cases r) simp_all

lemma and_then_Inl [result_simps]:
  "and_then r f = Inl e \<longleftrightarrow> r = Inl e \<or> (\<exists>x. r = Inr x \<and> f x = Inl e)"
  by (cases r) simp_all

lemma map_err_Inr [result_simps]: "map_err f r = Inr y \<longleftrightarrow> r = Inr y"
  by (cases r) simp_all

lemma map_err_Inl [result_simps]: "map_err f r = Inl e \<longleftrightarrow> (\<exists>e'. r = Inl e' \<and> e = f e')"
  by (cases r) auto

lemma ok_or_Inr [result_simps]: "ok_or m e = Inr x \<longleftrightarrow> m = Some x"
  by (cases m) simp_all

lemma ok_or_Inl [result_simps]: "ok_or m e = Inl e' \<longleftrightarrow> m = None \<and> e' = e"
  by (cases m) auto

lemma is_ok_iff [result_simps]: "is_ok r \<longleftrightarrow> (\<exists>x. r = Inr x)"
  by (cases r) simp_all

text \<open>\<open>?\<close> on a state-passing step.\<close>

definition step_then :: "('e + 'a) \<times> 's \<Rightarrow> ('a \<Rightarrow> 's \<Rightarrow> ('e + 'b) \<times> 's) \<Rightarrow> ('e + 'b) \<times> 's" where
  "step_then r f = (case r of (Inl e, s) \<Rightarrow> (Inl e, s) | (Inr x, s) \<Rightarrow> f x s)"

lemma step_then_simps [simp, code]:
  "step_then (Inl e, s) f = (Inl e, s)"
  "step_then (Inr x, s) f = f x s"
  by (simp_all add: step_then_def)

lemma step_then_Inr [result_simps]:
  "step_then r f = (Inr y, s') \<longleftrightarrow> (\<exists>x s. r = (Inr x, s) \<and> f x s = (Inr y, s'))"
  by (cases r; cases "fst r") auto

lemma step_then_Inl [result_simps]:
  "step_then r f = (Inl e, s') \<longleftrightarrow> r = (Inl e, s') \<or> (\<exists>x s. r = (Inr x, s) \<and> f x s = (Inl e, s'))"
  by (cases r; cases "fst r") auto

end
