(* ===== verification/Containers.thy ===== *)
theory Containers
  imports Base
begin

text \<open>
  \<open>BTreeMap\<close> and \<open>BTreeSet\<close> of the Rust standard library: an association list with strictly
  increasing keys, and a strictly increasing list. The locale \<open>ordered_map\<close> is the contract the
  components use (what a lookup returns after an insert, that iteration is sorted by key); its
  lemmas, among them that a map depends on its lookups only and not on the order of the inserts,
  are proved once from the contract and reach the components through the interpretation
  \<open>btree\<close>. \<open>build_unique\<close> is the loop several constructors share: insert every record under its
  key and stop at the first key seen twice.
\<close>

section \<open>Operations\<close>

fun bt_insert :: "'k::linorder \<Rightarrow> 'v \<Rightarrow> ('k \<times> 'v) list \<Rightarrow> ('k \<times> 'v) list" where
  "bt_insert k v [] = [(k, v)]"
| "bt_insert k v (e # m) =
     (if fst e < k then e # bt_insert k v m
      else if fst e = k then (k, v) # m
      else (k, v) # e # m)"

definition bt_ok :: "('k::linorder \<times> 'v) list \<Rightarrow> bool" where
  "bt_ok m \<longleftrightarrow> sorted_wrt (<) (map fst m)"

definition bt_update :: "'k \<Rightarrow> ('v \<Rightarrow> 'v) \<Rightarrow> ('k \<times> 'v) list \<Rightarrow> ('k \<times> 'v) list" where
  "bt_update k f m = map (\<lambda>(k', v). (k', if k' = k then f v else v)) m"

fun bs_insert :: "'a::linorder \<Rightarrow> 'a list \<Rightarrow> 'a list" where
  "bs_insert x [] = [x]"
| "bs_insert x (y # ys) =
     (if y < x then y # bs_insert x ys else if y = x then y # ys else x # y # ys)"

definition bs_ok :: "'a::linorder list \<Rightarrow> bool" where
  "bs_ok xs \<longleftrightarrow> sorted_wrt (<) xs"

definition bs_of_list :: "'a::linorder list \<Rightarrow> 'a list" where
  "bs_of_list xs = fold bs_insert xs []"

section \<open>Facts\<close>

lemma set_fst_bt_insert [btree_simps]: "fst ` set (bt_insert k v m) = insert k (fst ` set m)"
  by (induction m) (auto split: if_splits)

lemma bt_ok_Nil [simp]: "bt_ok []"
  by (simp add: bt_ok_def)

lemma bt_ok_Cons: "bt_ok (e # m) \<longleftrightarrow> (\<forall>k \<in> fst ` set m. fst e < k) \<and> bt_ok m"
  by (auto simp: bt_ok_def)

lemma bt_ok_insert [intro]: "bt_ok m \<Longrightarrow> bt_ok (bt_insert k v m)"
  by (induction m) (auto simp: bt_ok_Cons set_fst_bt_insert)

lemma map_of_bt_insert [btree_simps]:
  "bt_ok m \<Longrightarrow> map_of (bt_insert k v m) = (map_of m)(k \<mapsto> v)"
  by (induction m) (auto simp: bt_ok_Cons fun_eq_iff)

lemma bt_ok_distinct: "bt_ok m \<Longrightarrow> distinct (map fst m)"
  by (auto simp: bt_ok_def strict_sorted_iff)

lemma bt_ok_map_of: "bt_ok m \<Longrightarrow> map_of m k = Some v \<longleftrightarrow> (k, v) \<in> set m"
  by (simp add: bt_ok_distinct)

lemma map_of_bt_update [btree_simps]:
  "map_of (bt_update k f m) j = (if j = k then map_option f (map_of m k) else map_of m j)"
  by (induction m) (auto simp: bt_update_def)

lemma bt_ok_update [intro]: "bt_ok m \<Longrightarrow> bt_ok (bt_update k f m)"
  by (simp add: bt_ok_def bt_update_def comp_def case_prod_unfold)

lemma set_bs_insert [btree_simps]: "set (bs_insert x xs) = insert x (set xs)"
  by (induction xs) auto

lemma bs_ok_Nil [simp]: "bs_ok []"
  by (simp add: bs_ok_def)

lemma bs_ok_Cons: "bs_ok (x # xs) \<longleftrightarrow> (\<forall>y \<in> set xs. x < y) \<and> bs_ok xs"
  by (auto simp: bs_ok_def)

lemma bs_ok_insert [intro]: "bs_ok xs \<Longrightarrow> bs_ok (bs_insert x xs)"
  by (induction xs) (auto simp: bs_ok_Cons set_bs_insert)

lemma bs_of_list_facts: "bs_ok (bs_of_list xs) \<and> set (bs_of_list xs) = set xs"
proof -
  have "bs_ok ys \<Longrightarrow> bs_ok (fold bs_insert xs ys) \<and> set (fold bs_insert xs ys) = set xs \<union> set ys" for ys
  proof (induction xs arbitrary: ys)
    case (Cons x xs)
    from Cons.IH [OF bs_ok_insert [OF Cons.prems]] show ?case by (auto simp: set_bs_insert)
  qed simp
  from this [of "[]"] show ?thesis by (simp add: bs_of_list_def)
qed

lemma bs_ok_of_list [simp]: "bs_ok (bs_of_list xs)"
  using bs_of_list_facts by blast

lemma set_bs_of_list [simp]: "set (bs_of_list xs) = set xs"
  using bs_of_list_facts by blast

lemma bs_ok_distinct: "bs_ok xs \<Longrightarrow> distinct xs"
  by (simp add: bs_ok_def strict_sorted_iff)

lemma bs_ok_eqI: "bs_ok xs \<Longrightarrow> bs_ok ys \<Longrightarrow> set xs = set ys \<Longrightarrow> xs = ys"
  by (simp add: bs_ok_def strict_sorted_equal)

lemma bs_ok_filter [intro]: "bs_ok xs \<Longrightarrow> bs_ok (filter P xs)"
  by (simp add: bs_ok_def sorted_wrt_filter)

lemma map_of_filter_key: "map_of (filter (\<lambda>e. fst e \<noteq> k) m) j = (if j = k then None else map_of m j)"
  by (induction m) auto

lemma bt_ok_filter [intro]: "bt_ok m \<Longrightarrow> bt_ok (filter P m)"
  by (induction m) (auto simp: bt_ok_Cons)

lemma find_key_None: "find (\<lambda>r. key r = k) rs = None \<longleftrightarrow> k \<notin> key ` set rs"
  by (induction rs) auto

lemma find_key_Some:
  "distinct (map key rs) \<Longrightarrow> find (\<lambda>r. key r = k) rs = Some r \<longleftrightarrow> r \<in> set rs \<and> key r = k"
  by (induction rs) (auto simp: image_iff)

section \<open>The contract of an ordered map\<close>

locale ordered_map =
  fixes empty :: "'m"
    and ins :: "'k::linorder \<Rightarrow> 'v \<Rightarrow> 'm \<Rightarrow> 'm"
    and get :: "'m \<Rightarrow> 'k \<Rightarrow> 'v option"
    and entries :: "'m \<Rightarrow> ('k \<times> 'v) list"
    and ok :: "'m \<Rightarrow> bool"
  assumes ok_empty: "ok empty"
    and ok_ins: "ok m \<Longrightarrow> ok (ins k v m)"
    and get_empty: "get empty k = None"
    and get_ins: "ok m \<Longrightarrow> get (ins k v m) j = (if j = k then Some v else get m j)"
    and entries_get: "ok m \<Longrightarrow> (k, v) \<in> set (entries m) \<longleftrightarrow> get m k = Some v"
    and entries_sorted: "ok m \<Longrightarrow> sorted_wrt (<) (map fst (entries m))"
begin

lemma keys_get: "ok m \<Longrightarrow> k \<in> fst ` set (entries m) \<longleftrightarrow> get m k \<noteq> None"
  using entries_get [of m k] by (auto simp: image_iff) (metis fst_conv surj_pair option.exhaust)+

lemma ok_fold: "ok m \<Longrightarrow> ok (fold (\<lambda>r. ins (key r) (val r)) rs m)"
  by (induction rs arbitrary: m) (simp_all add: ok_ins)

lemma get_fold:
  assumes "ok m" and "distinct (map key rs)"
  shows "get (fold (\<lambda>r. ins (key r) (val r)) rs m) k =
    (case find (\<lambda>r. key r = k) rs of Some r \<Rightarrow> Some (val r) | None \<Rightarrow> get m k)"
  using assms
proof (induction rs arbitrary: m)
  case Nil
  then show ?case by simp
next
  case (Cons r rs)
  have "key r \<notin> key ` set rs" and d: "distinct (map key rs)" using Cons.prems(2) by auto
  then have none: "find (\<lambda>r'. key r' = key r) rs = None"
    by (simp add: find_key_None)
  have "get (fold (\<lambda>r. ins (key r) (val r)) rs (ins (key r) (val r) m)) k =
      (case find (\<lambda>r. key r = k) rs of Some r \<Rightarrow> Some (val r) | None \<Rightarrow> get (ins (key r) (val r) m) k)"
    by (rule Cons.IH) (simp_all add: Cons.prems(1) ok_ins d)
  with none Cons.prems(1) show ?case by (auto simp: get_ins split: option.splits)
qed

lemma entries_eqI:
  assumes "ok m" "ok m'" and "\<And>k. get m k = get m' k"
  shows "entries m = entries m'"
proof -
  have d: "distinct (entries m)" "distinct (entries m')"
    using entries_sorted [OF assms(1)] entries_sorted [OF assms(2)]
    by (auto simp: strict_sorted_iff distinct_map)
  have s: "set (entries m) = set (entries m')"
    using assms by (auto simp: set_eq_iff entries_get)
  have k: "map fst (entries m) = map fst (entries m')"
    by (rule strict_sorted_equal) (use entries_sorted assms s in \<open>auto simp: image_def\<close>)
  show ?thesis
  proof (rule nth_equalityI)
    show len: "length (entries m) = length (entries m')"
      using k by (metis length_map)
    fix i assume i: "i < length (entries m)"
    obtain a b where e: "entries m ! i = (a, b)" by fastforce
    obtain a' b' where e': "entries m' ! i = (a', b')" by fastforce
    have "a = a'"
      using k i len e e' by (metis fst_conv nth_map)
    moreover have "get m a = Some b" "get m' a' = Some b'"
      using i len e e' assms(1,2) entries_get nth_mem by metis+
    ultimately show "entries m ! i = entries m' ! i"
      using assms(3) e e' by simp
  qed
qed

lemma entries_fold_perm:
  assumes "distinct (map key rs)" and "distinct (map key rs')" and "set rs = set rs'"
  shows "entries (fold (\<lambda>r. ins (key r) (val r)) rs empty) =
    entries (fold (\<lambda>r. ins (key r) (val r)) rs' empty)"
proof (rule entries_eqI)
  fix k
  have "find (\<lambda>r. key r = k) rs = Some r \<longleftrightarrow> find (\<lambda>r. key r = k) rs' = Some r" for r
    by (simp add: find_key_Some assms)
  then have "find (\<lambda>r. key r = k) rs = find (\<lambda>r. key r = k) rs'"
    by (metis not_None_eq)
  then show "get (fold (\<lambda>r. ins (key r) (val r)) rs empty) k =
      get (fold (\<lambda>r. ins (key r) (val r)) rs' empty) k"
    by (simp only: get_fold [OF ok_empty assms(1)] get_fold [OF ok_empty assms(2)])
qed (simp_all add: ok_fold ok_empty)

end

interpretation btree: ordered_map "[]" bt_insert map_of "\<lambda>m. m" bt_ok
proof unfold_locales
  fix m :: "('a \<times> 'b) list" and k v j
  assume ok: "bt_ok m"
  show "bt_ok (bt_insert k v m)" using ok by (rule bt_ok_insert)
  show "map_of (bt_insert k v m) j = (if j = k then Some v else map_of m j)"
    by (simp add: map_of_bt_insert [OF ok])
  show "(k, v) \<in> set m \<longleftrightarrow> map_of m k = Some v"
    by (rule bt_ok_map_of [OF ok, symmetric])
  show "sorted_wrt (<) (map fst m)" using ok by (simp only: bt_ok_def)
qed simp_all

section \<open>Building a map from records, rejecting duplicates\<close>

text \<open>
  The loop \<open>for r in records { if map.contains_key(&key(r)) { return Err(..) } map.insert(key(r), val(r)) }\<close>;
  the left result is the first record whose key was seen before.
\<close>

fun build_unique ::
  "('r \<Rightarrow> 'k::linorder) \<Rightarrow> ('r \<Rightarrow> 'v) \<Rightarrow> 'r list \<Rightarrow> ('k \<times> 'v) list \<Rightarrow> 'r + ('k \<times> 'v) list" where
  "build_unique key val [] m = Inr m"
| "build_unique key val (r # rs) m =
     (case map_of m (key r) of
        Some _ \<Rightarrow> Inl r
      | None \<Rightarrow> build_unique key val rs (bt_insert (key r) (val r) m))"

lemma build_unique_Inr_iff:
  assumes "bt_ok m"
  shows "build_unique key val rs m = Inr m' \<longleftrightarrow>
    distinct (map key rs) \<and> (\<forall>r \<in> set rs. map_of m (key r) = None) \<and>
    m' = fold (\<lambda>r. bt_insert (key r) (val r)) rs m"
  using assms
proof (induction rs arbitrary: m)
  case Nil
  then show ?case by auto
next
  case (Cons r rs)
  show ?case
  proof (cases "map_of m (key r)")
    case None
    have ok: "bt_ok (bt_insert (key r) (val r) m)" using Cons.prems by (rule bt_ok_insert)
    from None show ?thesis
      by (auto simp add: Cons.IH [OF ok] map_of_bt_insert [OF Cons.prems] image_iff split: if_splits)
  next
    case (Some v)
    then show ?thesis by simp
  qed
qed

corollary build_unique_empty_iff:
  "build_unique key val rs [] = Inr m \<longleftrightarrow>
    distinct (map key rs) \<and> m = fold (\<lambda>r. bt_insert (key r) (val r)) rs []"
  by (simp add: build_unique_Inr_iff)

lemma build_unique_ok:
  assumes "build_unique key val rs [] = Inr m"
  shows "bt_ok m"
    and "map_of m k = map_option val (find (\<lambda>r. key r = k) rs)"
    and "fst ` set m = key ` set rs"
    and "(k, v) \<in> set m \<longleftrightarrow> (\<exists>r \<in> set rs. key r = k \<and> val r = v)"
proof -
  from assms have d: "distinct (map key rs)"
    and m: "m = fold (\<lambda>r. bt_insert (key r) (val r)) rs []"
    by (simp_all add: build_unique_empty_iff)
  show ok: "bt_ok m" unfolding m by (rule btree.ok_fold) simp
  have get: "map_of m k = map_option val (find (\<lambda>r. key r = k) rs)" for k
    unfolding m by (subst btree.get_fold [OF _ d]) (simp_all split: option.splits)
  then show "map_of m k = map_option val (find (\<lambda>r. key r = k) rs)" .
  have mem: "(k, v) \<in> set m \<longleftrightarrow> (\<exists>r \<in> set rs. key r = k \<and> val r = v)" for k v
  proof -
    have "(k, v) \<in> set m \<longleftrightarrow> (\<exists>r. find (\<lambda>r. key r = k) rs = Some r \<and> val r = v)"
      unfolding bt_ok_map_of [OF ok, symmetric] get by auto
    then show ?thesis by (auto simp: find_key_Some [OF d])
  qed
  then show "(k, v) \<in> set m \<longleftrightarrow> (\<exists>r \<in> set rs. key r = k \<and> val r = v)" .
  have "k \<in> fst ` set m \<longleftrightarrow> k \<in> key ` set rs" for k
  proof -
    have "k \<in> fst ` set m \<longleftrightarrow> (\<exists>v. (k, v) \<in> set m)" by force
    then show ?thesis by (auto simp: mem)
  qed
  then show "fst ` set m = key ` set rs" by blast
qed

section \<open>Collecting into a set\<close>

lemma fold_bs_insert_facts:
  "bs_ok acc \<Longrightarrow> bs_ok (fold bs_insert xs acc) \<and> set (fold bs_insert xs acc) = set xs \<union> set acc"
proof (induction xs arbitrary: acc)
  case (Cons x xs)
  from Cons.IH [OF bs_ok_insert [OF Cons.prems]] show ?case by (auto simp: set_bs_insert)
qed simp

lemma fold_collect_if:
  "bs_ok acc \<Longrightarrow>
    bs_ok (fold (\<lambda>(k, v) acc. if P v then bs_insert k acc else acc) xs acc) \<and>
    set (fold (\<lambda>(k, v) acc. if P v then bs_insert k acc else acc) xs acc) =
      {k. \<exists>v. (k, v) \<in> set xs \<and> P v} \<union> set acc"
proof (induction xs arbitrary: acc)
  case (Cons e xs)
  obtain k v where e: "e = (k, v)" by (cases e)
  show ?case
  proof (cases "P v")
    case True
    with Cons.IH [OF bs_ok_insert [OF Cons.prems, of k]] show ?thesis by (auto simp: e set_bs_insert)
  next
    case False
    with Cons.IH [OF Cons.prems] show ?thesis by (auto simp: e)
  qed
qed simp

lemma fold_collect_lookup:
  "bs_ok acc \<Longrightarrow>
    bs_ok (fold (\<lambda>c acc. case f c of Some hs \<Rightarrow> fold bs_insert hs acc | None \<Rightarrow> acc) cs acc) \<and>
    set (fold (\<lambda>c acc. case f c of Some hs \<Rightarrow> fold bs_insert hs acc | None \<Rightarrow> acc) cs acc) =
      {i. \<exists>c \<in> set cs. \<exists>hs. f c = Some hs \<and> i \<in> set hs} \<union> set acc"
proof (induction cs arbitrary: acc)
  case (Cons c cs)
  show ?case
  proof (cases "f c")
    case None
    with Cons.IH [OF Cons.prems] show ?thesis by simp
  next
    case (Some hs)
    from fold_bs_insert_facts [OF Cons.prems, of hs]
    have ok: "bs_ok (fold bs_insert hs acc)" and s: "set (fold bs_insert hs acc) = set hs \<union> set acc" by simp_all
    from Cons.IH [OF ok] Some show ?thesis by (auto simp: s)
  qed
qed simp

section \<open>Sums over the values\<close>

lemma sum_bt_insert:
  fixes f :: "'v \<Rightarrow> nat"
  assumes "bt_ok m"
  shows "(\<Sum>(j, w) \<leftarrow> bt_insert k v m. f w) + (case map_of m k of Some w \<Rightarrow> f w | None \<Rightarrow> 0) =
    (\<Sum>(j, w) \<leftarrow> m. f w) + f v"
  using assms
proof (induction m)
  case (Cons e m)
  obtain j w where e: "e = (j, w)" by (cases e)
  have "map_of m k = None" if "k < j"
    using Cons.prems that by (auto simp: bt_ok_Cons e map_of_eq_None_iff)
  moreover have "bt_ok m" using Cons.prems by (simp add: bt_ok_Cons)
  ultimately show ?case using Cons.IH by (auto simp: e not_less_iff_gr_or_eq)
qed simp

end
