(* ===== verification/Strings.thy ===== *)
theory Strings
  imports Containers
begin

text \<open>
  The string operations of the Rust standard library that the code uses, on the UTF-8 bytes of
  the string, and the two contracts of string-coded types: \<open>validated_newtype\<close> (a constructor
  that validates and an accessor that returns the text) and \<open>closed_enum\<close> (an enum printed and
  parsed by name), the second an instance of the first by a sublocale.
\<close>

section \<open>Searching and splitting\<close>

text \<open>\<open>str::split(c)\<close>: always at least one piece; a separator at an end yields an empty piece.\<close>

fun split_on :: "char \<Rightarrow> string \<Rightarrow> string list" where
  "split_on c [] = [[]]"
| "split_on c (x # xs) =
     (if x = c then [] # split_on c xs
      else (case split_on c xs of [] \<Rightarrow> [[x]] | p # ps \<Rightarrow> (x # p) # ps))"

text \<open>\<open>[String]::join\<close> with a one-byte separator.\<close>

fun join_with :: "char \<Rightarrow> string list \<Rightarrow> string" where
  "join_with c [] = []"
| "join_with c [p] = p"
| "join_with c (p # q # ps) = p @ c # join_with c (q # ps)"

text \<open>\<open>str::split_once(c)\<close>.\<close>

fun split_once :: "char \<Rightarrow> string \<Rightarrow> (string \<times> string) option" where
  "split_once c [] = None"
| "split_once c (x # xs) =
     (if x = c then Some ([], xs)
      else map_option (\<lambda>(a, b). (x # a, b)) (split_once c xs))"

definition strip_prefix :: "string \<Rightarrow> string \<Rightarrow> string option" where
  "strip_prefix p s = (if take (length p) s = p then Some (drop (length p) s) else None)"

definition starts_with :: "string \<Rightarrow> string \<Rightarrow> bool" where
  "starts_with p s = (take (length p) s = p)"

text \<open>\<open>str::strip_suffix(c)\<close> and \<open>str::ends_with(c)\<close> for a one-byte suffix.\<close>

definition strip_suffix_char :: "char \<Rightarrow> string \<Rightarrow> string option" where
  "strip_suffix_char c s = (if s \<noteq> [] \<and> last s = c then Some (butlast s) else None)"

text \<open>\<open>str::contains\<close> for a two-byte pattern.\<close>

fun contains_pair :: "char \<Rightarrow> char \<Rightarrow> string \<Rightarrow> bool" where
  "contains_pair a b (x # y # s) \<longleftrightarrow> x = a \<and> y = b \<or> contains_pair a b (y # s)"
| "contains_pair a b _ \<longleftrightarrow> False"

text \<open>
  \<open>chars().any(char::is_control)\<close>: the control characters (category Cc) are U+0000 to U+001F and
  U+007F, one byte each, and U+0080 to U+009F, whose UTF-8 form is \<open>C2 80\<close> to \<open>C2 9F\<close>.
\<close>

fun has_control :: "string \<Rightarrow> bool" where
  "has_control [] \<longleftrightarrow> False"
| "has_control [x] \<longleftrightarrow> of_char x < (32 :: nat) \<or> of_char x = (127 :: nat)"
| "has_control (x # y # s) \<longleftrightarrow>
     of_char x < (32 :: nat) \<or> of_char x = (127 :: nat) \<or>
     of_char x = (194 :: nat) \<and> (128 :: nat) \<le> of_char y \<and> of_char y \<le> (159 :: nat) \<or>
     has_control (y # s)"

definition is_lower :: "char \<Rightarrow> bool" where
  "is_lower c \<longleftrightarrow> CHR ''a'' \<le> c \<and> c \<le> CHR ''z''"

definition is_upper :: "char \<Rightarrow> bool" where
  "is_upper c \<longleftrightarrow> CHR ''A'' \<le> c \<and> c \<le> CHR ''Z''"

definition is_digit :: "char \<Rightarrow> bool" where
  "is_digit c \<longleftrightarrow> CHR ''0'' \<le> c \<and> c \<le> CHR ''9''"

section \<open>Facts\<close>

lemma split_on_not_Nil [simp]: "split_on c s \<noteq> []"
  by (induction s) (auto split: list.splits)

lemma split_on_Cons_other:
  "x \<noteq> c \<Longrightarrow> split_on c (x # xs) = (x # hd (split_on c xs)) # tl (split_on c xs)"
  by (cases "split_on c xs") auto

lemma split_on_no_sep: "p \<in> set (split_on c s) \<Longrightarrow> c \<notin> set p"
  by (induction s arbitrary: p) (auto split: list.splits if_splits)

lemma join_split [simp]: "join_with c (split_on c s) = s"
proof (induction s)
  case (Cons x s)
  show ?case
  proof (cases "split_on c s")
    case (Cons p ps)
    with Cons.IH show ?thesis by (cases ps) auto
  qed simp
qed simp

lemma split_on_no_sep_eq: "c \<notin> set p \<Longrightarrow> split_on c p = [p]"
  by (induction p) auto

lemma split_on_append: "c \<notin> set p \<Longrightarrow> split_on c (p @ c # s) = p # split_on c s"
  by (induction p) auto

lemma split_join: "ps \<noteq> [] \<Longrightarrow> \<forall>p \<in> set ps. c \<notin> set p \<Longrightarrow> split_on c (join_with c ps) = ps"
  by (induction c ps rule: join_with.induct) (auto simp: split_on_append split_on_no_sep_eq)

lemma set_split_on: "set s = \<Union> (set ` set (split_on c s)) \<union> (if length (split_on c s) \<le> 1 then {} else {c})"
proof (induction s)
  case (Cons x s)
  then show ?case by (cases "split_on c s") (auto split: if_splits)
qed simp

lemma split_once_Some:
  "split_once c s = Some (a, b) \<longleftrightarrow> s = a @ c # b \<and> c \<notin> set a"
proof (induction s arbitrary: a)
  case (Cons x s)
  show ?case
  proof (cases "x = c")
    case False
    then show ?thesis by (cases a) (auto simp: Cons.IH)
  qed (cases a, auto)
qed simp

lemma split_once_None: "split_once c s = None \<longleftrightarrow> c \<notin> set s"
  by (induction s) auto

lemma strip_prefix_Some: "strip_prefix p s = Some r \<longleftrightarrow> s = p @ r"
  by (auto simp: strip_prefix_def) (metis append_take_drop_id)

lemma starts_with_iff: "starts_with p s \<longleftrightarrow> (\<exists>r. s = p @ r)"
  by (auto simp: starts_with_def) (metis append_take_drop_id)

lemma strip_suffix_char_Some: "strip_suffix_char c s = Some r \<longleftrightarrow> s = r @ [c]"
  by (cases s rule: rev_cases) (auto simp: strip_suffix_char_def)

lemma contains_pair_iff: "contains_pair a b s \<longleftrightarrow> (\<exists>u v. s = u @ a # b # v)"
proof (induction a b s rule: contains_pair.induct)
  case (1 a b x y s)
  have "(\<exists>u v. x # y # s = u @ a # b # v) \<longleftrightarrow>
      x = a \<and> y = b \<or> (\<exists>u v. y # s = u @ a # b # v)"
    by (auto simp: Cons_eq_append_conv)
  then show ?case using "1.IH" by simp
qed (auto simp: Cons_eq_append_conv)

lemma has_control_append_sep:
  assumes "c = CHR ''/''"
  shows "has_control (a @ c # b) \<longleftrightarrow> has_control a \<or> has_control b"
proof (induction a rule: has_control.induct)
  case 1
  then show ?case using assms by (cases b) auto
next
  case (2 x)
  then show ?case using assms by (cases b) auto
next
  case (3 x y s)
  then show ?case by auto
qed

lemma has_control_split: "has_control s \<longleftrightarrow> (\<exists>p \<in> set (split_on (CHR ''/'') s). has_control p)"
proof (induction s rule: length_induct)
  case (1 s)
  show ?case
  proof (cases "split_once (CHR ''/'') s")
    case None
    then have "split_on (CHR ''/'') s = [s]"
      by (simp add: split_once_None split_on_no_sep_eq)
    then show ?thesis by simp
  next
    case (Some ab)
    then obtain a b where "s = a @ CHR ''/'' # b" "CHR ''/'' \<notin> set a"
      by (cases ab) (auto simp: split_once_Some)
    moreover from this have "has_control b \<longleftrightarrow> (\<exists>p \<in> set (split_on (CHR ''/'') b). has_control p)"
      using "1" by simp
    ultimately show ?thesis by (simp add: has_control_append_sep split_on_append)
  qed
qed

lemma has_control_join:
  "\<forall>p \<in> set ps. CHR ''/'' \<notin> set p \<Longrightarrow>
    has_control (join_with (CHR ''/'') ps) \<longleftrightarrow> (\<exists>p \<in> set ps. has_control p)"
  by (induction "CHR ''/''" ps rule: join_with.induct) (auto simp: has_control_append_sep)

lemma length_join_with:
  "length (join_with c ps) = sum_list (map length ps) + (length ps - 1)"
  by (induction c ps rule: join_with.induct) auto

lemma set_join_with: "set (join_with c ps) \<subseteq> \<Union> (set ` set ps) \<union> {c}"
  by (induction c ps rule: join_with.induct) auto

lemma sum_length_filter_le:
  "sum_list (map length (filter P ps)) + (length (filter P ps) - 1)
    \<le> sum_list (map length ps) + (length ps - 1)" for ps :: "'a list list"
proof -
  have "sum_list (map length (filter P ps)) \<le> sum_list (map length ps)"
    by (induction ps) auto
  moreover have "length (filter P ps) \<le> length ps" by simp
  ultimately show ?thesis by (meson add_mono diff_le_mono)
qed

section \<open>Contracts of string-coded types\<close>

text \<open>
  The four trait implementations every such type has: \<open>Display\<close>, \<open>FromStr\<close>, \<open>Serialize\<close> and
  \<open>Deserialize\<close>, the last two on the string of the wire format. \<open>text_impls\<close> is the form they
  have in the source when printing returns the text and parsing calls the validating constructor.
\<close>

record ('e, 'a) text_codec =
  display :: "'a \<Rightarrow> string"
  from_str :: "string \<Rightarrow> 'e + 'a"
  serialize :: "'a \<Rightarrow> string"
  deserialize :: "string \<Rightarrow> 'e + 'a"

definition text_impls :: "(string \<Rightarrow> 'e + 'a) \<Rightarrow> ('a \<Rightarrow> string) \<Rightarrow> ('e, 'a) text_codec" where
  "text_impls new text_of =
     \<lparr>display = text_of, from_str = new, serialize = text_of, deserialize = new\<rparr>"

text \<open>A lossless wire form that admits nothing the constructor rejects.\<close>

definition codec_ok :: "('e, 'a) text_codec \<Rightarrow> bool" where
  "codec_ok c \<longleftrightarrow>
     (\<forall>s x. from_str c s = Inr x \<longrightarrow>
        display c x = s \<and> deserialize c (serialize c x) = Inr x) \<and>
     (\<forall>s x. deserialize c s = Inr x \<longrightarrow> from_str c (display c x) = Inr x)"

locale validated_newtype =
  fixes new :: "string \<Rightarrow> 'e + 'a"
    and text_of :: "'a \<Rightarrow> string"
  assumes new_text: "new s = Inr x \<Longrightarrow> text_of x = s"
    and text_inj: "text_of x = text_of y \<Longrightarrow> x = y"
begin

lemma reparse: "new s = Inr x \<Longrightarrow> new (text_of x) = Inr x"
  using new_text by metis

lemma codec: "codec_ok (text_impls new text_of)"
  using reparse new_text by (auto simp: codec_ok_def text_impls_def)

lemma new_inj: "new s = Inr x \<Longrightarrow> new t = Inr x \<Longrightarrow> s = t"
  using new_text by metis

lemma new_iff: "new s = Inr x \<longleftrightarrow> is_ok (new s) \<and> text_of x = s"
proof
  assume r: "is_ok (new s) \<and> text_of x = s"
  then obtain y where y: "new s = Inr y" by (auto simp: is_ok_iff)
  with r have "y = x" using new_text text_inj by metis
  with y show "new s = Inr x" by simp
qed (auto simp: new_text)

end

locale closed_enum =
  fixes of_str :: "string \<Rightarrow> 'e + 'a"
    and as_str :: "'a \<Rightarrow> string"
  assumes parse_print: "of_str (as_str x) = Inr x"
    and print_parse: "of_str s = Inr x \<Longrightarrow> as_str x = s"
begin

lemma as_str_inj: "as_str x = as_str y \<longleftrightarrow> x = y"
  using parse_print by (metis sum.inject(2))

lemma of_str_iff: "of_str s = Inr x \<longleftrightarrow> s = as_str x"
  using parse_print print_parse by blast

lemma accepts_iff: "is_ok (of_str s) \<longleftrightarrow> s \<in> range as_str"
  by (auto simp: is_ok_iff of_str_iff)

end

sublocale closed_enum \<subseteq> validated_newtype of_str as_str
  by unfold_locales (simp_all add: of_str_iff as_str_inj)

end
