(* ===== verification/Errors.thy ===== *)
theory Errors
  imports Strings
begin

text \<open>
  The error type of the domain crate (\<open>crates/domain/src/error.rs\<close>) and the two lifecycle
  enums its \<open>InvalidTransition\<close> carries (\<open>crates/domain/src/lifecycle.rs\<close>).

  \<open>DomainError::InvalidValue\<close> holds a \<open>ValueKind\<close> and an English explanation. The explanation
  is modelled by the type \<open>detail\<close>: one constructor per message of the source, with the numbers
  and texts the message interpolates; the wording itself is not, nor the printed form of a whole record (a repeated permission grant).
\<close>

datatype (plugins only: code) ValueKind =
    K_ComponentId
  | K_InstallationId
  | K_CapabilityId
  | K_ComponentVersion
  | K_ContentDigest
  | K_ByteSize
  | K_Duration
  | K_Deadline
  | K_ArtifactPath
  | K_LifecycleState
  | K_LifecycleEvent
  | K_ProviderId
  | K_PackageName
  | K_InterfaceName
  | K_InterfaceId
  | K_InterfaceRequirement
  | K_StateKey
  | K_StateValue
  | K_ConfigFormat
  | K_ConfigValue
  | K_SecretName
  | K_UtcInstant
  | K_TaskState
  | K_EventTopic
  | K_EventPayload
  | K_PageId
  | K_PagePath
  | K_AssetPath
  | K_RouteId
  | K_HttpMethod
  | K_ParamType
  | K_RouteParam
  | K_ParamValue
  | K_TypedParam
  | K_PermissionName
  | K_RoleId
  | K_RoleName
  | K_GroupId
  | K_UserId
  | K_PermissionAction
  | K_Role
  | K_NetworkScheme
  | K_HostName
  | K_FileSystemPath
  | K_PolicySnapshot
  | K_PolicyDiff
  | K_PolicyChain
  | K_PolicyChainLayer
  | K_PolicyDecision
  | K_QuotaHierarchy
  | K_QuotaBudget
  | K_QuotaLevel
  | K_BudgetDimension

text \<open>\<open>impl Display for ValueKind\<close>: the label used in logs.\<close>

primrec ValueKind_display :: "ValueKind \<Rightarrow> string" where
  "ValueKind_display K_ComponentId = ''component-id''"
| "ValueKind_display K_InstallationId = ''installation-id''"
| "ValueKind_display K_CapabilityId = ''capability-id''"
| "ValueKind_display K_ComponentVersion = ''component-version''"
| "ValueKind_display K_ContentDigest = ''content-digest''"
| "ValueKind_display K_ByteSize = ''byte-size''"
| "ValueKind_display K_Duration = ''duration''"
| "ValueKind_display K_Deadline = ''deadline''"
| "ValueKind_display K_ArtifactPath = ''artifact-path''"
| "ValueKind_display K_LifecycleState = ''lifecycle-state''"
| "ValueKind_display K_LifecycleEvent = ''lifecycle-event''"
| "ValueKind_display K_ProviderId = ''provider-id''"
| "ValueKind_display K_PackageName = ''package-name''"
| "ValueKind_display K_InterfaceName = ''interface-name''"
| "ValueKind_display K_InterfaceId = ''interface-id''"
| "ValueKind_display K_InterfaceRequirement = ''interface-requirement''"
| "ValueKind_display K_StateKey = ''state-key''"
| "ValueKind_display K_StateValue = ''state-value''"
| "ValueKind_display K_ConfigFormat = ''config-format''"
| "ValueKind_display K_ConfigValue = ''config-value''"
| "ValueKind_display K_SecretName = ''secret-name''"
| "ValueKind_display K_UtcInstant = ''utc-instant''"
| "ValueKind_display K_TaskState = ''task-state''"
| "ValueKind_display K_EventTopic = ''event-topic''"
| "ValueKind_display K_EventPayload = ''event-payload''"
| "ValueKind_display K_PageId = ''page-id''"
| "ValueKind_display K_PagePath = ''page-path''"
| "ValueKind_display K_AssetPath = ''asset-path''"
| "ValueKind_display K_RouteId = ''route-id''"
| "ValueKind_display K_HttpMethod = ''http-method''"
| "ValueKind_display K_ParamType = ''param-type''"
| "ValueKind_display K_RouteParam = ''route-param''"
| "ValueKind_display K_ParamValue = ''param-value''"
| "ValueKind_display K_TypedParam = ''typed-param''"
| "ValueKind_display K_PermissionName = ''permission-name''"
| "ValueKind_display K_RoleId = ''role-id''"
| "ValueKind_display K_RoleName = ''role-name''"
| "ValueKind_display K_GroupId = ''group-id''"
| "ValueKind_display K_UserId = ''user-id''"
| "ValueKind_display K_PermissionAction = ''permission-action''"
| "ValueKind_display K_Role = ''role''"
| "ValueKind_display K_NetworkScheme = ''network-scheme''"
| "ValueKind_display K_HostName = ''host-name''"
| "ValueKind_display K_FileSystemPath = ''filesystem-path''"
| "ValueKind_display K_PolicySnapshot = ''policy-snapshot''"
| "ValueKind_display K_PolicyDiff = ''policy-diff''"
| "ValueKind_display K_PolicyChain = ''policy-chain''"
| "ValueKind_display K_PolicyChainLayer = ''policy-chain-layer''"
| "ValueKind_display K_PolicyDecision = ''policy-decision''"
| "ValueKind_display K_QuotaHierarchy = ''quota-hierarchy''"
| "ValueKind_display K_QuotaBudget = ''quota-budget''"
| "ValueKind_display K_QuotaLevel = ''quota-level''"
| "ValueKind_display K_BudgetDimension = ''budget-dimension''"

datatype ComponentLifecycleState =
  Installed | Validated | Activating | Active | Draining | Disabled | Failed

datatype ComponentLifecycleEvent =
  ValidationSucceeded | ValidationFailed | ActivationRequested | ResolutionFailed
| ReadinessSucceeded | ReadinessFailed | DrainStarted | DrainCompleted

datatype (plugins only: code) detail =
  \<comment> \<open>identifiers, name keys, byte buffers\<close>
    MustNotBeEmpty | MustNotExceed nat | ControlCharacters | OutsideCharset bool
  \<comment> \<open>a text that names no variant of a closed enum\<close>
  | UnknownVariant string
  \<comment> \<open>paths\<close>
  | BackslashSeparator | MustBeRelative | MustBeAbsolute | TraversalSegment string
  | EmptySegment | TemplateSegment string
  \<comment> \<open>host names\<close>
  | WildcardNotLeading | WildcardWithoutHost | HostCharset | EmptyLabel
  \<comment> \<open>contract surface\<close>
  | NotNamespaceName | EmptyNamespacePart | MoreThanOneColon | ForbiddenChar char
  | NotInterfaceIdForm | EmptyVersion | NotRequirementForm | KeyNotVersionFree | NotInterfaceKeyForm
  | SemverSyntax | PrereleaseOrBuild | ExceedsU32 nat
  \<comment> \<open>digests\<close>
  | DigestLength nat | InvalidHexCharacter char
  \<comment> \<open>quantities\<close>
  | MustNotBeNegative | DeadlineNotPositive | NanosecondsRange | OutsideRepresentableRange
  \<comment> \<open>quota hierarchy\<close>
  | GlobalBudgetNotTotal | GlobalChildLevel | GroupChildLevel | InstallationNotLeaf
  | RootNotGlobal | GroupRepeated string | InstallationRepeated u128 | GlobalNotRoot
  \<comment> \<open>roles, policies, policy chains\<close>
  | NoPermission string | GrantRepeated string | CapabilityRepeated string | VersionNotNewer u64 u64
  | ChainEmpty | ChainBasis string | ChainOrder string string | ChainAfterDeny | ChainIncomplete nat
  \<comment> \<open>route parameters\<close>
  | ParamNameEmpty | ParamNameTooLong | ParamNameCharset string | OverflowsI64 int | OverflowsU64 nat

datatype DomainError =
    InvalidValue ValueKind detail
  | InvalidTransition ComponentLifecycleState ComponentLifecycleEvent
  | Overflow string

end
