(* ===== verification/Idents.thy ===== *)
theory Idents
  imports Errors
begin

text \<open>
  The validate-on-construct values of the domain crate: identifiers (\<open>id.rs\<close>), name keys
  (\<open>state.rs\<close>, \<open>secret.rs\<close>, \<open>event.rs\<close>), bounded byte buffers (\<open>bytes.rs\<close>), the artifact path
  (\<open>path.rs\<close>), the mount-namespace paths (\<open>web.rs\<close>, \<open>policy.rs\<close>) and the host name of a policy
  scope (\<open>policy.rs\<close>). Each constructor is an instance of the contract \<open>validated_newtype\<close>, and
  a characterisation lemma says which texts it accepts.

  A \<open>uuid::Uuid\<close> is its 128-bit value: the code compares uuids, orders them (by their bytes, most
  significant first) and stores them.
\<close>

section \<open>Identifiers\<close>

definition MAX_IDENTIFIER_LEN :: nat where "MAX_IDENTIFIER_LEN = 255"

definition validate_identifier :: "string \<Rightarrow> ValueKind \<Rightarrow> DomainError + unit" where
  "validate_identifier v kind =
     (if v = [] then Inl (InvalidValue kind MustNotBeEmpty)
      else if length v > MAX_IDENTIFIER_LEN then Inl (InvalidValue kind (MustNotExceed MAX_IDENTIFIER_LEN))
      else if has_control v then Inl (InvalidValue kind ControlCharacters)
      else Inr ())"

definition name_key_char :: "bool \<Rightarrow> char \<Rightarrow> bool" where
  "name_key_char allow_slash b \<longleftrightarrow>
     is_lower b \<or> is_upper b \<or> is_digit b \<or> b = CHR ''.'' \<or> b = CHR ''_'' \<or> b = CHR ''-'' \<or>
     allow_slash \<and> b = CHR ''/''"

definition validate_name_key :: "string \<Rightarrow> nat \<Rightarrow> bool \<Rightarrow> ValueKind \<Rightarrow> DomainError + unit" where
  "validate_name_key v mx allow_slash kind =
     (if v = [] then Inl (InvalidValue kind MustNotBeEmpty)
      else if length v > mx then Inl (InvalidValue kind (MustNotExceed mx))
      else if \<not> list_all (name_key_char allow_slash) v
        then Inl (InvalidValue kind (OutsideCharset allow_slash))
      else Inr ())"

text \<open>What the two validators accept.\<close>

definition identifier_text :: "string \<Rightarrow> bool" where
  "identifier_text v \<longleftrightarrow> v \<noteq> [] \<and> length v \<le> 255 \<and> \<not> has_control v"

definition name_key_text :: "nat \<Rightarrow> bool \<Rightarrow> string \<Rightarrow> bool" where
  "name_key_text mx allow_slash v \<longleftrightarrow>
     v \<noteq> [] \<and> length v \<le> mx \<and> (\<forall>b \<in> set v. name_key_char allow_slash b)"

lemma validate_identifier_Inr [result_simps]:
  "validate_identifier v kind = Inr u \<longleftrightarrow> identifier_text v"
  by (auto simp: validate_identifier_def identifier_text_def MAX_IDENTIFIER_LEN_def)

lemma validate_name_key_Inr [result_simps]:
  "validate_name_key v mx s kind = Inr u \<longleftrightarrow> name_key_text mx s v"
  by (auto simp: validate_name_key_def name_key_text_def list_all_iff)

datatype ComponentId = ComponentId (component_text: string)
datatype InstallationId = InstallationId (installation_uuid: u128)
datatype CapabilityId = CapabilityId (capability_text: string)

definition ComponentId_new :: "string \<Rightarrow> DomainError + ComponentId" where
  "ComponentId_new v = and_then (validate_identifier v K_ComponentId) (\<lambda>_. Inr (ComponentId v))"

definition CapabilityId_new :: "string \<Rightarrow> DomainError + CapabilityId" where
  "CapabilityId_new v = and_then (validate_identifier v K_CapabilityId) (\<lambda>_. Inr (CapabilityId v))"

interpretation component_id: validated_newtype ComponentId_new component_text
  by unfold_locales (auto simp: ComponentId_new_def result_simps ComponentId.expand)

interpretation capability_id: validated_newtype CapabilityId_new capability_text
  by unfold_locales (auto simp: CapabilityId_new_def result_simps CapabilityId.expand)

instantiation InstallationId :: linorder
begin

definition less_eq_InstallationId :: "InstallationId \<Rightarrow> InstallationId \<Rightarrow> bool" where
  "x \<le> y \<longleftrightarrow> installation_uuid x \<le> installation_uuid y"

definition less_InstallationId :: "InstallationId \<Rightarrow> InstallationId \<Rightarrow> bool" where
  "x < y \<longleftrightarrow> installation_uuid x < installation_uuid y"

instance
  by standard (auto simp: less_eq_InstallationId_def less_InstallationId_def intro: InstallationId.expand)

end

instantiation CapabilityId :: linorder
begin

definition less_eq_CapabilityId :: "CapabilityId \<Rightarrow> CapabilityId \<Rightarrow> bool" where
  "x \<le> y \<longleftrightarrow> capability_text x \<le> capability_text y"

definition less_CapabilityId :: "CapabilityId \<Rightarrow> CapabilityId \<Rightarrow> bool" where
  "x < y \<longleftrightarrow> capability_text x < capability_text y"

instance
  by standard (auto simp: less_eq_CapabilityId_def less_CapabilityId_def intro: CapabilityId.expand)

end

datatype GroupId = GroupId (group_text: string)

definition GroupId_new :: "string \<Rightarrow> DomainError + GroupId" where
  "GroupId_new v = and_then (validate_identifier v K_GroupId) (\<lambda>_. Inr (GroupId v))"

definition GroupId_impls :: "(DomainError, GroupId) text_codec" where
  "GroupId_impls = text_impls GroupId_new group_text"

interpretation group_id: validated_newtype GroupId_new group_text
  by unfold_locales (auto simp: GroupId_new_def result_simps GroupId.expand)

instantiation GroupId :: linorder
begin

definition less_eq_GroupId :: "GroupId \<Rightarrow> GroupId \<Rightarrow> bool" where
  "x \<le> y \<longleftrightarrow> group_text x \<le> group_text y"

definition less_GroupId :: "GroupId \<Rightarrow> GroupId \<Rightarrow> bool" where
  "x < y \<longleftrightarrow> group_text x < group_text y"

instance
  by standard (auto simp: less_eq_GroupId_def less_GroupId_def intro: GroupId.expand)

end

section \<open>Name keys\<close>

definition MAX_STATE_KEY_LEN :: nat where "MAX_STATE_KEY_LEN = 255"
definition MAX_SECRET_NAME_LEN :: nat where "MAX_SECRET_NAME_LEN = 255"
definition MAX_EVENT_TOPIC_LEN :: nat where "MAX_EVENT_TOPIC_LEN = 255"

datatype StateKey = StateKey (state_key_text: string)
datatype SecretName = SecretName (secret_name_text: string)
datatype EventTopic = EventTopic (event_topic_text: string)

definition StateKey_new :: "string \<Rightarrow> DomainError + StateKey" where
  "StateKey_new v =
     and_then (validate_name_key v MAX_STATE_KEY_LEN True K_StateKey) (\<lambda>_. Inr (StateKey v))"

definition SecretName_new :: "string \<Rightarrow> DomainError + SecretName" where
  "SecretName_new v =
     and_then (validate_name_key v MAX_SECRET_NAME_LEN False K_SecretName) (\<lambda>_. Inr (SecretName v))"

definition EventTopic_new :: "string \<Rightarrow> DomainError + EventTopic" where
  "EventTopic_new v =
     and_then (validate_name_key v MAX_EVENT_TOPIC_LEN False K_EventTopic) (\<lambda>_. Inr (EventTopic v))"

interpretation state_key: validated_newtype StateKey_new state_key_text
  by unfold_locales (auto simp: StateKey_new_def result_simps StateKey.expand)

interpretation secret_name: validated_newtype SecretName_new secret_name_text
  by unfold_locales (auto simp: SecretName_new_def result_simps SecretName.expand)

interpretation event_topic: validated_newtype EventTopic_new event_topic_text
  by unfold_locales (auto simp: EventTopic_new_def result_simps EventTopic.expand)

instantiation SecretName :: linorder
begin

definition less_eq_SecretName :: "SecretName \<Rightarrow> SecretName \<Rightarrow> bool" where
  "x \<le> y \<longleftrightarrow> secret_name_text x \<le> secret_name_text y"

definition less_SecretName :: "SecretName \<Rightarrow> SecretName \<Rightarrow> bool" where
  "x < y \<longleftrightarrow> secret_name_text x < secret_name_text y"

instance
  by standard (auto simp: less_eq_SecretName_def less_SecretName_def intro: SecretName.expand)

end

instantiation EventTopic :: linorder
begin

definition less_eq_EventTopic :: "EventTopic \<Rightarrow> EventTopic \<Rightarrow> bool" where
  "x \<le> y \<longleftrightarrow> event_topic_text x \<le> event_topic_text y"

definition less_EventTopic :: "EventTopic \<Rightarrow> EventTopic \<Rightarrow> bool" where
  "x < y \<longleftrightarrow> event_topic_text x < event_topic_text y"

instance
  by standard (auto simp: less_eq_EventTopic_def less_EventTopic_def intro: EventTopic.expand)

end

section \<open>Bounded buffers\<close>

definition MAX_STATE_VALUE_LEN :: nat where "MAX_STATE_VALUE_LEN = 1024 * 1024"
definition MAX_CONFIG_VALUE_LEN :: nat where "MAX_CONFIG_VALUE_LEN = 1024 * 1024"
definition MAX_EVENT_PAYLOAD_LEN :: nat where "MAX_EVENT_PAYLOAD_LEN = 1024 * 1024"

definition BoundedBytes_new :: "u8 list \<Rightarrow> nat \<Rightarrow> ValueKind \<Rightarrow> DomainError + u8 list" where
  "BoundedBytes_new d mx kind =
     (if length d > mx then Inl (InvalidValue kind (MustNotExceed mx)) else Inr d)"

datatype StateValue = StateValue (state_value_bytes: "u8 list")
datatype ConfigValue = ConfigValue (config_value_bytes: "u8 list")

definition StateValue_new :: "u8 list \<Rightarrow> DomainError + StateValue" where
  "StateValue_new d =
     and_then (BoundedBytes_new d MAX_STATE_VALUE_LEN K_StateValue) (\<lambda>b. Inr (StateValue b))"

definition ConfigValue_new :: "u8 list \<Rightarrow> DomainError + ConfigValue" where
  "ConfigValue_new d =
     and_then (BoundedBytes_new d MAX_CONFIG_VALUE_LEN K_ConfigValue) (\<lambda>b. Inr (ConfigValue b))"

datatype EventPayloadText = EventPayloadText (payload_text: string)
datatype EventPayloadBytes = EventPayloadBytes (payload_bytes: "u8 list")
datatype EventPayload = Json EventPayloadText | Raw EventPayloadBytes

definition EventPayloadText_new :: "string \<Rightarrow> DomainError + EventPayloadText" where
  "EventPayloadText_new t =
     (if length t > MAX_EVENT_PAYLOAD_LEN
      then Inl (InvalidValue K_EventPayload (MustNotExceed MAX_EVENT_PAYLOAD_LEN))
      else Inr (EventPayloadText t))"

definition EventPayloadBytes_new :: "u8 list \<Rightarrow> DomainError + EventPayloadBytes" where
  "EventPayloadBytes_new d =
     (if length d > MAX_EVENT_PAYLOAD_LEN
      then Inl (InvalidValue K_EventPayload (MustNotExceed MAX_EVENT_PAYLOAD_LEN))
      else Inr (EventPayloadBytes d))"

definition EventPayload_json :: "string \<Rightarrow> DomainError + EventPayload" where
  "EventPayload_json t = and_then (EventPayloadText_new t) (\<lambda>x. Inr (Json x))"

definition EventPayload_raw :: "u8 list \<Rightarrow> DomainError + EventPayload" where
  "EventPayload_raw d = and_then (EventPayloadBytes_new d) (\<lambda>x. Inr (Raw x))"

interpretation payload: validated_newtype EventPayloadText_new payload_text
  by unfold_locales
    (auto simp: EventPayloadText_new_def EventPayloadText.expand split: if_splits)

section \<open>Artifact paths\<close>

definition MAX_PATH_LEN :: nat where "MAX_PATH_LEN = 4096"

abbreviation slash :: char where "slash \<equiv> CHR ''/''"
abbreviation backslash :: char where "backslash \<equiv> CHR 0x5C"

definition dot_segment :: "string \<Rightarrow> bool" where
  "dot_segment seg \<longleftrightarrow> seg = ''.'' \<or> seg = ''..''"

fun reject_dot_segments :: "string list \<Rightarrow> ValueKind \<Rightarrow> DomainError + unit" where
  "reject_dot_segments [] kind = Inr ()"
| "reject_dot_segments (seg # segs) kind =
     (if dot_segment seg then Inl (InvalidValue kind (TraversalSegment seg))
      else reject_dot_segments segs kind)"

definition validate_path :: "string \<Rightarrow> DomainError + unit" where
  "validate_path v =
     (if v = [] then Inl (InvalidValue K_ArtifactPath MustNotBeEmpty)
      else if length v > MAX_PATH_LEN then Inl (InvalidValue K_ArtifactPath (MustNotExceed MAX_PATH_LEN))
      else if has_control v then Inl (InvalidValue K_ArtifactPath ControlCharacters)
      else if backslash \<in> set v then Inl (InvalidValue K_ArtifactPath BackslashSeparator)
      else if starts_with [slash] v then Inl (InvalidValue K_ArtifactPath MustBeRelative)
      else reject_dot_segments (split_on slash v) K_ArtifactPath)"

definition normalize :: "string \<Rightarrow> string" where
  "normalize v = join_with slash (filter (\<lambda>seg. seg \<noteq> []) (split_on slash v))"

datatype ArtifactPath = ArtifactPath (artifact_text: string)

definition ArtifactPath_new :: "string \<Rightarrow> DomainError + ArtifactPath" where
  "ArtifactPath_new v = and_then (validate_path v) (\<lambda>_. Inr (ArtifactPath (normalize v)))"

text \<open>A relative path that stays below its base: what the consumers of the type rely on.\<close>

definition confined_relative :: "string \<Rightarrow> bool" where
  "confined_relative t \<longleftrightarrow>
     t \<noteq> [] \<and> length t \<le> 4096 \<and> \<not> has_control t \<and> backslash \<notin> set t \<and>
     (\<forall>seg \<in> set (split_on slash t). seg \<noteq> [] \<and> \<not> dot_segment seg)"

lemma reject_dot_segments_Inr [result_simps]:
  "reject_dot_segments segs kind = Inr u \<longleftrightarrow> (\<forall>seg \<in> set segs. \<not> dot_segment seg)"
  by (induction segs) auto

lemma starts_with_char: "starts_with [c] s \<longleftrightarrow> s \<noteq> [] \<and> hd s = c"
  by (cases s) (auto simp: starts_with_iff)

lemma hd_split_on_nonempty: "s \<noteq> [] \<Longrightarrow> hd s \<noteq> c \<Longrightarrow> hd (split_on c s) \<noteq> []"
  by (cases s) (auto split: list.splits)

lemma validate_path_Inr:
  "validate_path v = Inr u \<longleftrightarrow>
     v \<noteq> [] \<and> length v \<le> 4096 \<and> \<not> has_control v \<and> backslash \<notin> set v \<and> hd v \<noteq> slash \<and>
     (\<forall>seg \<in> set (split_on slash v). \<not> dot_segment seg)"
  by (auto simp: validate_path_def MAX_PATH_LEN_def result_simps starts_with_char)

lemma split_normalize:
  assumes "v \<noteq> []" and "hd v \<noteq> slash"
  shows "split_on slash (normalize v) = filter (\<lambda>seg. seg \<noteq> []) (split_on slash v)"
proof -
  let ?segs = "filter (\<lambda>seg. seg \<noteq> []) (split_on slash v)"
  have "hd (split_on slash v) \<in> set ?segs"
    using assms hd_split_on_nonempty [of v slash] by simp
  then have "?segs \<noteq> []" by (metis list.distinct(1) list.set_cases)
  then show ?thesis
    unfolding normalize_def by (intro split_join) (auto dest: split_on_no_sep)
qed

lemma normalize_confined:
  assumes "validate_path v = Inr u"
  shows "confined_relative (normalize v)"
proof -
  let ?segs = "filter (\<lambda>seg. seg \<noteq> []) (split_on slash v)"
  from assms have v: "v \<noteq> []" "length v \<le> 4096" "\<not> has_control v" "backslash \<notin> set v" "hd v \<noteq> slash"
    and dots: "\<forall>seg \<in> set (split_on slash v). \<not> dot_segment seg"
    by (auto simp: validate_path_Inr)
  have "length (normalize v) \<le> length (join_with slash (split_on slash v))"
    unfolding normalize_def length_join_with by (rule sum_length_filter_le)
  then have len: "length (normalize v) \<le> 4096" using v by simp
  have ctl: "\<not> has_control (normalize v)"
    using v(3) unfolding has_control_split [of v] has_control_split [of "normalize v"]
    by (simp add: split_normalize [OF v(1,5)])
  have "set (normalize v) \<subseteq> \<Union> (set ` set (split_on slash v)) \<union> {slash}"
    unfolding normalize_def using set_join_with [of slash ?segs] by auto
  then have bs: "backslash \<notin> set (normalize v)"
    using v(4) set_split_on [of v slash] by auto
  have ne: "normalize v \<noteq> []"
  proof
    assume "normalize v = []"
    then have "?segs = [[]]" using split_normalize [OF v(1,5)] by simp
    then have "[] \<in> set ?segs" by simp
    then show False by simp
  qed
  show ?thesis
    using len ctl bs ne dots by (auto simp: confined_relative_def split_normalize [OF v(1,5)])
qed

lemma confined_validates:
  assumes "confined_relative t"
  shows "validate_path t = Inr () \<and> normalize t = t"
proof -
  from assms have t: "t \<noteq> []" and segs: "\<forall>seg \<in> set (split_on slash t). seg \<noteq> [] \<and> \<not> dot_segment seg"
    by (auto simp: confined_relative_def)
  have "hd t \<noteq> slash"
  proof
    assume "hd t = slash"
    with t obtain r where "t = slash # r" by (cases t) auto
    then have "[] \<in> set (split_on slash t)" by simp
    with segs show False by blast
  qed
  moreover have "filter (\<lambda>seg. seg \<noteq> []) (split_on slash t) = split_on slash t"
    using segs by (simp add: filter_id_conv)
  ultimately show ?thesis
    using assms by (auto simp: validate_path_Inr confined_relative_def normalize_def)
qed

section \<open>Wire forms\<close>

text \<open>The \<open>Display\<close>, \<open>FromStr\<close>, \<open>Serialize\<close> and \<open>Deserialize\<close> implementations.\<close>

definition ComponentId_impls :: "(DomainError, ComponentId) text_codec" where
  "ComponentId_impls = text_impls ComponentId_new component_text"

definition CapabilityId_impls :: "(DomainError, CapabilityId) text_codec" where
  "CapabilityId_impls = text_impls CapabilityId_new capability_text"

definition StateKey_impls :: "(DomainError, StateKey) text_codec" where
  "StateKey_impls = text_impls StateKey_new state_key_text"

definition SecretName_impls :: "(DomainError, SecretName) text_codec" where
  "SecretName_impls = text_impls SecretName_new secret_name_text"

definition EventTopic_impls :: "(DomainError, EventTopic) text_codec" where
  "EventTopic_impls = text_impls EventTopic_new event_topic_text"

definition ArtifactPath_impls :: "(DomainError, ArtifactPath) text_codec" where
  "ArtifactPath_impls = text_impls ArtifactPath_new artifact_text"

section \<open>Properties\<close>



end
