(* ===== verification/Paths.thy ===== *)
theory Paths
  imports Idents
begin

text \<open>
  Paths of the mount namespace (\<open>validate_mount_path\<close> of \<open>web.rs\<close> and the three types built on
  it: page paths, asset paths, file-system scopes) and the host name of a network scope
  (\<open>policy.rs\<close>). The lemma \<open>validate_mount_path_Inr\<close> states which texts are accepted, as a list of
  admissible segments; the types' properties follow from it.
\<close>

section \<open>Mount-namespace paths\<close>

text \<open>The loop over \<open>value.split('/').skip(1)\<close>, first error wins.\<close>

fun check_mount_segments :: "string list \<Rightarrow> bool \<Rightarrow> ValueKind \<Rightarrow> DomainError + unit" where
  "check_mount_segments [] forbid_templates kind = Inr ()"
| "check_mount_segments (seg # segs) forbid_templates kind =
     (if seg = [] then Inl (InvalidValue kind EmptySegment)
      else if dot_segment seg then Inl (InvalidValue kind (TraversalSegment seg))
      else if forbid_templates \<and> (CHR ''{'' \<in> set seg \<or> CHR ''}'' \<in> set seg)
        then Inl (InvalidValue kind (TemplateSegment seg))
      else check_mount_segments segs forbid_templates kind)"

definition validate_mount_path :: "string \<Rightarrow> bool \<Rightarrow> ValueKind \<Rightarrow> DomainError + unit" where
  "validate_mount_path v forbid_templates kind =
     (if v = [] then Inl (InvalidValue kind MustNotBeEmpty)
      else if length v > MAX_PATH_LEN then Inl (InvalidValue kind (MustNotExceed MAX_PATH_LEN))
      else if has_control v then Inl (InvalidValue kind ControlCharacters)
      else if backslash \<in> set v then Inl (InvalidValue kind BackslashSeparator)
      else if \<not> starts_with [slash] v then Inl (InvalidValue kind MustBeAbsolute)
      else check_mount_segments (tl (split_on slash v)) forbid_templates kind)"

datatype PagePath = PagePath (page_path_text: string)
datatype AssetPath = AssetPath (asset_path_text: string)
datatype FileSystemPath = FileSystemPath (fs_path_text: string)

definition PagePath_new :: "string \<Rightarrow> DomainError + PagePath" where
  "PagePath_new v = and_then (validate_mount_path v True K_PagePath) (\<lambda>_. Inr (PagePath v))"

definition AssetPath_new :: "string \<Rightarrow> DomainError + AssetPath" where
  "AssetPath_new v = and_then (validate_mount_path v False K_AssetPath) (\<lambda>_. Inr (AssetPath v))"

definition FileSystemPath_new :: "string \<Rightarrow> DomainError + FileSystemPath" where
  "FileSystemPath_new v =
     and_then (validate_mount_path v False K_FileSystemPath) (\<lambda>_. Inr (FileSystemPath v))"

text \<open>\<open>PagePath::literal_segments\<close>: the segments after the leading separator.\<close>

definition literal_segments :: "PagePath \<Rightarrow> string list" where
  "literal_segments p = tl (split_on slash (page_path_text p))"

interpretation page_path: validated_newtype PagePath_new page_path_text
  by unfold_locales (auto simp: PagePath_new_def result_simps PagePath.expand)

interpretation asset_path: validated_newtype AssetPath_new asset_path_text
  by unfold_locales (auto simp: AssetPath_new_def result_simps AssetPath.expand)

interpretation fs_path: validated_newtype FileSystemPath_new fs_path_text
  by unfold_locales (auto simp: FileSystemPath_new_def result_simps FileSystemPath.expand)

instantiation FileSystemPath :: linorder
begin

definition less_eq_FileSystemPath :: "FileSystemPath \<Rightarrow> FileSystemPath \<Rightarrow> bool" where
  "x \<le> y \<longleftrightarrow> fs_path_text x \<le> fs_path_text y"

definition less_FileSystemPath :: "FileSystemPath \<Rightarrow> FileSystemPath \<Rightarrow> bool" where
  "x < y \<longleftrightarrow> fs_path_text x < fs_path_text y"

instance
  by standard (auto simp: less_eq_FileSystemPath_def less_FileSystemPath_def intro: FileSystemPath.expand)

end

section \<open>The accepted texts\<close>

definition mount_segment :: "bool \<Rightarrow> string \<Rightarrow> bool" where
  "mount_segment forbid_templates seg \<longleftrightarrow>
     seg \<noteq> [] \<and> \<not> dot_segment seg \<and> slash \<notin> set seg \<and> backslash \<notin> set seg \<and> \<not> has_control seg \<and>
     (forbid_templates \<longrightarrow> CHR ''{'' \<notin> set seg \<and> CHR ''}'' \<notin> set seg)"

definition mount_text :: "string list \<Rightarrow> string" where
  "mount_text segs = slash # join_with slash segs"

lemma check_mount_segments_Inr [result_simps]:
  "check_mount_segments segs ft kind = Inr u \<longleftrightarrow>
     (\<forall>seg \<in> set segs. seg \<noteq> [] \<and> \<not> dot_segment seg \<and>
        (ft \<longrightarrow> CHR ''{'' \<notin> set seg \<and> CHR ''}'' \<notin> set seg))"
  by (induction segs) auto

lemma split_mount_text:
  "segs \<noteq> [] \<Longrightarrow> \<forall>seg \<in> set segs. slash \<notin> set seg \<Longrightarrow> split_on slash (mount_text segs) = [] # segs"
  by (simp add: mount_text_def split_join)

lemma absolute_text:
  assumes "starts_with [slash] v"
  shows "v = mount_text (tl (split_on slash v))" and "tl (split_on slash v) \<noteq> []"
  using assms by (cases v; simp add: starts_with_char mount_text_def)+

lemma backslash_mount_text:
  "backslash \<in> set (mount_text segs) \<longleftrightarrow> (\<exists>seg \<in> set segs. backslash \<in> set seg)"
proof -
  have "x \<in> set (join_with c segs) \<longleftrightarrow> (\<exists>seg \<in> set segs. x \<in> set seg)" if "x \<noteq> c" for x c
    using that by (induction c segs rule: join_with.induct) auto
  then show ?thesis by (simp add: mount_text_def)
qed

lemma has_control_mount_text:
  "\<forall>seg \<in> set segs. slash \<notin> set seg \<Longrightarrow>
    has_control (mount_text segs) \<longleftrightarrow> (\<exists>seg \<in> set segs. has_control seg)"
  using has_control_append_sep [of slash "[]" "join_with slash segs"] has_control_join [of segs]
  by (simp add: mount_text_def)

lemma validate_mount_path_Inr:
  "validate_mount_path v ft kind = Inr u \<longleftrightarrow>
     (\<exists>segs. segs \<noteq> [] \<and> v = mount_text segs \<and> length v \<le> 4096 \<and> (\<forall>seg \<in> set segs. mount_segment ft seg))"
proof
  assume r: "validate_mount_path v ft kind = Inr u"
  then have a: "starts_with [slash] v" and c: "\<not> has_control v" and b: "backslash \<notin> set v"
    and l: "length v \<le> 4096"
    and s: "check_mount_segments (tl (split_on slash v)) ft kind = Inr ()"
    by (auto simp: validate_mount_path_def MAX_PATH_LEN_def split: if_splits)
  let ?segs = "tl (split_on slash v)"
  have v: "v = mount_text ?segs" and ne: "?segs \<noteq> []" using absolute_text [OF a] by blast+
  have sl: "\<forall>seg \<in> set ?segs. slash \<notin> set seg"
    by (meson list.set_sel(2) split_on_no_sep split_on_not_Nil)
  have "\<forall>seg \<in> set ?segs. backslash \<notin> set seg"
    using b backslash_mount_text [of ?segs] unfolding v [symmetric] by blast
  moreover have "\<forall>seg \<in> set ?segs. \<not> has_control seg"
    using c has_control_mount_text [OF sl] unfolding v [symmetric] by blast
  moreover note s [unfolded check_mount_segments_Inr] sl
  ultimately have "\<forall>seg \<in> set ?segs. mount_segment ft seg"
    unfolding mount_segment_def by blast
  with v ne l show "\<exists>segs. segs \<noteq> [] \<and> v = mount_text segs \<and> length v \<le> 4096 \<and>
      (\<forall>seg \<in> set segs. mount_segment ft seg)" by blast
next
  assume "\<exists>segs. segs \<noteq> [] \<and> v = mount_text segs \<and> length v \<le> 4096 \<and>
      (\<forall>seg \<in> set segs. mount_segment ft seg)"
  then obtain segs where ne: "segs \<noteq> []" and v: "v = mount_text segs" and l: "length v \<le> 4096"
    and ok: "\<forall>seg \<in> set segs. mount_segment ft seg" by blast
  have sl: "\<forall>seg \<in> set segs. slash \<notin> set seg" using ok by (simp add: mount_segment_def)
  have "\<not> has_control v" "backslash \<notin> set v"
    using ok by (auto simp: v has_control_mount_text [OF sl] backslash_mount_text mount_segment_def)
  moreover have "starts_with [slash] v" "v \<noteq> []" by (simp_all add: v mount_text_def starts_with_char)
  moreover have "check_mount_segments (tl (split_on slash v)) ft kind = Inr u"
    using ok by (simp add: v split_mount_text [OF ne sl] result_simps mount_segment_def)
  ultimately show "validate_mount_path v ft kind = Inr u"
    using l by (simp add: validate_mount_path_def MAX_PATH_LEN_def)
qed

lemma PagePath_new_segments:
  assumes "PagePath_new v = Inr p"
  shows "literal_segments p \<noteq> [] \<and> page_path_text p = mount_text (literal_segments p) \<and>
    (\<forall>seg \<in> set (literal_segments p). mount_segment True seg)"
proof -
  from assms have p: "p = PagePath v" and r: "validate_mount_path v True K_PagePath = Inr ()"
    by (auto simp: PagePath_new_def result_simps)
  from r obtain segs where segs: "segs \<noteq> []" "v = mount_text segs"
    "\<forall>seg \<in> set segs. mount_segment True seg"
    by (auto simp: validate_mount_path_Inr)
  then have "split_on slash v = [] # segs"
    by (simp add: split_mount_text mount_segment_def)
  with p segs show ?thesis by (simp add: literal_segments_def)
qed

text \<open>Page paths are the asset paths without template braces.\<close>

lemma PagePath_subset_AssetPath:
  "is_ok (PagePath_new v) \<Longrightarrow> is_ok (AssetPath_new v)"
  by (fastforce simp: PagePath_new_def AssetPath_new_def result_simps validate_mount_path_Inr
      mount_segment_def)

section \<open>Host names\<close>

definition MAX_HOST_NAME_LEN :: nat where "MAX_HOST_NAME_LEN = 253"

definition host_char :: "char \<Rightarrow> bool" where
  "host_char b \<longleftrightarrow> is_lower b \<or> is_upper b \<or> is_digit b \<or> b = CHR ''.'' \<or> b = CHR ''-''"

definition validate_host_name :: "string \<Rightarrow> DomainError + unit" where
  "validate_host_name v =
     (if v = [] then Inl (InvalidValue K_HostName MustNotBeEmpty)
      else if length v > MAX_HOST_NAME_LEN
        then Inl (InvalidValue K_HostName (MustNotExceed MAX_HOST_NAME_LEN))
      else if CHR ''*'' \<in> set v \<and> \<not> starts_with ''*.'' v
        then Inl (InvalidValue K_HostName WildcardNotLeading)
      else
        let rest = (case strip_prefix ''*.'' v of Some r \<Rightarrow> r | None \<Rightarrow> v) in
        if rest = [] then Inl (InvalidValue K_HostName WildcardWithoutHost)
        else if \<not> list_all host_char rest then Inl (InvalidValue K_HostName HostCharset)
        else if starts_with ''.'' rest \<or> last rest = CHR ''.'' \<or> contains_pair (CHR ''.'') (CHR ''.'') rest
          then Inl (InvalidValue K_HostName EmptyLabel)
        else Inr ())"

datatype HostName = HostName (host_text: string)

definition HostName_new :: "string \<Rightarrow> DomainError + HostName" where
  "HostName_new v = and_then (validate_host_name v) (\<lambda>_. Inr (HostName v))"

definition is_wildcard :: "HostName \<Rightarrow> bool" where
  "is_wildcard h = starts_with ''*.'' (host_text h)"

interpretation host_name: validated_newtype HostName_new host_text
  by unfold_locales (auto simp: HostName_new_def result_simps HostName.expand)

instantiation HostName :: linorder
begin

definition less_eq_HostName :: "HostName \<Rightarrow> HostName \<Rightarrow> bool" where
  "x \<le> y \<longleftrightarrow> host_text x \<le> host_text y"

definition less_HostName :: "HostName \<Rightarrow> HostName \<Rightarrow> bool" where
  "x < y \<longleftrightarrow> host_text x < host_text y"

instance
  by standard (auto simp: less_eq_HostName_def less_HostName_def intro: HostName.expand)

end

section \<open>Wire forms\<close>

text \<open>The \<open>Display\<close>, \<open>FromStr\<close>, \<open>Serialize\<close> and \<open>Deserialize\<close> implementations.\<close>

definition PagePath_impls :: "(DomainError, PagePath) text_codec" where
  "PagePath_impls = text_impls PagePath_new page_path_text"

definition AssetPath_impls :: "(DomainError, AssetPath) text_codec" where
  "AssetPath_impls = text_impls AssetPath_new asset_path_text"

definition FileSystemPath_impls :: "(DomainError, FileSystemPath) text_codec" where
  "FileSystemPath_impls = text_impls FileSystemPath_new fs_path_text"

definition HostName_impls :: "(DomainError, HostName) text_codec" where
  "HostName_impls = text_impls HostName_new host_text"

section \<open>Properties\<close>

text \<open>The page paths are exactly the absolute texts of at most 4096 bytes made of one or more
  segments, each non-empty, neither \<open>.\<close> nor \<open>..\<close>, and free of separators, control characters and
  template braces.\<close>

theorem PagePath_accepts:
  "PagePath_new v = Inr p \<longleftrightarrow> p = PagePath v \<and> length v \<le> 4096 \<and>
     (\<exists>segs. segs \<noteq> [] \<and> v = mount_text segs \<and> (\<forall>seg \<in> set segs. mount_segment True seg))"
  by (auto simp: PagePath_new_def result_simps validate_mount_path_Inr)

lemma PagePath_accepts_witness:
  "\<exists>segs. segs \<noteq> [] \<and> ''/a/b'' = mount_text segs \<and> (\<forall>seg \<in> set segs. mount_segment True seg)"
proof -
  have "PagePath_new ''/a/b'' = Inr (PagePath ''/a/b'')" by code_simp
  with PagePath_accepts show ?thesis by blast
qed

end
