(* ===== verification/Quantities.thy ===== *)
theory Quantities
  imports Errors
begin

text \<open>
  Quantities with checked arithmetic: \<open>ByteSize\<close> (\<open>crates/domain/src/size.rs\<close>), \<open>Duration\<close> and
  \<open>UtcInstant\<close> (\<open>crates/domain/src/time.rs\<close>). A \<open>ByteSize\<close> is a 64-bit word. A
  \<open>std::time::Duration\<close> is modelled by its number of nanoseconds, below \<open>2^64\<close> seconds; a
  \<open>time::OffsetDateTime\<close> at or after the Unix epoch by its nanoseconds since the epoch. The
  largest instant of the \<open>time\<close> crate is the parameter \<open>t_max\<close>. The lemmas relate every operation
  to the arithmetic of the natural numbers: no result ever wraps.
\<close>

section \<open>Byte sizes\<close>

datatype ByteSize = ByteSize (as_u64: u64)

instantiation ByteSize :: linorder
begin

definition less_eq_ByteSize :: "ByteSize \<Rightarrow> ByteSize \<Rightarrow> bool" where
  "x \<le> y \<longleftrightarrow> as_u64 x \<le> as_u64 y"

definition less_ByteSize :: "ByteSize \<Rightarrow> ByteSize \<Rightarrow> bool" where
  "x < y \<longleftrightarrow> as_u64 x < as_u64 y"

instance
  by standard (auto simp: less_eq_ByteSize_def less_ByteSize_def intro: ByteSize.expand)

end

definition ByteSize_try_from_i128 :: "int \<Rightarrow> DomainError + ByteSize" where
  "ByteSize_try_from_i128 v =
     (if v < 0 then Inl (InvalidValue K_ByteSize MustNotBeNegative)
      else if v < 2 ^ 64 then Inr (ByteSize (of_int v))
      else Inl (Overflow ''byte-size conversion''))"

definition exceeds :: "ByteSize \<Rightarrow> ByteSize \<Rightarrow> bool" where
  "exceeds x limit \<longleftrightarrow> as_u64 x > as_u64 limit"

definition ByteSize_checked_add :: "ByteSize \<Rightarrow> ByteSize \<Rightarrow> DomainError + ByteSize" where
  "ByteSize_checked_add x y =
     ok_or (map_option ByteSize (checked_add (as_u64 x) (as_u64 y))) (Overflow ''byte-size addition'')"

definition ByteSize_checked_sub :: "ByteSize \<Rightarrow> ByteSize \<Rightarrow> DomainError + ByteSize" where
  "ByteSize_checked_sub x y =
     ok_or (map_option ByteSize (checked_sub (as_u64 x) (as_u64 y))) (Overflow ''byte-size subtraction'')"

definition ByteSize_checked_mul :: "ByteSize \<Rightarrow> ByteSize \<Rightarrow> DomainError + ByteSize" where
  "ByteSize_checked_mul x y =
     ok_or (map_option ByteSize (checked_mul (as_u64 x) (as_u64 y)))
       (Overflow ''byte-size multiplication'')"

definition ByteSize_saturating_add :: "ByteSize \<Rightarrow> ByteSize \<Rightarrow> ByteSize" where
  "ByteSize_saturating_add x y = ByteSize (saturating_add (as_u64 x) (as_u64 y))"

definition ByteSize_saturating_mul :: "ByteSize \<Rightarrow> ByteSize \<Rightarrow> ByteSize" where
  "ByteSize_saturating_mul x y = ByteSize (saturating_mul (as_u64 x) (as_u64 y))"

definition kib :: "u64 \<Rightarrow> DomainError + ByteSize" where
  "kib n = ok_or (map_option ByteSize (checked_mul n 1024)) (Overflow ''kib conversion'')"

definition mib :: "u64 \<Rightarrow> DomainError + ByteSize" where
  "mib n = ok_or (map_option ByteSize (checked_mul n 1048576)) (Overflow ''mib conversion'')"

definition gib :: "u64 \<Rightarrow> DomainError + ByteSize" where
  "gib n = ok_or (map_option ByteSize (checked_mul n 1073741824)) (Overflow ''gib conversion'')"

abbreviation size_nat :: "ByteSize \<Rightarrow> nat" where "size_nat x \<equiv> unat (as_u64 x)"

lemma ByteSize_checked_Inr [word_arith]:
  "ByteSize_checked_add x y = Inr z \<longleftrightarrow> size_nat z = size_nat x + size_nat y"
  "ByteSize_checked_sub x y = Inr z \<longleftrightarrow> size_nat x = size_nat y + size_nat z"
  "ByteSize_checked_mul x y = Inr z \<longleftrightarrow> size_nat z = size_nat x * size_nat y"
  by (cases z; simp add: ByteSize_checked_add_def ByteSize_checked_sub_def ByteSize_checked_mul_def
      result_simps checked_add_Some checked_sub_Some checked_mul_Some)+

lemma ByteSize_checked_Inl [word_arith]:
  "is_ok (ByteSize_checked_add x y) \<longleftrightarrow> size_nat x + size_nat y < 2 ^ 64"
  "is_ok (ByteSize_checked_sub x y) \<longleftrightarrow> size_nat y \<le> size_nat x"
  "is_ok (ByteSize_checked_mul x y) \<longleftrightarrow> size_nat x * size_nat y < 2 ^ 64"
  by (auto simp: ByteSize_checked_add_def ByteSize_checked_sub_def ByteSize_checked_mul_def
      checked_add_def checked_sub_def checked_mul_def)

lemma kib_mib_gib [word_arith]:
  "kib n = Inr z \<longleftrightarrow> size_nat z = unat n * 2 ^ 10"
  "mib n = Inr z \<longleftrightarrow> size_nat z = unat n * 2 ^ 20"
  "gib n = Inr z \<longleftrightarrow> size_nat z = unat n * 2 ^ 30"
  by (cases z; simp add: kib_def mib_def gib_def result_simps checked_mul_Some)+

lemma ByteSize_try_from_i128_Inr [word_arith]:
  "ByteSize_try_from_i128 v = Inr z \<longleftrightarrow> v = int (size_nat z)"
proof -
  have "int (size_nat z) < 2 ^ 64" using unsigned_less [of "as_u64 z"] by simp
  moreover have "0 \<le> v \<Longrightarrow> v < 2 ^ 64 \<Longrightarrow> int (unat (of_int v :: u64)) = v"
    by (simp add: take_bit_int_eq_self unsigned_of_int)
  ultimately show ?thesis
    by (cases z) (auto simp: ByteSize_try_from_i128_def)
qed

section \<open>Durations\<close>

datatype Duration = Duration (nanos: nat)

instantiation Duration :: linorder
begin

definition less_eq_Duration :: "Duration \<Rightarrow> Duration \<Rightarrow> bool" where
  "x \<le> y \<longleftrightarrow> nanos x \<le> nanos y"

definition less_Duration :: "Duration \<Rightarrow> Duration \<Rightarrow> bool" where
  "x < y \<longleftrightarrow> nanos x < nanos y"

instance
  by standard (auto simp: less_eq_Duration_def less_Duration_def intro: Duration.expand)

end

abbreviation NANOS_PER_SEC :: nat where "NANOS_PER_SEC \<equiv> 1000000000"

text \<open>The bound of \<open>std::time::Duration\<close>: \<open>u64::MAX\<close> seconds and 999\,999\,999 nanoseconds.\<close>

definition duration_ok :: "Duration \<Rightarrow> bool" where
  "duration_ok d \<longleftrightarrow> nanos d < 2 ^ 64 * NANOS_PER_SEC"

definition Duration_from_secs :: "u64 \<Rightarrow> Duration" where
  "Duration_from_secs s = Duration (unat s * NANOS_PER_SEC)"

definition Duration_from_millis :: "u64 \<Rightarrow> Duration" where
  "Duration_from_millis m = Duration (unat m * 1000000)"

definition Duration_try_from_secs_i64 :: "int \<Rightarrow> DomainError + Duration" where
  "Duration_try_from_secs_i64 s =
     (if s < 0 then Inl (InvalidValue K_Duration MustNotBeNegative)
      else Inr (Duration_from_secs (of_int s)))"

definition Duration_try_from_millis_i64 :: "int \<Rightarrow> DomainError + Duration" where
  "Duration_try_from_millis_i64 m =
     (if m < 0 then Inl (InvalidValue K_Duration MustNotBeNegative)
      else Inr (Duration_from_millis (of_int m)))"

definition Duration_as_secs :: "Duration \<Rightarrow> u64" where
  "Duration_as_secs d = of_nat (nanos d div NANOS_PER_SEC)"

definition subsec_nanos :: "Duration \<Rightarrow> u32" where
  "subsec_nanos d = of_nat (nanos d mod NANOS_PER_SEC)"

definition Duration_is_zero :: "Duration \<Rightarrow> bool" where
  "Duration_is_zero d \<longleftrightarrow> nanos d = 0"

definition Duration_checked_add :: "Duration \<Rightarrow> Duration \<Rightarrow> DomainError + Duration" where
  "Duration_checked_add a b =
     (if nanos a + nanos b < 2 ^ 64 * NANOS_PER_SEC then Inr (Duration (nanos a + nanos b))
      else Inl (Overflow ''duration addition''))"

definition Duration_checked_sub :: "Duration \<Rightarrow> Duration \<Rightarrow> DomainError + Duration" where
  "Duration_checked_sub a b =
     (if nanos b \<le> nanos a then Inr (Duration (nanos a - nanos b))
      else Inl (Overflow ''duration subtraction''))"

definition Duration_saturating_add :: "Duration \<Rightarrow> Duration \<Rightarrow> Duration" where
  "Duration_saturating_add a b = Duration (min (nanos a + nanos b) (2 ^ 64 * NANOS_PER_SEC - 1))"

definition Duration_saturating_sub :: "Duration \<Rightarrow> Duration \<Rightarrow> Duration" where
  "Duration_saturating_sub a b = Duration (nanos a - nanos b)"

record WireTime =
  seconds :: u64
  nanoseconds :: u32

definition Duration_serialize :: "Duration \<Rightarrow> WireTime" where
  "Duration_serialize d = \<lparr>seconds = Duration_as_secs d, nanoseconds = subsec_nanos d\<rparr>"

definition Duration_deserialize :: "WireTime \<Rightarrow> detail + Duration" where
  "Duration_deserialize w =
     (if nanoseconds w \<ge> 1000000000 then Inl NanosecondsRange
      else Inr (Duration (unat (seconds w) * NANOS_PER_SEC + unat (nanoseconds w))))"

lemma unat_of_nat_small: "n < 2 ^ LENGTH('a) \<Longrightarrow> unat (of_nat n :: 'a::len word) = n"
  by (simp add: unsigned_of_nat take_bit_nat_eq_self)

text \<open>The two wire forms share the split into whole seconds and a rest below one second.\<close>

lemma split_nanos:
  assumes "n < 2 ^ 64 * NANOS_PER_SEC"
  shows "unat (of_nat (n div NANOS_PER_SEC) :: u64) = n div NANOS_PER_SEC"
    and "unat (of_nat (n mod NANOS_PER_SEC) :: u32) = n mod NANOS_PER_SEC"
    and "(of_nat (n mod NANOS_PER_SEC) :: u32) < 1000000000"
proof -
  show a: "unat (of_nat (n div NANOS_PER_SEC) :: u64) = n div NANOS_PER_SEC"
    using assms by (intro unat_of_nat_small) (simp add: div_less_iff_less_mult)
  show b: "unat (of_nat (n mod NANOS_PER_SEC) :: u32) = n mod NANOS_PER_SEC"
    using mod_less_divisor [of NANOS_PER_SEC n] by (intro unat_of_nat_small) simp
  show "(of_nat (n mod NANOS_PER_SEC) :: u32) < 1000000000"
    using mod_less_divisor [of NANOS_PER_SEC n] by (simp add: word_less_nat_alt b)
qed

lemma Duration_wire_roundtrip:
  "duration_ok d \<Longrightarrow> Duration_deserialize (Duration_serialize d) = Inr d"
  using split_nanos [of "nanos d"]
  by (cases d) (auto simp: Duration_deserialize_def Duration_serialize_def Duration_as_secs_def
      subsec_nanos_def duration_ok_def not_le [symmetric])

lemma Duration_deserialize_ok: "Duration_deserialize w = Inr d \<Longrightarrow> duration_ok d"
proof -
  assume "Duration_deserialize w = Inr d"
  then have "unat (nanoseconds w) < NANOS_PER_SEC"
    and d: "d = Duration (unat (seconds w) * NANOS_PER_SEC + unat (nanoseconds w))"
    by (auto simp: Duration_deserialize_def word_le_nat_alt not_le split: if_splits)
  moreover have "unat (seconds w) < 2 ^ LENGTH(64)" by (rule unsigned_less)
  ultimately show ?thesis by (simp add: duration_ok_def)
qed

lemma Duration_add_sub:
  "Duration_checked_add a b = Inr c \<Longrightarrow> Duration_checked_sub c b = Inr a"
  by (cases a) (auto simp: Duration_checked_add_def Duration_checked_sub_def split: if_splits)

section \<open>UTC instants\<close>

datatype UtcInstant = UtcInstant (epoch_nanos: nat)

instantiation UtcInstant :: linorder
begin

definition less_eq_UtcInstant :: "UtcInstant \<Rightarrow> UtcInstant \<Rightarrow> bool" where
  "x \<le> y \<longleftrightarrow> epoch_nanos x \<le> epoch_nanos y"

definition less_UtcInstant :: "UtcInstant \<Rightarrow> UtcInstant \<Rightarrow> bool" where
  "x < y \<longleftrightarrow> epoch_nanos x < epoch_nanos y"

instance
  by standard (auto simp: less_eq_UtcInstant_def less_UtcInstant_def intro: UtcInstant.expand)

end

definition from_unix_parts :: "nat \<Rightarrow> u64 \<Rightarrow> u32 \<Rightarrow> DomainError + UtcInstant" where
  "from_unix_parts t_max s n =
     (if n \<ge> 1000000000 then Inl (InvalidValue K_UtcInstant NanosecondsRange)
      else
        let total = unat s * NANOS_PER_SEC + unat n in
        if total \<le> t_max then Inr (UtcInstant total)
        else Inl (InvalidValue K_UtcInstant OutsideRepresentableRange))"

definition as_unix_parts :: "UtcInstant \<Rightarrow> u64 \<times> u32" where
  "as_unix_parts t =
     ((if epoch_nanos t div NANOS_PER_SEC < 2 ^ 64 then of_nat (epoch_nanos t div NANOS_PER_SEC) else 0),
      of_nat (epoch_nanos t mod NANOS_PER_SEC))"

text \<open>
  \<open>time::Duration::try_from\<close>: the seconds must fit \<open>i64\<close>. Then \<open>OffsetDateTime::checked_add\<close>
  is exact up to the largest instant.
\<close>

definition time_duration :: "Duration \<Rightarrow> nat option" where
  "time_duration d = (if nanos d div NANOS_PER_SEC < 2 ^ 63 then Some (nanos d) else None)"

definition UtcInstant_checked_add :: "nat \<Rightarrow> UtcInstant \<Rightarrow> Duration \<Rightarrow> DomainError + UtcInstant" where
  "UtcInstant_checked_add t_max t d =
     and_then (ok_or (time_duration d) (Overflow ''utc-instant addition''))
       (\<lambda>n. if epoch_nanos t + n \<le> t_max then Inr (UtcInstant (epoch_nanos t + n))
            else Inl (Overflow ''utc-instant addition''))"

definition UtcInstant_checked_sub :: "UtcInstant \<Rightarrow> Duration \<Rightarrow> DomainError + UtcInstant" where
  "UtcInstant_checked_sub t d =
     and_then (ok_or (time_duration d) (Overflow ''utc-instant subtraction''))
       (\<lambda>n. if n \<le> epoch_nanos t then Inr (UtcInstant (epoch_nanos t - n))
            else Inl (Overflow ''utc-instant subtraction''))"

text \<open>
  The representable instants. The \<open>time\<close> crate's range ends in the year 9999, far below the
  \<open>u64\<close> seconds of the wire form.
\<close>

definition instant_ok :: "nat \<Rightarrow> UtcInstant \<Rightarrow> bool" where
  "instant_ok t_max t \<longleftrightarrow> epoch_nanos t \<le> t_max \<and> t_max < 2 ^ 63 * NANOS_PER_SEC"

lemma UtcInstant_wire_roundtrip:
  assumes "instant_ok t_max t"
  shows "(case as_unix_parts t of (s, n) \<Rightarrow> from_unix_parts t_max s n) = Inr t"
proof -
  have lt: "epoch_nanos t < 2 ^ 64 * NANOS_PER_SEC" using assms by (simp add: instant_ok_def)
  note parts = split_nanos [OF lt]
  have "epoch_nanos t div NANOS_PER_SEC < 2 ^ 64" using lt by (simp add: div_less_iff_less_mult)
  then show ?thesis
    using parts assms
    by (cases t) (auto simp: as_unix_parts_def from_unix_parts_def instant_ok_def not_le [symmetric])
qed

lemma from_unix_parts_Inr:
  "from_unix_parts t_max s n = Inr t \<longleftrightarrow>
     unat n < NANOS_PER_SEC \<and> epoch_nanos t = unat s * NANOS_PER_SEC + unat n \<and> epoch_nanos t \<le> t_max"
  by (cases t) (auto simp: from_unix_parts_def word_le_nat_alt Let_def)

lemma UtcInstant_add_Inr:
  assumes "t_max < 2 ^ 63 * NANOS_PER_SEC"
  shows "UtcInstant_checked_add t_max t d = Inr t' \<longleftrightarrow>
    epoch_nanos t' = epoch_nanos t + nanos d \<and> epoch_nanos t' \<le> t_max"
proof -
  have "time_duration d = Some (nanos d)" if "nanos d \<le> t_max"
    using that assms by (simp add: time_duration_def div_less_iff_less_mult)
  then show ?thesis
    by (cases t'; cases "time_duration d")
      (auto simp: UtcInstant_checked_add_def time_duration_def split: if_splits)
qed

lemma UtcInstant_add_sub:
  assumes "t_max < 2 ^ 63 * NANOS_PER_SEC" "UtcInstant_checked_add t_max t d = Inr t'"
  shows "UtcInstant_checked_sub t' d = Inr t"
proof -
  have "epoch_nanos t' = epoch_nanos t + nanos d" "epoch_nanos t' \<le> t_max"
    using assms UtcInstant_add_Inr by blast+
  then have "time_duration d = Some (nanos d)"
    using assms(1) by (simp add: time_duration_def div_less_iff_less_mult)
  with \<open>epoch_nanos t' = _\<close> show ?thesis
    by (cases t) (simp add: UtcInstant_checked_sub_def)
qed

section \<open>Properties\<close>

text \<open>The arithmetic of byte sizes never wraps: an accepted result is the exact result on natural
  numbers, and an operation is refused exactly when that result is not representable.\<close>

theorem ByteSize_exact:
  "(ByteSize_checked_add x y = Inr z \<longleftrightarrow> size_nat z = size_nat x + size_nat y) \<and>
   (is_ok (ByteSize_checked_add x y) \<longleftrightarrow> size_nat x + size_nat y < 2 ^ 64) \<and>
   (ByteSize_checked_sub x y = Inr z \<longleftrightarrow> size_nat x = size_nat y + size_nat z) \<and>
   (is_ok (ByteSize_checked_sub x y) \<longleftrightarrow> size_nat y \<le> size_nat x) \<and>
   (ByteSize_checked_mul x y = Inr z \<longleftrightarrow> size_nat z = size_nat x * size_nat y) \<and>
   (is_ok (ByteSize_checked_mul x y) \<longleftrightarrow> size_nat x * size_nat y < 2 ^ 64)"
  by (intro conjI ByteSize_checked_Inr ByteSize_checked_Inl)

text \<open>A representable instant survives its wire form of seconds and nanoseconds, and adding a
  duration to an instant is undone by subtracting it. The bound on \<open>t_max\<close> is the range of the \<open>time\<close>
  crate, which ends in the year 9999.\<close>

theorem UtcInstant_roundtrips:
  assumes "instant_ok t_max t" "UtcInstant_checked_add t_max t d = Inr t'"
  shows "(case as_unix_parts t of (s, n) \<Rightarrow> from_unix_parts t_max s n) = Inr t \<and>
    UtcInstant_checked_sub t' d = Inr t"
  using UtcInstant_wire_roundtrip [OF assms(1)] UtcInstant_add_sub [OF _ assms(2)] assms(1)
  by (simp add: instant_ok_def)

lemma UtcInstant_roundtrips_witness:
  "UtcInstant_checked_sub (UtcInstant 12) (Duration 5) = Inr (UtcInstant 7)"
  using UtcInstant_roundtrips [of 100 "UtcInstant 7" "Duration 5" "UtcInstant 12"]
  by (simp add: instant_ok_def UtcInstant_checked_add_def time_duration_def)

end
