(* ===== verification/Digest.thy ===== *)
theory Digest
  imports Errors
begin

text \<open>
  Content digests (\<open>crates/domain/src/digest.rs\<close>): the hexadecimal parser and printer of a
  32-byte SHA-256 value. The hash itself is the \<open>sha2\<close> crate's and does not occur here.
\<close>

definition DIGEST_LEN :: nat where "DIGEST_LEN = 32"

datatype ContentDigest = ContentDigest (digest_bytes: "u8 list")

definition digest_ok :: "ContentDigest \<Rightarrow> bool" where
  "digest_ok d \<longleftrightarrow> length (digest_bytes d) = DIGEST_LEN"

text \<open>A byte of the text as a \<open>u8\<close>, and back.\<close>

definition byte_of :: "char \<Rightarrow> u8" where "byte_of c = of_nat (of_char c)"
definition char_of_byte :: "u8 \<Rightarrow> char" where "char_of_byte b = char_of (unat b)"

definition hex_value :: "char \<Rightarrow> u8 option" where
  "hex_value c =
     (if CHR ''0'' \<le> c \<and> c \<le> CHR ''9'' then Some (byte_of c - byte_of CHR ''0'')
      else if CHR ''a'' \<le> c \<and> c \<le> CHR ''f'' then Some (byte_of c - byte_of CHR ''a'' + 10)
      else if CHR ''A'' \<le> c \<and> c \<le> CHR ''F'' then Some (byte_of c - byte_of CHR ''A'' + 10)
      else None)"

text \<open>The loop over \<open>chunks_exact(2)\<close>; a rest shorter than two bytes is not visited.\<close>

fun hex_pairs :: "string \<Rightarrow> DomainError + u8 list" where
  "hex_pairs (a # b # rest) =
     and_then (ok_or (hex_value a) (InvalidValue K_ContentDigest (InvalidHexCharacter a))) (\<lambda>hi.
     and_then (ok_or (hex_value b) (InvalidValue K_ContentDigest (InvalidHexCharacter b))) (\<lambda>lo.
     and_then (hex_pairs rest) (\<lambda>out. Inr (or (push_bit 4 hi) lo # out))))"
| "hex_pairs _ = Inr []"

definition from_hex :: "string \<Rightarrow> DomainError + ContentDigest" where
  "from_hex hex =
     (if length hex \<noteq> 2 * DIGEST_LEN then Inl (InvalidValue K_ContentDigest (DigestLength (length hex)))
      else and_then (hex_pairs hex) (\<lambda>out. Inr (ContentDigest out)))"

text \<open>\<open>Display\<close>: every byte as \<open>{:02x}\<close>.\<close>

definition hex_digit :: "nat \<Rightarrow> char" where
  "hex_digit n = (if n < 10 then char_of (48 + n) else char_of (87 + n))"

definition hex_byte :: "u8 \<Rightarrow> string" where
  "hex_byte b = [hex_digit (unat b div 16), hex_digit (unat b mod 16)]"

definition digest_display :: "ContentDigest \<Rightarrow> string" where
  "digest_display d = concat (map hex_byte (digest_bytes d))"

section \<open>Digits\<close>

text \<open>The value of a hexadecimal digit, and the canonical (lower-case) form of a text.\<close>

definition hex_char :: "char \<Rightarrow> bool" where
  "hex_char c \<longleftrightarrow> hex_value c \<noteq> None"

definition lower_hex :: "char \<Rightarrow> char" where
  "lower_hex c = (if CHR ''A'' \<le> c \<and> c \<le> CHR ''F'' then char_of (of_char c + 32 :: nat) else c)"

lemma hex_value_digit_all:
  "\<forall>n \<in> set [0..<16]. hex_value (hex_digit n) = Some (of_nat n)"
  by code_simp

lemma hex_value_digit: "n < 16 \<Longrightarrow> hex_value (hex_digit n) = Some (of_nat n)"
  using hex_value_digit_all by simp

lemma hex_value_code:
  "hex_value c =
     (let n = of_char c in
      if 48 \<le> n \<and> n \<le> 57 then Some (of_nat (n - 48))
      else if 97 \<le> n \<and> n \<le> 102 then Some (of_nat (n - 87))
      else if 65 \<le> n \<and> n \<le> 70 then Some (of_nat (n - 55))
      else None)"
  by (auto simp: hex_value_def byte_of_def less_eq_char_def Let_def of_nat_diff)

lemma hex_value_Some:
  assumes "hex_value c = Some v"
  shows "unat v < 16" and "hex_digit (unat v) = lower_hex c"
proof -
  define n :: nat where "n = of_char c"
  have c: "char_of n = c" by (simp add: n_def)
  have u: "k < 256 \<Longrightarrow> unat (of_nat k :: u8) = k" for k
    by (simp add: unsigned_of_nat take_bit_nat_eq_self)
  have v: "48 \<le> n \<and> n \<le> 57 \<and> unat v = n - 48 \<or> 97 \<le> n \<and> n \<le> 102 \<and> unat v = n - 87 \<or>
      65 \<le> n \<and> n \<le> 70 \<and> unat v = n - 55"
    using assms by (auto simp: hex_value_code n_def [symmetric] u Let_def simp del: of_nat_diff split: if_splits)
  from v show "unat v < 16" by auto
  from v show "hex_digit (unat v) = lower_hex c"
    by (auto simp: hex_digit_def lower_hex_def less_eq_char_def c n_def [symmetric])
qed

lemma unat_nibbles:
  fixes h l :: u8
  assumes "unat h < 16" "unat l < 16"
  shows "unat (or (push_bit 4 h) l) = 16 * unat h + unat l"
proof -
  have "\<forall>i \<in> set [0..<16]. \<forall>j \<in> set [0..<16].
      unat (or (push_bit 4 (of_nat i :: u8)) (of_nat j)) = 16 * i + j"
    by code_simp
  then have "unat (or (push_bit 4 (of_nat (unat h) :: u8)) (of_nat (unat l))) = 16 * unat h + unat l"
    using assms by (metis atLeast_upt lessThan_iff)
  then show ?thesis by simp
qed

lemma hex_byte_nibbles:
  assumes "hex_value a = Some hi" "hex_value b = Some lo"
  shows "hex_byte (or (push_bit 4 hi) lo) = [lower_hex a, lower_hex b]"
  using hex_value_Some [OF assms(1)] hex_value_Some [OF assms(2)]
  by (simp add: hex_byte_def unat_nibbles)

lemma hex_pairs_hex_byte: "hex_pairs (hex_byte b @ s) = and_then (hex_pairs s) (\<lambda>out. Inr (b # out))"
proof -
  have "unat b < 2 ^ LENGTH(8)" by (rule unsigned_less)
  then have lt: "unat b < 256" by simp
  then have d: "unat b div 16 < 16" and m: "unat b mod 16 < 16" by simp_all
  have "or (push_bit 4 (of_nat (unat b div 16) :: u8)) (of_nat (unat b mod 16)) = b"
    using unat_nibbles [of "of_nat (unat b div 16)" "of_nat (unat b mod 16)"] d m
    by (simp add: word_unat_eq_iff unsigned_of_nat take_bit_nat_eq_self)
  then show ?thesis
    by (simp add: hex_byte_def hex_value_digit [OF d] hex_value_digit [OF m])
qed

lemma hex_pairs_display: "hex_pairs (concat (map hex_byte bs)) = Inr bs"
  by (induction bs) (simp_all add: hex_pairs_hex_byte)

lemma length_display: "length (concat (map hex_byte bs)) = 2 * length bs"
  by (induction bs) (simp_all add: hex_byte_def)

lemma hex_pairs_Inr:
  assumes "hex_pairs s = Inr bs" "even (length s)"
  shows "concat (map hex_byte bs) = map lower_hex s \<and> 2 * length bs = length s"
  using assms
proof (induction s arbitrary: bs rule: hex_pairs.induct)
  case (1 a b rest)
  then show ?case by (auto simp: result_simps hex_byte_nibbles)
qed auto

lemma hex_pairs_is_ok:
  "even (length s) \<Longrightarrow> is_ok (hex_pairs s) \<longleftrightarrow> (\<forall>c \<in> set s. hex_char c)"
proof (induction s rule: hex_pairs.induct)
  case (1 a b rest)
  then show ?case
    by (cases "hex_value a"; cases "hex_value b"; cases "hex_pairs rest") (auto simp: hex_char_def)
qed auto

section \<open>Wire forms\<close>

text \<open>The \<open>Display\<close>, \<open>FromStr\<close>, \<open>Serialize\<close> and \<open>Deserialize\<close> implementations.\<close>

definition ContentDigest_impls :: "(DomainError, ContentDigest) text_codec" where
  "ContentDigest_impls = text_impls from_hex digest_display"

section \<open>Properties\<close>

text \<open>The hexadecimal parser accepts exactly the texts of 64 hexadecimal digits, in either case;
  it then returns 32 bytes whose printed form is the text in lower case.\<close>

theorem from_hex_accepts:
  "from_hex s = Inr d \<longleftrightarrow> digest_ok d \<and> digest_display d = map lower_hex s \<and> (\<forall>c \<in> set s. hex_char c)"
proof
  assume l: "from_hex s = Inr d"
  then obtain bs where bs: "length s = 64" "hex_pairs s = Inr bs" "d = ContentDigest bs"
    by (auto simp: from_hex_def DIGEST_LEN_def result_simps split: if_splits)
  with hex_pairs_Inr [of s bs] hex_pairs_is_ok [of s]
  show "digest_ok d \<and> digest_display d = map lower_hex s \<and> (\<forall>c \<in> set s. hex_char c)"
    by (auto simp: digest_ok_def DIGEST_LEN_def digest_display_def)
next
  assume r: "digest_ok d \<and> digest_display d = map lower_hex s \<and> (\<forall>c \<in> set s. hex_char c)"
  then have len: "length s = 64"
    using length_display [of "digest_bytes d"] by (auto simp: digest_ok_def DIGEST_LEN_def digest_display_def dest: arg_cong [of _ _ length])
  with r hex_pairs_is_ok [of s] obtain bs where bs: "hex_pairs s = Inr bs" by (auto simp: is_ok_iff)
  with hex_pairs_Inr [OF bs] len r have "concat (map hex_byte bs) = concat (map hex_byte (digest_bytes d))"
    by (simp add: digest_display_def)
  then have "Inr bs = (Inr (digest_bytes d) :: DomainError + u8 list)"
    by (metis hex_pairs_display)
  then have "bs = digest_bytes d" by simp
  with bs len show "from_hex s = Inr d" by (simp add: from_hex_def DIGEST_LEN_def)
qed

lemma from_hex_accepts_witness:
  "digest_ok (ContentDigest (replicate 32 0)) \<and>
    digest_display (ContentDigest (replicate 32 0)) = map lower_hex (replicate 64 CHR ''0'')"
proof -
  have "from_hex (replicate 64 CHR ''0'') = Inr (ContentDigest (replicate 32 0))"
    by code_simp
  with from_hex_accepts show ?thesis by blast
qed

text \<open>Printing and parsing a digest gives the digest back.\<close>

theorem from_hex_display:
  assumes "digest_ok d"
  shows "from_hex (digest_display d) = Inr d"
  using assms length_display [of "digest_bytes d"]
  by (cases d) (simp add: from_hex_def digest_display_def hex_pairs_display digest_ok_def)

lemma from_hex_display_witness:
  "from_hex (digest_display (ContentDigest (replicate 32 171))) = Inr (ContentDigest (replicate 32 171))"
  by (rule from_hex_display) (simp add: digest_ok_def DIGEST_LEN_def)

end
