(* ===== verification/Lifecycle.thy ===== *)
theory Lifecycle
  imports Idents Digest Quantities
begin

text \<open>
  The component lifecycle: the state machine of \<open>crates/domain/src/lifecycle.rs\<close> and the
  controller of \<open>crates/application/src/lifecycle.rs\<close> that drives it through ready, drain and stop.

  The controller calls ports (the registry of active runtimes, the background services, the
  runtime's drain, the checkpoint and the audit log); their answers are the record \<open>env\<close>, a
  parameter of every operation. The state is the controller's map from installations to phase
  and digest, together with the trace of the calls that have an effect, so that an order between
  effects is a statement on the trace. Every call of the controller is one step.
\<close>

section \<open>The state machine\<close>

fun transition ::
  "ComponentLifecycleState \<Rightarrow> ComponentLifecycleEvent \<Rightarrow> DomainError + ComponentLifecycleState" where
  "transition Installed ValidationSucceeded = Inr Validated"
| "transition Installed ValidationFailed = Inr Failed"
| "transition Validated ActivationRequested = Inr Activating"
| "transition Validated ResolutionFailed = Inr Failed"
| "transition Activating ReadinessSucceeded = Inr Active"
| "transition Activating ReadinessFailed = Inr Failed"
| "transition Active DrainStarted = Inr Draining"
| "transition Draining DrainCompleted = Inr Disabled"
| "transition Disabled ActivationRequested = Inr Activating"
| "transition s e = Inl (InvalidTransition s e)"

definition accepts :: "ComponentLifecycleState \<Rightarrow> ComponentLifecycleEvent \<Rightarrow> bool" where
  "accepts s e = is_ok (transition s e)"

fun state_as_str :: "ComponentLifecycleState \<Rightarrow> string" where
  "state_as_str Installed = ''installed''"
| "state_as_str Validated = ''validated''"
| "state_as_str Activating = ''activating''"
| "state_as_str Active = ''active''"
| "state_as_str Draining = ''draining''"
| "state_as_str Disabled = ''disabled''"
| "state_as_str Failed = ''failed''"

definition state_from_str :: "string \<Rightarrow> DomainError + ComponentLifecycleState" where
  "state_from_str s =
     (if s = ''installed'' then Inr Installed
      else if s = ''validated'' then Inr Validated
      else if s = ''activating'' then Inr Activating
      else if s = ''active'' then Inr Active
      else if s = ''draining'' then Inr Draining
      else if s = ''disabled'' then Inr Disabled
      else if s = ''failed'' then Inr Failed
      else Inl (InvalidValue K_LifecycleState (UnknownVariant s)))"

fun event_as_str :: "ComponentLifecycleEvent \<Rightarrow> string" where
  "event_as_str ValidationSucceeded = ''validation-succeeded''"
| "event_as_str ValidationFailed = ''validation-failed''"
| "event_as_str ActivationRequested = ''activation-requested''"
| "event_as_str ResolutionFailed = ''resolution-failed''"
| "event_as_str ReadinessSucceeded = ''readiness-succeeded''"
| "event_as_str ReadinessFailed = ''readiness-failed''"
| "event_as_str DrainStarted = ''drain-started''"
| "event_as_str DrainCompleted = ''drain-completed''"

definition event_from_str :: "string \<Rightarrow> DomainError + ComponentLifecycleEvent" where
  "event_from_str s =
     (if s = ''validation-succeeded'' then Inr ValidationSucceeded
      else if s = ''validation-failed'' then Inr ValidationFailed
      else if s = ''activation-requested'' then Inr ActivationRequested
      else if s = ''resolution-failed'' then Inr ResolutionFailed
      else if s = ''readiness-succeeded'' then Inr ReadinessSucceeded
      else if s = ''readiness-failed'' then Inr ReadinessFailed
      else if s = ''drain-started'' then Inr DrainStarted
      else if s = ''drain-completed'' then Inr DrainCompleted
      else Inl (InvalidValue K_LifecycleEvent (UnknownVariant s)))"

interpretation lifecycle_state: closed_enum state_from_str state_as_str
proof unfold_locales
  show "state_from_str (state_as_str x) = Inr x" for x by (cases x) (simp_all add: state_from_str_def)
  show "state_from_str s = Inr x \<Longrightarrow> state_as_str x = s" for s x
    by (auto simp: state_from_str_def split: if_splits)
qed

interpretation lifecycle_event: closed_enum event_from_str event_as_str
proof unfold_locales
  show "event_from_str (event_as_str x) = Inr x" for x by (cases x) (simp_all add: event_from_str_def)
  show "event_from_str s = Inr x \<Longrightarrow> event_as_str x = s" for s x
    by (auto simp: event_from_str_def split: if_splits)
qed

text \<open>A sequence of events, stopped at the first rejected one.\<close>

fun run ::
  "ComponentLifecycleState \<Rightarrow> ComponentLifecycleEvent list \<Rightarrow> DomainError + ComponentLifecycleState" where
  "run s [] = Inr s"
| "run s (e # es) = and_then (transition s e) (\<lambda>s'. run s' es)"

definition activation :: "ComponentLifecycleEvent list" where
  "activation = [ValidationSucceeded, ActivationRequested, ReadinessSucceeded]"

definition reactivation :: "ComponentLifecycleEvent list" where
  "reactivation = [DrainStarted, DrainCompleted, ActivationRequested, ReadinessSucceeded]"

lemma transition_Inr:
  "transition s e = Inr s' \<longleftrightarrow>
     (s, e, s') \<in> {(Installed, ValidationSucceeded, Validated), (Installed, ValidationFailed, Failed),
       (Validated, ActivationRequested, Activating), (Validated, ResolutionFailed, Failed),
       (Activating, ReadinessSucceeded, Active), (Activating, ReadinessFailed, Failed),
       (Active, DrainStarted, Draining), (Draining, DrainCompleted, Disabled),
       (Disabled, ActivationRequested, Activating)}"
  by (cases s; cases e) auto

lemma transition_Inl: "transition s e = Inl x \<Longrightarrow> x = InvalidTransition s e"
  by (cases s; cases e) auto

lemma run_append: "run s (es @ fs) = and_then (run s es) (\<lambda>s'. run s' fs)"
proof (induction es arbitrary: s)
  case (Cons e es)
  then show ?case by (cases "transition s e") simp_all
qed simp

lemma run_Failed: "run Failed es = Inr s \<longleftrightarrow> es = [] \<and> s = Failed"
  by (cases es; cases "hd es") auto

lemma run_into_Active_Cons:
  "run s es = Inr Active \<longleftrightarrow> (s = Active \<and> es = []) \<or>
     (\<exists>e s' fs. es = e # fs \<and> transition s e = Inr s' \<and> run s' fs = Inr Active)"
  by (cases es) (auto simp: result_simps)

lemma run_Activating_Active:
  "run Activating es = Inr Active \<longleftrightarrow> (\<exists>fs. es = ReadinessSucceeded # fs \<and> run Active fs = Inr Active)"
  by (subst run_into_Active_Cons) (auto simp: transition_Inr run_Failed)

lemma run_Active_Active_step:
  "run Active es = Inr Active \<longleftrightarrow> es = [] \<or> (\<exists>fs. es = reactivation @ fs \<and> run Active fs = Inr Active)"
proof -
  have a: "run Disabled es = Inr Active \<longleftrightarrow>
      (\<exists>fs. es = ActivationRequested # fs \<and> run Activating fs = Inr Active)" for es
    by (subst run_into_Active_Cons) (auto simp: transition_Inr)
  have b: "run Draining es = Inr Active \<longleftrightarrow>
      (\<exists>fs. es = DrainCompleted # fs \<and> run Disabled fs = Inr Active)" for es
    by (subst run_into_Active_Cons) (auto simp: transition_Inr)
  have c: "run Active es = Inr Active \<longleftrightarrow>
      es = [] \<or> (\<exists>fs. es = DrainStarted # fs \<and> run Draining fs = Inr Active)" for es
    by (subst run_into_Active_Cons) (auto simp: transition_Inr)
  show ?thesis
    by (subst c) (auto simp: a b run_Activating_Active reactivation_def)
qed

lemma run_Active_Active:
  "run Active es = Inr Active \<longleftrightarrow> (\<exists>n. es = concat (replicate n reactivation))"
proof
  show "run Active es = Inr Active \<Longrightarrow> \<exists>n. es = concat (replicate n reactivation)"
  proof (induction es rule: length_induct)
    case (1 es)
    show ?case
    proof (cases "es = []")
      case True
      then show ?thesis by (intro exI [of _ 0]) simp
    next
      case False
      with "1.prems" obtain fs where fs: "es = reactivation @ fs" "run Active fs = Inr Active"
        using run_Active_Active_step by blast
      then have "length fs < length es" by (simp add: reactivation_def)
      with "1.IH" fs obtain n where "fs = concat (replicate n reactivation)" by blast
      with fs show ?thesis by (intro exI [of _ "Suc n"]) simp
    qed
  qed
  show "\<exists>n. es = concat (replicate n reactivation) \<Longrightarrow> run Active es = Inr Active"
  proof -
    have "run Active (concat (replicate n reactivation)) = Inr Active" for n
      by (induction n) (simp_all add: run_append reactivation_def)
    then show "\<exists>n. es = concat (replicate n reactivation) \<Longrightarrow> run Active es = Inr Active" by blast
  qed
qed

lemma run_Installed_Active:
  "run Installed es = Inr Active \<longleftrightarrow> (\<exists>fs. es = activation @ fs \<and> run Active fs = Inr Active)"
proof -
  have a: "run Validated es = Inr Active \<longleftrightarrow>
      (\<exists>fs. es = ActivationRequested # fs \<and> run Activating fs = Inr Active)" for es
    by (subst run_into_Active_Cons) (auto simp: transition_Inr run_Failed)
  have b: "run Installed es = Inr Active \<longleftrightarrow>
      (\<exists>fs. es = ValidationSucceeded # fs \<and> run Validated fs = Inr Active)" for es
    by (subst run_into_Active_Cons) (auto simp: transition_Inr run_Failed)
  show ?thesis
    by (subst b) (auto simp: a run_Activating_Active activation_def)
qed

section \<open>The controller\<close>

datatype AuditEvent =
    AuditDrainStarted InstallationId ContentDigest u64
  | AuditDrainCompleted InstallationId ContentDigest

datatype LifecycleError =
    NotFound InstallationId
  | NotReady InstallationId string
  | TransitionRejected DomainError
  | BackgroundStop string
  | DrainError string
  | CheckpointFailed string
  | AuditFailed string
  | Internal string

record InstallationState =
  phase :: ComponentLifecycleState
  digest :: ContentDigest

text \<open>The calls with an effect outside the controller, in the order they are made.\<close>

datatype effect =
    Audited AuditEvent
  | SchedulerStopped InstallationId
  | EventStopped InstallationId
  | RuntimeDrained InstallationId
  | Checkpointed InstallationId

text \<open>What the injected ports answer: \<open>None\<close> is success, \<open>Some\<close> an error.\<close>

record env =
  registry_get :: "InstallationId \<Rightarrow> ContentDigest option"
  audit_append :: "AuditEvent \<Rightarrow> string option"
  scheduler_stop :: "InstallationId \<Rightarrow> string option"
  event_stop :: "InstallationId \<Rightarrow> string option"
  runtime_drain :: "InstallationId \<Rightarrow> string option"
  checkpoint_port :: "InstallationId \<Rightarrow> string option"
  drain_deadline :: Duration

record controller =
  states :: "InstallationId \<rightharpoonup> InstallationState"
  trace :: "effect list"

definition emit :: "effect \<Rightarrow> controller \<Rightarrow> controller" where
  "emit f c = c\<lparr>trace := trace c @ [f]\<rparr>"

definition set_state :: "InstallationId \<Rightarrow> InstallationState \<Rightarrow> controller \<Rightarrow> controller" where
  "set_state i s c = c\<lparr>states := (states c)(i \<mapsto> s)\<rparr>"

definition ready :: "env \<Rightarrow> InstallationId \<Rightarrow> controller \<Rightarrow> (LifecycleError + unit) \<times> controller" where
  "ready env i c =
     (case registry_get env i of
        None \<Rightarrow> (Inl (NotFound i), c)
      | Some d \<Rightarrow>
          (case states c i of
             Some s \<Rightarrow> if phase s \<noteq> Active then (Inl (NotReady i ''ready''), c) else (Inr (), c)
           | None \<Rightarrow> (Inr (), set_state i \<lparr>phase = Active, digest = d\<rparr> c)))"

definition ensure_ready_state ::
  "env \<Rightarrow> InstallationId \<Rightarrow> controller \<Rightarrow> (LifecycleError + InstallationState) \<times> controller" where
  "ensure_ready_state env i c =
     (case states c i of
        Some s \<Rightarrow> (Inr s, c)
      | None \<Rightarrow>
          (case registry_get env i of
             None \<Rightarrow> (Inl (NotFound i), c)
           | Some d \<Rightarrow>
               (let s = \<lparr>phase = Active, digest = d\<rparr> in (Inr s, set_state i s c))))"

definition audit_ok :: "env \<Rightarrow> AuditEvent \<Rightarrow> controller \<Rightarrow> (LifecycleError + unit) \<times> controller" where
  "audit_ok env e c =
     (case audit_append env e of
        Some x \<Rightarrow> (Inl (AuditFailed x), c)
      | None \<Rightarrow> (Inr (), emit (Audited e) c))"

text \<open>The locked section of both transitions: look the state up again and apply the event.\<close>

definition apply_event ::
  "ComponentLifecycleEvent \<Rightarrow> InstallationId \<Rightarrow> controller \<Rightarrow> (LifecycleError + unit) \<times> controller" where
  "apply_event e i c =
     (case states c i of
        None \<Rightarrow> (Inl (Internal ''lifecycle state vanished between checks''), c)
      | Some s \<Rightarrow>
          (case transition (phase s) e of
             Inl x \<Rightarrow> (Inl (TransitionRejected x), c)
           | Inr p \<Rightarrow> (Inr (), set_state i (s\<lparr>phase := p\<rparr>) c)))"

definition background_stop ::
  "env \<Rightarrow> InstallationId \<Rightarrow> controller \<Rightarrow> (LifecycleError + unit) \<times> controller" where
  "background_stop env i c =
     (case scheduler_stop env i of
        Some x \<Rightarrow> (Inl (BackgroundStop x), c)
      | None \<Rightarrow>
          (let c = emit (SchedulerStopped i) c in
           case event_stop env i of
             Some x \<Rightarrow> (Inl (BackgroundStop x), c)
           | None \<Rightarrow> (Inr (), emit (EventStopped i) c)))"

definition drain_runtime ::
  "env \<Rightarrow> InstallationId \<Rightarrow> controller \<Rightarrow> (LifecycleError + unit) \<times> controller" where
  "drain_runtime env i c =
     (case registry_get env i of
        None \<Rightarrow> (Inl (NotFound i), c)
      | Some _ \<Rightarrow>
          (case runtime_drain env i of
             Some x \<Rightarrow> (Inl (DrainError x), c)
           | None \<Rightarrow> (Inr (), emit (RuntimeDrained i) c)))"

definition begin_drain ::
  "env \<Rightarrow> InstallationId \<Rightarrow> controller \<Rightarrow> (LifecycleError + unit) \<times> controller" where
  "begin_drain env i c =
     step_then (ensure_ready_state env i c) (\<lambda>s c.
     step_then (audit_ok env (AuditDrainStarted i (digest s) (Duration_as_secs (drain_deadline env))) c) (\<lambda>_ c.
     step_then (apply_event DrainStarted i c) (\<lambda>_ c.
     step_then (background_stop env i c) (\<lambda>_ c.
     drain_runtime env i c))))"

definition stop :: "env \<Rightarrow> InstallationId \<Rightarrow> controller \<Rightarrow> (LifecycleError + unit) \<times> controller" where
  "stop env i c =
     (case states c i of
        None \<Rightarrow> (Inl (NotFound i), c)
      | Some s \<Rightarrow>
          step_then (audit_ok env (AuditDrainCompleted i (digest s)) c) (\<lambda>_ c.
          apply_event DrainCompleted i c))"

definition checkpoint ::
  "env \<Rightarrow> InstallationId \<Rightarrow> controller \<Rightarrow> (LifecycleError + unit) \<times> controller" where
  "checkpoint env i c =
     (case checkpoint_port env i of
        Some x \<Rightarrow> (Inl (CheckpointFailed x), c)
      | None \<Rightarrow> (Inr (), emit (Checkpointed i) c))"

definition init_controller :: controller where
  "init_controller = \<lparr>states = (\<lambda>_. None), trace = []\<rparr>"

section \<open>Steps and invariant of the controller\<close>

text \<open>One call of the controller, with arbitrary answers of the ports.\<close>

inductive ctl_step :: "controller \<Rightarrow> controller \<Rightarrow> bool" where
  step_ready: "ctl_step c (snd (ready env i c))"
| step_begin_drain: "ctl_step c (snd (begin_drain env i c))"
| step_stop: "ctl_step c (snd (stop env i c))"
| step_checkpoint: "ctl_step c (snd (checkpoint env i c))"

inductive_cases ctl_stepE: "ctl_step c c'"

inductive reachable :: "controller \<Rightarrow> bool" where
  reach_init: "reachable init_controller"
| reach_step: "reachable c \<Longrightarrow> ctl_step c c' \<Longrightarrow> reachable c'"

text \<open>Every element of the list that satisfies \<open>Q\<close> comes after one that satisfies \<open>P\<close>.\<close>

definition preceded :: "('a \<Rightarrow> bool) \<Rightarrow> ('a \<Rightarrow> bool) \<Rightarrow> 'a list \<Rightarrow> bool" where
  "preceded P Q tr \<longleftrightarrow> (\<forall>xs f ys. tr = xs @ f # ys \<longrightarrow> Q f \<longrightarrow> (\<exists>g \<in> set xs. P g))"

lemma preceded_Nil [simp]: "preceded P Q []"
  by (simp add: preceded_def)

lemma preceded_snoc:
  "preceded P Q (tr @ [f]) \<longleftrightarrow> preceded P Q tr \<and> (Q f \<longrightarrow> list_ex P tr)"
proof
  assume l: "preceded P Q (tr @ [f])"
  have "\<exists>g \<in> set xs. P g" if "tr = xs @ h # ys" "Q h" for xs h ys
  proof -
    have "tr @ [f] = xs @ h # (ys @ [f])" using that by simp
    with l that(2) show ?thesis unfolding preceded_def by blast
  qed
  with l show "preceded P Q tr \<and> (Q f \<longrightarrow> list_ex P tr)"
    unfolding preceded_def list_ex_iff by blast
next
  assume r: "preceded P Q tr \<and> (Q f \<longrightarrow> list_ex P tr)"
  show "preceded P Q (tr @ [f])" unfolding preceded_def
  proof (intro allI impI)
    fix xs h ys assume *: "tr @ [f] = xs @ h # ys" "Q h"
    show "\<exists>g \<in> set xs. P g"
    proof (cases ys rule: rev_cases)
      case Nil
      with * r show ?thesis by (auto simp: list_ex_iff)
    next
      case (snoc zs z)
      with * have "tr = xs @ h # zs" by simp
      with * r show ?thesis unfolding preceded_def by blast
    qed
  qed
qed

fun started :: "InstallationId \<Rightarrow> effect \<Rightarrow> bool" where
  "started i (Audited (AuditDrainStarted j d t)) \<longleftrightarrow> j = i"
| "started i _ \<longleftrightarrow> False"

fun completed :: "InstallationId \<Rightarrow> effect \<Rightarrow> bool" where
  "completed i (Audited (AuditDrainCompleted j d)) \<longleftrightarrow> j = i"
| "completed i _ \<longleftrightarrow> False"

fun teardown :: "InstallationId \<Rightarrow> effect \<Rightarrow> bool" where
  "teardown i (SchedulerStopped j) \<longleftrightarrow> j = i"
| "teardown i (EventStopped j) \<longleftrightarrow> j = i"
| "teardown i (RuntimeDrained j) \<longleftrightarrow> j = i"
| "teardown i _ \<longleftrightarrow> False"

text \<open>What holds of one installation between two calls.\<close>

definition installation_inv :: "controller \<Rightarrow> InstallationId \<Rightarrow> bool" where
  "installation_inv c i \<longleftrightarrow>
     preceded (started i) (teardown i) (trace c) \<and>
     preceded (\<lambda>f. f = SchedulerStopped i) (\<lambda>f. f = EventStopped i) (trace c) \<and>
     preceded (\<lambda>f. f = EventStopped i) (\<lambda>f. f = RuntimeDrained i) (trace c) \<and>
     (case states c i of
        None \<Rightarrow> \<not> list_ex (started i) (trace c) \<and> \<not> list_ex (completed i) (trace c) \<and>
          \<not> list_ex (teardown i) (trace c)
      | Some s \<Rightarrow>
          (phase s = Active \<longrightarrow> \<not> list_ex (teardown i) (trace c)) \<and>
          (phase s = Active \<or> phase s = Draining \<and> list_ex (started i) (trace c) \<or>
           phase s = Disabled \<and> list_ex (started i) (trace c) \<and> list_ex (completed i) (trace c)))"

definition ctl_inv :: "controller \<Rightarrow> bool" where
  "ctl_inv c \<longleftrightarrow> (\<forall>i. installation_inv c i)"

lemmas ctl_defs = ensure_ready_state_def audit_ok_def apply_event_def background_stop_def
  drain_runtime_def step_then_def emit_def set_state_def

lemma ctl_inv_init: "ctl_inv init_controller"
  by (simp add: ctl_inv_def installation_inv_def init_controller_def)

lemma ready_inv: "installation_inv c j \<Longrightarrow> installation_inv (snd (ready env i c)) j"
  by (auto simp: ready_def set_state_def installation_inv_def split: option.splits)

lemma checkpoint_inv: "installation_inv c j \<Longrightarrow> installation_inv (snd (checkpoint env i c)) j"
  by (auto simp: checkpoint_def emit_def installation_inv_def preceded_snoc split: option.splits)

text \<open>The three stages of the drain, each with the invariant it needs and keeps.\<close>

lemma ensure_ready_state_inv:
  assumes "installation_inv c j" "ensure_ready_state env i c = (r, c')"
  shows "installation_inv c' j \<and> trace c' = trace c \<and> (\<forall>s. r = Inr s \<longrightarrow> states c' i = Some s) \<and>
    (states c j \<noteq> None \<longrightarrow> states c' j = states c j)"
  using assms
  by (cases "j = i"; cases "states c i"; cases "states c j") (auto simp: ensure_ready_state_def set_state_def installation_inv_def Let_def
      split: option.splits)

lemma audit_started_inv:
  assumes "installation_inv c j" "states c i = Some s"
    and "audit_ok env (AuditDrainStarted i d t) c = (r, c')"
  shows "installation_inv c' j \<and> states c' = states c \<and> (r = Inr () \<longrightarrow> list_ex (started i) (trace c'))"
  using assms
  by (cases "j = i"; cases "states c i"; cases "states c j") (auto simp: audit_ok_def emit_def installation_inv_def preceded_snoc split: option.splits)

lemma audit_completed_inv:
  assumes "installation_inv c j" "states c i = Some s"
    and "audit_ok env (AuditDrainCompleted i d) c = (r, c')"
  shows "installation_inv c' j \<and> states c' = states c \<and> (r = Inr () \<longrightarrow> list_ex (completed i) (trace c'))"
  using assms
  by (cases "j = i"; cases "states c i"; cases "states c j") (auto simp: audit_ok_def emit_def installation_inv_def preceded_snoc split: option.splits)

lemma apply_drain_started_inv:
  assumes "installation_inv c j" "list_ex (started i) (trace c)" "apply_event DrainStarted i c = (r, c')"
  shows "installation_inv c' j \<and> trace c' = trace c \<and>
    (r = Inr () \<longrightarrow> (\<exists>s. states c' i = Some s \<and> phase s = Draining))"
  using assms
  by (cases "j = i"; cases "states c i"; cases "states c j") (auto simp: apply_event_def set_state_def installation_inv_def transition_Inr
      split: option.splits sum.splits)

lemma apply_drain_completed_inv:
  assumes "installation_inv c j" "list_ex (completed i) (trace c)" "apply_event DrainCompleted i c = (r, c')"
  shows "installation_inv c' j"
  using assms
  by (cases "j = i"; cases "states c i"; cases "states c j") (auto simp: apply_event_def set_state_def installation_inv_def transition_Inr
      split: option.splits sum.splits)

lemma emit_teardown_inv:
  assumes "installation_inv c j" "states c i = Some s" "phase s = Draining"
  shows "installation_inv (emit (SchedulerStopped i) c) j"
    and "list_ex (\<lambda>f. f = SchedulerStopped i) (trace c) \<Longrightarrow> installation_inv (emit (EventStopped i) c) j"
    and "list_ex (\<lambda>f. f = EventStopped i) (trace c) \<Longrightarrow> installation_inv (emit (RuntimeDrained i) c) j"
  using assms
  by (cases "j = i"; cases "states c j"; simp add: installation_inv_def emit_def preceded_snoc)+

lemma background_stop_inv:
  assumes inv: "installation_inv c j" and st: "states c i = Some s" "phase s = Draining"
    and bs: "background_stop env i c = (r, c')"
  shows "installation_inv c' j \<and> states c' = states c \<and>
    (r = Inr () \<longrightarrow> list_ex (\<lambda>f. f = EventStopped i) (trace c'))"
proof (cases "scheduler_stop env i")
  case (Some x)
  with bs inv show ?thesis by (auto simp: background_stop_def)
next
  case None
  let ?c1 = "emit (SchedulerStopped i) c"
  have 1: "installation_inv ?c1 j" "states ?c1 i = Some s" "list_ex (\<lambda>f. f = SchedulerStopped i) (trace ?c1)"
    using emit_teardown_inv(1) [OF inv st] st by (simp_all add: emit_def)
  from emit_teardown_inv(2) [OF 1(1,2) st(2) 1(3)] None bs 1(1) show ?thesis
    by (cases "event_stop env i") (auto simp: background_stop_def Let_def emit_def)
qed

lemma drain_runtime_inv:
  assumes "installation_inv c j" "states c i = Some s" "phase s = Draining"
    and "list_ex (\<lambda>f. f = EventStopped i) (trace c)" and "drain_runtime env i c = (r, c')"
  shows "installation_inv c' j"
  using emit_teardown_inv(3) [OF assms(1-4)] assms(1,5)
  by (auto simp: drain_runtime_def split: option.splits)

lemma begin_drain_inv:
  assumes inv: "installation_inv c j"
  shows "installation_inv (snd (begin_drain env i c)) j"
proof -
  obtain r1 c1 where 1: "ensure_ready_state env i c = (r1, c1)" by fastforce
  note i1 = ensure_ready_state_inv [OF inv 1]
  show ?thesis
  proof (cases r1)
    case (Inl e)
    then show ?thesis using i1 by (simp add: begin_drain_def 1 step_then_def)
  next
    case (Inr s)
    with i1 have s: "states c1 i = Some s" by blast
    obtain r2 c2 where 2: "audit_ok env (AuditDrainStarted i (digest s)
        (Duration_as_secs (drain_deadline env))) c1 = (r2, c2)" by fastforce
    note i2 = audit_started_inv [OF conjunct1 [OF i1] s 2]
    show ?thesis
    proof (cases r2)
      case (Inl e)
      then show ?thesis using i2 Inr by (simp add: begin_drain_def 1 2 step_then_def)
    next
      case r2: (Inr u)
      obtain r3 c3 where 3: "apply_event DrainStarted i c2 = (r3, c3)" by fastforce
      note i3 = apply_drain_started_inv [OF conjunct1 [OF i2] _ 3]
      show ?thesis
      proof (cases r3)
        case (Inl e)
        then show ?thesis using i2 i3 Inr r2 by (simp add: begin_drain_def 1 2 3 step_then_def)
      next
        case r3: (Inr u)
        with i2 i3 r2 obtain s3 where s3: "states c3 i = Some s3" "phase s3 = Draining"
          and inv3: "installation_inv c3 j" by auto
        obtain r4 c4 where 4: "background_stop env i c3 = (r4, c4)" by fastforce
        note i4 = background_stop_inv [OF inv3 s3 4]
        show ?thesis
        proof (cases r4)
          case (Inl e)
          then show ?thesis using i4 Inr r2 r3 by (simp add: begin_drain_def 1 2 3 4 step_then_def)
        next
          case r4: (Inr u)
          obtain r5 c5 where 5: "drain_runtime env i c4 = (r5, c5)" by fastforce
          have "installation_inv c5 j"
            using drain_runtime_inv [OF conjunct1 [OF i4] _ s3(2) _ 5] i4 s3 r4 by simp
          then show ?thesis using Inr r2 r3 r4 by (simp add: begin_drain_def 1 2 3 4 5 step_then_def)
        qed
      qed
    qed
  qed
qed

lemma stop_inv:
  assumes inv: "installation_inv c j"
  shows "installation_inv (snd (stop env i c)) j"
proof (cases "states c i")
  case None
  then show ?thesis using inv by (simp add: stop_def)
next
  case (Some s)
  obtain r2 c2 where 2: "audit_ok env (AuditDrainCompleted i (digest s)) c = (r2, c2)" by fastforce
  note i2 = audit_completed_inv [OF inv Some 2]
  obtain r3 c3 where 3: "apply_event DrainCompleted i c2 = (r3, c3)" by fastforce
  show ?thesis
    using apply_drain_completed_inv [OF conjunct1 [OF i2] _ 3] i2
    by (cases r2) (simp_all add: stop_def Some 2 3 step_then_def)
qed

lemma reachable_inv: "reachable c \<Longrightarrow> ctl_inv c"
proof (induction rule: reachable.induct)
  case reach_init
  show ?case by (rule ctl_inv_init)
next
  case (reach_step c c')
  from reach_step.hyps(2) show ?case
    by (cases rule: ctl_step.cases)
      (use reach_step.IH ready_inv begin_drain_inv stop_inv checkpoint_inv in \<open>auto simp: ctl_inv_def\<close>)
qed

section \<open>Outcomes of the drain\<close>

definition started_event :: "env \<Rightarrow> InstallationId \<Rightarrow> ContentDigest \<Rightarrow> AuditEvent" where
  "started_event env i d = AuditDrainStarted i d (Duration_as_secs (drain_deadline env))"

text \<open>The record a drain works on: the controller's own, or a new one from the registry.\<close>

definition drain_record :: "env \<Rightarrow> InstallationId \<Rightarrow> controller \<Rightarrow> InstallationState option" where
  "drain_record env i c =
     (case states c i of
        Some s \<Rightarrow> Some s
      | None \<Rightarrow> map_option (\<lambda>d. \<lparr>phase = Active, digest = d\<rparr>) (registry_get env i))"

lemma begin_drain_Ok:
  "fst (begin_drain env i c) = Inr () \<longleftrightarrow>
     (\<exists>s. drain_record env i c = Some s \<and> phase s = Active \<and>
        audit_append env (started_event env i (digest s)) = None \<and>
        scheduler_stop env i = None \<and> event_stop env i = None \<and>
        registry_get env i \<noteq> None \<and> runtime_drain env i = None)"
  by (cases "states c i"; cases "registry_get env i")
    (auto simp: begin_drain_def ctl_defs drain_record_def started_event_def Let_def transition_Inr
      split: option.splits sum.splits prod.splits)

lemma begin_drain_Ok_state:
  assumes "fst (begin_drain env i c) = Inr ()" "drain_record env i c = Some s"
  shows "snd (begin_drain env i c) =
    \<lparr>states = (states c)(i \<mapsto> s\<lparr>phase := Draining\<rparr>),
     trace = trace c @ [Audited (started_event env i (digest s)), SchedulerStopped i, EventStopped i, RuntimeDrained i]\<rparr>"
  using assms
  by (cases c; cases "states c i"; cases "registry_get env i")
    (auto simp: begin_drain_def ctl_defs drain_record_def started_event_def Let_def transition_Inr
      split: option.splits sum.splits prod.splits)

lemma begin_drain_audit_failed:
  assumes "fst (begin_drain env i c) = Inl (AuditFailed x)"
  shows "trace (snd (begin_drain env i c)) = trace c \<and>
    (\<forall>j. states c j \<noteq> None \<longrightarrow> states (snd (begin_drain env i c)) j = states c j)"
  using assms
  by (cases "states c i"; cases "registry_get env i")
    (auto simp: begin_drain_def ctl_defs Let_def split: option.splits sum.splits prod.splits)

section \<open>Wire forms\<close>

text \<open>The \<open>Display\<close>, \<open>FromStr\<close>, \<open>Serialize\<close> and \<open>Deserialize\<close> implementations.\<close>

definition ComponentLifecycleState_impls :: "(DomainError, ComponentLifecycleState) text_codec" where
  "ComponentLifecycleState_impls = text_impls state_from_str state_as_str"

definition ComponentLifecycleEvent_impls :: "(DomainError, ComponentLifecycleEvent) text_codec" where
  "ComponentLifecycleEvent_impls = text_impls event_from_str event_as_str"

section \<open>Properties\<close>

text \<open>From the installed state, the event sequences that the lifecycle accepts and that lead to
  the active state are exactly one validation and activation followed by any number of complete
  drain-and-reactivate rounds: no sequence skips validation, resolution or readiness.\<close>

theorem active_sequences:
  "run Installed es = Inr Active \<longleftrightarrow> (\<exists>n. es = activation @ concat (replicate n reactivation))"
  unfolding run_Installed_Active run_Active_Active by blast

text \<open>C7: In every reachable state of the controller, the background services and the runtime of an
  installation were only stopped after the start of its drain had been recorded in the audit log,
  and in the order scheduler, events, runtime.\<close>

theorem teardown_after_audit:
  assumes "reachable c"
  shows "preceded (started i) (teardown i) (trace c) \<and>
    preceded (\<lambda>f. f = SchedulerStopped i) (\<lambda>f. f = EventStopped i) (trace c) \<and>
    preceded (\<lambda>f. f = EventStopped i) (\<lambda>f. f = RuntimeDrained i) (trace c)"
  using reachable_inv [OF assms] by (simp add: ctl_inv_def installation_inv_def)

definition quiet_env :: env where
  "quiet_env = \<lparr>registry_get = (\<lambda>_. Some (ContentDigest [])), audit_append = (\<lambda>_. None),
     scheduler_stop = (\<lambda>_. None), event_stop = (\<lambda>_. None), runtime_drain = (\<lambda>_. None),
     checkpoint_port = (\<lambda>_. None), drain_deadline = Duration_from_secs 30\<rparr>"

lemma teardown_after_audit_witness:
  "preceded (started (InstallationId 1)) (teardown (InstallationId 1))
     (trace (snd (begin_drain quiet_env (InstallationId 1) init_controller)))"
  by (rule conjunct1 [OF teardown_after_audit [OF reach_step [OF reach_init step_begin_drain]]])

text \<open>\<open>begin_drain\<close> succeeds exactly when the installation is active (in the controller, or unknown
  to it and present in the registry), the audit log accepts the start of the drain, both background
  services stop, and the registered runtime drains within its deadline.\<close>

theorem begin_drain_succeeds_iff:
  "fst (begin_drain env i c) = Inr () \<longleftrightarrow>
     (\<exists>s. drain_record env i c = Some s \<and> phase s = Active \<and>
        audit_append env (started_event env i (digest s)) = None \<and>
        scheduler_stop env i = None \<and> event_stop env i = None \<and>
        registry_get env i \<noteq> None \<and> runtime_drain env i = None)"
  by (rule begin_drain_Ok)

text \<open>A successful \<open>begin_drain\<close> records the start of the drain, stops the scheduler, stops the
  event service and drains the runtime, in this order and nothing else, and leaves the installation
  draining with the digest that was audited.\<close>

theorem begin_drain_effects:
  assumes "fst (begin_drain env i c) = Inr ()" "drain_record env i c = Some s"
  shows "snd (begin_drain env i c) =
    \<lparr>states = (states c)(i \<mapsto> s\<lparr>phase := Draining\<rparr>),
     trace = trace c @ [Audited (started_event env i (digest s)), SchedulerStopped i, EventStopped i, RuntimeDrained i]\<rparr>"
  by (rule begin_drain_Ok_state [OF assms])

lemma begin_drain_effects_witness:
  "snd (begin_drain quiet_env (InstallationId 1) init_controller) =
    \<lparr>states = (states init_controller)(InstallationId 1 \<mapsto> \<lparr>phase = Draining, digest = ContentDigest []\<rparr>),
     trace = trace init_controller @ [Audited (started_event quiet_env (InstallationId 1) (ContentDigest [])),
       SchedulerStopped (InstallationId 1), EventStopped (InstallationId 1), RuntimeDrained (InstallationId 1)]\<rparr>"
  using begin_drain_effects [of quiet_env "InstallationId 1" init_controller "\<lparr>phase = Active, digest = ContentDigest []\<rparr>"]
  by (simp add: begin_drain_Ok drain_record_def init_controller_def quiet_env_def)

text \<open>When the audit log refuses the start of the drain, \<open>begin_drain\<close> has no effect on any
  service and changes the record of no installation the controller knew.\<close>

theorem begin_drain_fails_closed:
  assumes "fst (begin_drain env i c) = Inl (AuditFailed x)"
  shows "trace (snd (begin_drain env i c)) = trace c \<and>
    (\<forall>j. states c j \<noteq> None \<longrightarrow> states (snd (begin_drain env i c)) j = states c j)"
  by (rule begin_drain_audit_failed [OF assms])

lemma begin_drain_fails_closed_witness:
  "trace (snd (begin_drain (quiet_env\<lparr>audit_append := \<lambda>_. Some ''full''\<rparr>) (InstallationId 1) init_controller)) =
    trace init_controller"
  by (rule begin_drain_fails_closed [THEN conjunct1])
    (simp add: begin_drain_def ctl_defs quiet_env_def init_controller_def Let_def)

text \<open>Calling \<open>stop\<close> on an installation that was not drained is rejected, but only after the
  completion of a drain has been appended to the audit log: the log then claims a drain that did not
  take place, while the installation stays active.\<close>

theorem stop_without_drain:
  assumes "states c i = Some s" "phase s = Active" "audit_append env (AuditDrainCompleted i (digest s)) = None"
  shows "stop env i c =
    (Inl (TransitionRejected (InvalidTransition Active DrainCompleted)),
     emit (Audited (AuditDrainCompleted i (digest s))) c)"
  using assms by (simp add: stop_def ctl_defs)

lemma stop_without_drain_witness:
  "stop quiet_env (InstallationId 1) (snd (ready quiet_env (InstallationId 1) init_controller)) =
    (Inl (TransitionRejected (InvalidTransition Active DrainCompleted)),
     emit (Audited (AuditDrainCompleted (InstallationId 1) (ContentDigest [])))
       (snd (ready quiet_env (InstallationId 1) init_controller)))"
  using stop_without_drain [of "snd (ready quiet_env (InstallationId 1) init_controller)" "InstallationId 1"
      "\<lparr>phase = Active, digest = ContentDigest []\<rparr>" quiet_env]
  by (simp add: ready_def init_controller_def quiet_env_def set_state_def)

end
