(* ===== verification/Interfaces.thy ===== *)
theory Interfaces
  imports Idents
begin

text \<open>
  The contract surface of a component: versions (\<open>crates/domain/src/version.rs\<close>), package and
  interface names, provided interfaces and requirements (\<open>crates/domain/src/interface.rs\<close>) and the
  provider identity (\<open>crates/domain/src/provider.rs\<close>).

  The \<open>semver\<close> crate is a parameter: \<open>parse\<close> stands for \<open>Version::parse\<close> and \<open>vmatches\<close> for
  \<open>VersionReq::matches\<close>. A \<open>VersionReq\<close> is its \<open>to_string()\<close> form: the code compares, orders and
  prints requirements by that form. The derived \<open>Ord\<close> of the source is lexicographic in the order
  of the fields; the \<open>linorder\<close> instances are that order.
\<close>

section \<open>Versions\<close>

datatype ComponentVersion = ComponentVersion (major: u32) (minor: u32) (patch: u32)

abbreviation version_key :: "ComponentVersion \<Rightarrow> u32 \<times> u32 \<times> u32" where
  "version_key v \<equiv> (major v, minor v, patch v)"

instantiation ComponentVersion :: linorder
begin

definition less_eq_ComponentVersion :: "ComponentVersion \<Rightarrow> ComponentVersion \<Rightarrow> bool" where
  "x \<le> y \<longleftrightarrow> version_key x \<le> version_key y"

definition less_ComponentVersion :: "ComponentVersion \<Rightarrow> ComponentVersion \<Rightarrow> bool" where
  "x < y \<longleftrightarrow> version_key x < version_key y"

instance
  by standard (auto simp: less_eq_ComponentVersion_def less_ComponentVersion_def intro: ComponentVersion.expand)

end

text \<open>\<open>Display\<close> of an unsigned integer.\<close>

fun decimal :: "nat \<Rightarrow> string" where
  "decimal n = (if n < 10 then [char_of (48 + n)] else decimal (n div 10) @ [char_of (48 + n mod 10)])"

declare decimal.simps [simp del]

definition version_display :: "ComponentVersion \<Rightarrow> string" where
  "version_display v =
     decimal (unat (major v)) @ ''.'' @ decimal (unat (minor v)) @ ''.'' @ decimal (unat (patch v))"

text \<open>A parsed \<open>semver::Version\<close>: three \<open>u64\<close> numbers, pre-release and build metadata.\<close>

datatype SemVersion =
  SemVersion (sv_major: u64) (sv_minor: u64) (sv_patch: u64) (sv_pre: string) (sv_build: string)

definition u32_try_from :: "u64 \<Rightarrow> DomainError + u32" where
  "u32_try_from n =
     (if unat n < 2 ^ 32 then Inr (ucast n) else Inl (InvalidValue K_ComponentVersion (ExceedsU32 (unat n))))"

definition version_from_str ::
  "(string \<Rightarrow> SemVersion option) \<Rightarrow> string \<Rightarrow> DomainError + ComponentVersion" where
  "version_from_str parse s =
     (case parse s of
        None \<Rightarrow> Inl (InvalidValue K_ComponentVersion SemverSyntax)
      | Some v \<Rightarrow>
          if sv_pre v \<noteq> [] \<or> sv_build v \<noteq> [] then Inl (InvalidValue K_ComponentVersion PrereleaseOrBuild)
          else
            and_then (u32_try_from (sv_major v)) (\<lambda>a.
            and_then (u32_try_from (sv_minor v)) (\<lambda>b.
            and_then (u32_try_from (sv_patch v)) (\<lambda>c.
            Inr (ComponentVersion a b c)))))"

definition to_semver :: "ComponentVersion \<Rightarrow> SemVersion" where
  "to_semver v = SemVersion (ucast (major v)) (ucast (minor v)) (ucast (patch v)) [] []"

datatype VersionReq = VersionReq (req_text: string)

section \<open>Names\<close>

datatype PackageName = PackageName (package_text: string)
datatype InterfaceName = InterfaceName (interface_text: string)

definition PackageName_new :: "string \<Rightarrow> DomainError + PackageName" where
  "PackageName_new v =
     and_then (validate_identifier v K_PackageName) (\<lambda>_.
     and_then (ok_or (split_once CHR '':'' v) (InvalidValue K_PackageName NotNamespaceName)) (\<lambda>(ns, nm).
       if ns = [] \<or> nm = [] then Inl (InvalidValue K_PackageName EmptyNamespacePart)
       else if CHR '':'' \<in> set nm then Inl (InvalidValue K_PackageName MoreThanOneColon)
       else Inr (PackageName v)))"

fun reject_chars :: "char list \<Rightarrow> string \<Rightarrow> ValueKind \<Rightarrow> DomainError + unit" where
  "reject_chars [] v kind = Inr ()"
| "reject_chars (c # cs) v kind =
     (if c \<in> set v then Inl (InvalidValue kind (ForbiddenChar c)) else reject_chars cs v kind)"

definition InterfaceName_new :: "string \<Rightarrow> DomainError + InterfaceName" where
  "InterfaceName_new v =
     and_then (validate_identifier v K_InterfaceName) (\<lambda>_.
     and_then (reject_chars [CHR '':'', CHR ''/'', CHR ''@''] v K_InterfaceName) (\<lambda>_.
     Inr (InterfaceName v)))"

lemma reject_chars_Inr [result_simps]: "reject_chars cs v kind = Inr u \<longleftrightarrow> (\<forall>c \<in> set cs. c \<notin> set v)"
  by (induction cs) auto

lemma PackageName_new_Inr:
  "PackageName_new v = Inr p \<longleftrightarrow> p = PackageName v \<and> identifier_text v \<and>
     (\<exists>ns nm. v = ns @ CHR '':'' # nm \<and> ns \<noteq> [] \<and> nm \<noteq> [] \<and> CHR '':'' \<notin> set ns \<and> CHR '':'' \<notin> set nm)"
  by (auto simp: PackageName_new_def result_simps split_once_Some)

lemma InterfaceName_new_Inr:
  "InterfaceName_new v = Inr p \<longleftrightarrow> p = InterfaceName v \<and> identifier_text v \<and>
     CHR '':'' \<notin> set v \<and> CHR ''/'' \<notin> set v \<and> CHR ''@'' \<notin> set v"
  by (auto simp: InterfaceName_new_def result_simps)

interpretation package_name: validated_newtype PackageName_new package_text
  by unfold_locales (auto simp: PackageName_new_Inr PackageName.expand)

interpretation interface_name: validated_newtype InterfaceName_new interface_text
  by unfold_locales (auto simp: InterfaceName_new_Inr InterfaceName.expand)

section \<open>Provided and required interfaces\<close>

datatype InterfaceId =
  InterfaceId (id_package: PackageName) (id_interface: InterfaceName) (id_version: ComponentVersion)

datatype InterfaceRequirement =
  InterfaceRequirement (rq_package: PackageName) (rq_interface: InterfaceName) (version_req: VersionReq)

definition satisfied_by ::
  "(VersionReq \<Rightarrow> SemVersion \<Rightarrow> bool) \<Rightarrow> InterfaceRequirement \<Rightarrow> InterfaceId \<Rightarrow> bool" where
  "satisfied_by vmatches r provided \<longleftrightarrow>
     rq_package r = id_package provided \<and> rq_interface r = id_interface provided \<and>
     vmatches (version_req r) (to_semver (id_version provided))"

definition InterfaceId_display :: "InterfaceId \<Rightarrow> string" where
  "InterfaceId_display i =
     package_text (id_package i) @ ''/'' @ interface_text (id_interface i) @ ''@'' @
     version_display (id_version i)"

definition InterfaceId_from_str ::
  "(string \<Rightarrow> SemVersion option) \<Rightarrow> string \<Rightarrow> DomainError + InterfaceId" where
  "InterfaceId_from_str parse s =
     and_then (ok_or (split_once CHR ''@'' s) (InvalidValue K_InterfaceId NotInterfaceIdForm)) (\<lambda>(left, v).
     and_then (ok_or (split_once CHR ''/'' left) (InvalidValue K_InterfaceId NotInterfaceIdForm)) (\<lambda>(p, i).
       if v = [] then Inl (InvalidValue K_InterfaceId EmptyVersion)
       else
         and_then (PackageName_new p) (\<lambda>p.
         and_then (InterfaceName_new i) (\<lambda>i.
         and_then (version_from_str parse v) (\<lambda>v. Inr (InterfaceId p i v))))))"

definition InterfaceRequirement_display :: "InterfaceRequirement \<Rightarrow> string" where
  "InterfaceRequirement_display r =
     package_text (rq_package r) @ ''/'' @ interface_text (rq_interface r) @ ''@'' @
     req_text (version_req r)"

definition InterfaceRequirement_from_str ::
  "(string \<Rightarrow> VersionReq option) \<Rightarrow> string \<Rightarrow> DomainError + InterfaceRequirement" where
  "InterfaceRequirement_from_str parse_req s =
     and_then (ok_or (split_once CHR ''@'' s) (InvalidValue K_InterfaceRequirement NotRequirementForm)) (\<lambda>(left, v).
     and_then (ok_or (split_once CHR ''/'' left) (InvalidValue K_InterfaceRequirement NotRequirementForm)) (\<lambda>(p, i).
       and_then (PackageName_new p) (\<lambda>p.
       and_then (InterfaceName_new i) (\<lambda>i.
       and_then (ok_or (parse_req v) (InvalidValue K_InterfaceRequirement SemverSyntax)) (\<lambda>v.
       Inr (InterfaceRequirement p i v))))))"

datatype ProviderId = ProviderId (provider_uuid: u128)

definition from_installation :: "InstallationId \<Rightarrow> ProviderId" where
  "from_installation i = ProviderId (installation_uuid i)"

section \<open>Orders\<close>

instantiation PackageName :: linorder
begin

definition less_eq_PackageName :: "PackageName \<Rightarrow> PackageName \<Rightarrow> bool" where
  "x \<le> y \<longleftrightarrow> package_text x \<le> package_text y"

definition less_PackageName :: "PackageName \<Rightarrow> PackageName \<Rightarrow> bool" where
  "x < y \<longleftrightarrow> package_text x < package_text y"

instance
  by standard (auto simp: less_eq_PackageName_def less_PackageName_def intro: PackageName.expand)

end

instantiation InterfaceName :: linorder
begin

definition less_eq_InterfaceName :: "InterfaceName \<Rightarrow> InterfaceName \<Rightarrow> bool" where
  "x \<le> y \<longleftrightarrow> interface_text x \<le> interface_text y"

definition less_InterfaceName :: "InterfaceName \<Rightarrow> InterfaceName \<Rightarrow> bool" where
  "x < y \<longleftrightarrow> interface_text x < interface_text y"

instance
  by standard (auto simp: less_eq_InterfaceName_def less_InterfaceName_def intro: InterfaceName.expand)

end

abbreviation id_key :: "InterfaceId \<Rightarrow> string \<times> string \<times> ComponentVersion" where
  "id_key i \<equiv> (package_text (id_package i), interface_text (id_interface i), id_version i)"

lemma id_key_inj: "id_key x = id_key y \<Longrightarrow> x = y"
  by (cases x; cases y) (auto intro: PackageName.expand InterfaceName.expand)

abbreviation rq_key :: "InterfaceRequirement \<Rightarrow> string \<times> string \<times> string" where
  "rq_key r \<equiv> (package_text (rq_package r), interface_text (rq_interface r), req_text (version_req r))"

lemma rq_key_inj: "rq_key x = rq_key y \<Longrightarrow> x = y"
  by (cases x; cases y) (auto intro: PackageName.expand InterfaceName.expand VersionReq.expand)

instantiation InterfaceId :: linorder
begin

definition less_eq_InterfaceId :: "InterfaceId \<Rightarrow> InterfaceId \<Rightarrow> bool" where
  "x \<le> y \<longleftrightarrow> id_key x \<le> id_key y"

definition less_InterfaceId :: "InterfaceId \<Rightarrow> InterfaceId \<Rightarrow> bool" where
  "x < y \<longleftrightarrow> id_key x < id_key y"

instance
  by standard (auto simp: less_eq_InterfaceId_def less_InterfaceId_def
      intro: id_key_inj)

end

definition requirement_le :: "InterfaceRequirement \<Rightarrow> InterfaceRequirement \<Rightarrow> bool" where
  "requirement_le x y \<longleftrightarrow> rq_key x \<le> rq_key y"

instantiation InterfaceRequirement :: linorder
begin

definition less_eq_InterfaceRequirement :: "InterfaceRequirement \<Rightarrow> InterfaceRequirement \<Rightarrow> bool" where
  "x \<le> y \<longleftrightarrow> requirement_le x y"

definition less_InterfaceRequirement :: "InterfaceRequirement \<Rightarrow> InterfaceRequirement \<Rightarrow> bool" where
  "x < y \<longleftrightarrow> rq_key x < rq_key y"

instance
  by standard (auto simp: less_eq_InterfaceRequirement_def requirement_le_def less_InterfaceRequirement_def
      intro: rq_key_inj)

end

text \<open>Identifiers of one interface are ordered by their version.\<close>

lemma less_eq_InterfaceId_same:
  "id_package x = id_package y \<Longrightarrow> id_interface x = id_interface y \<Longrightarrow> x \<le> y \<longleftrightarrow> id_version x \<le> id_version y"
  by (simp add: less_eq_InterfaceId_def)

instantiation ProviderId :: linorder
begin

definition less_eq_ProviderId :: "ProviderId \<Rightarrow> ProviderId \<Rightarrow> bool" where
  "x \<le> y \<longleftrightarrow> provider_uuid x \<le> provider_uuid y"

definition less_ProviderId :: "ProviderId \<Rightarrow> ProviderId \<Rightarrow> bool" where
  "x < y \<longleftrightarrow> provider_uuid x < provider_uuid y"

instance
  by standard (auto simp: less_eq_ProviderId_def less_ProviderId_def intro: ProviderId.expand)

end

section \<open>The texts of interface identifiers\<close>

text \<open>The package part may hold neither of the two separators that follow it in the text.\<close>

definition splittable :: "PackageName \<Rightarrow> bool" where
  "splittable p \<longleftrightarrow> CHR ''/'' \<notin> set (package_text p) \<and> CHR ''@'' \<notin> set (package_text p)"

definition interface_id_ok :: "InterfaceId \<Rightarrow> bool" where
  "interface_id_ok i \<longleftrightarrow>
     PackageName_new (package_text (id_package i)) = Inr (id_package i) \<and>
     InterfaceName_new (interface_text (id_interface i)) = Inr (id_interface i)"

lemma version_display_not_Nil [simp]: "version_display v \<noteq> []"
  by (simp add: version_display_def)

lemma version_from_str_to_semver:
  assumes "parse s = Some (to_semver v)"
  shows "version_from_str parse s = Inr v"
proof -
  have "unat x < 2 ^ LENGTH(32)" for x :: u32 by (rule unsigned_less)
  moreover have "unat (ucast x :: u64) = unat x" for x :: u32
    by (simp add: unsigned_ucast_eq take_bit_nat_eq_self less_le_trans [OF unsigned_less])
  moreover have "ucast (ucast x :: u64) = x" for x :: u32
    by (rule ucast_up_ucast_id) (simp add: is_up)
  ultimately have "u32_try_from (ucast x) = Inr x" for x :: u32
    by (simp add: u32_try_from_def)
  with assms show ?thesis
    by (cases v) (simp add: version_from_str_def to_semver_def)
qed

lemma InterfaceId_from_str_split:
  assumes "InterfaceId_from_str parse s = Inr i"
  shows "splittable (id_package i) \<and> interface_id_ok i"
proof -
  from assms obtain left v p n pn nn where
    left: "split_once CHR ''@'' s = Some (left, v)" "split_once CHR ''/'' left = Some (p, n)"
    and nw: "PackageName_new p = Inr pn" "InterfaceName_new n = Inr nn"
    and i: "id_package i = pn" "id_interface i = nn"
    by (auto simp: InterfaceId_from_str_def result_simps split: if_splits)
  have names: "package_text pn = p" "interface_text nn = n"
    using nw package_name.new_text interface_name.new_text by blast+
  show ?thesis
    using left nw by (auto simp: split_once_Some splittable_def interface_id_ok_def i names)
qed

lemma InterfaceId_reparse:
  assumes "interface_id_ok i" "splittable (id_package i)"
    and "parse (version_display (id_version i)) = Some (to_semver (id_version i))"
  shows "InterfaceId_from_str parse (InterfaceId_display i) = Inr i"
proof -
  have n: "CHR ''@'' \<notin> set (interface_text (id_interface i))"
    using assms(1) by (auto simp: interface_id_ok_def InterfaceName_new_Inr)
  have sp: "split_once CHR ''@'' (InterfaceId_display i) =
      Some (package_text (id_package i) @ ''/'' @ interface_text (id_interface i), version_display (id_version i))"
    "split_once CHR ''/'' (package_text (id_package i) @ ''/'' @ interface_text (id_interface i)) =
      Some (package_text (id_package i), interface_text (id_interface i))"
    using assms(2) n by (auto simp: split_once_Some splittable_def InterfaceId_display_def)
  show ?thesis
    using assms(1) version_from_str_to_semver [of parse "version_display (id_version i)", OF assms(3)]
    by (simp add: InterfaceId_from_str_def sp sp(2) [simplified] interface_id_ok_def)
qed

section \<open>Wire forms\<close>

text \<open>The \<open>Display\<close>, \<open>FromStr\<close>, \<open>Serialize\<close> and \<open>Deserialize\<close> implementations.\<close>

definition PackageName_impls :: "(DomainError, PackageName) text_codec" where
  "PackageName_impls = text_impls PackageName_new package_text"

definition InterfaceName_impls :: "(DomainError, InterfaceName) text_codec" where
  "InterfaceName_impls = text_impls InterfaceName_new interface_text"

section \<open>Properties\<close>

text \<open>C9: An interface identifier survives printing and parsing exactly when its package name holds
  neither \<open>/\<close> nor \<open>@\<close>; the constructor of package names accepts both. The hypothesis on \<open>parse\<close> is the
  documented behaviour of \<open>semver::Version::parse\<close> on \<open>major.minor.patch\<close>.\<close>

theorem InterfaceId_roundtrip_iff:
  assumes "interface_id_ok i" "parse (version_display (id_version i)) = Some (to_semver (id_version i))"
  shows "InterfaceId_from_str parse (InterfaceId_display i) = Inr i \<longleftrightarrow> splittable (id_package i)"
  using InterfaceId_from_str_split InterfaceId_reparse [of i parse, OF assms(1) _ assms(2)] by blast

lemma InterfaceId_roundtrip_iff_witness:
  "InterfaceId_from_str (\<lambda>_. Some (SemVersion 0 1 0 [] []))
     (InterfaceId_display (InterfaceId (PackageName ''a/b:c'') (InterfaceName ''i'') (ComponentVersion 0 1 0)))
   \<noteq> Inr (InterfaceId (PackageName ''a/b:c'') (InterfaceName ''i'') (ComponentVersion 0 1 0))"
proof -
  have "PackageName_new ''a/b:c'' = Inr (PackageName ''a/b:c'')" by code_simp
  moreover have "InterfaceName_new ''i'' = Inr (InterfaceName ''i'')" by code_simp
  ultimately show ?thesis
    by (subst InterfaceId_roundtrip_iff)
      (simp_all add: interface_id_ok_def to_semver_def splittable_def)
qed

end
