(* ===== verification/Activation.thy ===== *)
theory Activation
  imports Interfaces
begin

text \<open>
  The activation order of a provider graph (\<open>compute_activation_order\<close> and \<open>find_cycle\<close> of
  \<open>crates/domain/src/graph.rs\<close>): Kahn's algorithm over the resolved edges and, when nodes are left
  over, a depth-first search for a cycle with an explicit stack.

  Both loops are \<open>partial_function (option)\<close>: \<open>None\<close> is a run that does not end or that reaches an
  \<open>unreachable!\<close>. The invariants \<open>kahn_inv\<close> and \<open>dfs_inv\<close> show that this never happens on the
  graphs the constructor builds, that a returned order is topological, that a returned path is a
  closed path of edges, and that a path is found whenever nodes are left over. Degrees and indices
  (\<open>usize\<close>) are natural numbers: they are bounded by the number of edges.
\<close>

section \<open>Data\<close>

record ProviderNode =
  node_provider :: ProviderId
  node_installation :: InstallationId
  node_provided :: "InterfaceId list"

record ResolvedEdge =
  edge_consumer :: InstallationId
  edge_requirement :: InterfaceRequirement
  edge_provider :: ProviderId
  edge_provided :: InterfaceId

type_synonym nodes = "(ProviderId \<times> ProviderNode) list"
type_synonym edges = "((InstallationId \<times> InterfaceRequirement) \<times> ResolvedEdge) list"
type_synonym adjacency = "(InstallationId \<times> InstallationId list) list"
type_synonym degrees = "(InstallationId \<times> nat) list"

definition installation_of :: "ProviderId \<Rightarrow> InstallationId" where
  "installation_of p = InstallationId (provider_uuid p)"

definition deps_of :: "adjacency \<Rightarrow> InstallationId \<Rightarrow> InstallationId list" where
  "deps_of adj n = (case map_of adj n of Some ds \<Rightarrow> ds | None \<Rightarrow> [])"

section \<open>The algorithm\<close>

definition participants :: "nodes \<Rightarrow> edges \<Rightarrow> InstallationId list" where
  "participants ns es =
     bs_of_list (map (node_installation \<circ> snd) ns @ map (edge_consumer \<circ> snd) es)"

fun add_edges ::
  "nodes \<Rightarrow> ResolvedEdge list \<Rightarrow> adjacency \<Rightarrow> degrees \<Rightarrow> (adjacency \<times> degrees) option" where
  "add_edges ns [] adj deg = Some (adj, deg)"
| "add_edges ns (e # es) adj deg =
     (case map_of ns (edge_provider e) of
        None \<Rightarrow> None
      | Some n \<Rightarrow>
          let p = node_installation n;
              adj = bt_insert (edge_consumer e) (deps_of adj (edge_consumer e) @ [p]) adj;
              deg = (case map_of deg p of Some k \<Rightarrow> bt_insert p (k + 1) deg | None \<Rightarrow> deg)
          in add_edges ns es adj deg)"

fun relax_deps ::
  "InstallationId list \<Rightarrow> degrees \<Rightarrow> InstallationId list \<Rightarrow> degrees \<times> InstallationId list" where
  "relax_deps [] deg ready = (deg, ready)"
| "relax_deps (d # ds) deg ready =
     (case map_of deg d of
        None \<Rightarrow> relax_deps ds deg ready
      | Some k \<Rightarrow>
          relax_deps ds (bt_insert d (k - 1) deg) (if k - 1 = 0 then bs_insert d ready else ready))"

partial_function (option) kahn_loop ::
  "adjacency \<Rightarrow> degrees \<Rightarrow> InstallationId list \<Rightarrow> InstallationId list \<Rightarrow> InstallationId list option" where
  "kahn_loop adj deg ready processed =
     (case ready of
        [] \<Rightarrow> Some processed
      | n # ready \<Rightarrow>
          (case relax_deps (deps_of adj n) deg ready of
             (deg, ready) \<Rightarrow> kahn_loop adj deg ready (processed @ [n])))"

text \<open>The depth-first search: the stack's last frame is the list's last element, as in the source.\<close>

record dfs_state =
  path :: "ProviderId list"
  positions :: "(ProviderId \<times> nat) list"
  stack :: "(ProviderId \<times> InstallationId list \<times> nat) list"
  visited :: "ProviderId list"

definition dfs_start :: "adjacency \<Rightarrow> ProviderId \<Rightarrow> ProviderId list \<Rightarrow> dfs_state" where
  "dfs_start adj start vis =
     \<lparr>path = [start], positions = [(start, 0)],
      stack = [(start, deps_of adj (installation_of start), 0)], visited = bs_insert start vis\<rparr>"

definition dfs_push :: "adjacency \<Rightarrow> InstallationId \<Rightarrow> dfs_state \<Rightarrow> dfs_state" where
  "dfs_push adj i s =
     (let p = from_installation i in
      s\<lparr>visited := bs_insert p (visited s),
        positions := bt_insert p (length (path s)) (positions s),
        path := path s @ [p],
        stack := stack s @ [(p, deps_of adj i, 0)]\<rparr>)"

definition dfs_pop :: "dfs_state \<Rightarrow> dfs_state" where
  "dfs_pop s =
     s\<lparr>stack := butlast (stack s), path := butlast (path s),
       positions := (if path s = [] then positions s
                     else filter (\<lambda>e. fst e \<noteq> last (path s)) (positions s))\<rparr>"

definition dfs_advance :: "dfs_state \<Rightarrow> dfs_state" where
  "dfs_advance s =
     (case last (stack s) of (p, ns, k) \<Rightarrow> s\<lparr>stack := butlast (stack s) @ [(p, ns, k + 1)]\<rparr>)"

text \<open>\<open>Inl\<close>: a cycle was found; \<open>Inr\<close>: the search from this start ended with these nodes visited.\<close>

partial_function (option) dfs_loop ::
  "adjacency \<Rightarrow> dfs_state \<Rightarrow> (ProviderId list + ProviderId list) option" where
  "dfs_loop adj s =
     (if stack s = [] then Some (Inr (visited s))
      else
        (case last (stack s) of (p, ns, k) \<Rightarrow>
           if k < length ns then
             (let i = ns ! k; q = from_installation i; s = dfs_advance s in
              case map_of (positions s) q of
                Some pos \<Rightarrow> Some (Inl (drop pos (path s) @ [q]))
              | None \<Rightarrow>
                  if q \<in> set (visited s) then dfs_loop adj s
                  else dfs_loop adj (dfs_push adj i s))
           else dfs_loop adj (dfs_pop s)))"

fun find_cycle_from ::
  "adjacency \<Rightarrow> ProviderId list \<Rightarrow> ProviderId list \<Rightarrow> ProviderId list option option" where
  "find_cycle_from adj [] vis = Some None"
| "find_cycle_from adj (start # rest) vis =
     (if start \<in> set vis then find_cycle_from adj rest vis
      else
        (case dfs_loop adj (dfs_start adj start vis) of
           None \<Rightarrow> None
         | Some (Inl cycle) \<Rightarrow> Some (Some cycle)
         | Some (Inr vis) \<Rightarrow> find_cycle_from adj rest vis))"

definition find_cycle :: "ProviderId list \<Rightarrow> adjacency \<Rightarrow> ProviderId list option option" where
  "find_cycle remaining adj = find_cycle_from adj remaining []"

definition compute_activation_order ::
  "nodes \<Rightarrow> edges \<Rightarrow> (ProviderId list + InstallationId list) option" where
  "compute_activation_order ns es =
     (let ps = participants ns es in
      case add_edges ns (map snd es) [] (map (\<lambda>p. (p, 0)) ps) of
        None \<Rightarrow> None
      | Some (adj, deg) \<Rightarrow>
          (case kahn_loop adj deg (map fst (filter (\<lambda>e. snd e = 0) deg)) [] of
             None \<Rightarrow> None
           | Some processed \<Rightarrow>
               if length processed = length ps then Some (Inr (rev processed))
               else
                 (let remaining = bs_of_list (map (node_provider \<circ> snd)
                       (filter (\<lambda>(_, n). node_installation n \<notin> set processed) ns)) in
                  case find_cycle remaining adj of
                    Some (Some cycle) \<Rightarrow> Some (Inl cycle)
                  | _ \<Rightarrow> None)))"

section \<open>The dependency relation\<close>

text \<open>The pairs (consumer, providing installation) of the edges, one per edge.\<close>

definition dep_pairs :: "nodes \<Rightarrow> ResolvedEdge list \<Rightarrow> (InstallationId \<times> InstallationId) list" where
  "dep_pairs ns es =
     map (\<lambda>e. (edge_consumer e, node_installation (the (map_of ns (edge_provider e))))) es"

definition targets :: "(InstallationId \<times> InstallationId) list \<Rightarrow> InstallationId \<Rightarrow> InstallationId list" where
  "targets E n = map snd (filter (\<lambda>e. fst e = n) E)"

text \<open>The number of edges into \<open>v\<close> whose source is not in \<open>A\<close>.\<close>

definition indeg :: "(InstallationId \<times> InstallationId) list \<Rightarrow> InstallationId set \<Rightarrow> InstallationId \<Rightarrow> nat" where
  "indeg E A v = length (filter (\<lambda>e. snd e = v \<and> fst e \<notin> A) E)"

lemma set_targets [simp]: "v \<in> set (targets E n) \<longleftrightarrow> (n, v) \<in> set E"
  by (force simp: targets_def)

lemma count_targets: "count_list (targets E n) v = length (filter (\<lambda>e. fst e = n \<and> snd e = v) E)"
  by (induction E) (auto simp: targets_def)

lemma indeg_insert:
  assumes "n \<notin> A"
  shows "indeg E A v = indeg E (insert n A) v + count_list (targets E n) v"
  using assms by (induction E) (auto simp: indeg_def count_targets)

lemma indeg_0: "indeg E A v = 0 \<longleftrightarrow> (\<forall>u. (u, v) \<in> set E \<longrightarrow> u \<in> A)"
  by (auto simp: indeg_def filter_empty_conv)

lemma add_edges_Some:
  assumes "\<forall>e \<in> set es. \<exists>n. map_of ns (edge_provider e) = Some n \<and> map_of deg (node_installation n) \<noteq> None"
    and "bt_ok adj" "bt_ok deg"
  shows "\<exists>adj' deg'. add_edges ns es adj deg = Some (adj', deg') \<and> bt_ok adj' \<and> bt_ok deg' \<and>
    (\<forall>n. deps_of adj' n = deps_of adj n @ targets (dep_pairs ns es) n) \<and>
    (\<forall>v. map_of deg' v = map_option (\<lambda>k. k + indeg (dep_pairs ns es) {} v) (map_of deg v))"
  using assms
proof (induction es arbitrary: adj deg)
  case Nil
  then show ?case by (simp add: dep_pairs_def targets_def indeg_def option.map_ident)
next
  case (Cons e es)
  from Cons.prems(1) obtain n k where n: "map_of ns (edge_provider e) = Some n"
    and k: "map_of deg (node_installation n) = Some k" by auto
  let ?p = "node_installation n"
  let ?adj = "bt_insert (edge_consumer e) (deps_of adj (edge_consumer e) @ [?p]) adj"
  let ?deg = "bt_insert ?p (k + 1) deg"
  have "\<forall>e \<in> set es. \<exists>n. map_of ns (edge_provider e) = Some n \<and> map_of ?deg (node_installation n) \<noteq> None"
    using Cons.prems by (auto simp: map_of_bt_insert)
  from Cons.IH [OF this bt_ok_insert [OF Cons.prems(2)] bt_ok_insert [OF Cons.prems(3)]]
  obtain adj' deg' where ih: "add_edges ns es ?adj ?deg = Some (adj', deg')" "bt_ok adj'" "bt_ok deg'"
    "\<forall>n. deps_of adj' n = deps_of ?adj n @ targets (dep_pairs ns es) n"
    "\<forall>v. map_of deg' v = map_option (\<lambda>k. k + indeg (dep_pairs ns es) {} v) (map_of ?deg v)"
    by blast
  have "deps_of ?adj m = deps_of adj m @ (if m = edge_consumer e then [?p] else [])" for m
    by (simp add: deps_of_def map_of_bt_insert [OF Cons.prems(2)])
  moreover have "dep_pairs ns (e # es) = (edge_consumer e, ?p) # dep_pairs ns es"
    by (simp add: dep_pairs_def n)
  ultimately have "\<forall>m. deps_of adj' m = deps_of adj m @ targets (dep_pairs ns (e # es)) m"
    and "\<forall>v. map_of deg' v = map_option (\<lambda>k. k + indeg (dep_pairs ns (e # es)) {} v) (map_of deg v)"
    using ih(4,5) k by (auto simp: targets_def indeg_def map_of_bt_insert [OF Cons.prems(3)])
  with ih show ?case by (simp add: n k)
qed

section \<open>Kahn's loop\<close>

lemma relax_deps_spec:
  assumes "bt_ok deg" "bs_ok ready" "\<forall>v. count_list ds v \<le> (case map_of deg v of Some k \<Rightarrow> k | None \<Rightarrow> count_list ds v)"
    and "relax_deps ds deg ready = (deg', ready')"
  shows "bt_ok deg' \<and> bs_ok ready' \<and>
    (\<forall>v. map_of deg' v = map_option (\<lambda>k. k - count_list ds v) (map_of deg v)) \<and>
    (\<forall>v. v \<in> set ready' \<longleftrightarrow> v \<in> set ready \<or> v \<in> set ds \<and> map_of deg v = Some (count_list ds v))"
  using assms
proof (induction ds arbitrary: deg ready)
  case Nil
  then show ?case by (simp add: option.map_ident)
next
  case (Cons d ds)
  show ?case
  proof (cases "map_of deg d")
    case None
    have "\<forall>v. count_list ds v \<le> (case map_of deg v of Some k \<Rightarrow> k | None \<Rightarrow> count_list ds v)"
    proof
      fix v
      show "count_list ds v \<le> (case map_of deg v of Some k \<Rightarrow> k | None \<Rightarrow> count_list ds v)"
        using Cons.prems(3)[rule_format, of v] by (cases "map_of deg v") (auto split: if_splits)
    qed
    from Cons.IH [OF Cons.prems(1,2) this] Cons.prems(4) None
    have "bt_ok deg' \<and> bs_ok ready' \<and>
      (\<forall>v. map_of deg' v = map_option (\<lambda>k. k - count_list ds v) (map_of deg v)) \<and>
      (\<forall>v. v \<in> set ready' \<longleftrightarrow> v \<in> set ready \<or> v \<in> set ds \<and> map_of deg v = Some (count_list ds v))"
      by simp
    with None show ?thesis by auto
  next
    case (Some k)
    let ?deg = "bt_insert d (k - 1) deg"
    let ?ready = "if k - 1 = 0 then bs_insert d ready else ready"
    have k: "1 + count_list ds d \<le> k" using Cons.prems(3)[rule_format, of d] Some by simp
    have "\<forall>v. count_list ds v \<le> (case map_of ?deg v of Some k \<Rightarrow> k | None \<Rightarrow> count_list ds v)"
    proof
      fix v
      show "count_list ds v \<le> (case map_of ?deg v of Some k \<Rightarrow> k | None \<Rightarrow> count_list ds v)"
        using Cons.prems(3)[rule_format, of v] k
        by (cases "map_of deg v") (auto simp: map_of_bt_insert [OF Cons.prems(1)] split: if_splits)
    qed
    moreover have "bs_ok ?ready" using Cons.prems(2) by auto
    moreover have "relax_deps ds ?deg ?ready = (deg', ready')" using Cons.prems(4) Some by simp
    ultimately have ih: "bt_ok deg' \<and> bs_ok ready' \<and>
      (\<forall>v. map_of deg' v = map_option (\<lambda>k. k - count_list ds v) (map_of ?deg v)) \<and>
      (\<forall>v. v \<in> set ready' \<longleftrightarrow> v \<in> set ?ready \<or> v \<in> set ds \<and> map_of ?deg v = Some (count_list ds v))"
      using Cons.IH [OF bt_ok_insert [OF Cons.prems(1)]] by blast
    have "v \<in> set ready' \<longleftrightarrow> v \<in> set ready \<or> v \<in> set (d # ds) \<and> map_of deg v = Some (count_list (d # ds) v)" for v
    proof (cases "v = d")
      case True
      have "count_list ds d = 0 \<longleftrightarrow> d \<notin> set ds" by (simp add: count_list_0_iff)
      with ih Some k True show ?thesis
        by (auto simp: map_of_bt_insert [OF Cons.prems(1)] set_bs_insert split: if_splits)
    next
      case False
      with ih show ?thesis by (auto simp: map_of_bt_insert [OF Cons.prems(1)] set_bs_insert)
    qed
    with ih Some k show ?thesis by (auto simp: map_of_bt_insert [OF Cons.prems(1)])
  qed
qed

text \<open>Every edge into an element of the list comes from an earlier element.\<close>

definition preds_first :: "('a \<times> 'a) set \<Rightarrow> 'a list \<Rightarrow> bool" where
  "preds_first E ps \<longleftrightarrow> (\<forall>xs v ys. ps = xs @ v # ys \<longrightarrow> (\<forall>u. (u, v) \<in> E \<longrightarrow> u \<in> set xs))"

lemma preds_first_Nil [simp]: "preds_first E []"
  by (simp add: preds_first_def)

lemma preds_first_snoc:
  "preds_first E (ps @ [v]) \<longleftrightarrow> preds_first E ps \<and> (\<forall>u. (u, v) \<in> E \<longrightarrow> u \<in> set ps)"
proof
  assume l: "preds_first E (ps @ [v])"
  have "u \<in> set xs" if "ps = xs @ w # ys" "(u, w) \<in> E" for xs w ys u
    using l that unfolding preds_first_def
    by (metis append_assoc append_Cons)
  with l show "preds_first E ps \<and> (\<forall>u. (u, v) \<in> E \<longrightarrow> u \<in> set ps)"
    unfolding preds_first_def by blast
next
  assume r: "preds_first E ps \<and> (\<forall>u. (u, v) \<in> E \<longrightarrow> u \<in> set ps)"
  show "preds_first E (ps @ [v])" unfolding preds_first_def
  proof (intro allI impI)
    fix xs w ys u assume *: "ps @ [v] = xs @ w # ys" "(u, w) \<in> E"
    show "u \<in> set xs"
    proof (cases ys rule: rev_cases)
      case Nil
      with * r show ?thesis by auto
    next
      case (snoc zs z)
      with * have "ps = xs @ w # zs" by simp
      with * r show ?thesis unfolding preds_first_def by blast
    qed
  qed
qed

lemma preds_first_closed: "preds_first E ps \<Longrightarrow> v \<in> set ps \<Longrightarrow> (u, v) \<in> E \<Longrightarrow> u \<in> set ps"
  by (fastforce simp: preds_first_def in_set_conv_decomp)

definition kahn_inv ::
  "InstallationId set \<Rightarrow> (InstallationId \<times> InstallationId) list \<Rightarrow> degrees \<Rightarrow> InstallationId list \<Rightarrow>
   InstallationId list \<Rightarrow> bool" where
  "kahn_inv P E deg ready processed \<longleftrightarrow>
     bt_ok deg \<and> bs_ok ready \<and> distinct processed \<and> set processed \<subseteq> P \<and>
     preds_first (set E) processed \<and>
     (\<forall>v. map_of deg v = (if v \<in> P then Some (indeg E (set processed) v) else None)) \<and>
     (\<forall>v. v \<in> set ready \<longleftrightarrow> v \<in> P - set processed \<and> indeg E (set processed) v = 0)"

lemma kahn_inv_step:
  assumes inv: "kahn_inv P E deg (n # ready) processed"
    and step: "relax_deps (targets E n) deg ready = (deg', ready')"
  shows "kahn_inv P E deg' ready' (processed @ [n])"
proof -
  let ?A = "set processed"
  from inv have n: "n \<in> P" "n \<notin> ?A" and n0: "indeg E ?A n = 0"
    and deg: "bt_ok deg" "\<forall>v. map_of deg v = (if v \<in> P then Some (indeg E ?A v) else None)"
    and ready: "bs_ok ready" "n \<notin> set ready"
      "\<forall>v. v \<in> set (n # ready) \<longleftrightarrow> v \<in> P - ?A \<and> indeg E ?A v = 0"
    unfolding kahn_inv_def by (auto simp: bs_ok_Cons)
  have split: "indeg E ?A v = indeg E (insert n ?A) v + count_list (targets E n) v" for v
    by (rule indeg_insert [OF n(2)])
  have "\<forall>v. count_list (targets E n) v \<le>
      (case map_of deg v of Some k \<Rightarrow> k | None \<Rightarrow> count_list (targets E n) v)"
    using deg(2) split by simp
  note sp = relax_deps_spec [OF deg(1) ready(1) this step]
  have c0: "count_list (targets E n) v = 0 \<longleftrightarrow> v \<notin> set (targets E n)" for v
    by (simp add: count_list_0_iff)
  have rd: "v \<in> set ready' \<longleftrightarrow> v \<in> P - insert n ?A \<and> indeg E (insert n ?A) v = 0" for v
  proof -
    have a: "v \<in> set ready' \<longleftrightarrow> v \<in> set ready \<or> v \<in> set (targets E n) \<and> map_of deg v = Some (count_list (targets E n) v)"
      using sp by blast
    have b: "v \<in> set ready \<longleftrightarrow> v \<noteq> n \<and> v \<in> P - ?A \<and> indeg E ?A v = 0"
      using ready by auto
    have "preds_first (set E) processed" using inv by (simp add: kahn_inv_def)
    then have c: "v \<in> ?A \<Longrightarrow> indeg E ?A v = 0"
      by (auto simp: indeg_0 dest: preds_first_closed)
    show ?thesis
      unfolding a b using deg(2) split [of v] c0 [of v] n n0 c by auto
  qed
  have "preds_first (set E) (processed @ [n])"
    using inv n0 unfolding kahn_inv_def preds_first_snoc indeg_0 by blast
  moreover have "map_of deg' v = (if v \<in> P then Some (indeg E (set (processed @ [n])) v) else None)" for v
    using sp deg(2) split [of v] by simp
  moreover have "\<forall>v. v \<in> set ready' \<longleftrightarrow> v \<in> P - set (processed @ [n]) \<and> indeg E (set (processed @ [n])) v = 0"
    using rd by simp
  moreover have "distinct (processed @ [n])" "set (processed @ [n]) \<subseteq> P"
    using inv n unfolding kahn_inv_def by simp_all
  ultimately show ?thesis
    using sp unfolding kahn_inv_def by blast
qed

lemma kahn_loop_correct:
  assumes "finite P" "\<forall>n. deps_of adj n = targets E n" "kahn_inv P E deg ready processed"
  shows "\<exists>out deg'. kahn_loop adj deg ready processed = Some out \<and> kahn_inv P E deg' [] out"
  using assms
proof (induction "card P - length processed" arbitrary: deg ready processed rule: less_induct)
  case less
  show ?case
  proof (cases ready)
    case Nil
    with less.prems show ?thesis by (subst kahn_loop.simps) auto
  next
    case (Cons n rest)
    obtain deg' ready' where r: "relax_deps (targets E n) deg rest = (deg', ready')" by fastforce
    have inv: "kahn_inv P E deg' ready' (processed @ [n])"
      using kahn_inv_step less.prems(3) r Cons by blast
    then have "card (set (processed @ [n])) \<le> card P" "distinct (processed @ [n])"
      using less.prems(1) card_mono unfolding kahn_inv_def by blast+
    then have "length (processed @ [n]) \<le> card P" by (metis distinct_card)
    then have "card P - length (processed @ [n]) < card P - length processed" by simp
    from less.hyps [OF this less.prems(1,2) inv]
    show ?thesis
      by (subst kahn_loop.simps) (simp add: Cons less.prems(2) r)
  qed
qed

section \<open>The search for a cycle\<close>

lemma installation_of_from [simp]: "installation_of (from_installation i) = i"
  by (cases i) (simp add: installation_of_def from_installation_def)

lemma from_installation_of [simp]: "from_installation (installation_of p) = p"
  by (cases p) (simp add: installation_of_def from_installation_def)

definition provider_rel :: "(InstallationId \<times> InstallationId) list \<Rightarrow> (ProviderId \<times> ProviderId) set" where
  "provider_rel E = {(p, q). (installation_of p, installation_of q) \<in> set E}"

text \<open>A simple closed path: first and last element agree, consecutive ones are related.\<close>

definition closed_path :: "('a \<times> 'a) set \<Rightarrow> 'a list \<Rightarrow> bool" where
  "closed_path R c \<longleftrightarrow>
     length c \<ge> 2 \<and> hd c = last c \<and> distinct (butlast c) \<and> successively (\<lambda>p q. (p, q) \<in> R) c"

text \<open>
  A frame of the stack: the neighbours before its index are finished (\<open>frame_done\<close>), or all but
  the last of them, which is the next element of the path (\<open>frame_open\<close>).
\<close>

type_synonym frame = "ProviderId \<times> InstallationId list \<times> nat"

definition frame_done :: "(InstallationId \<times> InstallationId) list \<Rightarrow> ProviderId set \<Rightarrow> frame \<Rightarrow> bool" where
  "frame_done E F f \<longleftrightarrow> (case f of (p, ns, k) \<Rightarrow>
     ns = targets E (installation_of p) \<and> k \<le> length ns \<and> (\<forall>j<k. from_installation (ns ! j) \<in> F))"

definition frame_open ::
  "(InstallationId \<times> InstallationId) list \<Rightarrow> ProviderId set \<Rightarrow> ProviderId \<Rightarrow> frame \<Rightarrow> bool" where
  "frame_open E F q f \<longleftrightarrow> (case f of (p, ns, k) \<Rightarrow>
     ns = targets E (installation_of p) \<and> 0 < k \<and> k \<le> length ns \<and> ns ! (k - 1) = installation_of q \<and>
     (\<forall>j<k-1. from_installation (ns ! j) \<in> F))"

fun below ::
  "(InstallationId \<times> InstallationId) list \<Rightarrow> ProviderId set \<Rightarrow> ProviderId \<Rightarrow> frame list \<Rightarrow> bool" where
  "below E F q [] \<longleftrightarrow> True"
| "below E F q (f # fs) \<longleftrightarrow> frame_open E F q f \<and> below E F (fst f) fs"

definition stack_ok :: "(InstallationId \<times> InstallationId) list \<Rightarrow> ProviderId set \<Rightarrow> frame list \<Rightarrow> bool" where
  "stack_ok E F st \<longleftrightarrow>
     (case rev st of [] \<Rightarrow> True | f # fs \<Rightarrow> frame_done E F f \<and> below E F (fst f) fs)"

lemma frame_open_rel: "frame_open E F q f \<Longrightarrow> (fst f, q) \<in> provider_rel E"
proof (cases f)
  case (fields p ns k)
  assume "frame_open E F q f"
  with fields have "ns = targets E (installation_of p)" "k - 1 < length ns" "ns ! (k - 1) = installation_of q"
    by (auto simp: frame_open_def)
  then have "installation_of q \<in> set (targets E (installation_of p))" by (metis nth_mem)
  with fields show ?thesis by (simp add: provider_rel_def)
qed

lemma below_mono: "below E F q fs \<Longrightarrow> F \<subseteq> G \<Longrightarrow> below E G q fs"
  by (induction fs arbitrary: q) (auto simp: frame_open_def)

lemma below_successively:
  "below E F q fs \<Longrightarrow> successively (\<lambda>p q. (p, q) \<in> provider_rel E) (map fst (rev fs) @ [q])"
  by (induction fs arbitrary: q) (auto simp: successively_append_iff dest!: frame_open_rel)

lemma frame_open_done:
  assumes "frame_open E F q f"
  shows "frame_done E (insert q F) f"
proof (cases f)
  case (fields p ns k)
  have "j < k \<Longrightarrow> from_installation (ns ! j) \<in> insert q F" for j
    using assms fields by (cases "j = k - 1") (auto simp: frame_open_def)
  with assms fields show ?thesis by (auto simp: frame_open_def frame_done_def)
qed

text \<open>The ghost list \<open>fin\<close> holds the finished nodes in the order they were finished.\<close>

definition dfs_inv ::
  "(InstallationId \<times> InstallationId) list \<Rightarrow> ProviderId set \<Rightarrow> ProviderId list \<Rightarrow> dfs_state \<Rightarrow> bool" where
  "dfs_inv E U fin s \<longleftrightarrow>
     path s = map fst (stack s) \<and> distinct (path s @ fin) \<and> bt_ok (positions s) \<and>
     (\<forall>p i. map_of (positions s) p = Some i \<longleftrightarrow> i < length (path s) \<and> path s ! i = p) \<and>
     set (visited s) = set (path s) \<union> set fin \<and> set (visited s) \<subseteq> U \<and>
     stack_ok E (set fin) (stack s) \<and> preds_first ((provider_rel E)\<inverse>) fin"

lemma dfs_inv_advance:
  assumes inv: "dfs_inv E U fin s" and st: "stack s = fs @ [(p, ns, k)]" and k: "k < length ns"
    and q: "q = from_installation (ns ! k)" and vis: "q \<in> set (visited s)" "map_of (positions s) q = None"
  shows "dfs_inv E U fin (dfs_advance s)"
proof -
  have "q \<notin> set (path s)"
    using vis(2) inv unfolding dfs_inv_def by (metis in_set_conv_nth option.distinct(1))
  then have "q \<in> set fin" using inv vis(1) unfolding dfs_inv_def by blast
  then have "stack_ok E (set fin) (fs @ [(p, ns, k + 1)])"
    using inv k q unfolding dfs_inv_def by (auto simp: stack_ok_def frame_done_def st less_Suc_eq)
  moreover have adv: "path (dfs_advance s) = path s" "positions (dfs_advance s) = positions s"
    "visited (dfs_advance s) = visited s" "map fst (stack (dfs_advance s)) = map fst (stack s)"
    "stack (dfs_advance s) = fs @ [(p, ns, k + 1)]"
    by (simp_all add: dfs_advance_def st)
  ultimately have "stack_ok E (set fin) (stack (dfs_advance s))" by simp
  then show ?thesis
    using inv unfolding dfs_inv_def adv(1-4) by blast
qed

lemma dfs_inv_push:
  assumes inv: "dfs_inv E U fin s" and st: "stack s = fs @ [(p, ns, k)]" and k: "k < length ns"
    and q: "q = from_installation (ns ! k)" and vis: "q \<notin> set (visited s)"
    and adj: "\<forall>n. deps_of adj n = targets E n" and U: "\<forall>e \<in> set E. from_installation (snd e) \<in> U"
  shows "dfs_inv E U fin (dfs_push adj (ns ! k) (dfs_advance s))"
proof -
  let ?i = "ns ! k"
  have push: "dfs_push adj ?i (dfs_advance s) =
      s\<lparr>visited := bs_insert q (visited s), positions := bt_insert q (length (path s)) (positions s),
        path := path s @ [q], stack := fs @ [(p, ns, k + 1), (q, targets E ?i, 0)]\<rparr>"
    by (simp add: dfs_push_def dfs_advance_def st adj q Let_def)
  have f: "frame_done E (set fin) (p, ns, k)" "below E (set fin) p (rev fs)"
    using inv by (auto simp: dfs_inv_def stack_ok_def st)
  then have "ns = targets E (installation_of p)" by (simp add: frame_done_def)
  then have "?i \<in> set (targets E (installation_of p))" using nth_mem [OF k] by simp
  then have "q \<in> U" using U by (force simp: q)
  moreover have "stack_ok E (set fin) (fs @ [(p, ns, k + 1), (q, targets E ?i, 0)])"
    using f k by (auto simp: stack_ok_def frame_done_def frame_open_def q)
  moreover have "map_of (bt_insert q (length (path s)) (positions s)) p' = Some i \<longleftrightarrow>
      i < length (path s @ [q]) \<and> (path s @ [q]) ! i = p'" for p' i
  proof -
    have "bt_ok (positions s)" "\<And>p i. map_of (positions s) p = Some i \<longleftrightarrow> i < length (path s) \<and> path s ! i = p"
      "q \<notin> set (path s)"
      using inv vis by (auto simp: dfs_inv_def)
    then show ?thesis by (auto simp: map_of_bt_insert nth_append less_Suc_eq)
  qed
  moreover have "q \<notin> set (path s)" "q \<notin> set fin"
    using inv vis by (auto simp: dfs_inv_def)
  moreover have "path s @ [q] = map fst (fs @ [(p, ns, k + 1), (q, targets E ?i, 0)])"
    using inv by (simp add: dfs_inv_def st)
  moreover have "distinct (path s @ fin)" "bt_ok (positions s)" "set (visited s) = set (path s) \<union> set fin"
    "set (visited s) \<subseteq> U" "preds_first ((provider_rel E)\<inverse>) fin"
    using inv unfolding dfs_inv_def by blast+
  ultimately show ?thesis
    unfolding push dfs_inv_def by (auto simp: set_bs_insert bt_ok_insert)
qed

lemma dfs_inv_pop:
  assumes inv: "dfs_inv E U fin s" and st: "stack s = fs @ [(p, ns, k)]" and k: "\<not> k < length ns"
  shows "dfs_inv E U (fin @ [p]) (dfs_pop s)"
proof -
  let ?F = "set (fin @ [p])"
  from inv have "path s = map fst (stack s)" and d: "distinct (path s @ fin)"
    and pos: "bt_ok (positions s)"
      "\<And>p i. map_of (positions s) p = Some i \<longleftrightarrow> i < length (path s) \<and> path s ! i = p"
    and vis: "set (visited s) = set (path s) \<union> set fin" "set (visited s) \<subseteq> U"
    and ok: "stack_ok E (set fin) (stack s)" and pf: "preds_first ((provider_rel E)\<inverse>) fin"
    unfolding dfs_inv_def by blast+
  then have path: "path s = map fst fs @ [p]"
    and top: "frame_done E (set fin) (p, ns, k)" "below E (set fin) p (rev fs)"
    by (simp_all add: st stack_ok_def)
  have pop: "stack (dfs_pop s) = fs" "path (dfs_pop s) = map fst fs" "visited (dfs_pop s) = visited s"
    "positions (dfs_pop s) = filter (\<lambda>e. fst e \<noteq> p) (positions s)"
    by (simp_all add: dfs_pop_def st path)
  have len: "ns = targets E (installation_of p)" "k = length ns"
    using top(1) k by (auto simp: frame_done_def)
  have succ: "q \<in> set fin" if "(p, q) \<in> provider_rel E" for q
  proof -
    have "installation_of q \<in> set ns" using that by (simp add: len provider_rel_def)
    then obtain j where "j < k" "ns ! j = installation_of q" by (auto simp: in_set_conv_nth len)
    with top(1) show ?thesis by (auto simp: frame_done_def)
  qed
  have "stack_ok E ?F fs"
  proof (cases "rev fs")
    case Nil
    then show ?thesis by (simp add: stack_ok_def)
  next
    case (Cons f gs)
    then have "frame_open E (set fin) p f" "below E (set fin) (fst f) gs" using top(2) by simp_all
    then have "frame_done E (insert p (set fin)) f" "below E (insert p (set fin)) (fst f) gs"
      using frame_open_done below_mono by blast+
    then show ?thesis by (simp add: stack_ok_def Cons)
  qed
  moreover have "preds_first ((provider_rel E)\<inverse>) (fin @ [p])"
    using pf succ by (simp add: preds_first_snoc)
  moreover have "map_of (filter (\<lambda>e. fst e \<noteq> p) (positions s)) p' = Some i \<longleftrightarrow>
      i < length (map fst fs) \<and> map fst fs ! i = p'" for p' i
  proof -
    have "map_of (filter (\<lambda>e. fst e \<noteq> p) (positions s)) p' = (if p' = p then None else map_of (positions s) p')"
      by (rule map_of_filter_key)
    moreover have "i < length fs \<Longrightarrow> map fst fs ! i \<noteq> p"
      using d path nth_mem [of i "map fst fs"] by auto
    ultimately show ?thesis using pos(2) [of p' i] by (auto simp: path nth_append less_Suc_eq)
  qed
  moreover have "bt_ok (filter (\<lambda>e. fst e \<noteq> p) (positions s))"
    by (rule bt_ok_filter [OF pos(1)])
  ultimately show ?thesis
    using d vis unfolding dfs_inv_def pop path by (simp add: ac_simps)
qed

lemma dfs_inv_cycle:
  assumes inv: "dfs_inv E U fin s" and st: "stack s = fs @ [(p, ns, k)]" and k: "k < length ns"
    and q: "q = from_installation (ns ! k)" and pos: "map_of (positions s) q = Some i"
  shows "closed_path (provider_rel E) (drop i (path s) @ [q])"
proof -
  from inv have "path s = map fst (stack s)" and d: "distinct (path s)"
    and i: "i < length (path s)" "path s ! i = q" and ok: "stack_ok E (set fin) (stack s)"
    using pos unfolding dfs_inv_def by auto
  then have path: "path s = map fst fs @ [p]"
    and top: "frame_done E (set fin) (p, ns, k)" "below E (set fin) p (rev fs)"
    by (simp_all add: st stack_ok_def)
  have hd: "drop i (path s) = q # drop (Suc i) (path s)"
    using i by (metis Cons_nth_drop_Suc)
  have "ns = targets E (installation_of p)" using top by (simp add: frame_done_def)
  then have "(p, q) \<in> provider_rel E"
    using nth_mem [OF k] by (simp add: q provider_rel_def)
  moreover have "last (drop i (path s)) = p" using i by (simp add: path)
  moreover have "successively (\<lambda>p q. (p, q) \<in> provider_rel E) (path s)"
    using below_successively [OF top(2)] by (simp add: path)
  then have "successively (\<lambda>p q. (p, q) \<in> provider_rel E) (take i (path s) @ drop i (path s))"
    by simp
  then have "successively (\<lambda>p q. (p, q) \<in> provider_rel E) (drop i (path s))"
    unfolding successively_append_iff by blast
  ultimately have "successively (\<lambda>p q. (p, q) \<in> provider_rel E) (drop i (path s) @ [q])"
    by (simp add: successively_append_iff)
  moreover have "distinct (drop i (path s))" using d by simp
  moreover have "2 \<le> length (drop i (path s) @ [q])" "hd (drop i (path s) @ [q]) = q"
    by (simp_all add: hd)
  ultimately show ?thesis by (simp add: closed_path_def)
qed

definition pending :: "dfs_state \<Rightarrow> nat" where
  "pending s = sum_list (map (\<lambda>(p, ns, k). Suc (length ns - k)) (stack s))"

lemma dfs_loop_correct:
  assumes "finite U" "\<forall>n. deps_of adj n = targets E n" "\<forall>e \<in> set E. from_installation (snd e) \<in> U"
    and "dfs_inv E U fin s"
  shows "(\<exists>c. dfs_loop adj s = Some (Inl c) \<and> closed_path (provider_rel E) c) \<or>
    (\<exists>vis fin'. dfs_loop adj s = Some (Inr vis) \<and> set vis = set fin' \<and> set (visited s) \<subseteq> set vis \<and>
       set vis \<subseteq> U \<and> distinct fin' \<and> preds_first ((provider_rel E)\<inverse>) fin')"
  using assms(4)
proof (induction s arbitrary: fin
    rule: wf_induct_rule [where r = "measures [\<lambda>s. card (U - set (visited s)), pending]", OF wf_measures])
  case (1 s)
  show ?case
  proof (cases "stack s" rule: rev_cases)
    case Nil
    with "1.prems" show ?thesis
      by (subst (1 2) dfs_loop.simps) (auto simp: dfs_inv_def)
  next
    case (snoc fs f)
    obtain p ns k where f: "f = (p, ns, k)" by (cases f)
    note st = snoc [unfolded f]
    have rec: ?thesis if inv: "dfs_inv E U fin' t" and sub: "set (visited s) \<subseteq> set (visited t)"
      and lt: "set (visited s) \<subset> set (visited t) \<or> set (visited s) = set (visited t) \<and> pending t < pending s"
      and eq: "dfs_loop adj s = dfs_loop adj t" for t fin'
    proof -
      have "set (visited t) \<subseteq> U" using inv unfolding dfs_inv_def by blast
      moreover have "card (U - set (visited t)) < card (U - set (visited s))"
        if "set (visited s) \<subset> set (visited t)" "set (visited t) \<subseteq> U"
        by (rule psubset_card_mono) (use that \<open>finite U\<close> in auto)
      ultimately have "(t, s) \<in> measures [\<lambda>s. card (U - set (visited s)), pending]"
        using lt by auto
      from "1.IH" [OF this inv] show ?thesis unfolding eq using sub by blast
    qed
    have un: "dfs_loop adj s = (if k < length ns then
        (case map_of (positions s) (from_installation (ns ! k)) of
           Some pos \<Rightarrow> Some (Inl (drop pos (path s) @ [from_installation (ns ! k)]))
         | None \<Rightarrow> if from_installation (ns ! k) \<in> set (visited s) then dfs_loop adj (dfs_advance s)
             else dfs_loop adj (dfs_push adj (ns ! k) (dfs_advance s)))
        else dfs_loop adj (dfs_pop s))"
      by (subst dfs_loop.simps) (simp add: st dfs_advance_def Let_def split: option.split)
    show ?thesis
    proof (cases "k < length ns")
      case True
      let ?q = "from_installation (ns ! k)"
      show ?thesis
      proof (cases "map_of (positions s) ?q")
        case (Some i)
        with un True dfs_inv_cycle [OF "1.prems" st True refl Some] show ?thesis by simp
      next
        case None
        show ?thesis
        proof (cases "?q \<in> set (visited s)")
          case vis: True
          show ?thesis
          proof (rule rec)
            show "dfs_inv E U fin (dfs_advance s)"
              by (rule dfs_inv_advance [OF "1.prems" st True refl vis None])
            show "dfs_loop adj s = dfs_loop adj (dfs_advance s)" using un True None vis by simp
          qed (use True in \<open>auto simp: dfs_advance_def st pending_def\<close>)
        next
          case nvis: False
          show ?thesis
          proof (rule rec)
            show "dfs_inv E U fin (dfs_push adj (ns ! k) (dfs_advance s))"
              by (rule dfs_inv_push [OF "1.prems" st True refl nvis assms(2,3)])
            show "dfs_loop adj s = dfs_loop adj (dfs_push adj (ns ! k) (dfs_advance s))"
              using un True None nvis by simp
          qed (use nvis in \<open>auto simp: dfs_advance_def dfs_push_def st Let_def set_bs_insert\<close>)
        qed
      qed
    next
      case False
      show ?thesis
      proof (rule rec)
        show "dfs_inv E U (fin @ [p]) (dfs_pop s)" by (rule dfs_inv_pop [OF "1.prems" st False])
        show "dfs_loop adj s = dfs_loop adj (dfs_pop s)" using un False by simp
      qed (auto simp: dfs_pop_def st pending_def)
    qed
  qed
qed

lemma find_cycle_from_correct:
  assumes "finite U" "\<forall>n. deps_of adj n = targets E n" "\<forall>e \<in> set E. from_installation (snd e) \<in> U"
    and "set starts \<subseteq> U" "set vis = set fin" "set vis \<subseteq> U" "distinct fin"
    and "preds_first ((provider_rel E)\<inverse>) fin"
  shows "(\<exists>c. find_cycle_from adj starts vis = Some (Some c) \<and> closed_path (provider_rel E) c) \<or>
    (find_cycle_from adj starts vis = Some None \<and>
      (\<exists>fin'. distinct fin' \<and> preds_first ((provider_rel E)\<inverse>) fin' \<and> set vis \<union> set starts \<subseteq> set fin'))"
  using assms(4-)
proof (induction starts arbitrary: vis fin)
  case Nil
  then show ?case by auto
next
  case (Cons start rest)
  show ?case
  proof (cases "start \<in> set vis")
    case True
    with Cons.IH [of vis fin] Cons.prems show ?thesis by auto
  next
    case False
    have "dfs_inv E U fin (dfs_start adj start vis)"
      using Cons.prems False assms(2)
      by (auto simp: dfs_inv_def dfs_start_def set_bs_insert stack_ok_def frame_done_def bt_ok_Cons)
    from dfs_loop_correct [OF assms(1-3) this] consider
      (cycle) c where "dfs_loop adj (dfs_start adj start vis) = Some (Inl c)" "closed_path (provider_rel E) c"
    | (ended) vis' fin' where "dfs_loop adj (dfs_start adj start vis) = Some (Inr vis')" "set vis' = set fin'"
        "insert start (set vis) \<subseteq> set vis'" "set vis' \<subseteq> U" "distinct fin'"
        "preds_first ((provider_rel E)\<inverse>) fin'"
      by (auto simp: dfs_start_def set_bs_insert)
    then show ?thesis
    proof cases
      case cycle
      with False show ?thesis by simp
    next
      case ended
      have "set rest \<subseteq> U" using Cons.prems(1) by simp
      from Cons.IH [OF this ended(2,4,5,6)] ended(1,3) False show ?thesis by auto
    qed
  qed
qed

lemma map_of_const: "map_of (map (\<lambda>p. (p, c)) ps) v = (if v \<in> set ps then Some c else None)"
  by (induction ps) auto

section \<open>The result\<close>

text \<open>What the constructor of the graph establishes before it calls \<open>compute_activation_order\<close>.\<close>

definition graph_ok :: "nodes \<Rightarrow> edges \<Rightarrow> bool" where
  "graph_ok ns es \<longleftrightarrow>
     bt_ok ns \<and> (\<forall>(p, n) \<in> set ns. node_provider n = p \<and> node_installation n = installation_of p) \<and>
     (\<forall>(k, e) \<in> set es. edge_provider e \<in> fst ` set ns)"

text \<open>The dependency relation between installations: consumer to provider.\<close>

definition depends_on :: "edges \<Rightarrow> (InstallationId \<times> InstallationId) set" where
  "depends_on es = {(edge_consumer e, installation_of (edge_provider e)) | k e. (k, e) \<in> set es}"

lemma graph_ok_map_of:
  assumes "graph_ok ns es" "(k, e) \<in> set es"
  shows "\<exists>n. map_of ns (edge_provider e) = Some n \<and> node_installation n = installation_of (edge_provider e)
    \<and> (edge_provider e, n) \<in> set ns"
proof -
  obtain n where "(edge_provider e, n) \<in> set ns" using assms by (fastforce simp: graph_ok_def)
  with assms(1) show ?thesis by (auto simp: graph_ok_def bt_ok_distinct)
qed

lemma set_dep_pairs:
  assumes "graph_ok ns es"
  shows "set (dep_pairs ns (map snd es)) = depends_on es"
proof -
  have "node_installation (the (map_of ns (edge_provider e))) = installation_of (edge_provider e)"
    if "(k, e) \<in> set es" for k e
    using graph_ok_map_of [OF assms that] by auto
  then show ?thesis by (force simp: dep_pairs_def depends_on_def)
qed

lemma participants_facts:
  assumes "graph_ok ns es"
  shows "bs_ok (participants ns es)"
    and "set (participants ns es) = installation_of ` fst ` set ns \<union> (edge_consumer \<circ> snd) ` set es"
    and "(u, v) \<in> depends_on es \<Longrightarrow> u \<in> set (participants ns es) \<and> v \<in> installation_of ` fst ` set ns"
proof -
  show "bs_ok (participants ns es)" by (simp add: participants_def)
  have "(node_installation \<circ> snd) ` set ns = installation_of ` fst ` set ns"
    using assms by (force simp: graph_ok_def image_iff)
  then show set: "set (participants ns es) = installation_of ` fst ` set ns \<union> (edge_consumer \<circ> snd) ` set es"
    by (simp add: participants_def image_Un image_image comp_def)
  show "(u, v) \<in> depends_on es \<Longrightarrow> u \<in> set (participants ns es) \<and> v \<in> installation_of ` fst ` set ns"
    using assms unfolding set by (force simp: depends_on_def graph_ok_def)
qed

lemma preds_first_rev:
  assumes "preds_first E ps" "distinct ps" "\<forall>(u, v) \<in> E. v \<in> set ps"
  shows "preds_first (E\<inverse>) (rev ps)"
  unfolding preds_first_def
proof (intro allI impI)
  fix xs v ys w assume "rev ps = xs @ v # ys" and "(w, v) \<in> E\<inverse>"
  then have ps: "ps = rev ys @ v # rev xs" and e: "(v, w) \<in> E"
    by (simp_all add: rev_swap)
  have "w \<in> set ps" using assms(3) e by auto
  moreover have "w \<notin> set (rev ys)"
  proof
    assume "w \<in> set (rev ys)"
    then obtain a b where "rev ys = a @ w # b" by (meson split_list)
    then have "ps = a @ w # (b @ v # rev xs)" using ps by simp
    then have "v \<in> set a" using assms(1) e unfolding preds_first_def by blast
    with \<open>rev ys = a @ w # b\<close> have "v \<in> set (rev ys)" by simp
    with ps assms(2) show False by simp
  qed
  moreover have "w \<noteq> v"
  proof
    assume "w = v"
    with e ps assms(1) have "v \<in> set (rev ys)" unfolding preds_first_def by blast
    with ps assms(2) show False by simp
  qed
  ultimately show "w \<in> set xs" using ps by auto
qed

lemma takeWhile_until: "x \<notin> set a \<Longrightarrow> takeWhile (\<lambda>w. w \<noteq> x) (a @ x # b) = a"
  by (induction a) auto

lemma preds_first_acyclic:
  assumes "preds_first E ps" "distinct ps" "\<forall>(u, v) \<in> E. v \<in> set ps"
  shows "acyclic E"
proof -
  define pos where "pos v = length (takeWhile (\<lambda>u. u \<noteq> v) ps)" for v
  have "pos u < pos v" if "(u, v) \<in> E" for u v
  proof -
    have "v \<in> set ps" using assms(3) that by auto
    then obtain xs ys where ps: "ps = xs @ v # ys" and "v \<notin> set xs" by (meson split_list_first)
    with that assms(1) have "u \<in> set xs" unfolding preds_first_def by blast
    then obtain a b where "xs = a @ u # b" "u \<notin> set a" by (meson split_list_first)
    moreover from this have "takeWhile (\<lambda>w. w \<noteq> u) ps = a"
      using takeWhile_until [of u a "b @ v # ys"] by (simp add: ps)
    moreover have "takeWhile (\<lambda>w. w \<noteq> v) ps = xs"
      unfolding ps by (rule takeWhile_until) fact
    ultimately show ?thesis by (simp add: pos_def)
  qed
  then have "E \<subseteq> measure pos" by auto
  then show ?thesis by (meson acyclic_subset wf_acyclic wf_measure)
qed

lemma closed_path_cyclic:
  assumes "closed_path R c"
  shows "\<not> acyclic R"
proof -
  obtain p ps where c: "c = p # ps" "ps \<noteq> []" "last ps = p" and s: "successively (\<lambda>p q. (p, q) \<in> R) (p # ps)"
    using assms by (cases c) (auto simp: closed_path_def split: if_splits)
  have "(p, last ps) \<in> R\<^sup>+" if "successively (\<lambda>p q. (p, q) \<in> R) (p # ps)" "ps \<noteq> []" for p ps
    using that by (induction ps arbitrary: p) (auto intro: trancl_into_trancl2)
  with c s show ?thesis unfolding acyclic_def by metis
qed

lemma provider_rel_acyclic:
  assumes "\<not> acyclic (provider_rel E)"
  shows "\<not> acyclic (set E)"
proof
  assume "acyclic (set E)"
  have "(installation_of p, installation_of q) \<in> (set E)\<^sup>+" if "(p, q) \<in> (provider_rel E)\<^sup>+" for p q
    using that by (induction rule: trancl_induct) (auto simp: provider_rel_def intro: trancl_into_trancl)
  then have "acyclic (provider_rel E)"
    using \<open>acyclic (set E)\<close> unfolding acyclic_def by blast
  with assms show False by contradiction
qed

text \<open>A node left over by Kahn's loop has a predecessor that is left over; the search cannot end.\<close>

lemma finished_no_pred:
  assumes "distinct fin" "preds_first ((provider_rel E)\<inverse>) fin" "R \<subseteq> set fin" "R \<noteq> {}"
  shows "\<exists>q \<in> R. \<forall>p \<in> R. (p, q) \<notin> provider_rel E"
proof -
  have "\<exists>x \<in> set fin. x \<in> R" using assms(3,4) by blast
  then obtain xs q ys where f: "fin = xs @ q # ys" "q \<in> R" "\<forall>y \<in> set ys. y \<notin> R"
    using split_list_last_prop [of fin "\<lambda>x. x \<in> R"] by blast
  have "(p, q) \<notin> provider_rel E" if p: "p \<in> R" for p
  proof
    assume pq: "(p, q) \<in> provider_rel E"
    have "p \<in> set (xs @ [q])" using p f assms(3) by auto
    then obtain a b where ab: "xs @ [q] = a @ p # b" by (meson split_list)
    then have "fin = a @ p # (b @ ys)" using f by simp
    then have "q \<in> set a" using assms(2) pq unfolding preds_first_def by blast
    moreover have "q \<notin> set a"
      using ab f assms(1) by (cases b rule: rev_cases) auto
    ultimately show False by simp
  qed
  with f show ?thesis by blast
qed

lemma compute_activation_order_correct:
  assumes ok: "graph_ok ns es"
  shows "(\<exists>order. compute_activation_order ns es = Some (Inr order) \<and> distinct order \<and>
      set order = set (participants ns es) \<and> preds_first ((depends_on es)\<inverse>) order \<and>
      acyclic (depends_on es)) \<or>
    (\<exists>c. compute_activation_order ns es = Some (Inl c) \<and> \<not> acyclic (depends_on es) \<and>
      closed_path {(p, q). (installation_of p, installation_of q) \<in> depends_on es} c)"
proof -
  let ?P = "set (participants ns es)" and ?E = "dep_pairs ns (map snd es)"
  let ?deg0 = "map (\<lambda>p. (p, 0 :: nat)) (participants ns es)"
  note E = set_dep_pairs [OF ok] and part = participants_facts [OF ok]
  have deg0: "bt_ok ?deg0" "\<And>v. map_of ?deg0 v = (if v \<in> ?P then Some 0 else None)"
    using part(1) by (simp_all add: bt_ok_def bs_ok_def comp_def map_of_const)
  have "\<forall>e \<in> set (map snd es). \<exists>n. map_of ns (edge_provider e) = Some n \<and> map_of ?deg0 (node_installation n) \<noteq> None"
  proof
    fix e assume "e \<in> set (map snd es)"
    then obtain k where ke: "(k, e) \<in> set es" by auto
    from graph_ok_map_of [OF ok ke] obtain n where "map_of ns (edge_provider e) = Some n"
      "node_installation n = installation_of (edge_provider e)" "edge_provider e \<in> fst ` set ns"
      by force
    then show "\<exists>n. map_of ns (edge_provider e) = Some n \<and> map_of ?deg0 (node_installation n) \<noteq> None"
      unfolding deg0 part(2) by auto
  qed
  from add_edges_Some [OF this bt_ok_Nil deg0(1)] obtain adj deg where
    ae: "add_edges ns (map snd es) [] ?deg0 = Some (adj, deg)" "bt_ok deg"
    and adj: "\<forall>n. deps_of adj n = targets ?E n"
    and deg: "\<forall>v. map_of deg v = (if v \<in> ?P then Some (indeg ?E {} v) else None)"
    by (auto simp: deps_of_def deg0)
  let ?ready = "map fst (filter (\<lambda>e. snd e = 0) deg)"
  have "kahn_inv ?P ?E deg ?ready []"
  proof -
    have "bs_ok ?ready"
      using bt_ok_filter [OF ae(2), of "\<lambda>e. snd e = 0"] by (simp add: bt_ok_def bs_ok_def)
    moreover have "v \<in> set ?ready \<longleftrightarrow> map_of deg v = Some 0" for v
      using bt_ok_map_of [OF ae(2), of v 0] by force
    ultimately show ?thesis using ae(2) deg by (auto simp: kahn_inv_def)
  qed
  from kahn_loop_correct [OF finite_set adj this] obtain out deg' where
    kahn: "kahn_loop adj deg ?ready [] = Some out" and inv: "kahn_inv ?P ?E deg' [] out" by blast
  from inv have out: "distinct out" "set out \<subseteq> ?P" "preds_first (depends_on es) out"
    and rest: "\<forall>v \<in> ?P - set out. \<exists>u. (u, v) \<in> depends_on es \<and> u \<notin> set out"
    unfolding kahn_inv_def E indeg_0 by auto
  have lenP: "length (participants ns es) = card ?P"
    using bs_ok_distinct [OF part(1)] by (simp add: distinct_card)
  show ?thesis
  proof (cases "length out = length (participants ns es)")
    case True
    then have "set out = ?P"
      using out lenP by (metis List.finite_set card_subset_eq distinct_card)
    then have all: "\<forall>(u, v) \<in> depends_on es. v \<in> set out"
      using part(2,3) by fastforce
    have "compute_activation_order ns es = Some (Inr (rev out))"
      using True by (simp add: compute_activation_order_def ae kahn)
    then show ?thesis
      using out \<open>set out = ?P\<close> preds_first_rev [OF out(3,1) all] preds_first_acyclic [OF out(3,1) all]
      by auto
  next
    case False
    define left_over where "left_over = bs_of_list (map (node_provider \<circ> snd) (filter (\<lambda>(_, n). node_installation n \<notin> set out) ns))"
    define R where "R = {p \<in> fst ` set ns. installation_of p \<notin> set out}"
    have rem: "set left_over = R"
    proof (rule set_eqI)
      fix p
      have node: "node_provider n = q \<and> node_installation n = installation_of q" if "(q, n) \<in> set ns" for q n
        using ok that by (auto simp: graph_ok_def)
      have "p \<in> set left_over \<longleftrightarrow> (\<exists>q n. (q, n) \<in> set ns \<and> node_installation n \<notin> set out \<and> node_provider n = p)"
        by (auto simp: left_over_def image_iff case_prod_unfold) (metis prod.collapse)?
      also have "\<dots> \<longleftrightarrow> (\<exists>n. (p, n) \<in> set ns \<and> installation_of p \<notin> set out)"
        using node by metis
      also have "\<dots> \<longleftrightarrow> p \<in> R" by (force simp: R_def)
      finally show "p \<in> set left_over \<longleftrightarrow> p \<in> R" .
    qed
    have left: "v \<in> ?P - set out \<Longrightarrow> from_installation v \<in> R" for v
    proof -
      assume v: "v \<in> ?P - set out"
      with rest obtain u where "(u, v) \<in> depends_on es" by blast
      with part(3) have "v \<in> installation_of ` fst ` set ns" by blast
      with v show ?thesis unfolding R_def by force
    qed
    have "set out \<noteq> ?P" using False lenP out(1) by (metis distinct_card)
    then have "R \<noteq> {}" using out(2) left by blast
    have pred: "\<exists>p \<in> R. (p, q) \<in> provider_rel ?E" if "q \<in> R" for q
    proof -
      have "installation_of q \<in> ?P - set out" using that unfolding R_def part(2) by blast
      with rest obtain u where u: "(u, installation_of q) \<in> depends_on es" "u \<notin> set out" by blast
      with part(3) left have "from_installation u \<in> R" by blast
      with u show ?thesis by (intro bexI [of _ "from_installation u"]) (simp_all add: provider_rel_def E)
    qed
    let ?U = "R \<union> (from_installation \<circ> snd) ` set ?E"
    have "finite ?U" by (simp add: rem [symmetric])
    then have "(\<exists>c. find_cycle left_over adj = Some (Some c) \<and> closed_path (provider_rel ?E) c) \<or>
        (\<exists>fin. distinct fin \<and> preds_first ((provider_rel ?E)\<inverse>) fin \<and> R \<subseteq> set fin)"
      using find_cycle_from_correct [OF _ adj, of ?U left_over "[]" "[]"] by (auto simp: rem find_cycle_def)
    then obtain c where c: "find_cycle left_over adj = Some (Some c)" "closed_path (provider_rel ?E) c"
      using finished_no_pred [of _ ?E R] \<open>R \<noteq> {}\<close> pred by blast
    then have "compute_activation_order ns es = Some (Inl c)"
      using False by (simp add: compute_activation_order_def ae kahn left_over_def [symmetric])
    then show ?thesis
      using c provider_rel_acyclic [OF closed_path_cyclic [OF c(2)]] by (auto simp: provider_rel_def E)
  qed
qed

end
