(* ===== verification/Graph.thy ===== *)
theory Graph
  imports Activation
begin

text \<open>
  The provider graph (\<open>crates/domain/src/graph.rs\<close>) and the analysis of an upgrade
  (\<open>crates/domain/src/upgrade.rs\<close>): records of providers and consumers, the index of exported
  interfaces, the resolution of one requirement, the constructor \<open>try_build\<close> and the queries.
  \<open>vmatches\<close> is \<open>VersionReq::matches\<close>. \<open>None\<close> is a run that reaches an \<open>unreachable!\<close> (or does
  not end); \<open>resolve_total\<close> and \<open>try_build_total\<close> show that there is none.

  \<open>flat\<close> lists all exports in the order of the maps; the lemmas of resolution are stated on it.
\<close>

section \<open>Data\<close>

record ProviderRecord =
  rec_installation :: InstallationId
  rec_provided :: "InterfaceId list"

record ConsumerRecord =
  con_installation :: InstallationId
  con_required :: "InterfaceRequirement list"

datatype ProviderGraphError =
    CycleDetected "ProviderId list"
  | MissingProvider InstallationId InterfaceRequirement
  | IncompatibleVersion InstallationId InterfaceRequirement "(ProviderId \<times> ComponentVersion) list"
  | AmbiguousProvider InstallationId InterfaceRequirement "ProviderId list"
  | DuplicateProvider ProviderId
  | EmptyProvidedSet ProviderId
  | DuplicateConsumer InstallationId
  | UnknownProvider ProviderId

record ProviderGraph =
  providers :: nodes
  graph_edges :: edges
  topological_order :: "InstallationId list"

definition ProviderRecord_new ::
  "InstallationId \<Rightarrow> InterfaceId list \<Rightarrow> ProviderGraphError + ProviderRecord" where
  "ProviderRecord_new i provided =
     (if provided = [] then Inl (EmptyProvidedSet (from_installation i))
      else Inr \<lparr>rec_installation = i, rec_provided = provided\<rparr>)"

definition provider_id :: "ProviderRecord \<Rightarrow> ProviderId" where
  "provider_id r = from_installation (rec_installation r)"

definition from_record :: "ProviderRecord \<Rightarrow> ProviderNode" where
  "from_record r =
     \<lparr>node_provider = provider_id r, node_installation = rec_installation r, node_provided = rec_provided r\<rparr>"

section \<open>Resolution\<close>

type_synonym index = "((PackageName \<times> InterfaceName) \<times> (ProviderId \<times> InterfaceId) list) list"

abbreviation interface_key :: "InterfaceId \<Rightarrow> PackageName \<times> InterfaceName" where
  "interface_key i \<equiv> (id_package i, id_interface i)"

definition entry_push :: "ProviderId \<Rightarrow> InterfaceId \<Rightarrow> index \<Rightarrow> index" where
  "entry_push p i idx =
     bt_insert (interface_key i)
       ((case map_of idx (interface_key i) of Some xs \<Rightarrow> xs | None \<Rightarrow> []) @ [(p, i)]) idx"

definition build_index :: "nodes \<Rightarrow> index" where
  "build_index ns = fold (\<lambda>(p, n) idx. fold (entry_push p) (node_provided n) idx) ns []"

fun push_distinct :: "ProviderId list \<Rightarrow> ProviderId list \<Rightarrow> ProviderId list" where
  "push_distinct ds [] = ds"
| "push_distinct ds (p # ps) =
     push_distinct (if ds \<noteq> [] \<and> last ds = p then ds else ds @ [p]) ps"

fun highest_of :: "ProviderId \<Rightarrow> InterfaceId option \<Rightarrow> (ProviderId \<times> InterfaceId) list \<Rightarrow> InterfaceId option" where
  "highest_of p h [] = h"
| "highest_of p h ((q, i) # es) = highest_of p (if q = p then Some i else h) es"

definition resolve ::
  "(VersionReq \<Rightarrow> SemVersion \<Rightarrow> bool) \<Rightarrow> index \<Rightarrow> InstallationId \<Rightarrow> InterfaceRequirement \<Rightarrow>
   (ProviderGraphError + ProviderId \<times> InterfaceId) option" where
  "resolve vmatches idx c r =
     (case map_of idx (rq_package r, rq_interface r) of
        None \<Rightarrow> Some (Inl (MissingProvider c r))
      | Some entries \<Rightarrow>
          let compatible = filter (\<lambda>(_, i). satisfied_by vmatches r i) entries in
          if compatible = []
          then Some (Inl (IncompatibleVersion c r (map (\<lambda>(p, i). (p, id_version i)) entries)))
          else
            let ds = push_distinct [] (map fst compatible) in
            if length ds > 1 then Some (Inl (AmbiguousProvider c r ds))
            else if ds = [] then None
            else
              (case highest_of (last ds) None compatible of
                 None \<Rightarrow> None
               | Some i \<Rightarrow> Some (Inr (last ds, i))))"

section \<open>Construction\<close>

text \<open>Step 3 of \<open>try_build\<close>: every requirement of every consumer, in order, the first error wins.\<close>

fun resolve_all ::
  "(VersionReq \<Rightarrow> SemVersion \<Rightarrow> bool) \<Rightarrow> index \<Rightarrow> (InstallationId \<times> InterfaceRequirement) list \<Rightarrow> edges \<Rightarrow>
   (ProviderGraphError + edges) option" where
  "resolve_all vmatches idx [] es = Some (Inr es)"
| "resolve_all vmatches idx ((c, r) # rest) es =
     (case resolve vmatches idx c r of
        None \<Rightarrow> None
      | Some (Inl e) \<Rightarrow> Some (Inl e)
      | Some (Inr (p, i)) \<Rightarrow>
          resolve_all vmatches idx rest
            (bt_insert (c, r)
              \<lparr>edge_consumer = c, edge_requirement = r, edge_provider = p, edge_provided = i\<rparr> es))"

definition requirements ::
  "(InstallationId \<times> InterfaceRequirement list) list \<Rightarrow> (InstallationId \<times> InterfaceRequirement) list" where
  "requirements cs = concat (map (\<lambda>(c, rs). map (Pair c) rs) cs)"

definition try_build ::
  "(VersionReq \<Rightarrow> SemVersion \<Rightarrow> bool) \<Rightarrow> ProviderRecord list \<Rightarrow> ConsumerRecord list \<Rightarrow>
   (ProviderGraphError + ProviderGraph) option" where
  "try_build vmatches ps cs =
     (case build_unique provider_id from_record ps [] of
        Inl r \<Rightarrow> Some (Inl (DuplicateProvider (provider_id r)))
      | Inr ns \<Rightarrow>
          (case build_unique con_installation con_required cs [] of
             Inl c \<Rightarrow> Some (Inl (DuplicateConsumer (con_installation c)))
           | Inr consumers \<Rightarrow>
               (case resolve_all vmatches (build_index ns) (requirements consumers) [] of
                  None \<Rightarrow> None
                | Some (Inl e) \<Rightarrow> Some (Inl e)
                | Some (Inr es) \<Rightarrow>
                    (case compute_activation_order ns es of
                       None \<Rightarrow> None
                     | Some (Inl cycle) \<Rightarrow> Some (Inl (CycleDetected cycle))
                     | Some (Inr order) \<Rightarrow>
                         Some (Inr \<lparr>providers = ns, graph_edges = es, topological_order = order\<rparr>)))))"

section \<open>Queries\<close>

definition graph_resolve ::
  "ProviderGraph \<Rightarrow> InstallationId \<Rightarrow> InterfaceRequirement \<Rightarrow> ResolvedEdge option" where
  "graph_resolve g c r = map_of (graph_edges g) (c, r)"

definition dependencies_of :: "ProviderGraph \<Rightarrow> ProviderId \<Rightarrow> ResolvedEdge list" where
  "dependencies_of g p =
     (case map_of (providers g) p of
        None \<Rightarrow> []
      | Some n \<Rightarrow> filter (\<lambda>e. edge_consumer e = node_installation n) (map snd (graph_edges g)))"

definition direct_consumers :: "ProviderGraph \<Rightarrow> ProviderId \<Rightarrow> ResolvedEdge list" where
  "direct_consumers g p = filter (\<lambda>e. edge_provider e = p) (map snd (graph_edges g))"

definition providers_satisfying ::
  "(VersionReq \<Rightarrow> SemVersion \<Rightarrow> bool) \<Rightarrow> ProviderGraph \<Rightarrow> InterfaceRequirement \<Rightarrow> ProviderNode list" where
  "providers_satisfying vmatches g r =
     filter (\<lambda>n. list_ex (satisfied_by vmatches r) (node_provided n)) (map snd (providers g))"

section \<open>Upgrade analysis\<close>

datatype UpgradeIncompatibility = InterfaceRemoved | VersionIncompatible ComponentVersion
datatype UpgradeImpact = Compatible | Incompatible UpgradeIncompatibility

record ConsumerUpgradeImpact =
  imp_consumer :: InstallationId
  imp_requirement :: InterfaceRequirement
  previously_provided :: InterfaceId
  result :: UpgradeImpact

record UpgradeCompatibilityReport =
  rep_provider :: ProviderId
  upgraded_provided :: "InterfaceId list"
  impacts :: "ConsumerUpgradeImpact list"

definition upgrade_impact ::
  "(VersionReq \<Rightarrow> SemVersion \<Rightarrow> bool) \<Rightarrow> InterfaceId list \<Rightarrow> ResolvedEdge \<Rightarrow> ConsumerUpgradeImpact" where
  "upgrade_impact vmatches upgraded e =
     (let r = edge_requirement e;
          satisfying = filter (satisfied_by vmatches r) upgraded;
          same_interface = filter (\<lambda>i. id_package i = rq_package r \<and> id_interface i = rq_interface r) upgraded
      in \<lparr>imp_consumer = edge_consumer e, imp_requirement = r, previously_provided = edge_provided e,
          result =
            (if satisfying \<noteq> [] then Compatible
             else if same_interface \<noteq> []
               then Incompatible (VersionIncompatible (id_version (last same_interface)))
             else Incompatible InterfaceRemoved)\<rparr>)"

definition analyze_upgrade ::
  "(VersionReq \<Rightarrow> SemVersion \<Rightarrow> bool) \<Rightarrow> ProviderGraph \<Rightarrow> ProviderId \<Rightarrow> InterfaceId list \<Rightarrow>
   ProviderGraphError + UpgradeCompatibilityReport" where
  "analyze_upgrade vmatches g p upgraded =
     (if \<not> list_ex (\<lambda>(_, n). node_provider n = p) (providers g) then Inl (UnknownProvider p)
      else Inr \<lparr>rep_provider = p, upgraded_provided = upgraded,
                impacts = map (upgrade_impact vmatches upgraded) (direct_consumers g p)\<rparr>)"

definition is_safe :: "UpgradeCompatibilityReport \<Rightarrow> bool" where
  "is_safe rep \<longleftrightarrow> list_all (\<lambda>i. result i = Compatible) (impacts rep)"

section \<open>The index and the resolution of one requirement\<close>

text \<open>All exports in the order of the maps, by provider and then by interface.\<close>

definition flat :: "nodes \<Rightarrow> (ProviderId \<times> InterfaceId) list" where
  "flat ns = concat (map (\<lambda>(p, n). map (Pair p) (node_provided n)) ns)"

definition nodes_ok :: "nodes \<Rightarrow> bool" where
  "nodes_ok ns \<longleftrightarrow> bt_ok ns \<and>
     (\<forall>(p, n) \<in> set ns. bs_ok (node_provided n) \<and> node_provider n = p \<and> node_installation n = installation_of p)"

definition entries_at :: "index \<Rightarrow> PackageName \<times> InterfaceName \<Rightarrow> (ProviderId \<times> InterfaceId) list" where
  "entries_at idx k = (case map_of idx k of Some xs \<Rightarrow> xs | None \<Rightarrow> [])"

definition index_ok :: "index \<Rightarrow> bool" where
  "index_ok idx \<longleftrightarrow> bt_ok idx \<and> (\<forall>k. map_of idx k \<noteq> Some [])"

lemma entry_push_spec:
  assumes "index_ok idx"
  shows "index_ok (entry_push p i idx) \<and>
    entries_at (entry_push p i idx) k = entries_at idx k @ (if interface_key i = k then [(p, i)] else [])"
  using assms
  by (auto simp: index_ok_def entry_push_def entries_at_def map_of_bt_insert split: option.splits)

lemma entry_push_fold:
  assumes "index_ok idx"
  shows "index_ok (fold (entry_push p) is idx) \<and> entries_at (fold (entry_push p) is idx) k =
    entries_at idx k @ filter (\<lambda>(_, i). interface_key i = k) (map (Pair p) is)"
  using assms
proof (induction "is" arbitrary: idx)
  case (Cons i "is")
  note st = entry_push_spec [OF Cons.prems, of p i]
  from Cons.IH [of "entry_push p i idx"] st [of k] show ?case by auto
qed simp

lemma build_index_spec:
  "index_ok (build_index ns) \<and>
    entries_at (build_index ns) k = filter (\<lambda>(_, i). interface_key i = k) (flat ns)"
proof -
  have "index_ok idx \<Longrightarrow>
      index_ok (fold (\<lambda>(p, n) idx. fold (entry_push p) (node_provided n) idx) ns idx) \<and>
      entries_at (fold (\<lambda>(p, n) idx. fold (entry_push p) (node_provided n) idx) ns idx) k =
        entries_at idx k @ filter (\<lambda>(_, i). interface_key i = k) (flat ns)" for idx
  proof (induction ns arbitrary: idx)
    case Nil
    then show ?case by (simp add: flat_def)
  next
    case (Cons e ns)
    obtain p n where e: "e = (p, n)" by (cases e)
    note st = entry_push_fold [OF Cons.prems, of p "node_provided n"]
    from Cons.IH [of "fold (entry_push p) (node_provided n) idx"] st [of k]
    show ?case by (simp add: e flat_def)
  qed
  from this [of "[]"] show ?thesis
    by (simp add: build_index_def index_ok_def entries_at_def)
qed

lemma index_lookup:
  "map_of (build_index ns) k =
    (case filter (\<lambda>(_, i). interface_key i = k) (flat ns) of [] \<Rightarrow> None | x # xs \<Rightarrow> Some (x # xs))"
proof -
  have "map_of (build_index ns) k \<noteq> Some []"
    using build_index_spec [of ns k] unfolding index_ok_def by blast
  then show ?thesis
    using conjunct2 [OF build_index_spec [of ns k]] unfolding entries_at_def
    by (cases "map_of (build_index ns) k") (auto split: list.splits)
qed

lemma flat_sorted:
  assumes "nodes_ok ns"
  shows "sorted_wrt (<) (flat ns)"
proof -
  have "bt_ok ns \<Longrightarrow> \<forall>(p, n) \<in> set ns. bs_ok (node_provided n) \<Longrightarrow> sorted_wrt (<) (flat ns)" for ns
  proof (induction ns)
    case (Cons e ns)
    obtain p n where e: "e = (p, n)" by (cases e)
    have "sorted_wrt (<) (map (Pair p) (node_provided n))"
      using Cons.prems(2) by (auto simp: e bs_ok_def sorted_wrt_map less_prod_def)
    moreover have "sorted_wrt (<) (flat ns)" using Cons by (auto simp: bt_ok_Cons)
    moreover have "(p, i) < (q, j)" if "(q, j) \<in> set (flat ns)" for i q j
    proof -
      from that have "q \<in> fst ` set ns" by (force simp: flat_def)
      with Cons.prems(1) show ?thesis by (auto simp: bt_ok_Cons e less_prod_def)
    qed
    moreover have "flat (e # ns) = map (Pair p) (node_provided n) @ flat ns"
      by (simp add: flat_def e)
    ultimately show ?case by (auto simp only: sorted_wrt_append set_map)
  qed (simp add: flat_def)
  moreover have "\<forall>(p, n) \<in> set ns. bs_ok (node_provided n)" using assms by (auto simp: nodes_ok_def)
  ultimately show ?thesis using assms by (simp add: nodes_ok_def)
qed

lemma push_distinct_spec:
  assumes "sorted ps" "sorted_wrt (<) ds" "\<forall>d \<in> set ds. \<forall>p \<in> set ps. d \<le> p"
  shows "sorted_wrt (<) (push_distinct ds ps) \<and> set (push_distinct ds ps) = set ds \<union> set ps"
  using assms
proof (induction ps arbitrary: ds)
  case Nil
  then show ?case by simp
next
  case (Cons p ps)
  let ?ds = "if ds \<noteq> [] \<and> last ds = p then ds else ds @ [p]"
  have "sorted_wrt (<) ?ds"
  proof (cases "ds \<noteq> [] \<and> last ds = p")
    case False
    have "d < p" if d: "d \<in> set ds" for d
    proof -
      have "d \<le> last ds" using Cons.prems(2) d by (cases ds rule: rev_cases) (auto simp: sorted_wrt_append)
      moreover have "last ds \<le> p" "last ds \<noteq> p" using Cons.prems(3) d False by (cases ds; auto)+
      ultimately show ?thesis by simp
    qed
    with False Cons.prems(2) show ?thesis by (auto simp: sorted_wrt_append)
  qed (use Cons.prems in simp)
  moreover have "\<forall>d \<in> set ?ds. \<forall>q \<in> set ps. d \<le> q" using Cons.prems(1,3) by auto
  moreover have "set ?ds = insert p (set ds)" by (auto dest: last_in_set)
  ultimately show ?case using Cons.IH [of ?ds] Cons.prems(1) by auto
qed

lemma highest_of_all:
  "\<forall>e \<in> set es. fst e = p \<Longrightarrow> highest_of p h es = (if es = [] then h else Some (snd (last es)))"
  by (induction es arbitrary: h) auto

text \<open>The providers that satisfy a requirement, with the satisfying interface.\<close>

definition offers ::
  "(VersionReq \<Rightarrow> SemVersion \<Rightarrow> bool) \<Rightarrow> nodes \<Rightarrow> InterfaceRequirement \<Rightarrow> ProviderId \<Rightarrow> InterfaceId \<Rightarrow> bool" where
  "offers vmatches ns r p i \<longleftrightarrow>
     (\<exists>n. (p, n) \<in> set ns \<and> i \<in> set (node_provided n)) \<and> satisfied_by vmatches r i"

definition exports :: "nodes \<Rightarrow> ProviderId \<Rightarrow> InterfaceId \<Rightarrow> bool" where
  "exports ns p i \<longleftrightarrow> (\<exists>n. (p, n) \<in> set ns \<and> i \<in> set (node_provided n))"

lemma set_flat: "(p, i) \<in> set (flat ns) \<longleftrightarrow> exports ns p i"
  by (force simp: flat_def exports_def)

definition satisfying :: "(VersionReq \<Rightarrow> SemVersion \<Rightarrow> bool) \<Rightarrow> nodes \<Rightarrow> InterfaceRequirement \<Rightarrow>
    (ProviderId \<times> InterfaceId) list" where
  "satisfying vmatches ns r = filter (\<lambda>(_, i). satisfied_by vmatches r i) (flat ns)"

lemma set_satisfying: "(p, i) \<in> set (satisfying vmatches ns r) \<longleftrightarrow> offers vmatches ns r p i"
  by (auto simp: satisfying_def set_flat offers_def exports_def)

abbreviation requirement_key :: "InterfaceRequirement \<Rightarrow> PackageName \<times> InterfaceName" where
  "requirement_key r \<equiv> (rq_package r, rq_interface r)"

lemma resolve_cases:
  assumes "nodes_ok ns"
  shows "resolve vmatches (build_index ns) c r =
    (let same = filter (\<lambda>(_, i). interface_key i = requirement_key r) (flat ns);
         compatible = satisfying vmatches ns r;
         ds = push_distinct [] (map fst compatible) in
     if same = [] then Some (Inl (MissingProvider c r))
     else if compatible = [] then Some (Inl (IncompatibleVersion c r (map (\<lambda>(p, i). (p, id_version i)) same)))
     else if length ds > 1 then Some (Inl (AmbiguousProvider c r ds))
     else Some (Inr (last compatible)))"
proof -
  let ?same = "filter (\<lambda>(_, i). interface_key i = requirement_key r) (flat ns)"
  let ?comp = "satisfying vmatches ns r"
  let ?ds = "push_distinct [] (map fst ?comp)"
  have comp: "filter (\<lambda>(_, i). satisfied_by vmatches r i) ?same = ?comp"
    by (auto simp: satisfying_def satisfied_by_def intro!: filter_cong)
  have "sorted_wrt (<) ?comp"
    unfolding satisfying_def by (rule sorted_wrt_filter [OF flat_sorted [OF assms(1)]])
  then have "sorted (map fst ?comp)"
    by (auto simp: sorted_wrt_map less_prod_def elim!: sorted_wrt_mono_rel [rotated])
  then have ds: "set ?ds = fst ` set ?comp"
    using push_distinct_spec [of "map fst ?comp" "[]"] by simp
  have one: "highest_of (last ?ds) None ?comp = Some (snd (last ?comp)) \<and> last ?ds = fst (last ?comp)"
    if "?comp \<noteq> []" "\<not> length ?ds > 1"
  proof -
    have "?ds \<noteq> []" using ds that(1) by (metis image_is_empty list.set(1) set_empty)
    with that(2) obtain p where p: "?ds = [p]" by (cases ?ds; cases "tl ?ds") auto
    then have "\<forall>e \<in> set ?comp. fst e = p" using ds by auto
    then show ?thesis using that(1) by (simp add: p highest_of_all)
  qed
  have "?ds = [] \<longleftrightarrow> ?comp = []" using ds by (metis image_is_empty list.set(1) set_empty)
  note ds_Nil = this
  show ?thesis
  proof (cases ?same)
    case Nil
    then show ?thesis by (simp add: resolve_def index_lookup)
  next
    case (Cons x xs)
    then have "map_of (build_index ns) (requirement_key r) = Some ?same"
      by (simp add: index_lookup)
    then have "resolve vmatches (build_index ns) c r =
        (if ?comp = [] then Some (Inl (IncompatibleVersion c r (map (\<lambda>(p, i). (p, id_version i)) ?same)))
         else if length ?ds > 1 then Some (Inl (AmbiguousProvider c r ?ds))
         else if ?ds = [] then None
         else (case highest_of (last ?ds) None ?comp of None \<Rightarrow> None | Some i \<Rightarrow> Some (Inr (last ?ds, i))))"
      by (simp only: resolve_def option.case comp Let_def)
    also have "\<dots> = (if ?comp = [] then Some (Inl (IncompatibleVersion c r (map (\<lambda>(p, i). (p, id_version i)) ?same)))
         else if length ?ds > 1 then Some (Inl (AmbiguousProvider c r ?ds))
         else Some (Inr (last ?comp)))"
    proof (cases "?comp = [] \<or> length ?ds > 1")
      case True
      then show ?thesis by auto
    next
      case False
      then have "?comp \<noteq> []" "\<not> length ?ds > 1" by blast+
      note nb = this
      from one [OF this] have h: "highest_of (last ?ds) None ?comp = Some (snd (last ?comp))"
        and l: "last ?ds = fst (last ?comp)" by blast+
      have "?ds \<noteq> []" using nb(1) ds_Nil by blast
      with nb show ?thesis unfolding h by (simp add: l)
    qed
    finally show ?thesis using Cons by (simp only: Let_def list.distinct if_False simp_thms)
  qed
qed

lemma satisfying_facts:
  assumes "nodes_ok ns"
  shows "sorted (map fst (satisfying vmatches ns r))"
    and "set (push_distinct [] (map fst (satisfying vmatches ns r))) = {p. \<exists>i. offers vmatches ns r p i}"
    and "sorted_wrt (<) (push_distinct [] (map fst (satisfying vmatches ns r)))"
    and "sorted_wrt (<) (satisfying vmatches ns r)"
proof -
  show so: "sorted_wrt (<) (satisfying vmatches ns r)"
    unfolding satisfying_def by (rule sorted_wrt_filter [OF flat_sorted [OF assms]])
  then show s: "sorted (map fst (satisfying vmatches ns r))"
    by (auto simp: sorted_wrt_map less_prod_def elim!: sorted_wrt_mono_rel [rotated])
  have "fst ` set (satisfying vmatches ns r) = {p. \<exists>i. offers vmatches ns r p i}"
    by (force simp: set_satisfying [symmetric])
  then show "set (push_distinct [] (map fst (satisfying vmatches ns r))) = {p. \<exists>i. offers vmatches ns r p i}"
    and "sorted_wrt (<) (push_distinct [] (map fst (satisfying vmatches ns r)))"
    using push_distinct_spec [OF s, of "[]"] by simp_all
qed

text \<open>A satisfying interface has the name of the requirement, so versions decide between two.\<close>

lemma offers_same:
  assumes "offers vmatches ns r p i" "offers vmatches ns r q j"
  shows "i \<le> j \<longleftrightarrow> id_version i \<le> id_version j"
proof (rule less_eq_InterfaceId_same)
  show "id_package i = id_package j" "id_interface i = id_interface j"
    using assms unfolding offers_def satisfied_by_def by metis+
qed

definition sole_highest ::
  "(VersionReq \<Rightarrow> SemVersion \<Rightarrow> bool) \<Rightarrow> nodes \<Rightarrow> InterfaceRequirement \<Rightarrow> ProviderId \<Rightarrow> InterfaceId \<Rightarrow> bool" where
  "sole_highest vmatches ns r p i \<longleftrightarrow>
     offers vmatches ns r p i \<and>
     (\<forall>q j. offers vmatches ns r q j \<longrightarrow> q = p \<and> id_version j \<le> id_version i)"

lemma sole_highest_unique:
  assumes "sole_highest vmatches ns r p i" "sole_highest vmatches ns r q j"
  shows "q = p \<and> j = i"
proof -
  from assms have o: "offers vmatches ns r p i" "offers vmatches ns r q j" "q = p"
    "id_version i = id_version j"
    unfolding sole_highest_def by (blast intro: order.antisym)+
  then have "i = j" using offers_same [OF o(1,2)] offers_same [OF o(2,1)] by (intro order.antisym) simp_all
  with o show ?thesis by simp
qed

lemma resolve_sole_highest:
  assumes ok: "nodes_ok ns"
  shows "resolve vmatches (build_index ns) c r = Some (Inr (p, i)) \<longleftrightarrow> sole_highest vmatches ns r p i"
proof
  let ?comp = "satisfying vmatches ns r" and ?ds = "push_distinct [] (map fst (satisfying vmatches ns r))"
  note ds = satisfying_facts [OF ok, of vmatches r]
  have sole: "sole_highest vmatches ns r (fst (last ?comp)) (snd (last ?comp))"
    if ne: "?comp \<noteq> []" and le: "\<not> length ?ds > 1"
  proof -
    let ?p = "fst (last ?comp)" and ?i = "snd (last ?comp)"
    have o: "offers vmatches ns r ?p ?i" using ne by (simp add: set_satisfying [symmetric])
    have one: "q = q'" if "q \<in> set ?ds" "q' \<in> set ?ds" for q q'
      using le that by (cases ?ds; cases "tl ?ds") auto
    have "q = ?p \<and> id_version j \<le> id_version ?i" if j: "offers vmatches ns r q j" for q j
    proof -
      have q: "q = ?p" using one o j ds(2) by blast
      have "(q, j) \<in> set ?comp" using j by (simp add: set_satisfying)
      then have "(q, j) \<le> (?p, ?i)" using ds(4) ne
        by (cases ?comp rule: rev_cases) (auto simp: sorted_wrt_append intro: less_imp_le)
      with q have "j \<le> ?i" by (auto simp: less_eq_prod_def)
      with q offers_same [OF j o] show ?thesis by simp
    qed
    with o show ?thesis unfolding sole_highest_def by blast
  qed
  have nds: "\<not> length ?ds > 1" if "sole_highest vmatches ns r p i"
  proof -
    have "set ?ds \<subseteq> {p}" using that unfolding ds(2) sole_highest_def by blast
    then have "card (set ?ds) \<le> card {p}" by (intro card_mono) simp_all
    moreover have "card (set ?ds) = length ?ds"
      using ds(3) by (intro distinct_card) (simp add: strict_sorted_iff)
    ultimately show ?thesis by simp
  qed
  show "resolve vmatches (build_index ns) c r = Some (Inr (p, i)) \<Longrightarrow> sole_highest vmatches ns r p i"
    using sole unfolding resolve_cases [OF ok] by (auto simp: Let_def split: if_splits)
  show "resolve vmatches (build_index ns) c r = Some (Inr (p, i))" if h: "sole_highest vmatches ns r p i"
  proof -
    have mem: "(p, i) \<in> set ?comp" using h by (simp add: set_satisfying sole_highest_def)
    then have ne: "?comp \<noteq> []" by auto
    have "last ?comp = (p, i)"
      using sole_highest_unique [OF h sole [OF ne nds [OF h]]] by (metis prod.collapse)
    moreover have "filter (\<lambda>(_, i). interface_key i = requirement_key r) (flat ns) \<noteq> []"
      using mem by (auto simp: satisfying_def satisfied_by_def filter_empty_conv)
    ultimately show ?thesis
      using ne nds [OF h] unfolding resolve_cases [OF ok] by (simp add: Let_def)
  qed
qed

lemma resolve_total: "nodes_ok ns \<Longrightarrow> resolve vmatches (build_index ns) c r \<noteq> None"
  unfolding resolve_cases by (simp add: Let_def)

text \<open>The three ways a requirement fails.\<close>

lemma resolve_error:
  assumes ok: "nodes_ok ns" and err: "resolve vmatches (build_index ns) c r = Some (Inl e)"
  shows "(e = MissingProvider c r \<and> (\<nexists>p i. exports ns p i \<and> interface_key i = requirement_key r)) \<or>
    ((\<exists>cands. e = IncompatibleVersion c r cands \<and>
       set cands = {(p, id_version i) | p i. exports ns p i \<and> interface_key i = requirement_key r}) \<and>
     (\<exists>p i. exports ns p i \<and> interface_key i = requirement_key r) \<and> (\<nexists>p i. offers vmatches ns r p i)) \<or>
    (\<exists>cands. e = AmbiguousProvider c r cands \<and> sorted_wrt (<) cands \<and>
       set cands = {p. \<exists>i. offers vmatches ns r p i} \<and> length cands > 1)"
proof -
  let ?same = "filter (\<lambda>(_, i). interface_key i = requirement_key r) (flat ns)"
  let ?comp = "satisfying vmatches ns r" and ?ds = "push_distinct [] (map fst (satisfying vmatches ns r))"
  have same: "(p, i) \<in> set ?same \<longleftrightarrow> exports ns p i \<and> interface_key i = requirement_key r" for p i
    by (simp add: set_flat)
  have none: "?same = [] \<longleftrightarrow> (\<nexists>p i. exports ns p i \<and> interface_key i = requirement_key r)"
    by (auto simp: filter_empty_conv set_flat)
  have comp: "?comp = [] \<longleftrightarrow> (\<nexists>p i. offers vmatches ns r p i)"
    unfolding set_satisfying [symmetric] by (cases ?comp) auto
  have cands: "set (map (\<lambda>(p, i). (p, id_version i)) ?same) =
      {(p, id_version i) | p i. exports ns p i \<and> interface_key i = requirement_key r}"
    unfolding set_map by (auto simp: image_iff set_flat)
  consider "?same = []" "e = MissingProvider c r"
    | "?same \<noteq> []" "?comp = []" "e = IncompatibleVersion c r (map (\<lambda>(p, i). (p, id_version i)) ?same)"
    | "length ?ds > 1" "e = AmbiguousProvider c r ?ds"
    using err unfolding resolve_cases [OF ok] Let_def by (auto split: if_splits)
  then show ?thesis
  proof cases
    case 1
    then show ?thesis using none by blast
  next
    case 2
    then show ?thesis using none comp cands by blast
  next
    case 3
    then show ?thesis using satisfying_facts(2,3) [OF ok, of vmatches r] by blast
  qed
qed

section \<open>Construction\<close>

text \<open>What the records say, independently of the order of the lists.\<close>

definition records_ok :: "ProviderRecord list \<Rightarrow> ConsumerRecord list \<Rightarrow> bool" where
  "records_ok ps cs \<longleftrightarrow>
     (\<forall>r \<in> set ps. bs_ok (rec_provided r)) \<and> (\<forall>c \<in> set cs. bs_ok (con_required c))"

definition records_distinct :: "ProviderRecord list \<Rightarrow> ConsumerRecord list \<Rightarrow> bool" where
  "records_distinct ps cs \<longleftrightarrow> distinct (map provider_id ps) \<and> distinct (map con_installation cs)"

definition record_offers ::
  "(VersionReq \<Rightarrow> SemVersion \<Rightarrow> bool) \<Rightarrow> ProviderRecord list \<Rightarrow> InterfaceRequirement \<Rightarrow> ProviderId \<Rightarrow>
   InterfaceId \<Rightarrow> bool" where
  "record_offers vmatches ps r p i \<longleftrightarrow>
     (\<exists>rec \<in> set ps. provider_id rec = p \<and> i \<in> set (rec_provided rec)) \<and> satisfied_by vmatches r i"

definition resolves_to ::
  "(VersionReq \<Rightarrow> SemVersion \<Rightarrow> bool) \<Rightarrow> ProviderRecord list \<Rightarrow> InterfaceRequirement \<Rightarrow> ProviderId \<Rightarrow>
   InterfaceId \<Rightarrow> bool" where
  "resolves_to vmatches ps r p i \<longleftrightarrow>
     record_offers vmatches ps r p i \<and>
     (\<forall>q j. record_offers vmatches ps r q j \<longrightarrow> q = p \<and> id_version j \<le> id_version i)"

definition needs :: "ConsumerRecord list \<Rightarrow> (InstallationId \<times> InterfaceRequirement) set" where
  "needs cs = {(con_installation c, r) | c r. c \<in> set cs \<and> r \<in> set (con_required c)}"

definition dependencies ::
  "(VersionReq \<Rightarrow> SemVersion \<Rightarrow> bool) \<Rightarrow> ProviderRecord list \<Rightarrow> ConsumerRecord list \<Rightarrow>
   (InstallationId \<times> InstallationId) set" where
  "dependencies vmatches ps cs =
     {(c, installation_of p) | c r p i. (c, r) \<in> needs cs \<and> resolves_to vmatches ps r p i}"

lemma nodes_of_records:
  assumes "build_unique provider_id from_record ps [] = Inr ns" "records_ok ps cs"
  shows "nodes_ok ns" and "offers vmatches ns = record_offers vmatches ps"
    and "fst ` set ns = provider_id ` set ps"
proof -
  note bu = build_unique_ok [OF assms(1)]
  show "nodes_ok ns"
    using bu(1) assms(2)
    by (auto simp: nodes_ok_def bu(4) from_record_def records_ok_def provider_id_def)
  show "offers vmatches ns = record_offers vmatches ps"
    by (auto simp: fun_eq_iff offers_def record_offers_def bu(4) from_record_def)
  show "fst ` set ns = provider_id ` set ps" by (rule bu(3))
qed

lemma requirements_of_records:
  assumes "build_unique con_installation con_required cs [] = Inr consumers"
  shows "set (requirements consumers) = needs cs"
proof -
  have "(c, r) \<in> set (requirements consumers) \<longleftrightarrow> (\<exists>rs. (c, rs) \<in> set consumers \<and> r \<in> set rs)" for c r
    by (force simp: requirements_def)
  then show ?thesis by (auto simp: build_unique_ok(4) [OF assms] needs_def)
qed

definition mk_edge :: "InstallationId \<Rightarrow> InterfaceRequirement \<Rightarrow> ProviderId \<Rightarrow> InterfaceId \<Rightarrow> ResolvedEdge" where
  "mk_edge c r p i = \<lparr>edge_consumer = c, edge_requirement = r, edge_provider = p, edge_provided = i\<rparr>"

lemma mk_edge_sel [simp]:
  "edge_consumer (mk_edge c r p i) = c" "edge_requirement (mk_edge c r p i) = r"
  "edge_provider (mk_edge c r p i) = p" "edge_provided (mk_edge c r p i) = i"
  by (simp_all add: mk_edge_def)

lemma resolve_all_Inr:
  assumes "nodes_ok ns" "bt_ok es" "resolve_all vmatches (build_index ns) todo es = Some (Inr es')"
  shows "bt_ok es' \<and> (\<forall>(c, r) \<in> set todo. \<exists>p i. sole_highest vmatches ns r p i) \<and>
    (\<forall>c r e. map_of es' (c, r) = Some e \<longleftrightarrow>
      (if (c, r) \<in> set todo then \<exists>p i. sole_highest vmatches ns r p i \<and> e = mk_edge c r p i
       else map_of es (c, r) = Some e))"
  using assms(2,3)
proof (induction vmatches "build_index ns" todo es rule: resolve_all.induct)
  case (2 vmatches c r rest es)
  then obtain p i where res: "resolve vmatches (build_index ns) c r = Some (Inr (p, i))"
    and rec: "resolve_all vmatches (build_index ns) rest (bt_insert (c, r) (mk_edge c r p i) es) = Some (Inr es')"
    by (auto simp: mk_edge_def split: option.splits sum.splits)
  have sole: "sole_highest vmatches ns r p i" using res resolve_sole_highest [OF assms(1)] by blast
  have "\<And>q j. sole_highest vmatches ns r q j \<longleftrightarrow> q = p \<and> j = i"
    using sole sole_highest_unique by blast
  moreover note "2.hyps" [OF res refl refl bt_ok_insert [OF "2.prems"(1)]
      rec [unfolded mk_edge_def]]
  ultimately show ?case
    using sole by (auto simp: map_of_bt_insert [OF "2.prems"(1)] mk_edge_def [symmetric] split: if_splits;
        blast)
qed auto

lemma resolve_all_Ok_iff:
  assumes "nodes_ok ns"
  shows "(\<exists>es'. resolve_all vmatches (build_index ns) todo es = Some (Inr es')) \<longleftrightarrow>
    (\<forall>(c, r) \<in> set todo. \<exists>p i. sole_highest vmatches ns r p i)"
proof (induction todo arbitrary: es)
  case (Cons t rest)
  obtain c r where t: "t = (c, r)" by (cases t)
  show ?case
  proof (cases "\<exists>p i. resolve vmatches (build_index ns) c r = Some (Inr (p, i))")
    case True
    then obtain p i where res: "resolve vmatches (build_index ns) c r = Some (Inr (p, i))" by blast
    then have "sole_highest vmatches ns r p i" using resolve_sole_highest [OF assms] by blast
    with res Cons.IH show ?thesis by (auto simp: t)
  next
    case False
    then have "\<not> (\<exists>p i. sole_highest vmatches ns r p i)" using resolve_sole_highest [OF assms] by blast
    moreover have "resolve_all vmatches (build_index ns) (t # rest) es \<noteq> Some (Inr es')" for es'
      using False by (auto simp: t split: option.splits sum.splits)
    ultimately show ?thesis by (auto simp: t)
  qed
qed simp

lemma resolve_all_total:
  assumes "nodes_ok ns"
  shows "resolve_all vmatches (build_index ns) todo es \<noteq> None"
proof (induction todo arbitrary: es)
  case (Cons t rest)
  obtain c r where t: "t = (c, r)" by (cases t)
  have "resolve vmatches (build_index ns) c r \<noteq> None" by (rule resolve_total [OF assms])
  with Cons.IH show ?case by (auto simp: t split: sum.splits)
qed simp

text \<open>The edges that the constructor hands to the ordering satisfy its precondition.\<close>

lemma edges_graph_ok:
  assumes "nodes_ok ns" "resolve_all vmatches (build_index ns) todo [] = Some (Inr es)"
  shows "graph_ok ns es"
    and "depends_on es = {(c, installation_of p) | c r p i. (c, r) \<in> set todo \<and> sole_highest vmatches ns r p i}"
    and "(edge_consumer \<circ> snd) ` set es = fst ` set todo"
proof -
  note ra = resolve_all_Inr [OF assms(1) bt_ok_Nil assms(2)]
  have mem: "(k, e) \<in> set es \<longleftrightarrow>
      (\<exists>c r p i. k = (c, r) \<and> (c, r) \<in> set todo \<and> sole_highest vmatches ns r p i \<and> e = mk_edge c r p i)" for k e
    using ra bt_ok_map_of [of es k e] by (cases k) (auto split: if_splits)
  have "p \<in> fst ` set ns" if "sole_highest vmatches ns r p i" for r p i
    using that unfolding sole_highest_def offers_def by force
  with assms(1) show "graph_ok ns es"
    by (auto simp: graph_ok_def nodes_ok_def mem)
  show "depends_on es = {(c, installation_of p) | c r p i. (c, r) \<in> set todo \<and> sole_highest vmatches ns r p i}"
  proof (intro set_eqI iffI)
    fix x assume "x \<in> depends_on es"
    then show "x \<in> {(c, installation_of p) | c r p i. (c, r) \<in> set todo \<and> sole_highest vmatches ns r p i}"
      unfolding depends_on_def mem by auto blast
  next
    fix x assume "x \<in> {(c, installation_of p) | c r p i. (c, r) \<in> set todo \<and> sole_highest vmatches ns r p i}"
    then obtain c r p i where x: "x = (c, installation_of p)" "(c, r) \<in> set todo" "sole_highest vmatches ns r p i"
      by blast
    then have "((c, r), mk_edge c r p i) \<in> set es" using mem by blast
    then show "x \<in> depends_on es" unfolding depends_on_def x by force
  qed
  show "(edge_consumer \<circ> snd) ` set es = fst ` set todo"
  proof (rule set_eqI)
    fix c
    have "c \<in> (edge_consumer \<circ> snd) ` set es \<longleftrightarrow> (\<exists>k e. (k, e) \<in> set es \<and> edge_consumer e = c)" by force
    also have "\<dots> \<longleftrightarrow> (\<exists>r p i. (c, r) \<in> set todo \<and> sole_highest vmatches ns r p i)"
      unfolding mem by (metis mk_edge_sel(1))
    also have "\<dots> \<longleftrightarrow> (\<exists>r. (c, r) \<in> set todo)" using ra by blast
    finally show "c \<in> (edge_consumer \<circ> snd) ` set es \<longleftrightarrow> c \<in> fst ` set todo" by force
  qed
qed

section \<open>The constructor as a whole\<close>

lemma try_build_cases:
  assumes ok: "records_ok ps cs" and d: "records_distinct ps cs"
  obtains ns consumers where "build_unique provider_id from_record ps [] = Inr ns"
    and "build_unique con_installation con_required cs [] = Inr consumers"
    and "nodes_ok ns" and "sole_highest vmatches ns = resolves_to vmatches ps"
    and "fst ` set ns = provider_id ` set ps" and "set (requirements consumers) = needs cs"
proof -
  from d obtain ns consumers where b: "build_unique provider_id from_record ps [] = Inr ns"
    "build_unique con_installation con_required cs [] = Inr consumers"
    by (auto simp: records_distinct_def build_unique_empty_iff)
  note nr = nodes_of_records [OF b(1) ok]
  have "sole_highest vmatches ns = resolves_to vmatches ps"
    by (simp add: fun_eq_iff sole_highest_def resolves_to_def nr(2))
  with that b nr(1,3) requirements_of_records [OF b(2)] show ?thesis by blast
qed

text \<open>The installations that take part: providers, and consumers with a requirement.\<close>

definition involved :: "ProviderRecord list \<Rightarrow> ConsumerRecord list \<Rightarrow> InstallationId set" where
  "involved ps cs = rec_installation ` set ps \<union> fst ` needs cs"

lemma try_build_resolved:
  assumes ok: "records_ok ps cs" and d: "records_distinct ps cs"
    and all: "\<forall>(c, r) \<in> needs cs. \<exists>p i. resolves_to vmatches ps r p i"
  shows "(\<exists>g. try_build vmatches ps cs = Some (Inr g) \<and> acyclic (dependencies vmatches ps cs) \<and>
      distinct (topological_order g) \<and> set (topological_order g) = involved ps cs \<and>
      preds_first ((dependencies vmatches ps cs)\<inverse>) (topological_order g) \<and>
      fst ` set (providers g) = provider_id ` set ps \<and> nodes_ok (providers g) \<and> bt_ok (graph_edges g) \<and>
      (\<forall>c r e. graph_resolve g c r = Some e \<longleftrightarrow>
        (c, r) \<in> needs cs \<and> (\<exists>p i. resolves_to vmatches ps r p i \<and> e = mk_edge c r p i))) \<or>
    (\<exists>cycle. try_build vmatches ps cs = Some (Inl (CycleDetected cycle)) \<and>
      \<not> acyclic (dependencies vmatches ps cs) \<and>
      closed_path {(p, q). (installation_of p, installation_of q) \<in> dependencies vmatches ps cs} cycle)"
proof -
  from try_build_cases [OF ok d, of vmatches] obtain ns consumers where
    b: "build_unique provider_id from_record ps [] = Inr ns"
    "build_unique con_installation con_required cs [] = Inr consumers"
    and ns: "nodes_ok ns" and sole: "sole_highest vmatches ns = resolves_to vmatches ps"
    and dom: "fst ` set ns = provider_id ` set ps" and req: "set (requirements consumers) = needs cs" .
  from all obtain es where ra: "resolve_all vmatches (build_index ns) (requirements consumers) [] = Some (Inr es)"
    using resolve_all_Ok_iff [OF ns, of vmatches "requirements consumers" "[]"] unfolding sole req by blast
  note go = edges_graph_ok [OF ns ra, unfolded sole req]
  have dep: "depends_on es = dependencies vmatches ps cs" unfolding go(2) dependencies_def ..
  have part: "set (participants ns es) = involved ps cs"
  proof -
    have "installation_of ` fst ` set ns = rec_installation ` set ps"
      unfolding dom by (simp add: image_image provider_id_def)
    then show ?thesis unfolding participants_facts(2) [OF go(1)] go(3) involved_def by simp
  qed
  have edges: "bt_ok es" "\<And>c r e. map_of es (c, r) = Some e \<longleftrightarrow>
      (c, r) \<in> needs cs \<and> (\<exists>p i. resolves_to vmatches ps r p i \<and> e = mk_edge c r p i)"
    using resolve_all_Inr [OF ns bt_ok_Nil ra] unfolding sole req by auto
  have tb: "try_build vmatches ps cs = (case compute_activation_order ns es of
      None \<Rightarrow> None | Some (Inl cycle) \<Rightarrow> Some (Inl (CycleDetected cycle))
    | Some (Inr order) \<Rightarrow> Some (Inr \<lparr>providers = ns, graph_edges = es, topological_order = order\<rparr>))"
    by (simp add: try_build_def b ra)
  from compute_activation_order_correct [OF go(1)] show ?thesis
    unfolding dep part
  proof (elim disjE exE conjE)
    fix order assume "compute_activation_order ns es = Some (Inr order)" "distinct order"
      "set order = involved ps cs" "preds_first ((dependencies vmatches ps cs)\<inverse>) order"
      "acyclic (dependencies vmatches ps cs)"
    then show ?thesis using edges ns dom by (simp add: tb graph_resolve_def)
  next
    fix c assume "compute_activation_order ns es = Some (Inl c)" "\<not> acyclic (dependencies vmatches ps cs)"
      "closed_path {(p, q). (installation_of p, installation_of q) \<in> dependencies vmatches ps cs} c"
    then show ?thesis by (simp add: tb)
  qed
qed

lemma try_build_unresolved:
  assumes ok: "records_ok ps cs" and d: "records_distinct ps cs"
    and "\<not> (\<forall>(c, r) \<in> needs cs. \<exists>p i. resolves_to vmatches ps r p i)"
  shows "\<exists>c r e. try_build vmatches ps cs = Some (Inl e) \<and> (c, r) \<in> needs cs \<and>
    (\<nexists>p i. resolves_to vmatches ps r p i) \<and>
    (e = MissingProvider c r \<or> (\<exists>x. e = IncompatibleVersion c r x) \<or> (\<exists>x. e = AmbiguousProvider c r x))"
proof -
  from try_build_cases [OF ok d, of vmatches] obtain ns consumers where
    b: "build_unique provider_id from_record ps [] = Inr ns"
    "build_unique con_installation con_required cs [] = Inr consumers"
    and ns: "nodes_ok ns" and sole: "sole_highest vmatches ns = resolves_to vmatches ps"
    and req: "set (requirements consumers) = needs cs" .
  have first: "\<exists>c r. (c, r) \<in> set todo \<and> resolve vmatches (build_index ns) c r = Some (Inl e)"
    if "resolve_all vmatches (build_index ns) todo es = Some (Inl e)" for todo es e
    using that
  proof (induction todo arbitrary: es)
    case (Cons t rest)
    obtain c r where t: "t = (c, r)" by (cases t)
    show ?case
      using Cons.prems Cons.IH by (fastforce simp: t split: option.splits sum.splits)
  qed simp
  from assms(3) obtain e where e: "resolve_all vmatches (build_index ns) (requirements consumers) [] = Some (Inl e)"
    using resolve_all_Ok_iff [OF ns, of vmatches "requirements consumers" "[]"]
      resolve_all_total [OF ns, of vmatches "requirements consumers" "[]"] unfolding sole req
    by (metis option.exhaust sum.exhaust)
  from first [OF e] obtain c r where cr: "(c, r) \<in> needs cs" "resolve vmatches (build_index ns) c r = Some (Inl e)"
    unfolding req by blast
  then have "\<nexists>p i. resolves_to vmatches ps r p i"
    using resolve_sole_highest [OF ns, of vmatches c r] unfolding sole by simp
  moreover have "e = MissingProvider c r \<or> (\<exists>x. e = IncompatibleVersion c r x) \<or> (\<exists>x. e = AmbiguousProvider c r x)"
    using resolve_error [OF ns cr(2)] by blast
  ultimately show ?thesis using cr(1) e by (auto simp: try_build_def b)
qed

lemma try_build_duplicate:
  assumes "\<not> records_distinct ps cs"
  shows "(\<exists>p. try_build vmatches ps cs = Some (Inl (DuplicateProvider p))) \<or>
    (\<exists>c. try_build vmatches ps cs = Some (Inl (DuplicateConsumer c)))"
proof (cases "build_unique provider_id from_record ps []")
  case (Inl r)
  then show ?thesis by (simp add: try_build_def)
next
  case (Inr ns)
  then have "distinct (map provider_id ps)" by (simp add: build_unique_empty_iff)
  then have "\<not> distinct (map con_installation cs)" using assms by (simp add: records_distinct_def)
  then obtain c where "build_unique con_installation con_required cs [] = Inl c"
    by (cases "build_unique con_installation con_required cs []") (auto simp: build_unique_empty_iff)
  with Inr show ?thesis by (simp add: try_build_def)
qed

lemma try_build_built:
  assumes "records_ok ps cs" "try_build vmatches ps cs = Some (Inr g)"
  shows "records_distinct ps cs" and "\<forall>(c, r) \<in> needs cs. \<exists>p i. resolves_to vmatches ps r p i"
proof -
  show d: "records_distinct ps cs" using try_build_duplicate [of ps cs vmatches] assms(2) by auto
  show "\<forall>(c, r) \<in> needs cs. \<exists>p i. resolves_to vmatches ps r p i"
  proof (rule ccontr)
    assume "\<not> (\<forall>(c, r) \<in> needs cs. \<exists>p i. resolves_to vmatches ps r p i)"
    from try_build_unresolved [OF assms(1) d this] assms(2) show False by auto
  qed
qed

text \<open>The order of the records does not matter.\<close>

lemma try_build_reorder:
  assumes "records_distinct ps cs" "records_distinct ps' cs'" "set ps = set ps'" "set cs = set cs'"
  shows "try_build vmatches ps cs = try_build vmatches ps' cs'"
proof -
  have d: "distinct (map provider_id ps)" "distinct (map provider_id ps')"
    "distinct (map con_installation cs)" "distinct (map con_installation cs')"
    using assms by (simp_all add: records_distinct_def)
  have same: "build_unique key val rs [] = build_unique key val rs' []"
    if "distinct (map key rs)" "distinct (map key rs')" "set rs = set rs'"
    for key :: "'r \<Rightarrow> 'k::linorder" and val :: "'r \<Rightarrow> 'v" and rs rs'
  proof -
    have "build_unique key val rs [] = Inr (fold (\<lambda>r. bt_insert (key r) (val r)) rs [])"
      "build_unique key val rs' [] = Inr (fold (\<lambda>r. bt_insert (key r) (val r)) rs' [])"
      using that by (simp_all add: build_unique_empty_iff)
    with btree.entries_fold_perm [OF that, of val] show ?thesis by simp
  qed
  show ?thesis
    unfolding try_build_def same [OF d(1,2) assms(3)] same [OF d(3,4) assms(4)] ..
qed

section \<open>The upgrade analysis\<close>

lemma direct_consumers_spec:
  "bt_ok (graph_edges g) \<Longrightarrow> e \<in> set (direct_consumers g p) \<longleftrightarrow>
    edge_provider e = p \<and> (\<exists>c r. graph_resolve g c r = Some e)"
  by (force simp: direct_consumers_def graph_resolve_def bt_ok_map_of)

lemma direct_consumers_keys:
  assumes "bt_ok (graph_edges g)"
    and "\<And>c r e. graph_resolve g c r = Some e \<Longrightarrow> edge_consumer e = c \<and> edge_requirement e = r"
  shows "distinct (map (\<lambda>e. (edge_consumer e, edge_requirement e)) (direct_consumers g p))"
proof -
  have "(edge_consumer (snd k), edge_requirement (snd k)) = fst k" if "k \<in> set (graph_edges g)" for k
    using that assms(2) [of "fst (fst k)" "snd (fst k)" "snd k"] bt_ok_map_of [OF assms(1), of "fst k" "snd k"]
    by (simp add: graph_resolve_def)
  then have "map ((\<lambda>e. (edge_consumer e, edge_requirement e)) \<circ> snd) (graph_edges g) = map fst (graph_edges g)"
    by (intro map_cong) simp_all
  moreover have "distinct (map fst (graph_edges g))" by (rule bt_ok_distinct [OF assms(1)])
  ultimately have "distinct (map (\<lambda>e. (edge_consumer e, edge_requirement e)) (map snd (graph_edges g)))"
    by (simp only: map_map)
  then show ?thesis unfolding direct_consumers_def by (rule distinct_map_filter)
qed

text \<open>The verdict on one edge agrees with what a rebuilt graph can resolve at this provider.\<close>

lemma upgrade_impact_spec:
  assumes "bs_ok upgraded"
  shows "result (upgrade_impact vmatches upgraded e) = Compatible \<longleftrightarrow>
      (\<exists>i \<in> set upgraded. satisfied_by vmatches (edge_requirement e) i)"
    and "result (upgrade_impact vmatches upgraded e) = Incompatible InterfaceRemoved \<longleftrightarrow>
      (\<forall>i \<in> set upgraded. interface_key i \<noteq> requirement_key (edge_requirement e))"
    and "result (upgrade_impact vmatches upgraded e) = Incompatible (VersionIncompatible v) \<longleftrightarrow>
      (\<forall>i \<in> set upgraded. \<not> satisfied_by vmatches (edge_requirement e) i) \<and>
      (\<exists>i \<in> set upgraded. interface_key i = requirement_key (edge_requirement e) \<and> id_version i = v \<and>
         (\<forall>j \<in> set upgraded. interface_key j = requirement_key (edge_requirement e) \<longrightarrow> id_version j \<le> v))"
proof -
  let ?r = "edge_requirement e"
  let ?same = "filter (\<lambda>i. id_package i = rq_package ?r \<and> id_interface i = rq_interface ?r) upgraded"
  have sat: "filter (satisfied_by vmatches ?r) upgraded = [] \<longleftrightarrow>
      (\<forall>i \<in> set upgraded. \<not> satisfied_by vmatches ?r i)"
    by (simp add: filter_empty_conv)
  have same: "?same = [] \<longleftrightarrow> (\<forall>i \<in> set upgraded. interface_key i \<noteq> requirement_key ?r)"
    by (auto simp: filter_empty_conv)
  have last: "last ?same \<in> set ?same \<and> (\<forall>j \<in> set ?same. id_version j \<le> id_version (last ?same))" if "?same \<noteq> []"
  proof -
    have "sorted_wrt (<) ?same" using assms by (simp add: bs_ok_def sorted_wrt_filter)
    then have le: "\<forall>j \<in> set ?same. j \<le> last ?same"
      using that by (cases ?same rule: rev_cases) (auto simp: sorted_wrt_append intro: less_imp_le)
    have "last ?same \<in> set ?same" using that by (rule last_in_set)
    moreover have "id_version j \<le> id_version (last ?same)" if "j \<in> set ?same" for j
      using le that \<open>last ?same \<in> set ?same\<close> less_eq_InterfaceId_same [of j "last ?same"] by auto
    ultimately show ?thesis by blast
  qed
  show "result (upgrade_impact vmatches upgraded e) = Compatible \<longleftrightarrow>
      (\<exists>i \<in> set upgraded. satisfied_by vmatches ?r i)"
    by (simp add: upgrade_impact_def Let_def sat)
  show "result (upgrade_impact vmatches upgraded e) = Incompatible InterfaceRemoved \<longleftrightarrow>
      (\<forall>i \<in> set upgraded. interface_key i \<noteq> requirement_key ?r)"
    unfolding same [symmetric] by (auto simp: upgrade_impact_def Let_def filter_empty_conv satisfied_by_def)
  have "(\<exists>i \<in> set upgraded. interface_key i = requirement_key ?r \<and> id_version i = v \<and>
         (\<forall>j \<in> set upgraded. interface_key j = requirement_key ?r \<longrightarrow> id_version j \<le> v)) \<longleftrightarrow>
      ?same \<noteq> [] \<and> id_version (last ?same) = v"
  proof
    assume "\<exists>i \<in> set upgraded. interface_key i = requirement_key ?r \<and> id_version i = v \<and>
         (\<forall>j \<in> set upgraded. interface_key j = requirement_key ?r \<longrightarrow> id_version j \<le> v)"
    then obtain i where i: "i \<in> set ?same" "id_version i = v" "\<forall>j \<in> set ?same. id_version j \<le> v" by auto
    then have ne: "?same \<noteq> []" by (metis empty_iff list.set(1))
    from last [OF ne] i have "id_version (last ?same) = v" by (intro order.antisym) blast+
    with ne show "?same \<noteq> [] \<and> id_version (last ?same) = v" by blast
  next
    assume "?same \<noteq> [] \<and> id_version (last ?same) = v"
    with last show "\<exists>i \<in> set upgraded. interface_key i = requirement_key ?r \<and> id_version i = v \<and>
         (\<forall>j \<in> set upgraded. interface_key j = requirement_key ?r \<longrightarrow> id_version j \<le> v)"
      by (intro bexI [of _ "last ?same"]) auto
  qed
  then show "result (upgrade_impact vmatches upgraded e) = Incompatible (VersionIncompatible v) \<longleftrightarrow>
      (\<forall>i \<in> set upgraded. \<not> satisfied_by vmatches ?r i) \<and>
      (\<exists>i \<in> set upgraded. interface_key i = requirement_key ?r \<and> id_version i = v \<and>
         (\<forall>j \<in> set upgraded. interface_key j = requirement_key ?r \<longrightarrow> id_version j \<le> v))"
    by (auto simp: upgrade_impact_def Let_def sat)
qed

section \<open>Properties\<close>

text \<open>C4: Building the graph never reaches an \<open>unreachable!\<close> and never diverges: every list of records
  gives a graph or a typed error.\<close>

theorem try_build_total:
  assumes "records_ok ps cs"
  shows "try_build vmatches ps cs \<noteq> None"
proof (cases "records_distinct ps cs")
  case d: True
  show ?thesis
  proof (cases "\<forall>(c, r) \<in> needs cs. \<exists>p i. resolves_to vmatches ps r p i")
    case True
    from try_build_resolved [OF assms d True] show ?thesis by auto
  next
    case False
    from try_build_unresolved [OF assms d False] show ?thesis by auto
  qed
next
  case False
  with try_build_duplicate [OF False, of vmatches] show ?thesis by auto
qed

text \<open>A provider of one interface and a consumer of it; every version matches.\<close>

definition demo_interface :: InterfaceId where
  "demo_interface = InterfaceId (PackageName ''a:b'') (InterfaceName ''i'') (ComponentVersion 1 0 0)"

definition demo_requirement :: InterfaceRequirement where
  "demo_requirement = InterfaceRequirement (PackageName ''a:b'') (InterfaceName ''i'') (VersionReq ''*'')"

definition demo_providers :: "ProviderRecord list" where
  "demo_providers = [\<lparr>rec_installation = InstallationId 1, rec_provided = [demo_interface]\<rparr>]"

definition demo_consumers :: "InstallationId \<Rightarrow> ConsumerRecord list" where
  "demo_consumers i = [\<lparr>con_installation = i, con_required = [demo_requirement]\<rparr>]"

abbreviation any_version :: "VersionReq \<Rightarrow> SemVersion \<Rightarrow> bool" where
  "any_version \<equiv> \<lambda>_ _. True"

lemma demo_records_ok: "records_ok demo_providers (demo_consumers i)"
  by (simp add: records_ok_def demo_providers_def demo_consumers_def bs_ok_def)

lemma demo_records_distinct: "records_distinct demo_providers (demo_consumers i)"
  by (simp add: records_distinct_def demo_providers_def demo_consumers_def)

lemma demo_needs: "needs (demo_consumers i) = {(i, demo_requirement)}"
  by (auto simp: needs_def demo_consumers_def)

lemma demo_resolves:
  "resolves_to any_version demo_providers demo_requirement p j \<longleftrightarrow>
     p = from_installation (InstallationId 1) \<and> j = demo_interface"
proof -
  have "record_offers any_version demo_providers demo_requirement q i \<longleftrightarrow>
      from_installation (InstallationId 1) = q \<and> i = demo_interface" for q i
    by (auto simp: record_offers_def demo_providers_def provider_id_def satisfied_by_def
        demo_requirement_def demo_interface_def)
  then show ?thesis by (auto simp: resolves_to_def)
qed

lemma demo_all_resolved:
  "\<forall>(c, r) \<in> needs (demo_consumers i). \<exists>p j. resolves_to any_version demo_providers r p j"
  using demo_resolves by (auto simp: demo_needs)

lemma demo_dependencies: "dependencies any_version demo_providers (demo_consumers i) = {(i, InstallationId 1)}"
proof -
  have "dependencies any_version demo_providers (demo_consumers i) =
      {(c, installation_of p) | c r p j. (c, r) \<in> {(i, demo_requirement)} \<and>
        resolves_to any_version demo_providers r p j}"
    by (simp only: dependencies_def demo_needs)
  also have "\<dots> = {(i, installation_of p) | p j. resolves_to any_version demo_providers demo_requirement p j}"
    by blast
  also have "\<dots> = {(i, InstallationId 1)}" by (simp add: demo_resolves)
  finally show ?thesis .
qed

lemma demo_acyclic: "acyclic (dependencies any_version demo_providers (demo_consumers (InstallationId 2)))"
  by (simp add: demo_dependencies acyclic_insert wf_acyclic)

lemma demo_built: "\<exists>g. try_build any_version demo_providers (demo_consumers (InstallationId 2)) = Some (Inr g)"
  using try_build_resolved [OF demo_records_ok demo_records_distinct demo_all_resolved, of "InstallationId 2"]
    demo_acyclic by auto

lemma try_build_total_witness: "try_build any_version demo_providers (demo_consumers (InstallationId 2)) \<noteq> None"
  by (rule try_build_total [OF demo_records_ok])

text \<open>C2: A graph is built exactly when no record is repeated, every requirement has exactly one
  provider that exports a matching version of its interface, and the dependencies between the
  installations are acyclic.\<close>

theorem try_build_accepts_iff:
  assumes "records_ok ps cs"
  shows "(\<exists>g. try_build vmatches ps cs = Some (Inr g)) \<longleftrightarrow>
    records_distinct ps cs \<and> (\<forall>(c, r) \<in> needs cs. \<exists>p i. resolves_to vmatches ps r p i) \<and>
    acyclic (dependencies vmatches ps cs)"
proof (cases "records_distinct ps cs")
  case d: True
  show ?thesis
  proof (cases "\<forall>(c, r) \<in> needs cs. \<exists>p i. resolves_to vmatches ps r p i")
    case True
    from try_build_resolved [OF assms d True] d True show ?thesis by auto
  next
    case False
    from try_build_unresolved [OF assms d False] have "\<nexists>g. try_build vmatches ps cs = Some (Inr g)" by auto
    with False show ?thesis by blast
  qed
next
  case False
  from try_build_duplicate [OF False, of vmatches] False show ?thesis by auto
qed

lemma try_build_accepts_iff_witness:
  "\<exists>g. try_build any_version demo_providers (demo_consumers (InstallationId 2)) = Some (Inr g)"
  by (subst try_build_accepts_iff [OF demo_records_ok])
    (intro conjI demo_records_distinct demo_all_resolved demo_acyclic)

text \<open>C3: In a graph that was built, every requirement is resolved to the only provider that exports a
  matching version, at the highest matching version it exports; nothing else is resolved.\<close>

theorem try_build_resolution:
  assumes "records_ok ps cs" "try_build vmatches ps cs = Some (Inr g)"
  shows "graph_resolve g c r = Some e \<longleftrightarrow>
    (c, r) \<in> needs cs \<and> (\<exists>p i. resolves_to vmatches ps r p i \<and> e = mk_edge c r p i)"
proof -
  note built = try_build_built [OF assms]
  from try_build_resolved [OF assms(1) built] assms(2) show ?thesis by auto
qed

lemma try_build_resolution_witness:
  "\<exists>g. try_build any_version demo_providers (demo_consumers (InstallationId 2)) = Some (Inr g) \<and>
    graph_resolve g (InstallationId 2) demo_requirement =
      Some (mk_edge (InstallationId 2) demo_requirement (from_installation (InstallationId 1)) demo_interface)"
proof -
  obtain g where g: "try_build any_version demo_providers (demo_consumers (InstallationId 2)) = Some (Inr g)"
    using demo_built by blast
  with try_build_resolution [OF demo_records_ok g] show ?thesis
    by (auto simp: demo_needs demo_resolves)
qed

text \<open>C1: The activation order of a graph lists every installation that takes part exactly once, and
  every installation after all installations it depends on.\<close>

theorem activation_order_topological:
  assumes "records_ok ps cs" "try_build vmatches ps cs = Some (Inr g)"
  shows "distinct (topological_order g) \<and> set (topological_order g) = involved ps cs \<and>
    (\<forall>xs v ys. topological_order g = xs @ v # ys \<longrightarrow>
      (\<forall>u. (v, u) \<in> dependencies vmatches ps cs \<longrightarrow> u \<in> set xs))"
proof -
  note built = try_build_built [OF assms]
  from try_build_resolved [OF assms(1) built] assms(2) show ?thesis
    by (auto simp: preds_first_def)
qed

lemma activation_order_topological_witness:
  "\<exists>g. try_build any_version demo_providers (demo_consumers (InstallationId 2)) = Some (Inr g) \<and>
    distinct (topological_order g) \<and> set (topological_order g) = {InstallationId 1, InstallationId 2}"
proof -
  obtain g where g: "try_build any_version demo_providers (demo_consumers (InstallationId 2)) = Some (Inr g)"
    using demo_built by blast
  with activation_order_topological [OF demo_records_ok g] show ?thesis
    by (auto simp: involved_def demo_needs demo_providers_def)
qed

text \<open>When the dependencies are cyclic, and nothing else is wrong with the records, the error names
  a simple closed path of providers, each depending on the next.\<close>

theorem cycle_reported:
  assumes "records_ok ps cs" "records_distinct ps cs"
    and "\<forall>(c, r) \<in> needs cs. \<exists>p i. resolves_to vmatches ps r p i"
    and "\<not> acyclic (dependencies vmatches ps cs)"
  shows "\<exists>cycle. try_build vmatches ps cs = Some (Inl (CycleDetected cycle)) \<and>
    closed_path {(p, q). (installation_of p, installation_of q) \<in> dependencies vmatches ps cs} cycle"
  using try_build_resolved [OF assms(1-3)] assms(4) by auto

lemma cycle_reported_witness:
  "\<exists>cycle. try_build any_version demo_providers (demo_consumers (InstallationId 1)) = Some (Inl (CycleDetected cycle)) \<and>
    closed_path {(p, q). (installation_of p, installation_of q) \<in>
      dependencies any_version demo_providers (demo_consumers (InstallationId 1))} cycle"
  by (rule cycle_reported [OF demo_records_ok demo_records_distinct])
    (use demo_all_resolved demo_dependencies in \<open>auto simp: acyclic_def\<close>)

text \<open>A requirement that cannot be resolved stops the construction with an error that names it; the
  error tells the three cases apart: no exporter of the interface, exporters of other versions only,
  or several providers, which are listed in order.\<close>

theorem unresolved_reported:
  assumes "nodes_ok ns" "resolve vmatches (build_index ns) c r = Some (Inl e)"
  shows "(e = MissingProvider c r \<and> (\<nexists>p i. exports ns p i \<and> interface_key i = requirement_key r)) \<or>
    ((\<exists>cands. e = IncompatibleVersion c r cands \<and>
       set cands = {(p, id_version i) | p i. exports ns p i \<and> interface_key i = requirement_key r}) \<and>
     (\<exists>p i. exports ns p i \<and> interface_key i = requirement_key r) \<and> (\<nexists>p i. offers vmatches ns r p i)) \<or>
    (\<exists>cands. e = AmbiguousProvider c r cands \<and> sorted_wrt (<) cands \<and>
       set cands = {p. \<exists>i. offers vmatches ns r p i} \<and> length cands > 1)"
  by (rule resolve_error [OF assms])

lemma unresolved_reported_witness:
  "resolve any_version (build_index []) (InstallationId 1) demo_requirement =
    Some (Inl (MissingProvider (InstallationId 1) demo_requirement)) \<and>
    (\<nexists>p i. exports [] p i \<and> interface_key i = requirement_key demo_requirement)"
proof -
  have "resolve any_version (build_index []) (InstallationId 1) demo_requirement =
    Some (Inl (MissingProvider (InstallationId 1) demo_requirement))"
    by (simp add: resolve_def build_index_def)
  moreover from unresolved_reported [OF _ this] have "\<nexists>p i. exports [] p i \<and> interface_key i = requirement_key demo_requirement"
    by (simp add: nodes_ok_def)
  ultimately show ?thesis by blast
qed

text \<open>C5: The graph does not depend on the order in which the records are given.\<close>

theorem try_build_order_independent:
  assumes "records_distinct ps cs" "records_distinct ps' cs'" "set ps = set ps'" "set cs = set cs'"
  shows "try_build vmatches ps cs = try_build vmatches ps' cs'"
  by (rule try_build_reorder [OF assms])

definition two_providers :: "ProviderRecord list" where
  "two_providers = [\<lparr>rec_installation = InstallationId 1, rec_provided = [demo_interface]\<rparr>,
     \<lparr>rec_installation = InstallationId 2, rec_provided = [demo_interface]\<rparr>]"

lemma try_build_order_independent_witness:
  "try_build any_version two_providers [] = try_build any_version (rev two_providers) []"
  by (rule try_build_order_independent)
    (auto simp: records_distinct_def two_providers_def provider_id_def from_installation_def)

text \<open>C6: The upgrade analysis lists every resolved edge to the provider exactly once, with the consumer, the
  requirement and the interface it was resolved to, and nothing else. It finds an edge compatible exactly
  when some upgraded interface satisfies its requirement, removed when no upgraded interface has its
  package and name, and otherwise incompatible with the highest upgraded version of that name; and it
  calls the upgrade safe exactly when it finds every edge compatible.\<close>

theorem upgrade_analysis_exact:
  assumes "records_ok ps cs" "try_build vmatches ps cs = Some (Inr g)" "bs_ok upgraded"
    and "analyze_upgrade vmatches g p upgraded = Inr rep"
  shows "rep_provider rep = p \<and> upgraded_provided rep = upgraded \<and>
    distinct (map (\<lambda>i. (imp_consumer i, imp_requirement i)) (impacts rep)) \<and>
    (\<forall>c r i. (\<exists>imp \<in> set (impacts rep). imp_consumer imp = c \<and> imp_requirement imp = r \<and> previously_provided imp = i) \<longleftrightarrow>
      graph_resolve g c r = Some (mk_edge c r p i)) \<and>
    (\<forall>imp \<in> set (impacts rep).
      let same = {i \<in> set upgraded. interface_key i = requirement_key (imp_requirement imp)} in
      result imp =
        (if \<exists>i \<in> same. satisfied_by vmatches (imp_requirement imp) i then Compatible
         else if same = {} then Incompatible InterfaceRemoved
         else Incompatible (VersionIncompatible (Max (id_version ` same))))) \<and>
    (is_safe rep \<longleftrightarrow> (\<forall>imp \<in> set (impacts rep). result imp = Compatible))"
proof -
  have rep: "rep_provider rep = p" "upgraded_provided rep = upgraded"
    "impacts rep = map (upgrade_impact vmatches upgraded) (direct_consumers g p)"
    using assms(4) by (auto simp: analyze_upgrade_def split: if_splits)
  note r = try_build_resolved [OF assms(1) try_build_built [OF assms(1,2)]]
  then have bt: "bt_ok (graph_edges g)" using assms(2) by auto
  have res: "graph_resolve g c r = Some e \<Longrightarrow> \<exists>p i. e = mk_edge c r p i" for c r e using r assms(2) by auto
  have sel: "imp_consumer (upgrade_impact vmatches upgraded e) = edge_consumer e"
    "imp_requirement (upgrade_impact vmatches upgraded e) = edge_requirement e"
    "previously_provided (upgrade_impact vmatches upgraded e) = edge_provided e" for e
    by (simp_all add: upgrade_impact_def Let_def)
  have "distinct (map (\<lambda>i. (imp_consumer i, imp_requirement i)) (impacts rep))"
    using direct_consumers_keys [OF bt, of p] res by (fastforce simp: rep(3) sel comp_def)
  moreover have "(\<exists>imp \<in> set (impacts rep). imp_consumer imp = c \<and> imp_requirement imp = r \<and> previously_provided imp = i) \<longleftrightarrow>
      graph_resolve g c r = Some (mk_edge c r p i)" for c r i
  proof -
    have "(\<exists>imp \<in> set (impacts rep). imp_consumer imp = c \<and> imp_requirement imp = r \<and> previously_provided imp = i) \<longleftrightarrow>
        (\<exists>e. edge_provider e = p \<and> (\<exists>c r. graph_resolve g c r = Some e) \<and>
          edge_consumer e = c \<and> edge_requirement e = r \<and> edge_provided e = i)"
    proof -
      have "(\<exists>imp \<in> set (impacts rep). imp_consumer imp = c \<and> imp_requirement imp = r \<and> previously_provided imp = i) \<longleftrightarrow>
          (\<exists>e \<in> set (direct_consumers g p). edge_consumer e = c \<and> edge_requirement e = r \<and> edge_provided e = i)"
        by (simp add: rep(3) sel)
      then show ?thesis unfolding Bex_def direct_consumers_spec [OF bt] by blast
    qed
    also have "\<dots> \<longleftrightarrow> graph_resolve g c r = Some (mk_edge c r p i)"
    proof
      assume "\<exists>e. edge_provider e = p \<and> (\<exists>c r. graph_resolve g c r = Some e) \<and>
        edge_consumer e = c \<and> edge_requirement e = r \<and> edge_provided e = i"
      then obtain e c' r' where e: "graph_resolve g c' r' = Some e" "edge_provider e = p"
        "edge_consumer e = c" "edge_requirement e = r" "edge_provided e = i" by blast
      with res [OF e(1)] show "graph_resolve g c r = Some (mk_edge c r p i)" by auto
    next
      assume "graph_resolve g c r = Some (mk_edge c r p i)"
      then show "\<exists>e. edge_provider e = p \<and> (\<exists>c r. graph_resolve g c r = Some e) \<and>
        edge_consumer e = c \<and> edge_requirement e = r \<and> edge_provided e = i"
        by (intro exI [of _ "mk_edge c r p i"]) auto
    qed
    finally show ?thesis .
  qed
  moreover have "let same = {i \<in> set upgraded. interface_key i = requirement_key (imp_requirement imp)} in
      result imp =
        (if \<exists>i \<in> same. satisfied_by vmatches (imp_requirement imp) i then Compatible
         else if same = {} then Incompatible InterfaceRemoved
         else Incompatible (VersionIncompatible (Max (id_version ` same))))" if "imp \<in> set (impacts rep)" for imp
  proof -
    from that obtain e where imp: "imp = upgrade_impact vmatches upgraded e" by (auto simp: rep(3))
    let ?same = "{i \<in> set upgraded. interface_key i = requirement_key (edge_requirement e)}"
    note u = upgrade_impact_spec [OF assms(3), of vmatches e]
    have sat: "(\<exists>i \<in> ?same. satisfied_by vmatches (edge_requirement e) i) \<longleftrightarrow>
        (\<exists>i \<in> set upgraded. satisfied_by vmatches (edge_requirement e) i)"
      by (auto simp: satisfied_by_def) metis
    show ?thesis
    proof (cases "(\<exists>i \<in> ?same. satisfied_by vmatches (edge_requirement e) i) \<or> ?same = {}")
      case True
      then show ?thesis unfolding Let_def imp sel using u(1,2) sat by auto
    next
      case False
      then have ne: "id_version ` ?same \<noteq> {}" "finite (id_version ` ?same)" by auto
      obtain i where i: "i \<in> ?same" "id_version i = Max (id_version ` ?same)" using Max_in [OF ne(2,1)] by auto
      have "result (upgrade_impact vmatches upgraded e) = Incompatible (VersionIncompatible (Max (id_version ` ?same)))"
        unfolding u(3)
      proof
        show "\<forall>i \<in> set upgraded. \<not> satisfied_by vmatches (edge_requirement e) i" using False sat by blast
        have "\<forall>j \<in> set upgraded. interface_key j = requirement_key (edge_requirement e) \<longrightarrow> id_version j \<le> Max (id_version ` ?same)"
          using ne(2) by (auto intro: Max_ge)
        with i show "\<exists>i \<in> set upgraded. interface_key i = requirement_key (edge_requirement e) \<and>
            id_version i = Max (id_version ` ?same) \<and>
            (\<forall>j \<in> set upgraded. interface_key j = requirement_key (edge_requirement e) \<longrightarrow>
              id_version j \<le> Max (id_version ` ?same))" by blast
      qed
      with False show ?thesis unfolding Let_def imp sel by auto
    qed
  qed
  moreover have "is_safe rep \<longleftrightarrow> (\<forall>imp \<in> set (impacts rep). result imp = Compatible)"
    by (simp add: is_safe_def list_all_iff)
  ultimately show ?thesis using rep(1,2) by blast
qed

lemma upgrade_analysis_exact_witness:
  "\<exists>g rep. try_build any_version demo_providers (demo_consumers (InstallationId 2)) = Some (Inr g) \<and>
    analyze_upgrade any_version g (from_installation (InstallationId 1)) [] = Inr rep \<and> \<not> is_safe rep"
proof -
  obtain g where g: "try_build any_version demo_providers (demo_consumers (InstallationId 2)) = Some (Inr g)"
    using demo_built by blast
  let ?p = "from_installation (InstallationId 1)"
  have e: "graph_resolve g (InstallationId 2) demo_requirement = Some (mk_edge (InstallationId 2) demo_requirement ?p demo_interface)"
    using try_build_resolved [OF demo_records_ok demo_records_distinct demo_all_resolved, of "InstallationId 2"] g
    by (auto simp: demo_needs demo_resolves)
  have "list_ex (\<lambda>(_, n). node_provider n = ?p) (providers g)"
  proof -
    have "nodes_ok (providers g)" "?p \<in> fst ` set (providers g)"
      using try_build_resolved [OF demo_records_ok demo_records_distinct demo_all_resolved, of "InstallationId 2"] g
      by (auto simp: demo_providers_def provider_id_def)
    then show ?thesis unfolding nodes_ok_def list_ex_iff by fastforce
  qed
  then obtain rep where rep: "analyze_upgrade any_version g ?p [] = Inr rep"
    by (auto simp: analyze_upgrade_def)
  note x = upgrade_analysis_exact [OF demo_records_ok g bs_ok_Nil rep]
  with e obtain imp where imp: "imp \<in> set (impacts rep)" by blast
  with x have "result imp = Incompatible InterfaceRemoved" by (simp add: Let_def)
  with x imp have "\<not> is_safe rep" by auto
  with g rep show ?thesis by blast
qed

end
