(* ===== verification/Quota.thy ===== *)
theory Quota
  imports Idents Quantities
begin

text \<open>
  The quota hierarchy (\<open>crates/domain/src/quota.rs\<close>): budgets with seven dimensions at the global
  level, at groups and at installations, the checks of the tree, and the effective quota of an
  installation. The theorem \<open>effective_is_path_minimum\<close> relates the loops of \<open>effective\<close> to the
  minimum over the explicit limits on the path from the root to the installation.

  The children of a node are sorted by the derived \<open>Ord\<close>, which compares level, budget and
  children lexicographically; \<open>node_le\<close> is that order and \<open>sort_nodes\<close> the sort.
\<close>

section \<open>Data\<close>

datatype QuotaCount = QuotaCount (count: u64)

instantiation QuotaCount :: linorder
begin

definition less_eq_QuotaCount :: "QuotaCount \<Rightarrow> QuotaCount \<Rightarrow> bool" where
  "x \<le> y \<longleftrightarrow> count x \<le> count y"

definition less_QuotaCount :: "QuotaCount \<Rightarrow> QuotaCount \<Rightarrow> bool" where
  "x < y \<longleftrightarrow> count x < count y"

instance
  by standard (auto simp: less_eq_QuotaCount_def less_QuotaCount_def intro: QuotaCount.expand)

end

datatype QuotaLevel = Global | Group GroupId | Installation InstallationId

fun level_key :: "QuotaLevel \<Rightarrow> nat \<times> string \<times> u128" where
  "level_key Global = (0, [], 0)"
| "level_key (Group g) = (1, group_text g, 0)"
| "level_key (Installation i) = (2, [], installation_uuid i)"

lemma level_key_inj: "level_key x = level_key y \<Longrightarrow> x = y"
  by (cases x; cases y) (auto intro: GroupId.expand InstallationId.expand)

instantiation QuotaLevel :: linorder
begin

definition less_eq_QuotaLevel :: "QuotaLevel \<Rightarrow> QuotaLevel \<Rightarrow> bool" where
  "x \<le> y \<longleftrightarrow> level_key x \<le> level_key y"

definition less_QuotaLevel :: "QuotaLevel \<Rightarrow> QuotaLevel \<Rightarrow> bool" where
  "x < y \<longleftrightarrow> level_key x < level_key y"

instance
  by standard (auto simp: less_eq_QuotaLevel_def less_QuotaLevel_def intro: level_key_inj)

end

datatype BudgetDimension = Memory | HostBuffer | BodySize | Concurrent | Queue | Tasks | CallTimeout

fun dimension_as_str :: "BudgetDimension \<Rightarrow> string" where
  "dimension_as_str Memory = ''memory''"
| "dimension_as_str HostBuffer = ''host-buffer''"
| "dimension_as_str BodySize = ''body-size''"
| "dimension_as_str Concurrent = ''concurrent''"
| "dimension_as_str Queue = ''queue''"
| "dimension_as_str Tasks = ''tasks''"
| "dimension_as_str CallTimeout = ''call-timeout''"

definition dimension_from_str_checked :: "string \<Rightarrow> DomainError + BudgetDimension" where
  "dimension_from_str_checked s =
     (if s = ''memory'' then Inr Memory
      else if s = ''host-buffer'' then Inr HostBuffer
      else if s = ''body-size'' then Inr BodySize
      else if s = ''concurrent'' then Inr Concurrent
      else if s = ''queue'' then Inr Queue
      else if s = ''tasks'' then Inr Tasks
      else if s = ''call-timeout'' then Inr CallTimeout
      else Inl (InvalidValue K_BudgetDimension (UnknownVariant s)))"

definition all_dimensions :: "BudgetDimension list" where
  "all_dimensions = [Memory, HostBuffer, BodySize, Concurrent, Queue, Tasks, CallTimeout]"

definition BudgetDimension_impls :: "(DomainError, BudgetDimension) text_codec" where
  "BudgetDimension_impls = text_impls dimension_from_str_checked dimension_as_str"

interpretation budget_dimension: closed_enum dimension_from_str_checked dimension_as_str
proof unfold_locales
  show "dimension_from_str_checked (dimension_as_str x) = Inr x" for x
    by (cases x) (simp_all add: dimension_from_str_checked_def)
  show "dimension_from_str_checked s = Inr x \<Longrightarrow> dimension_as_str x = s" for s x
    by (auto simp: dimension_from_str_checked_def split: if_splits)
qed

text \<open>
  \<open>Display\<close> and \<open>FromStr\<close> of a level. The text of an installation id is the \<open>uuid\<close> crate's: its
  printer and parser are the parameters \<open>show_uuid\<close> and \<open>parse_uuid\<close>.
\<close>

fun level_display :: "(u128 \<Rightarrow> string) \<Rightarrow> QuotaLevel \<Rightarrow> string" where
  "level_display show_uuid Global = ''global''"
| "level_display show_uuid (Group g) = ''group:'' @ group_text g"
| "level_display show_uuid (Installation i) = ''installation:'' @ show_uuid (installation_uuid i)"

definition level_from_str :: "(string \<Rightarrow> u128 option) \<Rightarrow> string \<Rightarrow> DomainError + QuotaLevel" where
  "level_from_str parse_uuid s =
     (if s = ''global'' then Inr Global
      else
        and_then (ok_or (split_once CHR '':'' s) (InvalidValue K_QuotaLevel (UnknownVariant s))) (\<lambda>(kind, v).
          if kind = ''group''
          then (case GroupId_new v of
                  Inl _ \<Rightarrow> Inl (InvalidValue K_QuotaLevel (UnknownVariant v))
                | Inr g \<Rightarrow> Inr (Group g))
          else if kind = ''installation''
          then (case parse_uuid v of
                  None \<Rightarrow> Inl (InvalidValue K_QuotaLevel (UnknownVariant v))
                | Some u \<Rightarrow> Inr (Installation (InstallationId u)))
          else Inl (InvalidValue K_QuotaLevel (UnknownVariant s))))"

datatype QuotaBudget = QuotaBudget
  (max_memory: "ByteSize option") (max_host_buffer: "ByteSize option") (max_body_size: "ByteSize option")
  (max_concurrent: "QuotaCount option") (max_queue: "QuotaCount option") (max_tasks: "QuotaCount option")
  (call_timeout: "Duration option")

definition budget_none :: QuotaBudget where
  "budget_none = QuotaBudget None None None None None None None"

definition is_total :: "QuotaBudget \<Rightarrow> bool" where
  "is_total b \<longleftrightarrow>
     max_memory b \<noteq> None \<and> max_host_buffer b \<noteq> None \<and> max_body_size b \<noteq> None \<and>
     max_concurrent b \<noteq> None \<and> max_queue b \<noteq> None \<and> max_tasks b \<noteq> None \<and> call_timeout b \<noteq> None"

definition is_unconstrained :: "QuotaBudget \<Rightarrow> bool" where
  "is_unconstrained b \<longleftrightarrow>
     max_memory b = None \<and> max_host_buffer b = None \<and> max_body_size b = None \<and>
     max_concurrent b = None \<and> max_queue b = None \<and> max_tasks b = None \<and> call_timeout b = None"

abbreviation budget_key where
  "budget_key b \<equiv> (max_memory b, max_host_buffer b, max_body_size b, max_concurrent b, max_queue b,
     max_tasks b, call_timeout b)"

instantiation QuotaBudget :: linorder
begin

definition less_eq_QuotaBudget :: "QuotaBudget \<Rightarrow> QuotaBudget \<Rightarrow> bool" where
  "x \<le> y \<longleftrightarrow> budget_key x \<le> budget_key y"

definition less_QuotaBudget :: "QuotaBudget \<Rightarrow> QuotaBudget \<Rightarrow> bool" where
  "x < y \<longleftrightarrow> budget_key x < budget_key y"

instance
proof
  fix x y z :: QuotaBudget
  show "x < y \<longleftrightarrow> x \<le> y \<and> \<not> y \<le> x"
    unfolding less_eq_QuotaBudget_def less_QuotaBudget_def by (rule less_le_not_le)
  show "x \<le> x" unfolding less_eq_QuotaBudget_def by (rule order.refl)
  show "x \<le> y \<Longrightarrow> y \<le> z \<Longrightarrow> x \<le> z" unfolding less_eq_QuotaBudget_def by (rule order.trans)
  show "x \<le> y \<or> y \<le> x" unfolding less_eq_QuotaBudget_def by (rule linear)
  assume "x \<le> y" "y \<le> x"
  then have "budget_key x = budget_key y" unfolding less_eq_QuotaBudget_def by (rule order.antisym)
  then show "x = y" by (auto intro: QuotaBudget.expand)
qed

end

datatype QuotaNode = QuotaNode (level: QuotaLevel) (budget: QuotaBudget) (children: "QuotaNode list")

text \<open>The derived order of nodes, lexicographic through the children.\<close>

fun node_le :: "QuotaNode \<Rightarrow> QuotaNode \<Rightarrow> bool" and nodes_le :: "QuotaNode list \<Rightarrow> QuotaNode list \<Rightarrow> bool" where
  "node_le (QuotaNode l b cs) (QuotaNode l' b' cs') \<longleftrightarrow>
     (if l \<noteq> l' then l < l' else if b \<noteq> b' then b < b' else nodes_le cs cs')"
| "nodes_le [] ds \<longleftrightarrow> True"
| "nodes_le (c # cs) [] \<longleftrightarrow> False"
| "nodes_le (c # cs) (d # ds) \<longleftrightarrow> (if c = d then nodes_le cs ds else node_le c d)"

fun insert_node :: "QuotaNode \<Rightarrow> QuotaNode list \<Rightarrow> QuotaNode list" where
  "insert_node n [] = [n]"
| "insert_node n (m # ms) = (if node_le n m then n # m # ms else m # insert_node n ms)"

definition sort_nodes :: "QuotaNode list \<Rightarrow> QuotaNode list" where
  "sort_nodes ns = foldr insert_node ns []"

section \<open>Construction of the tree\<close>

fun is_group :: "QuotaLevel \<Rightarrow> bool" where
  "is_group (Group _) \<longleftrightarrow> True"
| "is_group _ \<longleftrightarrow> False"

fun is_installation :: "QuotaLevel \<Rightarrow> bool" where
  "is_installation (Installation _) \<longleftrightarrow> True"
| "is_installation _ \<longleftrightarrow> False"

definition QuotaNode_new :: "QuotaLevel \<Rightarrow> QuotaBudget \<Rightarrow> QuotaNode list \<Rightarrow> DomainError + QuotaNode" where
  "QuotaNode_new l b cs =
     and_then
       (case l of
          Global \<Rightarrow>
            if \<not> is_total b then Inl (InvalidValue K_QuotaBudget GlobalBudgetNotTotal)
            else if \<not> list_all (\<lambda>c. is_group (level c) \<or> is_installation (level c)) cs
              then Inl (InvalidValue K_QuotaHierarchy GlobalChildLevel)
            else Inr ()
        | Group _ \<Rightarrow>
            if \<not> list_all (\<lambda>c. is_installation (level c)) cs
              then Inl (InvalidValue K_QuotaHierarchy GroupChildLevel)
            else Inr ()
        | Installation _ \<Rightarrow>
            if cs \<noteq> [] then Inl (InvalidValue K_QuotaHierarchy InstallationNotLeaf) else Inr ())
       (\<lambda>_. Inr (QuotaNode l b (sort_nodes cs)))"

datatype QuotaHierarchy = QuotaHierarchy (root: QuotaNode)

text \<open>The loop over a group's children: collect the installation ids, reject a repeated one.\<close>

fun add_installations :: "QuotaNode list \<Rightarrow> InstallationId list \<Rightarrow> DomainError + InstallationId list" where
  "add_installations [] seen = Inr seen"
| "add_installations (c # cs) seen =
     (case level c of
        Installation i \<Rightarrow>
          if i \<in> set seen then Inl (InvalidValue K_QuotaHierarchy (InstallationRepeated (installation_uuid i)))
          else add_installations cs (i # seen)
      | _ \<Rightarrow> add_installations cs seen)"

fun check_children ::
  "QuotaNode list \<Rightarrow> GroupId list \<Rightarrow> InstallationId list \<Rightarrow> DomainError + unit" where
  "check_children [] gs is = Inr ()"
| "check_children (n # ns) gs is =
     (case level n of
        Group g \<Rightarrow>
          if g \<in> set gs then Inl (InvalidValue K_QuotaHierarchy (GroupRepeated (group_text g)))
          else and_then (add_installations (children n) is) (\<lambda>is. check_children ns (g # gs) is)
      | Installation i \<Rightarrow>
          if i \<in> set is then Inl (InvalidValue K_QuotaHierarchy (InstallationRepeated (installation_uuid i)))
          else check_children ns gs (i # is)
      | Global \<Rightarrow> Inl (InvalidValue K_QuotaHierarchy GlobalNotRoot))"

definition QuotaHierarchy_new :: "QuotaNode \<Rightarrow> DomainError + QuotaHierarchy" where
  "QuotaHierarchy_new r =
     (if level r \<noteq> Global then Inl (InvalidValue K_QuotaHierarchy RootNotGlobal)
      else and_then (check_children (children r) [] []) (\<lambda>_. Inr (QuotaHierarchy r)))"

text \<open>\<open>Deserialize\<close> rebuilds every node bottom-up with the constructors.\<close>

fun QuotaNode_deserialize :: "QuotaNode \<Rightarrow> DomainError + QuotaNode"
  and nodes_deserialize :: "QuotaNode list \<Rightarrow> DomainError + QuotaNode list" where
  "QuotaNode_deserialize (QuotaNode l b cs) =
     and_then (nodes_deserialize cs) (\<lambda>cs. QuotaNode_new l b cs)"
| "nodes_deserialize [] = Inr []"
| "nodes_deserialize (c # cs) =
     and_then (QuotaNode_deserialize c) (\<lambda>c. and_then (nodes_deserialize cs) (\<lambda>cs. Inr (c # cs)))"

definition QuotaHierarchy_deserialize :: "QuotaNode \<Rightarrow> DomainError + QuotaHierarchy" where
  "QuotaHierarchy_deserialize r = and_then (QuotaNode_deserialize r) QuotaHierarchy_new"

section \<open>Effective quota\<close>

record EffectiveQuota =
  eff_memory :: ByteSize
  eff_host_buffer :: ByteSize
  eff_body_size :: ByteSize
  eff_concurrent :: QuotaCount
  eff_queue :: QuotaCount
  eff_tasks :: QuotaCount
  eff_call_timeout :: Duration
  bindings :: "BudgetDimension \<rightharpoonup> QuotaLevel"

definition fold_seed :: "'a option \<Rightarrow> 'a \<Rightarrow> QuotaLevel \<Rightarrow> 'a \<times> QuotaLevel" where
  "fold_seed v fallback l = ((case v of Some x \<Rightarrow> x | None \<Rightarrow> fallback), l)"

definition fold_into :: "'a::linorder \<times> QuotaLevel \<Rightarrow> 'a option \<Rightarrow> QuotaLevel \<Rightarrow> 'a \<times> QuotaLevel" where
  "fold_into mn v l = (case v of Some x \<Rightarrow> if x \<le> fst mn then (x, l) else mn | None \<Rightarrow> mn)"

text \<open>The path: the group with the installation among its children, and the installation's own node.\<close>

type_synonym path_state = "(QuotaBudget \<times> QuotaLevel) option \<times> (QuotaBudget \<times> QuotaLevel) option"

definition visit_child :: "InstallationId \<Rightarrow> QuotaNode \<Rightarrow> QuotaNode \<Rightarrow> path_state \<Rightarrow> path_state" where
  "visit_child i g c st =
     (if level c = Installation i then (Some (budget g, level g), Some (budget c, level c)) else st)"

definition visit_node :: "InstallationId \<Rightarrow> QuotaNode \<Rightarrow> path_state \<Rightarrow> path_state" where
  "visit_node i n st =
     (case level n of
        Group _ \<Rightarrow> fold (visit_child i n) (children n) st
      | Installation j \<Rightarrow> if j = i then (fst st, Some (budget n, level n)) else st
      | Global \<Rightarrow> st)"

definition path_chain :: "QuotaHierarchy \<Rightarrow> InstallationId \<Rightarrow> (QuotaBudget \<times> QuotaLevel) list" where
  "path_chain h i =
     (case fold (visit_node i) (children (root h)) (None, None) of
        (Some g, Some d) \<Rightarrow> [(budget (root h), Global), g, d]
      | (None, Some d) \<Rightarrow> [(budget (root h), Global), d]
      | (_, None) \<Rightarrow> [(budget (root h), Global)])"

definition fold_chain ::
  "(QuotaBudget \<Rightarrow> 'a::linorder option) \<Rightarrow> 'a \<Rightarrow> QuotaBudget \<Rightarrow> (QuotaBudget \<times> QuotaLevel) list \<Rightarrow> 'a \<times> QuotaLevel" where
  "fold_chain dim zero global chain =
     fold (\<lambda>(b, l) mn. fold_into mn (dim b) l) chain (fold_seed (dim global) zero Global)"

definition effective :: "QuotaHierarchy \<Rightarrow> InstallationId \<Rightarrow> EffectiveQuota" where
  "effective h i =
     (let global = budget (root h);
          chain = path_chain h i;
          memory = fold_chain max_memory (ByteSize 0) global chain;
          host_buffer = fold_chain max_host_buffer (ByteSize 0) global chain;
          body_size = fold_chain max_body_size (ByteSize 0) global chain;
          concurrent = fold_chain max_concurrent (QuotaCount 0) global chain;
          queue = fold_chain max_queue (QuotaCount 0) global chain;
          tasks = fold_chain max_tasks (QuotaCount 0) global chain;
          timeout = fold_chain call_timeout (Duration 0) global chain
      in \<lparr>eff_memory = fst memory, eff_host_buffer = fst host_buffer, eff_body_size = fst body_size,
          eff_concurrent = fst concurrent, eff_queue = fst queue, eff_tasks = fst tasks,
          eff_call_timeout = fst timeout,
          bindings = [Memory \<mapsto> snd memory, HostBuffer \<mapsto> snd host_buffer, BodySize \<mapsto> snd body_size,
            Concurrent \<mapsto> snd concurrent, Queue \<mapsto> snd queue, Tasks \<mapsto> snd tasks, CallTimeout \<mapsto> snd timeout]\<rparr>)"

definition binding :: "EffectiveQuota \<Rightarrow> BudgetDimension \<Rightarrow> QuotaLevel" where
  "binding q d = (case bindings q d of Some l \<Rightarrow> l | None \<Rightarrow> Global)"

section \<open>The tree\<close>

text \<open>What the constructors of nodes establish.\<close>

fun node_ok :: "QuotaNode \<Rightarrow> bool" where
  "node_ok (QuotaNode l b cs) \<longleftrightarrow>
     (case l of
        Global \<Rightarrow> is_total b \<and> (\<forall>c \<in> set cs. is_group (level c) \<or> is_installation (level c))
      | Group _ \<Rightarrow> \<forall>c \<in> set cs. is_installation (level c)
      | Installation _ \<Rightarrow> cs = []) \<and> (\<forall>c \<in> set cs. node_ok c)"

lemma set_insert_node: "set (insert_node n ms) = insert n (set ms)"
  by (induction ms) auto

lemma set_sort_nodes [simp]: "set (sort_nodes ns) = set ns"
  by (induction ns) (simp_all add: sort_nodes_def set_insert_node)

lemma sort_nodes_Nil [simp]: "sort_nodes [] = []"
  by (simp add: sort_nodes_def)

lemma QuotaNode_new_ok:
  assumes "QuotaNode_new l b cs = Inr n" "\<forall>c \<in> set cs. node_ok c"
  shows "node_ok n \<and> level n = l \<and> budget n = b \<and> set (children n) = set cs"
  using assms
  by (cases l) (auto simp: QuotaNode_new_def result_simps list_all_iff split: if_splits)

lemma QuotaNode_deserialize_ok:
  "QuotaNode_deserialize w = Inr n \<Longrightarrow> node_ok n"
  "nodes_deserialize ws = Inr ns \<Longrightarrow> \<forall>n \<in> set ns. node_ok n"
proof (induction w and ws arbitrary: n and ns rule: QuotaNode_deserialize_nodes_deserialize.induct)
  case (1 l b cs)
  then obtain cs' where "nodes_deserialize cs = Inr cs'" "QuotaNode_new l b cs' = Inr n"
    by (auto simp: result_simps)
  with 1 QuotaNode_new_ok show ?case by blast
qed (auto simp: result_simps)

text \<open>Where the installations stand: below a group, or directly below the root.\<close>

type_synonym placement = "InstallationId \<times> QuotaNode option \<times> QuotaNode"

fun below_group :: "QuotaNode \<Rightarrow> QuotaNode list \<Rightarrow> placement list" where
  "below_group g [] = []"
| "below_group g (c # cs) =
     (case level c of Installation j \<Rightarrow> (j, Some g, c) # below_group g cs | _ \<Rightarrow> below_group g cs)"

definition placements :: "QuotaNode \<Rightarrow> placement list" where
  "placements n =
     (case level n of
        Group _ \<Rightarrow> below_group n (children n)
      | Installation j \<Rightarrow> [(j, None, n)]
      | Global \<Rightarrow> [])"

lemma set_below_group:
  "(j, p, c) \<in> set (below_group g cs) \<longleftrightarrow> p = Some g \<and> c \<in> set cs \<and> level c = Installation j"
  by (induction cs) (auto split: QuotaLevel.splits)

lemma set_placements:
  "(j, p, c) \<in> set (placements n) \<longleftrightarrow>
     level c = Installation j \<and>
     (is_group (level n) \<and> p = Some n \<and> c \<in> set (children n) \<or> p = None \<and> c = n)"
  by (cases "level n") (auto simp: placements_def set_below_group)

lemma add_installations_Inr:
  "add_installations cs seen = Inr seen' \<Longrightarrow> distinct seen \<Longrightarrow>
    distinct seen' \<and> distinct (map fst (below_group g cs)) \<and>
    fst ` set (below_group g cs) \<inter> set seen = {} \<and> set seen' = set seen \<union> fst ` set (below_group g cs)"
proof (induction cs arbitrary: seen)
  case (Cons c cs)
  show ?case
  proof (cases "level c")
    case (Installation i)
    with Cons.prems have i: "i \<notin> set seen" and a: "add_installations cs (i # seen) = Inr seen'"
      by (auto split: if_splits)
    have "distinct (i # seen)" using i Cons.prems(2) by simp
    from Cons.IH [OF a this] i show ?thesis by (simp add: Installation)
  qed (use Cons in simp_all)
qed simp

lemma check_children_Inr:
  assumes "check_children ns gs is = Inr ()" "distinct is"
  shows "distinct (map fst (concat (map placements ns))) \<and>
    fst ` set (concat (map placements ns)) \<inter> set is = {}"
  using assms
proof (induction ns arbitrary: gs "is")
  case (Cons n ns)
  show ?case
  proof (cases "level n")
    case Global
    with Cons.prems show ?thesis by simp
  next
    case (Installation i)
    with Cons.prems have i: "i \<notin> set is" and c: "check_children ns gs (i # is) = Inr ()"
      by (auto split: if_splits)
    have "distinct (i # is)" using i Cons.prems(2) by simp
    from Cons.IH [OF c this] i show ?thesis
      by (auto simp: placements_def Installation)
  next
    case (Group g)
    with Cons.prems obtain is' where a: "add_installations (children n) is = Inr is'"
      and c: "check_children ns (g # gs) is' = Inr ()"
      by (auto simp: result_simps split: if_splits)
    note ai = add_installations_Inr [OF a Cons.prems(2), of n]
    from Cons.IH [OF c] ai have ih: "distinct (map fst (concat (map placements ns)))"
      "fst ` set (concat (map placements ns)) \<inter> set is' = {}" by blast+
    have p: "placements n = below_group n (children n)" by (simp add: placements_def Group)
    have "distinct (map fst (concat (map placements (n # ns))))"
      using ih ai by (auto simp: p)
    moreover have "fst ` set (concat (map placements (n # ns))) \<inter> set is = {}"
      using ih ai by (auto simp: p)
    ultimately show ?thesis by blast
  qed
qed simp

section \<open>The path of an installation\<close>

definition place :: "InstallationId \<Rightarrow> placement \<Rightarrow> path_state \<Rightarrow> path_state" where
  "place i e st =
     (case e of (j, p, c) \<Rightarrow>
        if j = i
        then (case p of Some g \<Rightarrow> (Some (budget g, level g), Some (budget c, level c))
              | None \<Rightarrow> (fst st, Some (budget c, level c)))
        else st)"

lemma visit_node_placements: "visit_node i n st = fold (place i) (placements n) st"
proof (cases "level n")
  case (Group g)
  have "fold (visit_child i n) cs st = fold (place i) (below_group n cs) st" for cs st
    by (induction cs arbitrary: st) (auto simp: visit_child_def place_def split: QuotaLevel.splits)
  then show ?thesis by (simp add: visit_node_def placements_def Group)
qed (simp_all add: visit_node_def placements_def place_def)

lemma fold_visit_nodes: "fold (visit_node i) ns st = fold (place i) (concat (map placements ns)) st"
  by (induction ns arbitrary: st) (simp_all add: visit_node_placements)

lemma fold_place_other: "i \<notin> fst ` set es \<Longrightarrow> fold (place i) es st = st"
  by (induction es arbitrary: st) (auto simp: place_def)

lemma fold_place_one:
  "distinct (map fst es) \<Longrightarrow> (i, p, c) \<in> set es \<Longrightarrow> fold (place i) es st = place i (i, p, c) st"
proof (induction es arbitrary: st)
  case (Cons e es)
  show ?case
  proof (cases "e = (i, p, c)")
    case True
    with Cons.prems show ?thesis by (simp add: fold_place_other)
  next
    case False
    with Cons.prems have "(i, p, c) \<in> set es" "fst e \<noteq> i" by (auto simp: image_iff)
    with Cons show ?thesis by (cases e) (simp add: place_def)
  qed
qed simp

text \<open>The levels that limit an installation, with their budgets.\<close>

definition on_path :: "QuotaHierarchy \<Rightarrow> InstallationId \<Rightarrow> QuotaLevel \<Rightarrow> QuotaBudget \<Rightarrow> bool" where
  "on_path h i l b \<longleftrightarrow>
     l = Global \<and> b = budget (root h) \<or>
     (\<exists>g \<in> set (children (root h)). is_group (level g) \<and>
        (\<exists>c \<in> set (children g). level c = Installation i \<and>
           (l = level g \<and> b = budget g \<or> l = level c \<and> b = budget c))) \<or>
     (\<exists>n \<in> set (children (root h)). level n = Installation i \<and> l = level n \<and> b = budget n)"

definition hierarchy_ok :: "QuotaHierarchy \<Rightarrow> bool" where
  "hierarchy_ok h \<longleftrightarrow> node_ok (root h) \<and> QuotaHierarchy_new (root h) = Inr h"

definition specificity :: "QuotaLevel \<Rightarrow> nat" where
  "specificity l = fst (level_key l)"

lemma path_chain_spec:
  assumes "hierarchy_ok h"
  shows "set (path_chain h i) = {(b, l). on_path h i l b}"
    and "sorted_wrt (<) (map (specificity \<circ> snd) (path_chain h i))"
    and "\<exists>rest. path_chain h i = (budget (root h), Global) # rest"
proof -
  let ?es = "concat (map placements (children (root h)))"
  from assms have "check_children (children (root h)) [] [] = Inr ()"
    by (auto simp: hierarchy_ok_def QuotaHierarchy_new_def result_simps split: if_splits)
  then have d: "distinct (map fst ?es)" using check_children_Inr by fastforce
  have mem: "(i, p, c) \<in> set ?es \<longleftrightarrow> level c = Installation i \<and>
      (\<exists>n \<in> set (children (root h)). is_group (level n) \<and> p = Some n \<and> c \<in> set (children n) \<or> p = None \<and> c = n)"
    for p c by (auto simp: set_placements)
  have op: "on_path h i l b \<longleftrightarrow> l = Global \<and> b = budget (root h) \<or>
      (\<exists>g c. (i, Some g, c) \<in> set ?es \<and> (l = level g \<and> b = budget g \<or> l = level c \<and> b = budget c)) \<or>
      (\<exists>n. (i, None, n) \<in> set ?es \<and> l = level n \<and> b = budget n)" for l b
    unfolding on_path_def mem option.distinct option.inject by blast
  have "set (path_chain h i) = {(b, l). on_path h i l b} \<and>
      sorted_wrt (<) (map (specificity \<circ> snd) (path_chain h i)) \<and>
      (\<exists>rest. path_chain h i = (budget (root h), Global) # rest)"
  proof (cases "i \<in> fst ` set ?es")
    case False
    then have "path_chain h i = [(budget (root h), Global)]"
      by (simp add: path_chain_def fold_visit_nodes fold_place_other)
    moreover have "on_path h i l b \<longleftrightarrow> l = Global \<and> b = budget (root h)" for l b
      using False unfolding op by force
    ultimately show ?thesis by auto
  next
    case True
    then obtain p c where e: "(i, p, c) \<in> set ?es" by force
    have uniq: "p' = p \<and> c' = c" if "(i, p', c') \<in> set ?es" for p' c'
      using d e that by (metis eq_key_imp_eq_value prod.inject)
    have one: "fold (visit_node i) (children (root h)) (None, None) = place i (i, p, c) (None, None)"
      unfolding fold_visit_nodes by (rule fold_place_one [OF d e])
    from e have c: "level c = Installation i" using mem by blast
    have es: "(i, p', c') \<in> set ?es \<longleftrightarrow> p' = p \<and> c' = c" for p' c'
      using e uniq by blast
    show ?thesis
    proof (cases p)
      case None
      then have chain: "path_chain h i = [(budget (root h), Global), (budget c, level c)]"
        by (simp add: path_chain_def one place_def)
      have "on_path h i l b \<longleftrightarrow> l = Global \<and> b = budget (root h) \<or> l = level c \<and> b = budget c" for l b
        unfolding op es None by auto
      then show ?thesis by (auto simp: chain specificity_def c)
    next
      case (Some g)
      then have chain: "path_chain h i = [(budget (root h), Global), (budget g, level g), (budget c, level c)]"
        by (simp add: path_chain_def one place_def)
      have g: "is_group (level g)" using e mem Some by blast
      have "on_path h i l b \<longleftrightarrow> l = Global \<and> b = budget (root h) \<or> l = level g \<and> b = budget g \<or>
          l = level c \<and> b = budget c" for l b
        unfolding op es Some by auto
      moreover have "specificity (level g) = 1" using g by (cases "level g") (simp_all add: specificity_def)
      ultimately show ?thesis by (auto simp: chain specificity_def c)
    qed
  qed
  then show "set (path_chain h i) = {(b, l). on_path h i l b}"
    "sorted_wrt (<) (map (specificity \<circ> snd) (path_chain h i))"
    "\<exists>rest. path_chain h i = (budget (root h), Global) # rest" by blast+
qed

section \<open>The fold over the path\<close>

lemma fold_into_spec:
  assumes r: "fold (\<lambda>(b, l) mn. fold_into mn (dim b) l) chain (m, l0) = (v, l)"
  shows "v \<le> m \<and> (\<forall>(b, l') \<in> set chain. \<forall>x. dim b = Some x \<longrightarrow> v \<le> x) \<and>
    ((v, l) = (m, l0) \<and> (\<forall>(b, l') \<in> set chain. dim b \<noteq> Some v) \<or>
     (\<exists>xs b ys. chain = xs @ (b, l) # ys \<and> dim b = Some v \<and> (\<forall>(b', l') \<in> set ys. dim b' \<noteq> Some v)))"
  using r
proof (induction chain arbitrary: m l0)
  case (Cons e chain)
  obtain b l1 where e: "e = (b, l1)" by (cases e)
  obtain m' l' where m': "fold_into (m, l0) (dim b) l1 = (m', l')" by fastforce
  have "fold (\<lambda>(b, l) mn. fold_into mn (dim b) l) chain (m', l') = (v, l)"
    using Cons.prems by (simp add: e m')
  note ih = Cons.IH [OF this]
  have m_le: "m' \<le> m" "\<forall>x. dim b = Some x \<longrightarrow> m' \<le> x"
    using m' by (auto simp: fold_into_def split: option.splits if_splits)
  have m_cases: "(m', l') = (m, l0) \<and> dim b \<noteq> Some m' \<or> l' = l1 \<and> dim b = Some m'"
    using m' by (auto simp: fold_into_def split: option.splits if_splits)
  from ih consider (seed) "(v, l) = (m', l')" "\<forall>(b, l') \<in> set chain. dim b \<noteq> Some v"
    | (later) xs c ys where "chain = xs @ (c, l) # ys" "dim c = Some v" "\<forall>(b', l') \<in> set ys. dim b' \<noteq> Some v"
    by blast
  then have "(v, l) = (m, l0) \<and> (\<forall>(b, l') \<in> set (e # chain). dim b \<noteq> Some v) \<or>
     (\<exists>xs c ys. e # chain = xs @ (c, l) # ys \<and> dim c = Some v \<and> (\<forall>(b', l') \<in> set ys. dim b' \<noteq> Some v))"
  proof cases
    case seed
    from m_cases show ?thesis
    proof
      assume "l' = l1 \<and> dim b = Some m'"
      with seed have "e # chain = [] @ (b, l) # chain \<and> dim b = Some v \<and> (\<forall>(b', l') \<in> set chain. dim b' \<noteq> Some v)"
        by (simp add: e)
      then show ?thesis by blast
    qed (use seed in \<open>auto simp: e\<close>)
  next
    case later
    then have "e # chain = (e # xs) @ (c, l) # ys" by simp
    with later show ?thesis by blast
  qed
  moreover have "v \<le> m" "\<forall>x. dim b = Some x \<longrightarrow> v \<le> x"
    using ih m_le by (auto intro: order.trans)
  ultimately show ?case using ih by (auto simp: e)
qed simp

text \<open>The limit of a dimension as a number, and the effective limit.\<close>

fun limit_of :: "BudgetDimension \<Rightarrow> QuotaBudget \<Rightarrow> nat option" where
  "limit_of Memory b = map_option size_nat (max_memory b)"
| "limit_of HostBuffer b = map_option size_nat (max_host_buffer b)"
| "limit_of BodySize b = map_option size_nat (max_body_size b)"
| "limit_of Concurrent b = map_option (unat \<circ> count) (max_concurrent b)"
| "limit_of Queue b = map_option (unat \<circ> count) (max_queue b)"
| "limit_of Tasks b = map_option (unat \<circ> count) (max_tasks b)"
| "limit_of CallTimeout b = map_option nanos (call_timeout b)"

fun effective_limit :: "BudgetDimension \<Rightarrow> EffectiveQuota \<Rightarrow> nat" where
  "effective_limit Memory q = size_nat (eff_memory q)"
| "effective_limit HostBuffer q = size_nat (eff_host_buffer q)"
| "effective_limit BodySize q = size_nat (eff_body_size q)"
| "effective_limit Concurrent q = unat (count (eff_concurrent q))"
| "effective_limit Queue q = unat (count (eff_queue q))"
| "effective_limit Tasks q = unat (count (eff_tasks q))"
| "effective_limit CallTimeout q = nanos (eff_call_timeout q)"

text \<open>The least explicit limit on a list of levels, at the last level that has it.\<close>

definition path_minimum :: "(QuotaBudget \<Rightarrow> nat option) \<Rightarrow> (QuotaBudget \<times> QuotaLevel) list \<Rightarrow> nat \<Rightarrow> QuotaLevel \<Rightarrow> bool" where
  "path_minimum lim chain v l \<longleftrightarrow>
     (\<forall>(b, l') \<in> set chain. \<forall>x. lim b = Some x \<longrightarrow> v \<le> x) \<and>
     (\<exists>xs b ys. chain = xs @ (b, l) # ys \<and> lim b = Some v \<and> (\<forall>(b', l') \<in> set ys. lim b' \<noteq> Some v))"

lemma fold_chain_minimum:
  assumes f: "\<And>x y. x \<le> y \<longleftrightarrow> f x \<le> (f y :: nat)"
    and g: "dim g = Some x0"
    and lim: "\<And>b. lim b = map_option f (dim b)"
  shows "path_minimum lim ((g, Global) # rest) (f (fst (fold_chain dim zero g ((g, Global) # rest))))
    (snd (fold_chain dim zero g ((g, Global) # rest)))"
proof -
  let ?chain = "(g, Global) # rest"
  obtain v l where vl: "fold_chain dim zero g ?chain = (v, l)" by fastforce
  have "fold (\<lambda>(b, l) mn. fold_into mn (dim b) l) ?chain (x0, Global) = (v, l)"
    using vl by (simp add: fold_chain_def fold_seed_def g)
  note sp = fold_into_spec [OF this]
  have inj: "f x = f y \<Longrightarrow> x = y" for x y using f by (metis order.antisym order.refl)
  have Some: "lim b = Some (f v) \<longleftrightarrow> dim b = Some v" for b
    by (auto simp: lim dest: inj)
  have "\<forall>(b, l') \<in> set ?chain. \<forall>x. lim b = Some x \<longrightarrow> f v \<le> x"
    using sp f by (fastforce simp: lim)
  moreover have "\<exists>xs b ys. ?chain = xs @ (b, l) # ys \<and> lim b = Some (f v) \<and> (\<forall>(b', l') \<in> set ys. lim b' \<noteq> Some (f v))"
  proof -
    have "\<not> ((v, l) = (x0, Global) \<and> (\<forall>(b, l') \<in> set ?chain. dim b \<noteq> Some v))" using g by auto
    with sp show ?thesis unfolding Some by blast
  qed
  ultimately show ?thesis by (simp add: path_minimum_def vl)
qed

lemma size_nat_mono: "x \<le> y \<longleftrightarrow> size_nat x \<le> size_nat y"
  by (simp add: less_eq_ByteSize_def word_le_nat_alt)

lemma count_mono: "x \<le> y \<longleftrightarrow> (unat \<circ> count) x \<le> (unat \<circ> count) y"
  by (simp add: less_eq_QuotaCount_def word_le_nat_alt)

lemma effective_path_minimum:
  assumes "hierarchy_ok h"
  shows "path_minimum (limit_of d) (path_chain h i) (effective_limit d (effective h i)) (binding (effective h i) d)"
proof -
  let ?g = "budget (root h)"
  obtain rest where chain: "path_chain h i = (?g, Global) # rest" using path_chain_spec(3) [OF assms] by blast
  have "level (root h) = Global"
    using assms by (auto simp: hierarchy_ok_def QuotaHierarchy_new_def split: if_splits)
  then have "is_total ?g"
    using assms unfolding hierarchy_ok_def by (cases "root h") auto
  then obtain a b c d' e f g where tot: "max_memory ?g = Some a" "max_host_buffer ?g = Some b"
    "max_body_size ?g = Some c" "max_concurrent ?g = Some d'" "max_queue ?g = Some e" "max_tasks ?g = Some f"
    "call_timeout ?g = Some g"
    by (auto simp: is_total_def)
  note size = fold_chain_minimum [where f = size_nat, OF size_nat_mono]
  note cnt = fold_chain_minimum [where f = "unat \<circ> count", OF count_mono]
  show ?thesis
  proof (cases d)
    case Memory
    then show ?thesis using size [of max_memory, OF tot(1), of "limit_of Memory"]
      by (simp add: effective_def binding_def Let_def chain)
  next
    case HostBuffer
    then show ?thesis using size [of max_host_buffer, OF tot(2), of "limit_of HostBuffer"]
      by (simp add: effective_def binding_def Let_def chain)
  next
    case BodySize
    then show ?thesis using size [of max_body_size, OF tot(3), of "limit_of BodySize"]
      by (simp add: effective_def binding_def Let_def chain)
  next
    case Concurrent
    then show ?thesis using cnt [of max_concurrent, OF tot(4), of "limit_of Concurrent"]
      by (simp add: effective_def binding_def Let_def chain)
  next
    case Queue
    then show ?thesis using cnt [of max_queue, OF tot(5), of "limit_of Queue"]
      by (simp add: effective_def binding_def Let_def chain)
  next
    case Tasks
    then show ?thesis using cnt [of max_tasks, OF tot(6), of "limit_of Tasks"]
      by (simp add: effective_def binding_def Let_def chain)
  next
    case CallTimeout
    then show ?thesis
      using fold_chain_minimum [where f = nanos, OF less_eq_Duration_def, of call_timeout, OF tot(7), of "limit_of CallTimeout"]
      by (simp add: effective_def binding_def Let_def chain)
  qed
qed

section \<open>Properties\<close>

text \<open>C10: In a valid hierarchy the effective limit of an installation is, in each of the seven
  dimensions, the least limit set on its path (the root, its group if it has one, its own node), and
  the reported binding level is the most specific level of the path that sets this limit; in
  particular no level can loosen the limit of a level above it.\<close>

theorem effective_is_path_minimum:
  assumes "hierarchy_ok h"
  shows "(\<forall>l b x. on_path h i l b \<longrightarrow> limit_of d b = Some x \<longrightarrow> effective_limit d (effective h i) \<le> x) \<and>
    (\<exists>b. on_path h i (binding (effective h i) d) b \<and> limit_of d b = Some (effective_limit d (effective h i))) \<and>
    (\<forall>l b. on_path h i l b \<longrightarrow> limit_of d b = Some (effective_limit d (effective h i)) \<longrightarrow>
      specificity l \<le> specificity (binding (effective h i) d))"
proof -
  let ?v = "effective_limit d (effective h i)" and ?l = "binding (effective h i) d"
  note pc = path_chain_spec [OF assms, of i]
  from effective_path_minimum [OF assms, of d i] obtain xs b ys where
    low: "\<forall>(b, l') \<in> set (path_chain h i). \<forall>x. limit_of d b = Some x \<longrightarrow> ?v \<le> x"
    and sp: "path_chain h i = xs @ (b, ?l) # ys" "limit_of d b = Some ?v" "\<forall>(b', l') \<in> set ys. limit_of d b' \<noteq> Some ?v"
    unfolding path_minimum_def by blast
  have mem: "(b, l) \<in> set (path_chain h i) \<longleftrightarrow> on_path h i l b" for l b by (simp add: pc(1))
  have "specificity l \<le> specificity ?l" if "on_path h i l b'" "limit_of d b' = Some ?v" for l b'
  proof -
    have "(b', l) \<in> set (xs @ (b, ?l) # ys)" using that(1) mem sp(1) by metis
    then have "(b', l) \<in> set xs \<or> (b', l) = (b, ?l)" using that(2) sp(3) by auto
    then show ?thesis using pc(2) sp(1) by (fastforce simp: sorted_wrt_append)
  qed
  moreover have "on_path h i ?l b" using mem sp(1) by (metis in_set_conv_decomp)
  ultimately show ?thesis using low mem sp(2) by fast
qed

definition demo_budget :: "u64 \<Rightarrow> QuotaBudget" where
  "demo_budget m = QuotaBudget (Some (ByteSize m)) (Some (ByteSize 8)) (Some (ByteSize 8))
     (Some (QuotaCount 4)) (Some (QuotaCount 4)) (Some (QuotaCount 4)) (Some (Duration 9))"

definition demo_hierarchy :: QuotaHierarchy where
  "demo_hierarchy = QuotaHierarchy (QuotaNode Global (demo_budget 64)
     [QuotaNode (Installation (InstallationId 1))
        (QuotaBudget (Some (ByteSize 16)) None None None None None None) []])"

lemma effective_is_path_minimum_witness:
  "effective_limit Memory (effective demo_hierarchy (InstallationId 1)) \<le> 16"
proof -
  have ok: "hierarchy_ok demo_hierarchy"
    by (simp add: hierarchy_ok_def demo_hierarchy_def demo_budget_def QuotaHierarchy_new_def is_total_def)
  have "on_path demo_hierarchy (InstallationId 1) (Installation (InstallationId 1))
      (QuotaBudget (Some (ByteSize 16)) None None None None None None)"
    by (simp add: on_path_def demo_hierarchy_def)
  with effective_is_path_minimum [OF ok, of "InstallationId 1" Memory] show ?thesis by fastforce
qed

text \<open>The constructors keep their promise: a hierarchy rebuilt from the wire is valid, and an
  accepted hierarchy names every installation at most once, whether below a group or below the root.\<close>

theorem deserialized_hierarchy_ok:
  assumes "QuotaHierarchy_deserialize w = Inr h"
  shows "hierarchy_ok h \<and> distinct (map fst (concat (map placements (children (root h)))))"
proof -
  from assms obtain r where r: "QuotaNode_deserialize w = Inr r" "QuotaHierarchy_new r = Inr h"
    by (auto simp: QuotaHierarchy_deserialize_def result_simps)
  then have "root h = r" "check_children (children r) [] [] = Inr ()"
    by (auto simp: QuotaHierarchy_new_def result_simps split: if_splits)
  with r QuotaNode_deserialize_ok(1) [OF r(1)] check_children_Inr [of "children r" "[]" "[]"]
  show ?thesis by (simp add: hierarchy_ok_def)
qed

lemma deserialized_hierarchy_ok_witness: "hierarchy_ok demo_hierarchy"
proof -
  have "QuotaHierarchy_deserialize (root demo_hierarchy) = Inr demo_hierarchy"
    by (simp add: QuotaHierarchy_deserialize_def demo_hierarchy_def QuotaNode_new_def demo_budget_def
        is_total_def QuotaHierarchy_new_def sort_nodes_def)
  with deserialized_hierarchy_ok show ?thesis by blast
qed

end
