(* ===== verification/Policy.thy ===== *)
theory Policy
  imports Interfaces Paths Quantities
begin

text \<open>
  Capability policies (\<open>crates/domain/src/policy.rs\<close>) and the analysis of a policy change
  (\<open>crates/domain/src/impact.rs\<close>): the scope vocabulary with its derived order and its text, a
  policy as a capability with its set of scopes, the versioned immutable snapshot, the difference of
  two snapshots and the objects a difference affects.

  A snapshot is a map from capabilities to policies; \<open>scopes_of\<close> is its abstraction, the scopes
  allowed for each capability. The difference is specified against it: applying the changes to the
  old scopes gives the new ones (\<open>between_applies\<close>).
\<close>

section \<open>Scopes\<close>

datatype NetworkScheme = Http | Https | Tcp | Udp

fun scheme_as_str :: "NetworkScheme \<Rightarrow> string" where
  "scheme_as_str Http = ''http''"
| "scheme_as_str Https = ''https''"
| "scheme_as_str Tcp = ''tcp''"
| "scheme_as_str Udp = ''udp''"

definition scheme_from_str_checked :: "string \<Rightarrow> DomainError + NetworkScheme" where
  "scheme_from_str_checked s =
     (if s = ''http'' then Inr Http
      else if s = ''https'' then Inr Https
      else if s = ''tcp'' then Inr Tcp
      else if s = ''udp'' then Inr Udp
      else Inl (InvalidValue K_NetworkScheme (UnknownVariant s)))"

definition NetworkScheme_impls :: "(DomainError, NetworkScheme) text_codec" where
  "NetworkScheme_impls = text_impls scheme_from_str_checked scheme_as_str"

interpretation network_scheme: closed_enum scheme_from_str_checked scheme_as_str
proof unfold_locales
  show "scheme_from_str_checked (scheme_as_str x) = Inr x" for x
    by (cases x) (simp_all add: scheme_from_str_checked_def)
  show "scheme_from_str_checked s = Inr x \<Longrightarrow> scheme_as_str x = s" for s x
    by (auto simp: scheme_from_str_checked_def split: if_splits)
qed

text \<open>\<open>All\<close> is \<open>All_scope\<close>: the name is taken by the universal quantifier.\<close>

datatype PolicyScope =
    All_scope
  | Secret SecretName
  | Event EventTopic
  | Network (scheme: NetworkScheme) (host: HostName) (port: "u16 option")
  | FileSystem (path: FileSystemPath) (fs_read: bool) (fs_write: bool)
  | Provider InterfaceId

text \<open>The derived \<open>Ord\<close>: by the variant, then by the fields in their order.\<close>

fun scheme_rank :: "NetworkScheme \<Rightarrow> nat" where
  "scheme_rank Http = 0"
| "scheme_rank Https = 1"
| "scheme_rank Tcp = 2"
| "scheme_rank Udp = 3"

type_synonym scope_key = "nat \<times> string \<times> (nat \<times> string \<times> u16 option) \<times> (string \<times> bool \<times> bool) \<times> InterfaceId option"

fun scope_key :: "PolicyScope \<Rightarrow> scope_key" where
  "scope_key All_scope = (0, [], (0, [], None), ([], False, False), None)"
| "scope_key (Secret n) = (1, secret_name_text n, (0, [], None), ([], False, False), None)"
| "scope_key (Event t) = (2, event_topic_text t, (0, [], None), ([], False, False), None)"
| "scope_key (Network s h p) = (3, [], (scheme_rank s, host_text h, p), ([], False, False), None)"
| "scope_key (FileSystem p r w) = (4, [], (0, [], None), (fs_path_text p, r, w), None)"
| "scope_key (Provider i) = (5, [], (0, [], None), ([], False, False), Some i)"

lemma scheme_rank_inj: "scheme_rank x = scheme_rank y \<Longrightarrow> x = y"
  by (cases x; cases y) simp_all

lemma scope_key_inj: "scope_key x = scope_key y \<Longrightarrow> x = y"
  by (cases x; cases y)
    (auto intro: SecretName.expand EventTopic.expand HostName.expand FileSystemPath.expand scheme_rank_inj)

instantiation PolicyScope :: linorder
begin

definition less_eq_PolicyScope :: "PolicyScope \<Rightarrow> PolicyScope \<Rightarrow> bool" where
  "x \<le> y \<longleftrightarrow> scope_key x \<le> scope_key y"

definition less_PolicyScope :: "PolicyScope \<Rightarrow> PolicyScope \<Rightarrow> bool" where
  "x < y \<longleftrightarrow> scope_key x < scope_key y"

instance
proof
  fix x y z :: PolicyScope
  show "x < y \<longleftrightarrow> x \<le> y \<and> \<not> y \<le> x"
    unfolding less_eq_PolicyScope_def less_PolicyScope_def by (rule less_le_not_le)
  show "x \<le> x" unfolding less_eq_PolicyScope_def by (rule order.refl)
  show "x \<le> y \<Longrightarrow> y \<le> z \<Longrightarrow> x \<le> z" unfolding less_eq_PolicyScope_def by (rule order.trans)
  show "x \<le> y \<or> y \<le> x" unfolding less_eq_PolicyScope_def by (rule linear)
  show "x \<le> y \<Longrightarrow> y \<le> x \<Longrightarrow> x = y"
    unfolding less_eq_PolicyScope_def by (rule scope_key_inj) (rule order.antisym)
qed

end

fun scope_display :: "PolicyScope \<Rightarrow> string" where
  "scope_display All_scope = ''all''"
| "scope_display (Secret n) = ''secret '' @ secret_name_text n"
| "scope_display (Event t) = ''event '' @ event_topic_text t"
| "scope_display (Network s h p) =
     (case p of
        Some n \<Rightarrow> ''network '' @ scheme_as_str s @ ''://'' @ host_text h @ '':'' @ decimal (unat n)
      | None \<Rightarrow> ''network '' @ scheme_as_str s @ ''://'' @ host_text h)"
| "scope_display (FileSystem p r w) =
     ''filesystem '' @ fs_path_text p @ '' ('' @
       (if r \<and> w then ''read-write'' else if r then ''read'' else if w then ''write'' else ''no-access'') @ '')''"
| "scope_display (Provider i) = ''provider '' @ InterfaceId_display i"

definition is_all :: "PolicyScope \<Rightarrow> bool" where
  "is_all s \<longleftrightarrow> (case s of All_scope \<Rightarrow> True | _ \<Rightarrow> False)"

section \<open>Policies and snapshots\<close>

text \<open>The scopes of a policy are a \<open>BTreeSet\<close>: a strictly increasing list.\<close>

record CapabilityPolicy =
  capability :: CapabilityId
  allowed_scopes :: "PolicyScope list"

definition CapabilityPolicy_new :: "CapabilityId \<Rightarrow> PolicyScope list \<Rightarrow> CapabilityPolicy" where
  "CapabilityPolicy_new c s = \<lparr>capability = c, allowed_scopes = s\<rparr>"

definition allows :: "CapabilityPolicy \<Rightarrow> PolicyScope \<Rightarrow> bool" where
  "allows p s \<longleftrightarrow> s \<in> set (allowed_scopes p) \<or> All_scope \<in> set (allowed_scopes p)"

definition is_explicit_deny :: "CapabilityPolicy \<Rightarrow> bool" where
  "is_explicit_deny p \<longleftrightarrow> allowed_scopes p = []"

datatype PolicyVersion = PolicyVersion (version_number: u64)

instantiation PolicyVersion :: linorder
begin

definition less_eq_PolicyVersion :: "PolicyVersion \<Rightarrow> PolicyVersion \<Rightarrow> bool" where
  "x \<le> y \<longleftrightarrow> version_number x \<le> version_number y"

definition less_PolicyVersion :: "PolicyVersion \<Rightarrow> PolicyVersion \<Rightarrow> bool" where
  "x < y \<longleftrightarrow> version_number x < version_number y"

instance
  by standard (auto simp: less_eq_PolicyVersion_def less_PolicyVersion_def intro: PolicyVersion.expand)

end

definition PolicyVersion_initial :: PolicyVersion where
  "PolicyVersion_initial = PolicyVersion 1"

definition PolicyVersion_next :: "PolicyVersion \<Rightarrow> DomainError + PolicyVersion" where
  "PolicyVersion_next v =
     ok_or (map_option PolicyVersion (checked_add (version_number v) 1)) (Overflow ''policy-version increment'')"

record PolicySnapshot =
  version :: PolicyVersion
  policies :: "(CapabilityId \<times> CapabilityPolicy) list"
  created_at :: UtcInstant

definition PolicySnapshot_new ::
  "PolicyVersion \<Rightarrow> CapabilityPolicy list \<Rightarrow> UtcInstant \<Rightarrow> DomainError + PolicySnapshot" where
  "PolicySnapshot_new v ps t =
     (case build_unique capability (\<lambda>p. p) ps [] of
        Inl p \<Rightarrow> Inl (InvalidValue K_PolicySnapshot (CapabilityRepeated (capability_text (capability p))))
      | Inr m \<Rightarrow> Inr \<lparr>version = v, policies = m, created_at = t\<rparr>)"

definition new_after ::
  "PolicySnapshot \<Rightarrow> CapabilityPolicy list \<Rightarrow> UtcInstant \<Rightarrow> DomainError + PolicySnapshot" where
  "new_after previous ps t =
     and_then (PolicyVersion_next (version previous)) (\<lambda>v. PolicySnapshot_new v ps t)"

definition policy_for :: "PolicySnapshot \<Rightarrow> CapabilityId \<Rightarrow> CapabilityPolicy option" where
  "policy_for s c = map_of (policies s) c"

text \<open>The wire form: the policies as an array in the order of the keys.\<close>

record snapshot_wire =
  wire_version :: PolicyVersion
  wire_policies :: "CapabilityPolicy list"
  wire_created_at :: UtcInstant

definition PolicySnapshot_serialize :: "PolicySnapshot \<Rightarrow> snapshot_wire" where
  "PolicySnapshot_serialize s =
     \<lparr>wire_version = version s, wire_policies = map snd (policies s), wire_created_at = created_at s\<rparr>"

definition PolicySnapshot_deserialize :: "snapshot_wire \<Rightarrow> DomainError + PolicySnapshot" where
  "PolicySnapshot_deserialize w = PolicySnapshot_new (wire_version w) (wire_policies w) (wire_created_at w)"

section \<open>Policy changes\<close>

datatype PolicyChange =
    AddPolicy CapabilityPolicy
  | ModifyPolicy CapabilityPolicy CapabilityPolicy
  | RemovePolicy CapabilityPolicy

fun change_capability :: "PolicyChange \<Rightarrow> CapabilityId" where
  "change_capability (AddPolicy p) = capability p"
| "change_capability (ModifyPolicy b a) = capability b"
| "change_capability (RemovePolicy p) = capability p"

definition modified_scopes :: "PolicyChange \<Rightarrow> (PolicyScope list \<times> PolicyScope list) option" where
  "modified_scopes c =
     (case c of ModifyPolicy b a \<Rightarrow> Some (allowed_scopes b, allowed_scopes a) | _ \<Rightarrow> None)"

record PolicyDiff =
  from_version :: PolicyVersion
  to_version :: PolicyVersion
  changes :: "PolicyChange list"

text \<open>The two loops of \<open>between\<close>, then the stable sort by capability.\<close>

fun removed_or_modified :: "PolicySnapshot \<Rightarrow> (CapabilityId \<times> CapabilityPolicy) list \<Rightarrow> PolicyChange list" where
  "removed_or_modified after [] = []"
| "removed_or_modified after ((c, b) # m) =
     (case policy_for after c of
        None \<Rightarrow> RemovePolicy b # removed_or_modified after m
      | Some a \<Rightarrow>
          if allowed_scopes b \<noteq> allowed_scopes a then ModifyPolicy b a # removed_or_modified after m
          else removed_or_modified after m)"

fun added :: "PolicySnapshot \<Rightarrow> (CapabilityId \<times> CapabilityPolicy) list \<Rightarrow> PolicyChange list" where
  "added before [] = []"
| "added before ((c, a) # m) =
     (if policy_for before c = None then AddPolicy a # added before m else added before m)"

definition PolicyDiff_between :: "PolicySnapshot \<Rightarrow> PolicySnapshot \<Rightarrow> DomainError + PolicyDiff" where
  "PolicyDiff_between before after =
     (if version after \<le> version before
      then Inl (InvalidValue K_PolicyDiff
             (VersionNotNewer (version_number (version after)) (version_number (version before))))
      else Inr \<lparr>from_version = version before, to_version = version after,
        changes = sort_key change_capability
          (removed_or_modified after (policies before) @ added before (policies after))\<rparr>)"

text \<open>On the wire a difference has its three fields; only the versions are checked again.\<close>

definition PolicyDiff_deserialize :: "PolicyDiff \<Rightarrow> DomainError + PolicyDiff" where
  "PolicyDiff_deserialize w =
     (if to_version w \<le> from_version w
      then Inl (InvalidValue K_PolicyDiff
             (VersionNotNewer (version_number (to_version w)) (version_number (from_version w))))
      else Inr w)"

section \<open>Impact\<close>

datatype UserId = UserId (user_uuid: u128)

instantiation UserId :: linorder
begin

definition less_eq_UserId :: "UserId \<Rightarrow> UserId \<Rightarrow> bool" where
  "x \<le> y \<longleftrightarrow> user_uuid x \<le> user_uuid y"

definition less_UserId :: "UserId \<Rightarrow> UserId \<Rightarrow> bool" where
  "x < y \<longleftrightarrow> user_uuid x < user_uuid y"

instance
  by standard (auto simp: less_eq_UserId_def less_UserId_def intro: UserId.expand)

end

record ImpactAnalysis =
  impact_diff :: PolicyDiff
  affected_capabilities :: "CapabilityId list"
  affected_installations :: "InstallationId list"
  affected_users :: "UserId list"
  affected_groups :: "GroupId list"

definition ImpactAnalysis_new ::
  "PolicyDiff \<Rightarrow> (CapabilityId \<times> InstallationId list) list \<Rightarrow> (UserId \<times> CapabilityId list) list \<Rightarrow>
    (GroupId \<times> UserId list) list \<Rightarrow> ImpactAnalysis" where
  "ImpactAnalysis_new diff capability_holders user_grants group_members =
     (let caps = bs_of_list (map change_capability (changes diff));
          insts = fold (\<lambda>c acc. case map_of capability_holders c of
              Some holders \<Rightarrow> fold bs_insert holders acc | None \<Rightarrow> acc) caps [];
          users = fold (\<lambda>(u, grants) acc. if \<exists>g \<in> set grants. g \<in> set caps then bs_insert u acc else acc)
              user_grants [];
          groups = fold (\<lambda>(g, members) acc. if \<exists>m \<in> set members. m \<in> set users then bs_insert g acc else acc)
              group_members []
      in \<lparr>impact_diff = diff, affected_capabilities = caps, affected_installations = insts,
          affected_users = users, affected_groups = groups\<rparr>)"

definition change_count :: "ImpactAnalysis \<Rightarrow> nat" where
  "change_count a = length (changes (impact_diff a))"

section \<open>Snapshots\<close>

text \<open>What the constructor establishes: one policy per capability, stored in the order of the keys.\<close>

definition snapshot_ok :: "PolicySnapshot \<Rightarrow> bool" where
  "snapshot_ok s \<longleftrightarrow> bt_ok (policies s) \<and> (\<forall>(c, p) \<in> set (policies s). capability p = c)"

text \<open>The abstraction: the allowed scopes of every capability that has a policy.\<close>

definition scopes_of :: "PolicySnapshot \<Rightarrow> CapabilityId \<rightharpoonup> PolicyScope list" where
  "scopes_of s c = map_option allowed_scopes (policy_for s c)"

lemma PolicySnapshot_new_Inr:
  assumes "PolicySnapshot_new v ps t = Inr s"
  shows "distinct (map capability ps)" and "snapshot_ok s" and "version s = v" and "created_at s = t"
    and "p \<in> set ps \<longleftrightarrow> policy_for s (capability p) = Some p"
proof -
  from assms obtain m where m: "build_unique capability (\<lambda>p. p) ps [] = Inr m"
    and s: "s = \<lparr>version = v, policies = m, created_at = t\<rparr>"
    by (auto simp: PolicySnapshot_new_def split: sum.splits)
  show "distinct (map capability ps)" using m by (simp add: build_unique_empty_iff)
  have "capability p = c" if "(c, p) \<in> set m" for c p
    using that build_unique_ok(4) [OF m] by auto
  then show "snapshot_ok s" using build_unique_ok(1) [OF m] by (auto simp: snapshot_ok_def s)
  show "version s = v" "created_at s = t" by (simp_all add: s)
  show "p \<in> set ps \<longleftrightarrow> policy_for s (capability p) = Some p"
    using build_unique_ok(4) [OF m, of "capability p" p] bt_ok_map_of [OF build_unique_ok(1) [OF m]]
    by (simp add: policy_for_def s)
qed

lemma PolicySnapshot_new_accepts: "is_ok (PolicySnapshot_new v ps t) \<longleftrightarrow> distinct (map capability ps)"
proof -
  have "(\<exists>m. build_unique capability (\<lambda>p. p) ps [] = Inr m) \<longleftrightarrow> distinct (map capability ps)"
    by (simp add: build_unique_empty_iff)
  then show ?thesis
    by (cases "build_unique capability (\<lambda>p. p) ps []") (auto simp: PolicySnapshot_new_def)
qed

lemma map_snd_key: "\<forall>(c, p) \<in> set m. f p = c \<Longrightarrow> map f (map snd m) = map fst m"
  by (induction m) auto

lemma snapshot_rebuild:
  assumes "snapshot_ok s"
  shows "PolicySnapshot_deserialize (PolicySnapshot_serialize s) = Inr s"
proof -
  let ?ps = "map snd (policies s)"
  have ok: "bt_ok (policies s)" and key: "\<forall>(c, p) \<in> set (policies s). capability p = c"
    using assms by (simp_all add: snapshot_ok_def)
  have k: "map capability ?ps = map fst (policies s)" by (rule map_snd_key) (rule key)
  have "distinct (map capability ?ps)" unfolding k by (rule bt_ok_distinct) (rule ok)
  then obtain m where m: "build_unique capability (\<lambda>p. p) ?ps [] = Inr m"
    by (simp add: build_unique_empty_iff)
  have mem: "(c, p) \<in> set m \<longleftrightarrow> (c, p) \<in> set (policies s)" for c p
    unfolding build_unique_ok(4) [OF m] using key by (auto simp: image_iff) force
  have "m = policies s"
  proof (rule btree.entries_eqI)
    show okm: "bt_ok m" by (rule build_unique_ok(1) [OF m])
    show "bt_ok (policies s)" by (rule ok)
    fix c
    have "map_of m c = Some p \<longleftrightarrow> map_of (policies s) c = Some p" for p
      unfolding bt_ok_map_of [OF okm] bt_ok_map_of [OF ok] by (rule mem)
    then show "map_of m c = map_of (policies s) c" by (metis not_None_eq)
  qed
  then show ?thesis
    by (simp add: PolicySnapshot_deserialize_def PolicySnapshot_serialize_def PolicySnapshot_new_def m)
qed

section \<open>The difference of two snapshots\<close>

text \<open>The meaning of a change: the scopes of its capability afterwards.\<close>

fun change_scopes :: "PolicyChange \<Rightarrow> PolicyScope list option" where
  "change_scopes (AddPolicy p) = Some (allowed_scopes p)"
| "change_scopes (ModifyPolicy b a) = Some (allowed_scopes a)"
| "change_scopes (RemovePolicy p) = None"

definition apply_change :: "PolicyChange \<Rightarrow> (CapabilityId \<rightharpoonup> PolicyScope list) \<Rightarrow> CapabilityId \<rightharpoonup> PolicyScope list" where
  "apply_change x m = m(change_capability x := change_scopes x)"

lemma fold_apply_change_find:
  "distinct (map change_capability cs) \<Longrightarrow>
    fold apply_change cs m c =
      (case find (\<lambda>x. change_capability x = c) cs of Some x \<Rightarrow> change_scopes x | None \<Rightarrow> m c)"
proof (induction cs arbitrary: m)
  case (Cons y cs)
  then have none: "find (\<lambda>x. change_capability x = change_capability y) cs = None"
    by (simp add: find_key_None)
  with Cons show ?case by (auto simp: apply_change_def split: option.splits)
qed simp

lemma fold_apply_change:
  assumes "distinct (map change_capability cs)"
  shows "x \<in> set cs \<Longrightarrow> fold apply_change cs m (change_capability x) = change_scopes x"
    and "c \<notin> change_capability ` set cs \<Longrightarrow> fold apply_change cs m c = m c"
proof -
  show "fold apply_change cs m (change_capability x) = change_scopes x" if "x \<in> set cs"
    using find_key_Some [OF assms, of "change_capability x" x] that
    by (simp add: fold_apply_change_find [OF assms])
  show "fold apply_change cs m c = m c" if "c \<notin> change_capability ` set cs"
    using iffD2 [OF find_key_None that] by (simp add: fold_apply_change_find [OF assms])
qed

lemma set_removed_or_modified:
  "x \<in> set (removed_or_modified after m) \<longleftrightarrow>
    (\<exists>c b. (c, b) \<in> set m \<and>
      (policy_for after c = None \<and> x = RemovePolicy b \<or>
       (\<exists>a. policy_for after c = Some a \<and> allowed_scopes b \<noteq> allowed_scopes a \<and> x = ModifyPolicy b a)))"
  by (induction after m rule: removed_or_modified.induct) (auto split: option.splits)

lemma set_added:
  "x \<in> set (added before m) \<longleftrightarrow> (\<exists>c a. (c, a) \<in> set m \<and> policy_for before c = None \<and> x = AddPolicy a)"
  by (induction before m rule: added.induct) auto

lemma removed_or_modified_keys:
  "\<forall>(c, b) \<in> set m. capability b = c \<Longrightarrow> change_capability ` set (removed_or_modified after m) \<subseteq> fst ` set m"
  by (induction after m rule: removed_or_modified.induct) (auto split: option.splits)

lemma added_keys:
  "\<forall>(c, b) \<in> set m. capability b = c \<Longrightarrow> change_capability ` set (added before m) \<subseteq> fst ` set m"
  by (induction before m rule: added.induct) auto

lemma distinct_removed_or_modified:
  "distinct (map fst m) \<Longrightarrow> \<forall>(c, b) \<in> set m. capability b = c \<Longrightarrow>
    distinct (map change_capability (removed_or_modified after m))"
proof (induction m)
  case (Cons e m)
  then have "change_capability ` set (removed_or_modified after m) \<subseteq> fst ` set m"
    by (intro removed_or_modified_keys) simp
  with Cons show ?case by (cases e) (auto split: option.splits)
qed simp

lemma distinct_added:
  "distinct (map fst m) \<Longrightarrow> \<forall>(c, b) \<in> set m. capability b = c \<Longrightarrow>
    distinct (map change_capability (added before m))"
proof (induction m)
  case (Cons e m)
  then have "change_capability ` set (added before m) \<subseteq> fst ` set m"
    by (intro added_keys) simp
  with Cons show ?case by (cases e) auto
qed simp

lemma policy_for_Some: "snapshot_ok s \<Longrightarrow> policy_for s c = Some p \<longleftrightarrow> (c, p) \<in> set (policies s)"
  by (simp add: snapshot_ok_def policy_for_def bt_ok_map_of)

lemma policy_for_key: "snapshot_ok s \<Longrightarrow> policy_for s c = Some p \<Longrightarrow> capability p = c"
  using policy_for_Some [of s c p] by (auto simp: snapshot_ok_def)

abbreviation raw_changes :: "PolicySnapshot \<Rightarrow> PolicySnapshot \<Rightarrow> PolicyChange list" where
  "raw_changes before after \<equiv> removed_or_modified after (policies before) @ added before (policies after)"

lemma set_raw_changes:
  assumes "snapshot_ok s" "snapshot_ok t"
  shows "x \<in> set (raw_changes s t) \<longleftrightarrow>
    (\<exists>c p. policy_for s c = Some p \<and> policy_for t c = None \<and> x = RemovePolicy p) \<or>
    (\<exists>c p q. policy_for s c = Some p \<and> policy_for t c = Some q \<and> allowed_scopes p \<noteq> allowed_scopes q \<and>
      x = ModifyPolicy p q) \<or>
    (\<exists>c q. policy_for s c = None \<and> policy_for t c = Some q \<and> x = AddPolicy q)"
  by (simp add: set_removed_or_modified set_added policy_for_Some [OF assms(1), symmetric]
      policy_for_Some [OF assms(2), symmetric]) blast

lemma raw_changes_scopes:
  assumes ok: "snapshot_ok s" "snapshot_ok t"
  shows "x \<in> set (raw_changes s t) \<Longrightarrow>
      change_scopes x = scopes_of t (change_capability x) \<and> change_scopes x \<noteq> scopes_of s (change_capability x)"
    and "c \<notin> change_capability ` set (raw_changes s t) \<Longrightarrow> scopes_of s c = scopes_of t c"
proof -
  note key = policy_for_key [OF ok(1)] policy_for_key [OF ok(2)]
  show "change_scopes x = scopes_of t (change_capability x) \<and> change_scopes x \<noteq> scopes_of s (change_capability x)"
    if "x \<in> set (raw_changes s t)"
  proof -
    from that consider (rm) c p where "policy_for s c = Some p" "policy_for t c = None" "x = RemovePolicy p"
      | (md) c p q where "policy_for s c = Some p" "policy_for t c = Some q"
          "allowed_scopes p \<noteq> allowed_scopes q" "x = ModifyPolicy p q"
      | (ad) c q where "policy_for s c = None" "policy_for t c = Some q" "x = AddPolicy q"
      unfolding set_raw_changes [OF ok] by blast
    then show ?thesis
    proof cases
      case rm
      then show ?thesis using key(1) [OF rm(1)] by (simp add: scopes_of_def)
    next
      case md
      then show ?thesis using key(1) [OF md(1)] key(2) [OF md(2)] by (simp add: scopes_of_def)
    next
      case ad
      then show ?thesis using key(2) [OF ad(2)] by (simp add: scopes_of_def)
    qed
  qed
  show "scopes_of s c = scopes_of t c" if c: "c \<notin> change_capability ` set (raw_changes s t)"
  proof (rule ccontr)
    assume diff: "scopes_of s c \<noteq> scopes_of t c"
    have no: "\<not> (\<exists>x. x \<in> set (raw_changes s t) \<and> change_capability x = c)" using c by blast
    show False
    proof (cases "policy_for s c")
      case None
      with diff obtain q where q: "policy_for t c = Some q" by (auto simp: scopes_of_def)
      with None have "AddPolicy q \<in> set (raw_changes s t)" unfolding set_raw_changes [OF ok] by blast
      then show False using no key(2) [OF q] change_capability.simps(1) by blast
    next
      case (Some p)
      note p = Some
      show False
      proof (cases "policy_for t c")
        case None
        with p have "RemovePolicy p \<in> set (raw_changes s t)" unfolding set_raw_changes [OF ok] by blast
        then show False using no key(1) [OF p] change_capability.simps(3) by blast
      next
        case (Some q)
        then have "allowed_scopes p \<noteq> allowed_scopes q" using diff p by (auto simp: scopes_of_def)
        with p Some have "ModifyPolicy p q \<in> set (raw_changes s t)" unfolding set_raw_changes [OF ok] by blast
        then show False using no key(1) [OF p] change_capability.simps(2) by blast
      qed
    qed
  qed
qed

lemma distinct_raw_changes:
  assumes ok: "snapshot_ok s" "snapshot_ok t"
  shows "distinct (map change_capability (raw_changes s t))"
proof -
  have bt: "bt_ok (policies s)" "bt_ok (policies t)"
    and key: "\<forall>(c, p) \<in> set (policies s). capability p = c" "\<forall>(c, p) \<in> set (policies t). capability p = c"
    using ok by (simp_all add: snapshot_ok_def)
  have "policy_for s (change_capability x) \<noteq> None" if "x \<in> set (removed_or_modified t (policies s))" for x
  proof -
    have "change_capability x \<in> fst ` set (policies s)"
      using removed_or_modified_keys [OF key(1)] that by blast
    then show ?thesis by (simp add: policy_for_def map_of_eq_None_iff)
  qed
  moreover have "policy_for s (change_capability x) = None" if "x \<in> set (added s (policies t))" for x
    using that key(2) by (auto simp: set_added)
  ultimately have "change_capability ` set (removed_or_modified t (policies s)) \<inter>
      change_capability ` set (added s (policies t)) = {}" by fastforce
  then show ?thesis
    using distinct_removed_or_modified [OF bt_ok_distinct [OF bt(1)] key(1)]
      distinct_added [OF bt_ok_distinct [OF bt(2)] key(2)] by simp
qed

lemma PolicyDiff_between_Inr:
  "PolicyDiff_between s t = Inr d \<longleftrightarrow>
    version s < version t \<and> d = \<lparr>from_version = version s, to_version = version t,
      changes = sort_key change_capability (raw_changes s t)\<rparr>"
  by (auto simp: PolicyDiff_between_def)

section \<open>Properties\<close>

lemma between_facts:
  assumes ok: "snapshot_ok s" "snapshot_ok t" and d: "PolicyDiff_between s t = Inr d"
  shows "fold apply_change (changes d) (scopes_of s) = scopes_of t"
    and "sorted_wrt (<) (map change_capability (changes d))"
    and "change_capability ` set (changes d) = {c. scopes_of s c \<noteq> scopes_of t c}"
proof -
  let ?cs = "changes d"
  have cs: "?cs = sort_key change_capability (raw_changes s t)"
    using d by (simp add: PolicyDiff_between_Inr)
  have set: "set ?cs = set (raw_changes s t)" by (simp only: cs set_sort)
  have dist: "distinct (map change_capability ?cs)"
    using distinct_raw_changes [OF ok] unfolding distinct_map set by (simp only: cs distinct_sort)
  note sc = raw_changes_scopes [OF ok, folded set]
  show "fold apply_change ?cs (scopes_of s) = scopes_of t"
  proof
    fix c
    show "fold apply_change ?cs (scopes_of s) c = scopes_of t c"
    proof (cases "c \<in> change_capability ` set ?cs")
      case True
      then obtain x where x: "x \<in> set ?cs" "c = change_capability x" by blast
      then show ?thesis using fold_apply_change(1) [OF dist x(1)] sc(1) by simp
    next
      case False
      then show ?thesis using fold_apply_change(2) [OF dist False] sc(2) by simp
    qed
  qed
  show "sorted_wrt (<) (map change_capability ?cs)"
    using dist sorted_sort_key [of change_capability "raw_changes s t"] by (simp only: strict_sorted_iff cs)
  show "change_capability ` set ?cs = {c. scopes_of s c \<noteq> scopes_of t c}"
    using sc by (auto simp: image_iff) metis
qed

text \<open>C11: The difference of two snapshots is exact: applied to the scopes of the old snapshot it gives the
  scopes of the new one, it lists the changes strictly ordered by capability (each capability at most
  once), and it touches exactly the capabilities whose allowed scopes differ.\<close>

theorem between_exact:
  assumes "snapshot_ok before" "snapshot_ok after" "PolicyDiff_between before after = Inr d"
  shows "fold apply_change (changes d) (scopes_of before) = scopes_of after \<and>
    sorted_wrt (<) (map change_capability (changes d)) \<and>
    change_capability ` set (changes d) = {c. scopes_of before c \<noteq> scopes_of after c}"
  using between_facts [OF assms] by simp

definition demo_policy :: "string \<Rightarrow> PolicyScope list \<Rightarrow> CapabilityPolicy" where
  "demo_policy c s = CapabilityPolicy_new (CapabilityId c) s"

definition demo_snapshot :: "u64 \<Rightarrow> CapabilityPolicy list \<Rightarrow> PolicySnapshot" where
  "demo_snapshot v ps =
     \<lparr>version = PolicyVersion v, policies = map (\<lambda>p. (capability p, p)) ps, created_at = UtcInstant 0\<rparr>"

definition demo_before :: PolicySnapshot where
  "demo_before = demo_snapshot 1 [demo_policy ''a'' [All_scope], demo_policy ''b'' []]"

definition demo_after :: PolicySnapshot where
  "demo_after = demo_snapshot 2 [demo_policy ''a'' [], demo_policy ''c'' [All_scope]]"

lemma demo_ok: "snapshot_ok demo_before" "snapshot_ok demo_after"
  by (simp_all add: snapshot_ok_def demo_before_def demo_after_def demo_snapshot_def demo_policy_def
      CapabilityPolicy_new_def bt_ok_Cons less_CapabilityId_def less_eq_char_def less_char_def)

lemma demo_between: "\<exists>d. PolicyDiff_between demo_before demo_after = Inr d"
  by (simp add: PolicyDiff_between_Inr demo_before_def demo_after_def demo_snapshot_def less_PolicyVersion_def)

lemma between_exact_witness:
  "\<exists>d. PolicyDiff_between demo_before demo_after = Inr d \<and>
     CapabilityId ''a'' \<in> change_capability ` set (changes d)"
proof -
  obtain d where d: "PolicyDiff_between demo_before demo_after = Inr d" using demo_between by blast
  have "scopes_of demo_before (CapabilityId ''a'') \<noteq> scopes_of demo_after (CapabilityId ''a'')"
    by (simp add: scopes_of_def policy_for_def demo_before_def demo_after_def demo_snapshot_def
        demo_policy_def CapabilityPolicy_new_def)
  with between_exact [OF demo_ok d] d show ?thesis by blast
qed

text \<open>A snapshot made after another one is valid and exactly one version newer, so that their
  difference exists; the constructor fails exactly when a capability has two policies or the version
  counter would wrap around.\<close>

theorem new_after_monotone:
  "(is_ok (new_after s ps t) \<longleftrightarrow>
     distinct (map capability ps) \<and> unat (version_number (version s)) < 2 ^ 64 - 1) \<and>
   (\<forall>s'. new_after s ps t = Inr s' \<longrightarrow>
     snapshot_ok s' \<and> unat (version_number (version s')) = unat (version_number (version s)) + 1 \<and>
     is_ok (PolicyDiff_between s s'))"
proof -
  have next_iff: "PolicyVersion_next v = Inr w \<longleftrightarrow> unat (version_number w) = unat (version_number v) + 1" for v w
    by (cases w) (auto simp: PolicyVersion_next_def result_simps checked_add_Some)
  have "is_ok (PolicyVersion_next v) \<longleftrightarrow> unat (version_number v) < 2 ^ 64 - 1" for v
    by (cases "checked_add (version_number v) 1")
      (auto simp: PolicyVersion_next_def checked_add_def split: if_splits)
  then have ok: "is_ok (new_after s ps t) \<longleftrightarrow>
      distinct (map capability ps) \<and> unat (version_number (version s)) < 2 ^ 64 - 1"
  proof -
    assume nx: "\<And>v. is_ok (PolicyVersion_next v) \<longleftrightarrow> unat (version_number v) < 2 ^ 64 - 1"
    show ?thesis
      using nx [of "version s"] PolicySnapshot_new_accepts [of _ ps t]
      by (cases "PolicyVersion_next (version s)") (simp_all add: new_after_def)
  qed
  have "snapshot_ok s' \<and> unat (version_number (version s')) = unat (version_number (version s)) + 1 \<and>
      is_ok (PolicyDiff_between s s')" if "new_after s ps t = Inr s'" for s'
  proof -
    from that obtain v where v: "PolicyVersion_next (version s) = Inr v" "PolicySnapshot_new v ps t = Inr s'"
      by (auto simp: new_after_def result_simps)
    note new = PolicySnapshot_new_Inr(2,3) [OF v(2)]
    have n: "unat (version_number v) = unat (version_number (version s)) + 1" using v(1) by (simp add: next_iff)
    then have "version s < version s'" by (simp add: new less_PolicyVersion_def word_less_nat_alt)
    with new n show ?thesis by (simp add: is_ok_iff PolicyDiff_between_Inr)
  qed
  with ok show ?thesis by blast
qed

lemma new_after_monotone_witness:
  "\<exists>s'. new_after demo_before [demo_policy ''a'' []] (UtcInstant 5) = Inr s' \<and>
     unat (version_number (version s')) = 2"
proof -
  have v: "unat (version_number (version demo_before)) = 1" by (simp add: demo_before_def demo_snapshot_def)
  then have "is_ok (new_after demo_before [demo_policy ''a'' []] (UtcInstant 5))"
    using new_after_monotone [of demo_before "[demo_policy ''a'' []]" "UtcInstant 5"] by simp
  then obtain s' where s': "new_after demo_before [demo_policy ''a'' []] (UtcInstant 5) = Inr s'"
    by (auto simp: is_ok_iff)
  with new_after_monotone [of demo_before "[demo_policy ''a'' []]" "UtcInstant 5"] v show ?thesis by auto
qed

text \<open>The wire form of a snapshot is lossless, and the wire admits nothing else: what is read back is a
  valid snapshot with the same policies.\<close>

theorem snapshot_wire_roundtrip:
  "(snapshot_ok s \<longrightarrow> PolicySnapshot_deserialize (PolicySnapshot_serialize s) = Inr s) \<and>
   (PolicySnapshot_deserialize w = Inr s \<longrightarrow>
     snapshot_ok s \<and> set (wire_policies (PolicySnapshot_serialize s)) = set (wire_policies w))"
proof -
  have "snapshot_ok s \<and> set (wire_policies (PolicySnapshot_serialize s)) = set (wire_policies w)"
    if "PolicySnapshot_deserialize w = Inr s"
  proof -
    note n = PolicySnapshot_new_Inr [OF that [unfolded PolicySnapshot_deserialize_def]]
    have "p \<in> set (map snd (policies s)) \<longleftrightarrow> p \<in> set (wire_policies w)" for p
    proof -
      have "p \<in> set (map snd (policies s)) \<longleftrightarrow> policy_for s (capability p) = Some p"
        unfolding policy_for_Some [OF n(2)] using n(2) by (force simp: snapshot_ok_def)
      then show ?thesis by (simp only: n(5) [symmetric])
    qed
    with n(2) show ?thesis by (auto simp: PolicySnapshot_serialize_def)
  qed
  with snapshot_rebuild show ?thesis by blast
qed

lemma snapshot_wire_roundtrip_witness:
  "PolicySnapshot_deserialize (PolicySnapshot_serialize demo_before) = Inr demo_before"
  using snapshot_wire_roundtrip [of demo_before] demo_ok(1) by blast

text \<open>The impact analysis of a difference reports, each as an ordered set without duplicates, exactly
  the capabilities whose scopes differ, the installations that hold a grant of one of them, the users
  granted one of them and the groups with such a user.\<close>

theorem impact_exact:
  assumes "snapshot_ok before" "snapshot_ok after" "PolicyDiff_between before after = Inr d"
    and "a = ImpactAnalysis_new d holders grants members"
  shows "set (affected_capabilities a) = {c. scopes_of before c \<noteq> scopes_of after c} \<and>
    set (affected_installations a) =
      {i. \<exists>c \<in> set (affected_capabilities a). \<exists>hs. map_of holders c = Some hs \<and> i \<in> set hs} \<and>
    set (affected_users a) = {u. \<exists>gs. (u, gs) \<in> set grants \<and> (\<exists>g \<in> set gs. g \<in> set (affected_capabilities a))} \<and>
    set (affected_groups a) = {g. \<exists>us. (g, us) \<in> set members \<and> (\<exists>u \<in> set us. u \<in> set (affected_users a))} \<and>
    bs_ok (affected_capabilities a) \<and> bs_ok (affected_installations a) \<and>
    bs_ok (affected_users a) \<and> bs_ok (affected_groups a)"
proof -
  have caps: "affected_capabilities a = bs_of_list (map change_capability (changes d))"
    using assms(4) by (simp add: ImpactAnalysis_new_def Let_def)
  note f = fold_collect_lookup [OF bs_ok_Nil, of "map_of holders" "affected_capabilities a"]
    fold_collect_if [OF bs_ok_Nil, of "\<lambda>gs. \<exists>g \<in> set gs. g \<in> set (affected_capabilities a)" grants]
    fold_collect_if [OF bs_ok_Nil, of "\<lambda>us. \<exists>u \<in> set us. u \<in> set (affected_users a)" members]
  have i: "affected_installations a = fold (\<lambda>c acc. case map_of holders c of
        Some hs \<Rightarrow> fold bs_insert hs acc | None \<Rightarrow> acc) (affected_capabilities a) []"
    and u: "affected_users a = fold (\<lambda>(k, v) acc.
        if \<exists>g \<in> set v. g \<in> set (affected_capabilities a) then bs_insert k acc else acc) grants []"
    and g: "affected_groups a = fold (\<lambda>(k, v) acc.
        if \<exists>m \<in> set v. m \<in> set (affected_users a) then bs_insert k acc else acc) members []"
    using assms(4) by (simp_all add: ImpactAnalysis_new_def Let_def)
  have "set (affected_capabilities a) = {c. scopes_of before c \<noteq> scopes_of after c}"
    by (simp add: caps between_facts(3) [OF assms(1-3)])
  moreover have "bs_ok (affected_capabilities a)" by (simp add: caps)
  ultimately show ?thesis using f [folded i u g] by simp
qed

lemma impact_exact_witness:
  "\<exists>d. PolicyDiff_between demo_before demo_after = Inr d \<and>
     InstallationId 7 \<in> set (affected_installations
       (ImpactAnalysis_new d [(CapabilityId ''a'', [InstallationId 7])] [] []))"
proof -
  obtain d where d: "PolicyDiff_between demo_before demo_after = Inr d" using demo_between by blast
  have "scopes_of demo_before (CapabilityId ''a'') \<noteq> scopes_of demo_after (CapabilityId ''a'')"
    by (simp add: scopes_of_def policy_for_def demo_before_def demo_after_def demo_snapshot_def
        demo_policy_def CapabilityPolicy_new_def)
  with impact_exact [OF demo_ok d refl, of "[(CapabilityId ''a'', [InstallationId 7])]" "[]" "[]"] d
  show ?thesis by auto
qed

end
