(* ===== verification/Rbac.thy ===== *)
theory Rbac
  imports Policy
begin

text \<open>
  Roles and groups (\<open>crates/domain/src/rbac.rs\<close>): the vocabulary of permissions (a resource, an
  action out of twelve, a scope), roles with their constructor and the two built-in roles, the decision
  \<open>permits\<close> and user groups. The names that clash with others are suffixed: \<open>All_resource\<close> is
  \<open>PermissionResource::All\<close> and \<open>Grant_action\<close>, \<open>Quota_action\<close> are \<open>PermissionAction::Grant\<close> and
  \<open>PermissionAction::Quota\<close>.
\<close>

section \<open>Identities\<close>

datatype RoleId = RoleId (role_id_text: string)
datatype RoleName = RoleName (role_name_text: string)

definition RoleId_new :: "string \<Rightarrow> DomainError + RoleId" where
  "RoleId_new v = and_then (validate_identifier v K_RoleId) (\<lambda>_. Inr (RoleId v))"

definition RoleId_impls :: "(DomainError, RoleId) text_codec" where
  "RoleId_impls = text_impls RoleId_new role_id_text"

interpretation role_id: validated_newtype RoleId_new role_id_text
  by unfold_locales (auto simp: RoleId_new_def result_simps RoleId.expand)

definition RoleName_new :: "string \<Rightarrow> DomainError + RoleName" where
  "RoleName_new v = and_then (validate_identifier v K_RoleName) (\<lambda>_. Inr (RoleName v))"

definition RoleName_impls :: "(DomainError, RoleName) text_codec" where
  "RoleName_impls = text_impls RoleName_new role_name_text"

interpretation role_name: validated_newtype RoleName_new role_name_text
  by unfold_locales (auto simp: RoleName_new_def result_simps RoleName.expand)

definition ROOT_ADMIN_ROLE_ID :: string where "ROOT_ADMIN_ROLE_ID = ''root-admin''"
definition OPERATOR_ROLE_ID :: string where "OPERATOR_ROLE_ID = ''operator''"

text \<open>\<open>Display\<close> and \<open>FromStr\<close> of a user id are the \<open>uuid\<close> crate's printer and parser.\<close>

definition UserId_display :: "(u128 \<Rightarrow> string) \<Rightarrow> UserId \<Rightarrow> string" where
  "UserId_display show_uuid u = show_uuid (user_uuid u)"

definition UserId_from_str :: "(string \<Rightarrow> u128 option) \<Rightarrow> string \<Rightarrow> DomainError + UserId" where
  "UserId_from_str parse_uuid s =
     ok_or (map_option UserId (parse_uuid s)) (InvalidValue K_UserId (UnknownVariant s))"

section \<open>Permissions\<close>

datatype PermissionResource =
  All_resource | Platform | Component ComponentId | Installation InstallationId | Capability CapabilityId

fun resource_display :: "(u128 \<Rightarrow> string) \<Rightarrow> PermissionResource \<Rightarrow> string" where
  "resource_display show_uuid All_resource = ''all''"
| "resource_display show_uuid Platform = ''platform''"
| "resource_display show_uuid (Component i) = ''component '' @ component_text i"
| "resource_display show_uuid (Installation i) = ''installation '' @ show_uuid (installation_uuid i)"
| "resource_display show_uuid (Capability c) = ''capability '' @ capability_text c"

datatype PermissionAction = Install | Enable | Disable | Remove | Upgrade | Rollback | Grant_action | Config | AuditView | Quota_action | ManageUsers | ManageRoles

fun action_as_str :: "PermissionAction \<Rightarrow> string" where
  "action_as_str Install = ''install''"
| "action_as_str Enable = ''enable''"
| "action_as_str Disable = ''disable''"
| "action_as_str Remove = ''remove''"
| "action_as_str Upgrade = ''upgrade''"
| "action_as_str Rollback = ''rollback''"
| "action_as_str Grant_action = ''grant''"
| "action_as_str Config = ''config''"
| "action_as_str AuditView = ''audit-view''"
| "action_as_str Quota_action = ''quota''"
| "action_as_str ManageUsers = ''manage-users''"
| "action_as_str ManageRoles = ''manage-roles''"

definition action_from_str_checked :: "string \<Rightarrow> DomainError + PermissionAction" where
  "action_from_str_checked s =
     (if s = ''install'' then Inr Install
      else if s = ''enable'' then Inr Enable
      else if s = ''disable'' then Inr Disable
      else if s = ''remove'' then Inr Remove
      else if s = ''upgrade'' then Inr Upgrade
      else if s = ''rollback'' then Inr Rollback
      else if s = ''grant'' then Inr Grant_action
      else if s = ''config'' then Inr Config
      else if s = ''audit-view'' then Inr AuditView
      else if s = ''quota'' then Inr Quota_action
      else if s = ''manage-users'' then Inr ManageUsers
      else if s = ''manage-roles'' then Inr ManageRoles
      else Inl (InvalidValue K_PermissionAction (UnknownVariant s)))"

definition all_actions :: "PermissionAction list" where
  "all_actions = [Install, Enable, Disable, Remove, Upgrade, Rollback, Grant_action, Config, AuditView, Quota_action, ManageUsers, ManageRoles]"

definition PermissionAction_impls :: "(DomainError, PermissionAction) text_codec" where
  "PermissionAction_impls = text_impls action_from_str_checked action_as_str"

interpretation permission_action: closed_enum action_from_str_checked action_as_str
proof unfold_locales
  show "action_from_str_checked (action_as_str x) = Inr x" for x
    by (cases x) (simp_all add: action_from_str_checked_def)
  show "action_from_str_checked s = Inr x \<Longrightarrow> action_as_str x = s" for s x
    by (auto simp: action_from_str_checked_def split: if_splits)
qed

record PermissionGrant =
  resource :: PermissionResource
  action :: PermissionAction
  grant_scope :: PolicyScope

definition PermissionGrant_new :: "PermissionResource \<Rightarrow> PermissionAction \<Rightarrow> PolicyScope \<Rightarrow> PermissionGrant" where
  "PermissionGrant_new r a s = \<lparr>resource = r, action = a, grant_scope = s\<rparr>"

definition grant_display :: "(u128 \<Rightarrow> string) \<Rightarrow> PermissionGrant \<Rightarrow> string" where
  "grant_display show_uuid g =
     action_as_str (action g) @ '' '' @ resource_display show_uuid (resource g) @ '' '' @
     scope_display (grant_scope g)"

section \<open>Roles\<close>

record Role =
  id_of_role :: RoleId
  name_of_role :: RoleName
  grants :: "PermissionGrant list"

text \<open>The loop of \<open>Role::new\<close>: a grant seen before is an error.\<close>

fun check_grants :: "RoleId \<Rightarrow> PermissionGrant list \<Rightarrow> PermissionGrant set \<Rightarrow> DomainError + unit" where
  "check_grants i [] seen = Inr ()"
| "check_grants i (g # gs) seen =
     (if g \<in> seen then Inl (InvalidValue K_Role (GrantRepeated (role_id_text i)))
      else check_grants i gs (insert g seen))"

definition Role_new :: "RoleId \<Rightarrow> RoleName \<Rightarrow> PermissionGrant list \<Rightarrow> DomainError + Role" where
  "Role_new i n gs =
     (if gs = [] then Inl (InvalidValue K_Role (NoPermission (role_id_text i)))
      else and_then (check_grants i gs {})
             (\<lambda>_. Inr \<lparr>id_of_role = i, name_of_role = n, grants = gs\<rparr>))"

definition root_admin :: Role where
  "root_admin = \<lparr>id_of_role = RoleId ROOT_ADMIN_ROLE_ID, name_of_role = RoleName ''Root Admin'',
     grants = map (\<lambda>a. PermissionGrant_new All_resource a All_scope) all_actions\<rparr>"

definition operator :: Role where
  "operator = \<lparr>id_of_role = RoleId OPERATOR_ROLE_ID, name_of_role = RoleName ''Operator'',
     grants = map (\<lambda>a. PermissionGrant_new All_resource a All_scope) [Enable, Disable, Config, AuditView]\<rparr>"

definition is_root_admin :: "Role \<Rightarrow> bool" where
  "is_root_admin r \<longleftrightarrow> role_id_text (id_of_role r) = ROOT_ADMIN_ROLE_ID"

definition is_operator :: "Role \<Rightarrow> bool" where
  "is_operator r \<longleftrightarrow> role_id_text (id_of_role r) = OPERATOR_ROLE_ID"

definition permits :: "Role \<Rightarrow> PermissionResource \<Rightarrow> PermissionAction \<Rightarrow> PolicyScope \<Rightarrow> bool" where
  "permits r res a s \<longleftrightarrow>
     list_ex (\<lambda>g. action g = a \<and> (resource g = All_resource \<or> resource g = res) \<and>
       (grant_scope g = All_scope \<or> grant_scope g = s)) (grants r)"

text \<open>On the wire a role has its three fields; reading it goes through the constructor.\<close>

definition Role_deserialize :: "Role \<Rightarrow> DomainError + Role" where
  "Role_deserialize w = Role_new (id_of_role w) (name_of_role w) (grants w)"

text \<open>A group: users and references to roles, both \<open>BTreeSet\<close>s.\<close>

record Group =
  group_id_of :: GroupId
  members :: "UserId set"
  roles :: "RoleId set"

definition Group_new :: "GroupId \<Rightarrow> UserId set \<Rightarrow> RoleId set \<Rightarrow> Group" where
  "Group_new i m r = \<lparr>group_id_of = i, members = m, roles = r\<rparr>"

section \<open>Facts\<close>

lemma check_grants_Inr:
  "check_grants i gs seen = Inr u \<longleftrightarrow> distinct gs \<and> set gs \<inter> seen = {}"
  by (induction gs arbitrary: seen) auto

lemma Role_new_Inr:
  "Role_new i n gs = Inr r \<longleftrightarrow>
    gs \<noteq> [] \<and> distinct gs \<and> r = \<lparr>id_of_role = i, name_of_role = n, grants = gs\<rparr>"
  by (auto simp: Role_new_def result_simps check_grants_Inr)

lemma permits_grants_of:
  "permits \<lparr>id_of_role = i, name_of_role = n,
      grants = map (\<lambda>a. PermissionGrant_new All_resource a All_scope) as\<rparr> res a s \<longleftrightarrow> a \<in> set as"
  by (auto simp: permits_def list_ex_iff PermissionGrant_new_def)

lemma all_actions_complete: "a \<in> set all_actions"
  by (cases a) (simp_all add: all_actions_def)

section \<open>Properties\<close>

text \<open>The built-in roles are separated: the root administrator may do everything everywhere, the
  operator may enable, disable, configure and view the audit log and nothing else (so never install,
  remove, upgrade, roll back, grant, or manage quotas, users and roles).\<close>

theorem builtin_roles_separated:
  "permits root_admin res a s \<and>
   (permits operator res a s \<longleftrightarrow> a \<in> {Enable, Disable, Config, AuditView}) \<and>
   is_root_admin root_admin \<and> \<not> is_operator root_admin \<and>
   is_operator operator \<and> \<not> is_root_admin operator"
proof -
  have "permits root_admin res a s"
    unfolding root_admin_def permits_grants_of by (rule all_actions_complete)
  moreover have "permits operator res a s \<longleftrightarrow> a \<in> {Enable, Disable, Config, AuditView}"
    unfolding operator_def permits_grants_of by simp
  ultimately show ?thesis
    by (simp add: is_root_admin_def is_operator_def root_admin_def operator_def
        ROOT_ADMIN_ROLE_ID_def OPERATOR_ROLE_ID_def)
qed

text \<open>A role is accepted, from the administrator or from the wire, exactly when it has at least one
  grant and no grant twice; the built-in roles, which bypass the check, pass it, and so do their names.\<close>

theorem roles_validated:
  "(is_ok (Role_deserialize w) \<longleftrightarrow> grants w \<noteq> [] \<and> distinct (grants w)) \<and>
   Role_deserialize root_admin = Inr root_admin \<and> Role_deserialize operator = Inr operator \<and>
   RoleId_new ROOT_ADMIN_ROLE_ID = Inr (id_of_role root_admin) \<and>
   RoleId_new OPERATOR_ROLE_ID = Inr (id_of_role operator) \<and>
   RoleName_new ''Root Admin'' = Inr (name_of_role root_admin) \<and>
   RoleName_new ''Operator'' = Inr (name_of_role operator)"
  by (simp add: Role_deserialize_def Role_new_Inr is_ok_iff root_admin_def operator_def all_actions_def
      PermissionGrant_new_def RoleId_new_def RoleName_new_def validate_identifier_def
      ROOT_ADMIN_ROLE_ID_def OPERATOR_ROLE_ID_def MAX_IDENTIFIER_LEN_def)

end
