(* ===== verification/Chain.thy ===== *)
theory Chain
  imports Idents
begin

text \<open>
  The policy chain (\<open>crates/domain/src/chain.rs\<close>): the record of one authorization decision through the
  four layers. \<open>PolicyChain_new\<close> is the well-formedness check in the order of the source;
  \<open>well_formed\<close> is its declarative form and \<open>PolicyChain_new_Inr\<close> the equivalence.
\<close>

section \<open>Layers and entries\<close>

datatype PolicyChainLayer = ContractNeed | Resolution | Grant | InvocationEnforcement

fun layer_as_str :: "PolicyChainLayer \<Rightarrow> string" where
  "layer_as_str ContractNeed = ''contract-need''"
| "layer_as_str Resolution = ''resolution''"
| "layer_as_str Grant = ''grant''"
| "layer_as_str InvocationEnforcement = ''invocation-enforcement''"

definition layer_from_str_checked :: "string \<Rightarrow> DomainError + PolicyChainLayer" where
  "layer_from_str_checked s =
     (if s = ''contract-need'' then Inr ContractNeed
      else if s = ''resolution'' then Inr Resolution
      else if s = ''grant'' then Inr Grant
      else if s = ''invocation-enforcement'' then Inr InvocationEnforcement
      else Inl (InvalidValue K_PolicyChainLayer (UnknownVariant s)))"

definition all_layers :: "PolicyChainLayer list" where
  "all_layers = [ContractNeed, Resolution, Grant, InvocationEnforcement]"

definition PolicyChainLayer_impls :: "(DomainError, PolicyChainLayer) text_codec" where
  "PolicyChainLayer_impls = text_impls layer_from_str_checked layer_as_str"

interpretation policy_chain_layer: closed_enum layer_from_str_checked layer_as_str
proof unfold_locales
  show "layer_from_str_checked (layer_as_str x) = Inr x" for x
    by (cases x) (simp_all add: layer_from_str_checked_def)
  show "layer_from_str_checked s = Inr x \<Longrightarrow> layer_as_str x = s" for s x
    by (auto simp: layer_from_str_checked_def split: if_splits)
qed

text \<open>The derived order is the order of the variants.\<close>

fun layer_rank :: "PolicyChainLayer \<Rightarrow> nat" where
  "layer_rank ContractNeed = 0"
| "layer_rank Resolution = 1"
| "layer_rank Grant = 2"
| "layer_rank InvocationEnforcement = 3"

lemma layer_rank_inj: "layer_rank x = layer_rank y \<Longrightarrow> x = y"
  by (cases x; cases y) simp_all

instantiation PolicyChainLayer :: linorder
begin

definition less_eq_PolicyChainLayer :: "PolicyChainLayer \<Rightarrow> PolicyChainLayer \<Rightarrow> bool" where
  "x \<le> y \<longleftrightarrow> layer_rank x \<le> layer_rank y"

definition less_PolicyChainLayer :: "PolicyChainLayer \<Rightarrow> PolicyChainLayer \<Rightarrow> bool" where
  "x < y \<longleftrightarrow> layer_rank x < layer_rank y"

instance
  by standard (auto simp: less_eq_PolicyChainLayer_def less_PolicyChainLayer_def intro: layer_rank_inj)

end

record PolicyChainEntry =
  layer :: PolicyChainLayer
  grant_basis :: "string option"
  deny_basis :: "string option"

definition entry_grant :: "PolicyChainLayer \<Rightarrow> string \<Rightarrow> PolicyChainEntry" where
  "entry_grant l b = \<lparr>layer = l, grant_basis = Some b, deny_basis = None\<rparr>"

definition entry_deny :: "PolicyChainLayer \<Rightarrow> string \<Rightarrow> PolicyChainEntry" where
  "entry_deny l b = \<lparr>layer = l, grant_basis = None, deny_basis = Some b\<rparr>"

definition is_allow :: "PolicyChainEntry \<Rightarrow> bool" where
  "is_allow e \<longleftrightarrow> grant_basis e \<noteq> None"

definition is_deny :: "PolicyChainEntry \<Rightarrow> bool" where
  "is_deny e \<longleftrightarrow> deny_basis e \<noteq> None"

datatype PolicyDecision = Allow | Deny

fun decision_as_str :: "PolicyDecision \<Rightarrow> string" where
  "decision_as_str Allow = ''allow''"
| "decision_as_str Deny = ''deny''"

definition decision_from_str_checked :: "string \<Rightarrow> DomainError + PolicyDecision" where
  "decision_from_str_checked s =
     (if s = ''allow'' then Inr Allow
      else if s = ''deny'' then Inr Deny
      else Inl (InvalidValue K_PolicyDecision (UnknownVariant s)))"

definition PolicyDecision_impls :: "(DomainError, PolicyDecision) text_codec" where
  "PolicyDecision_impls = text_impls decision_from_str_checked decision_as_str"

interpretation policy_decision: closed_enum decision_from_str_checked decision_as_str
proof unfold_locales
  show "decision_from_str_checked (decision_as_str x) = Inr x" for x
    by (cases x) (simp_all add: decision_from_str_checked_def)
  show "decision_from_str_checked s = Inr x \<Longrightarrow> decision_as_str x = s" for s x
    by (auto simp: decision_from_str_checked_def split: if_splits)
qed

section \<open>Chains\<close>

record PolicyChain =
  subject :: InstallationId
  chain_capability :: CapabilityId
  entries :: "PolicyChainEntry list"

text \<open>The loop over the entries with \<open>previous_layer\<close>.\<close>

fun check_entries :: "PolicyChainLayer option \<Rightarrow> PolicyChainEntry list \<Rightarrow> DomainError + unit" where
  "check_entries previous [] = Inr ()"
| "check_entries previous (e # es) =
     (if (grant_basis e \<noteq> None) = (deny_basis e \<noteq> None)
      then Inl (InvalidValue K_PolicyChain (ChainBasis (layer_as_str (layer e))))
      else if \<exists>p \<in> set_option previous. layer e \<le> p
        then Inl (InvalidValue K_PolicyChain
               (ChainOrder (layer_as_str (layer e)) (layer_as_str (the previous))))
      else check_entries (Some (layer e)) es)"

text \<open>\<open>iter().position(p)\<close>.\<close>

fun position :: "('a \<Rightarrow> bool) \<Rightarrow> 'a list \<Rightarrow> nat option" where
  "position p [] = None"
| "position p (x # xs) = (if p x then Some 0 else map_option Suc (position p xs))"

definition PolicyChain_new ::
  "InstallationId \<Rightarrow> CapabilityId \<Rightarrow> PolicyChainEntry list \<Rightarrow> DomainError + PolicyChain" where
  "PolicyChain_new s c es =
     (if es = [] then Inl (InvalidValue K_PolicyChain ChainEmpty)
      else and_then (check_entries None es) (\<lambda>_.
        let deny_index = position is_deny es in
        if \<exists>i \<in> set_option deny_index. i + 1 \<noteq> length es
        then Inl (InvalidValue K_PolicyChain ChainAfterDeny)
        else if deny_index = None \<and> length es \<noteq> length all_layers
        then Inl (InvalidValue K_PolicyChain (ChainIncomplete (length es)))
        else Inr \<lparr>subject = s, chain_capability = c, entries = es\<rparr>))"

definition decision :: "PolicyChain \<Rightarrow> PolicyDecision" where
  "decision ch = (if entries ch \<noteq> [] \<and> is_deny (last (entries ch)) then Deny else Allow)"

definition denied_at :: "PolicyChain \<Rightarrow> PolicyChainLayer option" where
  "denied_at ch = map_option layer (find is_deny (entries ch))"

text \<open>The one-line explanation; the separator is \<open>" \<rightarrow> "\<close>, the arrow U+2192 in UTF-8.\<close>

definition arrow :: string where
  "arrow = '' '' @ [CHR 0xE2, CHR 0x86, CHR 0x92] @ '' ''"

fun join_str :: "string \<Rightarrow> string list \<Rightarrow> string" where
  "join_str sep [] = []"
| "join_str sep [p] = p"
| "join_str sep (p # q # ps) = p @ sep @ join_str sep (q # ps)"

definition explain_entry :: "PolicyChainEntry \<Rightarrow> string" where
  "explain_entry e =
     (case (grant_basis e, deny_basis e) of
        (Some b, _) \<Rightarrow> layer_as_str (layer e) @ '' ('' @ b @ '')''
      | (None, Some b) \<Rightarrow> layer_as_str (layer e) @ '' ('' @ b @ '')''
      | (None, None) \<Rightarrow> layer_as_str (layer e))"

definition explain :: "(u128 \<Rightarrow> string) \<Rightarrow> PolicyChain \<Rightarrow> string" where
  "explain show_uuid ch =
     decision_as_str (decision ch) @ '' '' @ capability_text (chain_capability ch) @ '' for '' @
     show_uuid (installation_uuid (subject ch)) @ '': '' @ join_str arrow (map explain_entry (entries ch))"

definition PolicyChain_deserialize :: "PolicyChain \<Rightarrow> DomainError + PolicyChain" where
  "PolicyChain_deserialize w = PolicyChain_new (subject w) (chain_capability w) (entries w)"

section \<open>Well-formed chains\<close>

definition one_basis :: "PolicyChainEntry \<Rightarrow> bool" where
  "one_basis e \<longleftrightarrow> is_allow e \<noteq> is_deny e"

text \<open>Either all four layers grant, or a possibly empty sequence of granting layers ends in a denial.\<close>

definition well_formed :: "PolicyChainEntry list \<Rightarrow> bool" where
  "well_formed es \<longleftrightarrow>
     (\<forall>e \<in> set es. one_basis e) \<and> sorted_wrt (<) (map layer es) \<and>
     (map layer es = all_layers \<and> (\<forall>e \<in> set es. is_allow e) \<or>
      (\<exists>pre e. es = pre @ [e] \<and> is_deny e \<and> (\<forall>x \<in> set pre. is_allow x)))"

lemma check_entries_Inr:
  "check_entries previous es = Inr u \<longleftrightarrow>
    (\<forall>e \<in> set es. one_basis e) \<and> sorted_wrt (<) (map layer es) \<and>
    (\<forall>p \<in> set_option previous. \<forall>e \<in> set es. p < layer e)"
proof (induction previous es rule: check_entries.induct)
  case (2 previous e es)
  show ?case
  proof (cases "one_basis e \<and> (\<forall>p \<in> set_option previous. p < layer e)")
    case True
    then have "check_entries previous (e # es) = check_entries (Some (layer e)) es"
      by (force simp: one_basis_def is_allow_def is_deny_def)
    moreover have "(\<forall>p \<in> set_option previous. \<forall>x \<in> set (e # es). p < layer x) \<and> (\<forall>x \<in> set es. layer e < layer x)
        \<longleftrightarrow> (\<forall>x \<in> set es. layer e < layer x)"
      using True by (auto intro: less_trans)
    ultimately show ?thesis using 2 True
      by (auto simp: one_basis_def is_allow_def is_deny_def not_le)
  next
    case False
    then have "\<exists>d. check_entries previous (e # es) = Inl d"
      by (auto simp: one_basis_def is_allow_def is_deny_def not_less)
    with False show ?thesis by auto
  qed
qed simp

lemma position_None: "position p xs = None \<longleftrightarrow> (\<forall>x \<in> set xs. \<not> p x)"
  by (induction xs) auto

lemma position_Some:
  "position p xs = Some i \<longleftrightarrow> i < length xs \<and> p (xs ! i) \<and> (\<forall>j < i. \<not> p (xs ! j))"
proof (induction xs arbitrary: i)
  case (Cons x xs)
  then show ?case by (cases i) (auto simp: All_less_Suc2)
qed simp

text \<open>A strictly increasing list of four layers is the list of all layers.\<close>

lemma four_layers:
  assumes "sorted_wrt (<) (map layer es)" "length es = 4"
  shows "map layer es = all_layers"
proof -
  have univ: "(UNIV :: PolicyChainLayer set) = set all_layers"
    by (auto simp: all_layers_def) (metis PolicyChainLayer.exhaust)
  then have "finite (UNIV :: PolicyChainLayer set)" by (metis finite_set)
  moreover have "card (UNIV :: PolicyChainLayer set) = 4"
    unfolding univ by (simp add: all_layers_def)
  moreover have "card (set (map layer es)) = 4"
    using assms by (metis distinct_card length_map strict_sorted_iff)
  ultimately have "set (map layer es) = UNIV"
    by (metis card_subset_eq subset_UNIV)
  moreover note univ
  moreover have "sorted_wrt (<) all_layers"
    by (simp add: all_layers_def less_PolicyChainLayer_def)
  ultimately show ?thesis using assms(1) by (metis strict_sorted_equal)
qed

lemma PolicyChain_new_Inr:
  "PolicyChain_new s c es = Inr ch \<longleftrightarrow>
    well_formed es \<and> ch = \<lparr>subject = s, chain_capability = c, entries = es\<rparr>"
proof -
  let ?basis = "\<forall>e \<in> set es. one_basis e" and ?sorted = "sorted_wrt (<) (map layer es)"
  have new: "PolicyChain_new s c es = Inr ch \<longleftrightarrow>
      es \<noteq> [] \<and> ?basis \<and> ?sorted \<and> (\<forall>i \<in> set_option (position is_deny es). i + 1 = length es) \<and>
      (position is_deny es = None \<longrightarrow> length es = 4) \<and>
      ch = \<lparr>subject = s, chain_capability = c, entries = es\<rparr>"
    by (auto simp: PolicyChain_new_def result_simps check_entries_Inr all_layers_def Let_def split: if_splits)
  show ?thesis
  proof (cases "position is_deny es")
    case None
    then have no: "\<forall>e \<in> set es. \<not> is_deny e" by (simp add: position_None)
    then have "?basis \<longleftrightarrow> (\<forall>e \<in> set es. is_allow e)" by (auto simp: one_basis_def)
    moreover have "length es = 4 \<longleftrightarrow> map layer es = all_layers" if ?sorted
    proof
      show "length es = 4 \<Longrightarrow> map layer es = all_layers" using four_layers [OF that] .
      assume "map layer es = all_layers"
      then have "length (map layer es) = length all_layers" by simp
      then show "length es = 4" by (simp add: all_layers_def)
    qed
    ultimately show ?thesis using None no by (auto simp: new well_formed_def all_layers_def)
  next
    case (Some i)
    then have i: "i < length es" "is_deny (es ! i)" "\<forall>j < i. \<not> is_deny (es ! j)"
      by (simp_all add: position_Some)
    have "\<exists>pre e. es = pre @ [e] \<and> is_deny e \<and> (\<forall>x \<in> set pre. is_allow x)"
      if "i + 1 = length es" "?basis"
    proof -
      from that have "es = take i es @ [es ! i]" by (metis Suc_eq_plus1 i(1) take_Suc_conv_app_nth take_all order.refl)
      moreover have "is_allow x" if "x \<in> set (take i es)" for x
      proof -
        obtain j where "j < i" "x = es ! j" using \<open>x \<in> set (take i es)\<close> i(1) by (auto simp: in_set_conv_nth)
        then show ?thesis using i(1,3) \<open>?basis\<close> by (auto simp: one_basis_def)
      qed
      ultimately show ?thesis using i(2) by blast
    qed
    moreover have "i + 1 = length es"
      if es: "es = pre @ [e]" "\<forall>x \<in> set pre. is_allow x" and b: "?basis" for pre e
    proof -
      have "\<not> is_deny (pre ! j)" if "j < length pre" for j
        using es b that by (force simp: one_basis_def)
      then have "\<not> i < length pre" using i(2) es by (auto simp: nth_append)
      then show ?thesis using i(1) es by simp
    qed
    ultimately have "i + 1 = length es \<and> ?basis \<longleftrightarrow>
        ?basis \<and> (\<exists>pre e. es = pre @ [e] \<and> is_deny e \<and> (\<forall>x \<in> set pre. is_allow x))" by blast
    moreover have "\<not> (?basis \<and> (\<forall>e \<in> set es. is_allow e))" using i by (auto simp: one_basis_def)
    ultimately show ?thesis using Some i(1) by (auto simp: new well_formed_def)
  qed
qed

section \<open>Properties\<close>

text \<open>A decision record is accepted, when it is made and when it is read back, exactly when every
  entry has one basis, the layers are in the order of the four layers without repetition, and either
  all four layers grant or the one denial is the last entry.\<close>

theorem chain_accepted_iff:
  "is_ok (PolicyChain_new s c es) \<longleftrightarrow> well_formed es"
  by (auto simp: is_ok_iff PolicyChain_new_Inr)

text \<open>C12: An accepted record says \<open>Allow\<close> exactly when it shows all four layers granting, in order; it
  says \<open>Deny\<close> exactly when its last entry, and no other, denies, and the reported layer is that
  entry's.\<close>

theorem chain_decision_sound:
  assumes "PolicyChain_deserialize w = Inr ch"
  shows "(decision ch = Allow \<longleftrightarrow> map layer (entries ch) = all_layers \<and> (\<forall>e \<in> set (entries ch). is_allow e \<and> \<not> is_deny e)) \<and>
    (decision ch = Allow \<longleftrightarrow> denied_at ch = None) \<and>
    (decision ch = Deny \<longleftrightarrow> (\<exists>pre e. entries ch = pre @ [e] \<and> is_deny e \<and> denied_at ch = Some (layer e) \<and>
      (\<forall>x \<in> set pre. is_allow x \<and> \<not> is_deny x)))"
proof -
  let ?es = "entries ch"
  from assms have wf: "well_formed ?es" by (auto simp: PolicyChain_deserialize_def PolicyChain_new_Inr)
  then have basis: "\<forall>e \<in> set ?es. one_basis e" by (simp add: well_formed_def)
  from wf consider (all) "map layer ?es = all_layers" "\<forall>e \<in> set ?es. is_allow e"
    | (deny) pre e where "?es = pre @ [e]" "is_deny e" "\<forall>x \<in> set pre. is_allow x"
    by (auto simp: well_formed_def)
  then show ?thesis
  proof cases
    case all
    then have no: "\<forall>e \<in> set ?es. \<not> is_deny e" using basis by (auto simp: one_basis_def)
    then have "find is_deny ?es = None" by (auto simp: find_None_iff)
    moreover have "decision ch = Allow" using no by (auto simp: decision_def)
    ultimately show ?thesis using all no by (auto simp: denied_at_def)
  next
    case deny
    then have no: "\<forall>x \<in> set pre. \<not> is_deny x" and "\<not> is_allow e" using basis by (auto simp: one_basis_def)
    moreover have "find is_deny (pre @ [e]) = Some e" using no deny(2) by (induction pre) auto
    moreover have "decision ch = Deny" using deny by (simp add: decision_def)
    ultimately show ?thesis using deny by (auto simp: denied_at_def)
  qed
qed

lemma chain_decision_sound_witness:
  "\<exists>ch. PolicyChain_deserialize \<lparr>subject = InstallationId 1, chain_capability = CapabilityId ''a'',
      entries = [entry_grant ContractNeed ''import'', entry_deny Grant ''no grant'']\<rparr> = Inr ch \<and>
    denied_at ch = Some Grant"
proof -
  let ?w = "\<lparr>subject = InstallationId 1, chain_capability = CapabilityId ''a'',
      entries = [entry_grant ContractNeed ''import'', entry_deny Grant ''no grant'']\<rparr>"
  have "PolicyChain_deserialize ?w = Inr ?w"
    by (simp add: PolicyChain_deserialize_def PolicyChain_new_def entry_grant_def entry_deny_def
        is_deny_def less_eq_PolicyChainLayer_def Let_def)
  with chain_decision_sound [OF this] show ?thesis
    by (auto simp: decision_def entry_deny_def is_deny_def)
qed

end
