(* ===== verification/Scheduler.thy ===== *)
theory Scheduler
  imports Idents Quantities
begin

text \<open>
  The scheduler: its data (\<open>crates/domain/src/scheduler.rs\<close>) and the service with its driver
  (\<open>crates/application/src/scheduler.rs\<close>).

  One call of the service is one step on \<open>Scheduler\<close>: the calls run under one mutex. What the service
  reads from outside is an argument of the step: whether a tokio runtime is present, the answer of the
  grant port, the clock. The bounded delivery queue belongs to tokio: \<open>try_send\<close> succeeds or fails
  as the environment decides (\<open>accept\<close>, indexed by the number of the attempt, which covers every
  interleaving with the consumer), and \<open>channel\<close> keeps the history of the sent payloads. The wake-up
  generation and the task handles carry no state a caller observes; that a driver runs is the field
  \<open>driver\<close>, and the cancellation token is set exactly when \<open>stopped\<close> is.
\<close>

section \<open>Data\<close>

datatype ScheduleTrigger =
    OneShot (fire_at: UtcInstant)
  | Periodic (periodic_at: UtcInstant) (interval: Duration)

fun first_fire_at :: "ScheduleTrigger \<Rightarrow> UtcInstant" where
  "first_fire_at (OneShot t) = t"
| "first_fire_at (Periodic t d) = t"

datatype ScheduledTaskId = ScheduledTaskId (task_number: u64)

instantiation ScheduledTaskId :: linorder
begin

definition less_eq_ScheduledTaskId :: "ScheduledTaskId \<Rightarrow> ScheduledTaskId \<Rightarrow> bool" where
  "x \<le> y \<longleftrightarrow> task_number x \<le> task_number y"

definition less_ScheduledTaskId :: "ScheduledTaskId \<Rightarrow> ScheduledTaskId \<Rightarrow> bool" where
  "x < y \<longleftrightarrow> task_number x < task_number y"

instance
  by standard (auto simp: less_eq_ScheduledTaskId_def less_ScheduledTaskId_def intro: ScheduledTaskId.expand)

end

datatype TaskState = Scheduled | Cancelled | Completed

fun task_state_as_str :: "TaskState \<Rightarrow> string" where
  "task_state_as_str Scheduled = ''scheduled''"
| "task_state_as_str Cancelled = ''cancelled''"
| "task_state_as_str Completed = ''completed''"

definition task_state_from_str_checked :: "string \<Rightarrow> DomainError + TaskState" where
  "task_state_from_str_checked s =
     (if s = ''scheduled'' then Inr Scheduled
      else if s = ''cancelled'' then Inr Cancelled
      else if s = ''completed'' then Inr Completed
      else Inl (InvalidValue K_TaskState (UnknownVariant s)))"

definition TaskState_impls :: "(DomainError, TaskState) text_codec" where
  "TaskState_impls = text_impls task_state_from_str_checked task_state_as_str"

interpretation task_state: closed_enum task_state_from_str_checked task_state_as_str
proof unfold_locales
  show "task_state_from_str_checked (task_state_as_str x) = Inr x" for x
    by (cases x) (simp_all add: task_state_from_str_checked_def)
  show "task_state_from_str_checked s = Inr x \<Longrightarrow> task_state_as_str x = s" for s x
    by (auto simp: task_state_from_str_checked_def split: if_splits)
qed

record TaskStatus =
  status_state :: TaskState
  status_missed_fires :: u64
  status_next_fire_at :: "UtcInstant option"

record TriggerPayload =
  payload_task :: ScheduledTaskId
  payload_sequence :: u64
  payload_at :: UtcInstant
  payload_missed :: u64

section \<open>State of the service\<close>

record SchedulerLimits =
  max_tasks_per_installation :: nat
  max_total_tasks :: nat
  delivery_queue_capacity :: nat
  min_periodic_interval :: Duration

definition limits_default :: SchedulerLimits where
  "limits_default = \<lparr>max_tasks_per_installation = 64, max_total_tasks = 1024, delivery_queue_capacity = 16,
     min_periodic_interval = Duration_from_millis 1\<rparr>"

datatype SchedulerError = Denied | InvalidTrigger string | NotFound | NotReady | OverBudget | Internal string

record TaskEntry =
  trigger :: ScheduleTrigger
  tstate :: TaskState
  sequence :: u64
  missed_fires :: u64
  next_fire_at :: "UtcInstant option"

record channel =
  attempts :: nat
  sent :: "TriggerPayload list"

record InstallSchedulerState =
  tasks :: "(ScheduledTaskId \<times> TaskEntry) list"
  stopped :: bool
  driver :: bool
  chan :: channel

definition state_new :: InstallSchedulerState where
  "state_new = \<lparr>tasks = [], stopped = False, driver = False, chan = \<lparr>attempts = 0, sent = []\<rparr>\<rparr>"

record Scheduler =
  installs :: "(InstallationId \<times> InstallSchedulerState) list"
  next_task_id :: u64

definition service_new :: Scheduler where
  "service_new = \<lparr>installs = [], next_task_id = 1\<rparr>"

definition set_install :: "InstallationId \<Rightarrow> InstallSchedulerState \<Rightarrow> Scheduler \<Rightarrow> Scheduler" where
  "set_install i st s = s\<lparr>installs := bt_insert i st (installs s)\<rparr>"

definition entry_or_new :: "InstallationId \<Rightarrow> Scheduler \<Rightarrow> InstallSchedulerState" where
  "entry_or_new i s = (case map_of (installs s) i of Some st \<Rightarrow> st | None \<Rightarrow> state_new)"

definition scheduled_count :: "(ScheduledTaskId \<times> TaskEntry) list \<Rightarrow> nat" where
  "scheduled_count ts = length (filter (\<lambda>(i, t). tstate t = Scheduled) ts)"

definition earliest_next_fire :: "(ScheduledTaskId \<times> TaskEntry) list \<Rightarrow> UtcInstant option" where
  "earliest_next_fire ts =
     (case List.map_filter (\<lambda>(i, t). if tstate t = Scheduled then next_fire_at t else None) ts of
        [] \<Rightarrow> None
      | n # ns \<Rightarrow> Some (fold min ns n))"

section \<open>Calls\<close>

definition validate_trigger :: "ScheduleTrigger \<Rightarrow> UtcInstant \<Rightarrow> Duration \<Rightarrow> SchedulerError + unit" where
  "validate_trigger t now min_interval =
     (case t of
        OneShot a \<Rightarrow>
          if a \<le> now then Inl (InvalidTrigger ''fire-at must be strictly in the future'') else Inr ()
      | Periodic n d \<Rightarrow>
          if n \<le> now then Inl (InvalidTrigger ''next-fire-at must be strictly in the future'')
          else if d < min_interval then Inl (InvalidTrigger ''interval below the policy minimum'')
          else Inr ())"

definition task_new :: "ScheduleTrigger \<Rightarrow> TaskEntry" where
  "task_new t = \<lparr>trigger = t, tstate = Scheduled, sequence = 1, missed_fires = 0,
     next_fire_at = Some (first_fire_at t)\<rparr>"

definition ensure_driver :: "bool \<Rightarrow> InstallationId \<Rightarrow> Scheduler \<Rightarrow> (SchedulerError + unit) \<times> Scheduler" where
  "ensure_driver runtime i s =
     (if \<not> runtime then (Inl NotReady, s)
      else case map_of (installs s) i of
        None \<Rightarrow> (Inl NotReady, s)
      | Some st \<Rightarrow> if driver st then (Inr (), s) else (Inr (), set_install i (st\<lparr>driver := True\<rparr>) s))"

definition schedule ::
  "SchedulerLimits \<Rightarrow> bool \<Rightarrow> unit + bool \<Rightarrow> unit + UtcInstant \<Rightarrow> InstallationId \<Rightarrow> ScheduleTrigger \<Rightarrow>
    Scheduler \<Rightarrow> (SchedulerError + ScheduledTaskId) \<times> Scheduler" where
  "schedule lim runtime granted clock i t s =
     (if \<not> runtime then (Inl NotReady, s)
      else case granted of
        Inl _ \<Rightarrow> (Inl (Internal ''grant query failed''), s)
      | Inr g \<Rightarrow>
      if \<not> g then (Inl Denied, s)
      else case clock of
        Inl _ \<Rightarrow> (Inl (Internal ''wall clock unavailable''), s)
      | Inr now \<Rightarrow>
      case validate_trigger t now (min_periodic_interval lim) of
        Inl e \<Rightarrow> (Inl e, s)
      | Inr _ \<Rightarrow>
      let task_id = ScheduledTaskId (next_task_id s);
          s = s\<lparr>next_task_id := next_task_id s + 1\<rparr>;
          total = (\<Sum>(j, st) \<leftarrow> installs s. scheduled_count (tasks st))
      in if total \<ge> max_total_tasks lim then (Inl OverBudget, s)
         else
           let install = entry_or_new i s; s = set_install i install s in
           if stopped install then (Inl NotReady, s)
           else if scheduled_count (tasks install) \<ge> max_tasks_per_installation lim then (Inl OverBudget, s)
           else
             let s = set_install i (install\<lparr>tasks := bt_insert task_id (task_new t) (tasks install)\<rparr>) s in
             (case ensure_driver runtime i s of
                (Inl e, s) \<Rightarrow> (Inl e, s)
              | (Inr _, s) \<Rightarrow> (Inr task_id, s)))"

definition cancel :: "InstallationId \<Rightarrow> ScheduledTaskId \<Rightarrow> Scheduler \<Rightarrow> (SchedulerError + unit) \<times> Scheduler" where
  "cancel i task s =
     (case map_of (installs s) i of
        None \<Rightarrow> (Inl NotFound, s)
      | Some st \<Rightarrow>
      if stopped st then (Inl NotReady, s)
      else case map_of (tasks st) task of
        None \<Rightarrow> (Inl NotFound, s)
      | Some e \<Rightarrow>
          (case tstate e of
             Scheduled \<Rightarrow>
               (Inr (), set_install i
                 (st\<lparr>tasks := bt_insert task (e\<lparr>tstate := Cancelled, next_fire_at := None\<rparr>) (tasks st)\<rparr>) s)
           | _ \<Rightarrow> (Inl NotFound, s)))"

definition task_status :: "InstallationId \<Rightarrow> ScheduledTaskId \<Rightarrow> Scheduler \<Rightarrow> SchedulerError + TaskStatus" where
  "task_status i task s =
     and_then (ok_or (map_of (installs s) i) NotFound) (\<lambda>st.
     and_then (ok_or (map_of (tasks st) task) NotFound) (\<lambda>e.
     Inr \<lparr>status_state = tstate e, status_missed_fires = missed_fires e, status_next_fire_at = next_fire_at e\<rparr>))"

definition stop :: "InstallationId \<Rightarrow> Scheduler \<Rightarrow> (SchedulerError + unit) \<times> Scheduler" where
  "stop i s =
     (let install = entry_or_new i s; s = set_install i install s in
      if stopped install then (Inr (), s) else (Inr (), set_install i (install\<lparr>stopped := True\<rparr>) s))"

definition is_stopped :: "InstallationId \<Rightarrow> Scheduler \<Rightarrow> bool" where
  "is_stopped i s = (case map_of (installs s) i of Some st \<Rightarrow> stopped st | None \<Rightarrow> False)"

definition task_count :: "InstallationId \<Rightarrow> Scheduler \<Rightarrow> nat" where
  "task_count i s = (case map_of (installs s) i of Some st \<Rightarrow> length (tasks st) | None \<Rightarrow> 0)"

section \<open>The driver\<close>

text \<open>
  Counts of grid points are \<open>u64\<close> values, kept as numbers below \<open>2 ^ 64\<close>. The difference of two
  instants is zero when it would be negative (\<open>u128::try_from(..).unwrap_or(0)\<close>).
\<close>

definition due_grid_points :: "UtcInstant \<Rightarrow> UtcInstant \<Rightarrow> Duration \<Rightarrow> nat" where
  "due_grid_points next now d =
     (if nanos d = 0 then 1
      else max 1 (min ((epoch_nanos now - epoch_nanos next) div nanos d + 1) (2 ^ 64 - 1)))"

definition grid_offset :: "Duration \<Rightarrow> nat \<Rightarrow> Duration" where
  "grid_offset d k =
     (let factor = min k (2 ^ 32 - 1) in Duration (min (nanos d * factor) (2 ^ 64 * NANOS_PER_SEC - 1)))"

definition duration_between :: "UtcInstant \<Rightarrow> UtcInstant \<Rightarrow> Duration" where
  "duration_between from to = Duration (epoch_nanos to - epoch_nanos from)"

definition try_send :: "(nat \<Rightarrow> bool) \<Rightarrow> TriggerPayload \<Rightarrow> channel \<Rightarrow> bool \<times> channel" where
  "try_send accept p ch =
     (if accept (attempts ch) then (True, \<lparr>attempts = attempts ch + 1, sent = sent ch @ [p]\<rparr>)
      else (False, ch\<lparr>attempts := attempts ch + 1\<rparr>))"

text \<open>The loop \<open>while k < k_max\<close> over the due grid points of a periodic task.\<close>

function fire_grid ::
  "(nat \<Rightarrow> bool) \<Rightarrow> nat \<Rightarrow> ScheduledTaskId \<Rightarrow> Duration \<Rightarrow> UtcInstant \<Rightarrow> u64 \<Rightarrow> nat \<Rightarrow> nat \<Rightarrow> u64 \<Rightarrow>
    channel \<Rightarrow> u64 \<times> channel" where
  "fire_grid accept t_max i d next sq k_max k missed ch =
     (if k < k_max then
        (case UtcInstant_checked_add t_max next (grid_offset d k) of
           Inl _ \<Rightarrow> (missed, ch)
         | Inr at \<Rightarrow>
             (case try_send accept \<lparr>payload_task = i, payload_sequence = saturating_add sq (of_nat k),
                 payload_at = at, payload_missed = missed\<rparr> ch of
                (True, ch) \<Rightarrow> fire_grid accept t_max i d next sq k_max (k + 1) 0 ch
              | (False, ch) \<Rightarrow> (saturating_add missed (of_nat (k_max - k)), ch)))
      else (missed, ch))"
  by auto
termination
  by (relation "measure (\<lambda>(_, _, _, _, _, _, k_max, k, _, _). k_max - k)") auto

declare fire_grid.simps [simp del]

definition fire_task ::
  "(nat \<Rightarrow> bool) \<Rightarrow> nat \<Rightarrow> UtcInstant \<Rightarrow> ScheduledTaskId \<Rightarrow> TaskEntry \<Rightarrow> channel \<Rightarrow> TaskEntry \<times> channel" where
  "fire_task accept t_max now i t ch =
     (if tstate t \<noteq> Scheduled then (t, ch)
      else case next_fire_at t of
        None \<Rightarrow> (t, ch)
      | Some next \<Rightarrow>
      if next > now then (t, ch)
      else case trigger t of
        OneShot _ \<Rightarrow>
          (let p = \<lparr>payload_task = i, payload_sequence = sequence t, payload_at = next,
                 payload_missed = missed_fires t\<rparr>;
               t = t\<lparr>sequence := saturating_add (sequence t) 1, tstate := Completed, next_fire_at := None\<rparr>
           in case try_send accept p ch of
                (True, ch) \<Rightarrow> (t\<lparr>missed_fires := 0\<rparr>, ch)
              | (False, ch) \<Rightarrow> (t\<lparr>missed_fires := saturating_add (missed_fires t) 1\<rparr>, ch))
      | Periodic _ d \<Rightarrow>
          (let k_max = due_grid_points next now d;
               (missed, ch) = fire_grid accept t_max i d next (sequence t) k_max 0 (missed_fires t) ch;
               t = t\<lparr>missed_fires := missed, sequence := saturating_add (sequence t) (of_nat k_max)\<rparr>
           in case UtcInstant_checked_add t_max next (grid_offset d k_max) of
                Inr n \<Rightarrow> (t\<lparr>next_fire_at := Some n\<rparr>, ch)
              | Inl _ \<Rightarrow> (t\<lparr>tstate := Completed, next_fire_at := None\<rparr>, ch)))"

fun fire_tasks ::
  "(nat \<Rightarrow> bool) \<Rightarrow> nat \<Rightarrow> UtcInstant \<Rightarrow> (ScheduledTaskId \<times> TaskEntry) list \<Rightarrow> channel \<Rightarrow>
    (ScheduledTaskId \<times> TaskEntry) list \<times> channel" where
  "fire_tasks accept t_max now [] ch = ([], ch)"
| "fire_tasks accept t_max now ((i, t) # ts) ch =
     (let (t', ch) = fire_task accept t_max now i t ch;
          (ts', ch) = fire_tasks accept t_max now ts ch
      in ((i, t') # ts', ch))"

definition fire_due ::
  "(InstallationId \<Rightarrow> nat \<Rightarrow> bool) \<Rightarrow> nat \<Rightarrow> unit + UtcInstant \<Rightarrow> InstallationId \<Rightarrow> Scheduler \<Rightarrow> Scheduler" where
  "fire_due accept t_max clock i s =
     (case clock of
        Inl _ \<Rightarrow> s
      | Inr now \<Rightarrow>
      case map_of (installs s) i of
        None \<Rightarrow> s
      | Some st \<Rightarrow>
          if stopped st then s
          else let (ts, ch) = fire_tasks (accept i) t_max now (tasks st) (chan st)
               in set_install i (st\<lparr>tasks := ts, chan := ch\<rparr>) s)"

text \<open>What the driver does in one turn of its loop, and its exit.\<close>

datatype driver_turn = AwaitWake | ExitDriver | FireNow | SleepThenFire Duration

definition run_driver_turn :: "unit + UtcInstant \<Rightarrow> InstallationId \<Rightarrow> Scheduler \<Rightarrow> driver_turn" where
  "run_driver_turn clock i s =
     (case Option.bind (map_of (installs s) i) (\<lambda>st. earliest_next_fire (tasks st)) of
        None \<Rightarrow> AwaitWake
      | Some next \<Rightarrow>
          (case clock of
             Inl _ \<Rightarrow> ExitDriver
           | Inr now \<Rightarrow> if next \<le> now then FireNow else SleepThenFire (duration_between now next)))"

definition driver_exit :: "InstallationId \<Rightarrow> Scheduler \<Rightarrow> Scheduler" where
  "driver_exit i s =
     (case map_of (installs s) i of Some st \<Rightarrow> set_install i (st\<lparr>driver := False\<rparr>) s | None \<Rightarrow> s)"

section \<open>Runs\<close>

text \<open>
  The steps of the service: calls with the answers of their environment, and the driver's firing
  (after its check or its sleep) and exit. The driver fires only while it runs.
\<close>

datatype op =
    Schedule bool "unit + bool" "unit + UtcInstant" InstallationId ScheduleTrigger
  | Cancel InstallationId ScheduledTaskId
  | Stop InstallationId
  | Fire "unit + UtcInstant" InstallationId
  | Exit InstallationId

fun step :: "SchedulerLimits \<Rightarrow> (InstallationId \<Rightarrow> nat \<Rightarrow> bool) \<Rightarrow> nat \<Rightarrow> op \<Rightarrow> Scheduler \<Rightarrow> Scheduler" where
  "step lim accept t_max (Schedule runtime granted clock i t) s = snd (schedule lim runtime granted clock i t s)"
| "step lim accept t_max (Cancel i task) s = snd (cancel i task s)"
| "step lim accept t_max (Stop i) s = snd (stop i s)"
| "step lim accept t_max (Fire clock i) s =
     (if \<exists>st \<in> set_option (map_of (installs s) i). driver st then fire_due accept t_max clock i s else s)"
| "step lim accept t_max (Exit i) s = driver_exit i s"

definition run :: "SchedulerLimits \<Rightarrow> (InstallationId \<Rightarrow> nat \<Rightarrow> bool) \<Rightarrow> nat \<Rightarrow> op list \<Rightarrow> Scheduler \<Rightarrow> Scheduler" where
  "run lim accept t_max ops s = fold (step lim accept t_max) ops s"

section \<open>Firing one task\<close>

text \<open>The payloads of a task in the history, in the order they were sent.\<close>

definition delivered :: "ScheduledTaskId \<Rightarrow> channel \<Rightarrow> TriggerPayload list" where
  "delivered i ch = filter (\<lambda>p. payload_task p = i) (sent ch)"

text \<open>The fires a list of payloads accounts for: each is one, and reports the missed ones before it.\<close>

definition accounted :: "TriggerPayload list \<Rightarrow> nat" where
  "accounted ps = (\<Sum>p \<leftarrow> ps. 1 + unat (payload_missed p))"

lemma accounted_simps [simp]:
  "accounted [] = 0"
  "accounted (p # ps) = 1 + unat (payload_missed p) + accounted ps"
  "accounted (ps @ qs) = accounted ps + accounted qs"
  by (simp_all add: accounted_def)

abbreviation seq_nat :: "TriggerPayload \<Rightarrow> nat" where
  "seq_nat p \<equiv> unat (payload_sequence p)"

lemma try_send_cases:
  assumes "try_send accept p ch = (b, ch')"
  shows "sent ch' = sent ch @ (if b then [p] else [])"
  using assms by (auto simp: try_send_def split: if_splits)

abbreviation grid_payload where
  "grid_payload i sq k at m \<equiv> \<lparr>payload_task = i, payload_sequence = saturating_add sq (of_nat k),
     payload_at = at, payload_missed = m\<rparr>"

text \<open>One turn of the loop: done, out of range, queue full, or sent.\<close>

lemma fire_grid_cases:
  assumes "fire_grid accept t_max i d next sq k_max k m ch = (m', ch')"
  obtains (finished) "\<not> k < k_max" "m' = m" "ch' = ch"
    | (range) e where "k < k_max" "UtcInstant_checked_add t_max next (grid_offset d k) = Inl e" "m' = m" "ch' = ch"
    | (full) at where "k < k_max" "UtcInstant_checked_add t_max next (grid_offset d k) = Inr at"
        "m' = saturating_add m (of_nat (k_max - k))" "sent ch' = sent ch"
    | (cont) at c where "k < k_max" "UtcInstant_checked_add t_max next (grid_offset d k) = Inr at"
        "sent c = sent ch @ [grid_payload i sq k at m]"
        "fire_grid accept t_max i d next sq k_max (k + 1) 0 c = (m', ch')"
proof (cases "k < k_max")
  case False
  with assms finished show ?thesis by (simp add: fire_grid.simps [of _ _ _ _ _ _ _ k])
next
  case True
  note k = True
  show ?thesis
  proof (cases "UtcInstant_checked_add t_max next (grid_offset d k)")
    case (Inl e)
    with assms k range show ?thesis by (simp add: fire_grid.simps [of _ _ _ _ _ _ _ k])
  next
    case (Inr at)
    obtain b c where s: "try_send accept (grid_payload i sq k at m) ch = (b, c)" by fastforce
    note sent = try_send_cases [OF s]
    show ?thesis
    proof (cases b)
      case True
      with assms k Inr s sent cont show ?thesis by (simp add: fire_grid.simps [of _ _ _ _ _ _ _ k])
    next
      case False
      with assms k Inr s sent full show ?thesis by (simp add: fire_grid.simps [of _ _ _ _ _ _ _ k])
    qed
  qed
qed

lemma fire_grid_sent:
  "fire_grid accept t_max i d next sq k_max k m ch = (m', ch') \<Longrightarrow>
    \<exists>ps. sent ch' = sent ch @ ps \<and> (\<forall>p \<in> set ps. payload_task p = i)"
proof (induction "k_max - k" arbitrary: k m ch)
  case 0
  from "0.prems"(1) show ?case
    by (cases rule: fire_grid_cases) (use 0 in simp_all)
next
  case (Suc n)
  from Suc.prems show ?case
  proof (cases rule: fire_grid_cases)
    case (cont at c)
    have n: "n = k_max - (k + 1)" using Suc.hyps(2) by simp
    from Suc.hyps(1) [OF n cont(4)] obtain ps
      where "sent ch' = sent c @ ps" "\<forall>p \<in> set ps. payload_task p = i" by auto
    with cont(3) have "sent ch' = sent ch @ (grid_payload i sq k at m # ps) \<and>
        (\<forall>p \<in> set (grid_payload i sq k at m # ps). payload_task p = i)" by simp
    then show ?thesis by blast
  qed auto
qed

text \<open>
  While the numbers stay below their bounds, the loop accounts for every due grid point: it is sent,
  or counted as missed. The payloads carry consecutive numbers of the grid.
\<close>

lemma unat_saturating_small:
  "unat a + n < 2 ^ 64 - 1 \<Longrightarrow> unat (saturating_add a (of_nat n :: u64)) = unat a + n"
  by (simp add: unat_saturating_add unat_of_nat_small)

lemma fire_grid_account:
  assumes "\<And>k. k < k_max \<Longrightarrow> is_ok (UtcInstant_checked_add t_max next (grid_offset d k))"
    and "unat sq + k_max < 2 ^ 64 - 1"
  shows "fire_grid accept t_max i d next sq k_max k m ch = (m', ch') \<Longrightarrow> k \<le> k_max \<Longrightarrow>
      unat m < unat sq + k \<Longrightarrow>
    \<exists>ps. sent ch' = sent ch @ ps \<and> accounted ps + unat m' = unat m + (k_max - k) \<and>
      sorted_wrt (<) (map seq_nat ps) \<and>
      (\<forall>p \<in> set ps. payload_task p = i \<and> unat sq + k \<le> seq_nat p \<and> seq_nat p < unat sq + k_max \<and>
        UtcInstant_checked_add t_max next (grid_offset d (seq_nat p - unat sq)) = Inr (payload_at p))"
proof (induction "k_max - k" arbitrary: k m ch)
  case 0
  from "0.prems"(1) show ?case
    by (cases rule: fire_grid_cases) (use 0 in simp_all)
next
  case (Suc n)
  from Suc.prems(1) show ?case
  proof (cases rule: fire_grid_cases)
    case (range e)
    with assms(1) [of k] show ?thesis by simp
  next
    case (full at)
    have "unat m' = unat m + (k_max - k)"
      unfolding full(3) using Suc.prems(2,3) assms(2) by (intro unat_saturating_small) linarith
    with full show ?thesis by simp
  next
    case (cont at c)
    have "unat (0 :: u64) < unat sq + (k + 1)" by simp
    moreover have n: "n = k_max - (k + 1)" using Suc.hyps(2) by simp
    moreover have "k + 1 \<le> k_max" using cont(1) by simp
    ultimately obtain ps where
      ps: "sent ch' = sent c @ ps" "accounted ps + unat m' = k_max - (k + 1)" "sorted_wrt (<) (map seq_nat ps)"
        "\<forall>p \<in> set ps. payload_task p = i \<and> unat sq + (k + 1) \<le> seq_nat p \<and> seq_nat p < unat sq + k_max \<and>
          UtcInstant_checked_add t_max next (grid_offset d (seq_nat p - unat sq)) = Inr (payload_at p)"
      using Suc.hyps(1) [OF n cont(4)] by auto
    let ?p = "grid_payload i sq k at m"
    have "seq_nat ?p = unat sq + k"
      using unat_saturating_small [of sq k] cont(1) assms(2) by simp
    then have "sent ch' = sent ch @ (?p # ps) \<and> accounted (?p # ps) + unat m' = unat m + (k_max - k) \<and>
      sorted_wrt (<) (map seq_nat (?p # ps)) \<and>
      (\<forall>p \<in> set (?p # ps). payload_task p = i \<and> unat sq + k \<le> seq_nat p \<and> seq_nat p < unat sq + k_max \<and>
        UtcInstant_checked_add t_max next (grid_offset d (seq_nat p - unat sq)) = Inr (payload_at p))"
      using ps cont by (auto simp: less_eq_Suc_le)
    then show ?thesis by blast
  qed auto
qed

text \<open>The grid: while its numbers fit \<open>u32\<close> an offset is exact, and a due point is representable.\<close>

abbreviation time_bound :: "nat \<Rightarrow> bool" where
  "time_bound t_max \<equiv> t_max < 2 ^ 63 * NANOS_PER_SEC"

lemma grid_add_exact:
  assumes "UtcInstant_checked_add t_max next (grid_offset d k) = Inr x" "k < 2 ^ 32"
  shows "epoch_nanos x = epoch_nanos next + nanos d * k"
proof -
  let ?o = "nanos (grid_offset d k)"
  from assms(1) have x: "epoch_nanos x = epoch_nanos next + ?o" and "?o div NANOS_PER_SEC < 2 ^ 63"
    by (auto simp: UtcInstant_checked_add_def time_duration_def result_simps split: if_splits)
  then have "?o < 2 ^ 63 * NANOS_PER_SEC" by (simp add: div_less_iff_less_mult)
  then have "?o = nanos d * k" using assms(2) by (auto simp: grid_offset_def Let_def min_def split: if_splits)
  with x show ?thesis by simp
qed

lemma due_point_bound:
  assumes "next \<le> now" "k < due_grid_points next now d"
  shows "nanos d * k \<le> epoch_nanos now - epoch_nanos next"
proof (cases "nanos d = 0")
  case False
  then have "k \<le> (epoch_nanos now - epoch_nanos next) div nanos d"
    using assms(2) by (auto simp: due_grid_points_def)
  then have "nanos d * k \<le> nanos d * ((epoch_nanos now - epoch_nanos next) div nanos d)" by simp
  also have "\<dots> \<le> epoch_nanos now - epoch_nanos next" by (simp add: mult.commute)
  finally show ?thesis .
qed simp

lemma due_point_in_range:
  assumes "next \<le> now" "epoch_nanos now \<le> t_max" "time_bound t_max" "k < due_grid_points next now d"
  shows "is_ok (UtcInstant_checked_add t_max next (grid_offset d k))"
proof -
  have "nanos (grid_offset d k) \<le> nanos d * k"
    by (simp add: grid_offset_def Let_def min.coboundedI1)
  with due_point_bound [OF assms(1,4)] assms(1) have le: "epoch_nanos next + nanos (grid_offset d k) \<le> epoch_nanos now"
    by (simp add: less_eq_UtcInstant_def)
  with assms(2,3) have "nanos (grid_offset d k) < 2 ^ 63 * NANOS_PER_SEC" by simp
  with le assms(2) show ?thesis
    by (auto simp: UtcInstant_checked_add_def time_duration_def is_ok_iff result_simps div_less_iff_less_mult)
qed

section \<open>The invariant of a task\<close>

text \<open>The nominal time of the fire with number \<open>k\<close>, in nanoseconds.\<close>

fun nominal :: "ScheduleTrigger \<Rightarrow> nat \<Rightarrow> nat" where
  "nominal (OneShot t) k = epoch_nanos t"
| "nominal (Periodic t d) k = epoch_nanos t + nanos d * (k - 1)"

text \<open>
  \<open>fires_ok\<close>: the payloads sent for the task, with the fires they report as missed, and the missed
  ones since the last payload are all fires so far; the numbers increase. \<open>grid_ok\<close>: the times are
  the nominal times. Both hold until a counter reaches the end of its range.
\<close>

definition fires_ok :: "ScheduledTaskId \<Rightarrow> TaskEntry \<Rightarrow> channel \<Rightarrow> bool" where
  "fires_ok i t ch \<longleftrightarrow>
     (unat (sequence t) < 2 ^ 64 - 1 \<longrightarrow>
        accounted (delivered i ch) + unat (missed_fires t) + 1 = unat (sequence t) \<and>
        sorted_wrt (<) (map seq_nat (delivered i ch)) \<and>
        (\<forall>p \<in> set (delivered i ch). 1 \<le> seq_nat p \<and> seq_nat p < unat (sequence t)))"

definition grid_ok :: "ScheduledTaskId \<Rightarrow> TaskEntry \<Rightarrow> channel \<Rightarrow> bool" where
  "grid_ok i t ch \<longleftrightarrow>
     (unat (sequence t) < 2 ^ 32 \<longrightarrow>
        (\<forall>p \<in> set (delivered i ch). epoch_nanos (payload_at p) = nominal (trigger t) (seq_nat p)) \<and>
        (\<forall>n. next_fire_at t = Some n \<longrightarrow> epoch_nanos n = nominal (trigger t) (unat (sequence t))))"

definition task_inv :: "SchedulerLimits \<Rightarrow> ScheduledTaskId \<Rightarrow> TaskEntry \<Rightarrow> channel \<Rightarrow> bool" where
  "task_inv lim i t ch \<longleftrightarrow>
     (tstate t = Scheduled \<longleftrightarrow> next_fire_at t \<noteq> None) \<and>
     (\<forall>f d. trigger t = Periodic f d \<longrightarrow> min_periodic_interval lim \<le> d) \<and>
     fires_ok i t ch \<and> grid_ok i t ch"

lemma delivered_append:
  assumes "sent ch' = sent ch @ ps" "\<forall>p \<in> set ps. payload_task p = i"
  shows "delivered j ch' = (if j = i then delivered j ch @ ps else delivered j ch)"
  using assms by (auto simp: delivered_def filter_empty_conv)

lemma task_inv_cong: "delivered i ch = delivered i ch' \<Longrightarrow> task_inv lim i t ch = task_inv lim i t ch'"
  by (simp add: task_inv_def fires_ok_def grid_ok_def)

lemma sequence_pos: "fires_ok i t ch \<Longrightarrow> 1 \<le> unat (sequence t)"
  by (cases "unat (sequence t) < 2 ^ 64 - 1") (auto simp: fires_ok_def)

text \<open>The three ways a task goes through a firing.\<close>

lemma fire_task_cases:
  assumes "fire_task accept t_max now i t ch = (t', ch')"
  obtains (idle) "t' = t" "ch' = ch" "tstate t = Scheduled \<Longrightarrow> \<forall>n. next_fire_at t = Some n \<longrightarrow> now < n"
    | (one_shot) n a b where "tstate t = Scheduled" "next_fire_at t = Some n" "n \<le> now" "trigger t = OneShot a"
        "sent ch' = sent ch @ (if b then [\<lparr>payload_task = i, payload_sequence = sequence t, payload_at = n,
           payload_missed = missed_fires t\<rparr>] else [])"
        "t' = t\<lparr>sequence := saturating_add (sequence t) 1, tstate := Completed, next_fire_at := None,
           missed_fires := (if b then 0 else saturating_add (missed_fires t) 1)\<rparr>"
    | (periodic) n f d m where "tstate t = Scheduled" "next_fire_at t = Some n" "n \<le> now" "trigger t = Periodic f d"
        "fire_grid accept t_max i d n (sequence t) (due_grid_points n now d) 0 (missed_fires t) ch = (m, ch')"
        "t' = (let t = t\<lparr>missed_fires := m, sequence := saturating_add (sequence t) (of_nat (due_grid_points n now d))\<rparr> in
           case UtcInstant_checked_add t_max n (grid_offset d (due_grid_points n now d)) of
             Inr x \<Rightarrow> t\<lparr>next_fire_at := Some x\<rparr>
           | Inl _ \<Rightarrow> t\<lparr>tstate := Completed, next_fire_at := None\<rparr>)"
proof (cases "tstate t = Scheduled \<and> (\<exists>n. next_fire_at t = Some n \<and> n \<le> now)")
  case False
  with assms idle show ?thesis by (auto simp: fire_task_def not_le split: if_splits option.splits)
next
  case True
  then obtain n where n: "tstate t = Scheduled" "next_fire_at t = Some n" "n \<le> now" by blast
  then have due: "\<not> now < n" by simp
  show ?thesis
  proof (cases "trigger t")
    case (OneShot a)
    let ?p = "\<lparr>payload_task = i, payload_sequence = sequence t, payload_at = n, payload_missed = missed_fires t\<rparr>"
    obtain b c where s: "try_send accept ?p ch = (b, c)" by fastforce
    from assms n(1,2) due OneShot s have r: "ch' = c"
        "t' = t\<lparr>sequence := saturating_add (sequence t) 1, tstate := Completed, next_fire_at := None,
           missed_fires := (if b then 0 else saturating_add (missed_fires t) 1)\<rparr>"
      by (cases b; simp add: fire_task_def)+
    from try_send_cases [OF s] show ?thesis
      by (intro one_shot [OF n OneShot, of b]) (simp_all only: r)
  next
    case (Periodic f d)
    obtain m c where g: "fire_grid accept t_max i d n (sequence t) (due_grid_points n now d) 0 (missed_fires t) ch = (m, c)"
      by fastforce
    define T where "T = (let t = t\<lparr>missed_fires := m, sequence := saturating_add (sequence t) (of_nat (due_grid_points n now d))\<rparr> in
           case UtcInstant_checked_add t_max n (grid_offset d (due_grid_points n now d)) of
             Inr x \<Rightarrow> t\<lparr>next_fire_at := Some x\<rparr>
           | Inl _ \<Rightarrow> t\<lparr>tstate := Completed, next_fire_at := None\<rparr>)"
    have "fire_task accept t_max now i t ch = (T, c)"
      using n(1,2) due Periodic g by (simp add: fire_task_def T_def Let_def split: sum.splits)
    with assms have "c = ch'" "t' = T" by simp_all
    with g show ?thesis using periodic [OF n Periodic] T_def by simp
  qed
qed

text \<open>What a firing leaves alone, whatever the queue and the clock do.\<close>

lemma fire_task_frame:
  assumes "fire_task accept t_max now i t ch = (t', ch')"
  shows "trigger t' = trigger t" and "tstate t' = Scheduled \<Longrightarrow> tstate t = Scheduled"
    and "\<exists>ps. sent ch' = sent ch @ ps \<and> (\<forall>p \<in> set ps. payload_task p = i)"
    and "tstate t \<noteq> Scheduled \<Longrightarrow> t' = t \<and> sent ch' = sent ch"
  using assms
  by (cases rule: fire_task_cases; auto simp: Let_def dest: fire_grid_sent split: sum.splits if_splits)+

lemma due_grid_points_bounds: "1 \<le> due_grid_points n now d" "due_grid_points n now d < 2 ^ 64"
  by (auto simp: due_grid_points_def)

lemma unat_saturating_guard:
  assumes "unat (saturating_add a (of_nat n :: u64)) < 2 ^ 64 - 1" "n < 2 ^ 64"
  shows "unat a + n < 2 ^ 64 - 1" "unat (saturating_add a (of_nat n)) = unat a + n"
  using assms by (auto simp: unat_saturating_add unat_of_nat_small min_def split: if_splits)

lemma fires_ok_extend:
  assumes old: "fires_ok i t ch" and d: "delivered i ch' = delivered i ch @ ps"
    and new: "unat (sequence t') < 2 ^ 64 - 1 \<Longrightarrow>
      unat (sequence t') = unat (sequence t) + n \<and> accounted ps + unat (missed_fires t') = unat (missed_fires t) + n \<and>
      sorted_wrt (<) (map seq_nat ps) \<and>
      (\<forall>p \<in> set ps. unat (sequence t) \<le> seq_nat p \<and> seq_nat p < unat (sequence t) + n)"
  shows "fires_ok i t' ch'"
  unfolding fires_ok_def
proof (intro impI)
  assume g: "unat (sequence t') < 2 ^ 64 - 1"
  note N = new [OF g]
  from g N have "unat (sequence t) < 2 ^ 64 - 1" by linarith
  with old have o: "accounted (delivered i ch) + unat (missed_fires t) + 1 = unat (sequence t)"
    "sorted_wrt (<) (map seq_nat (delivered i ch))"
    "\<forall>p \<in> set (delivered i ch). 1 \<le> seq_nat p \<and> seq_nat p < unat (sequence t)"
    by (simp_all add: fires_ok_def)
  then show "accounted (delivered i ch') + unat (missed_fires t') + 1 = unat (sequence t') \<and>
      sorted_wrt (<) (map seq_nat (delivered i ch')) \<and>
      (\<forall>p \<in> set (delivered i ch'). 1 \<le> seq_nat p \<and> seq_nat p < unat (sequence t'))"
    using N by (fastforce simp: d sorted_wrt_append)
qed

lemma nominal_shift:
  assumes "1 \<le> s" "s \<le> k" "epoch_nanos n = nominal (Periodic f d) s"
  shows "epoch_nanos n + nanos d * (k - s) = nominal (Periodic f d) k"
proof -
  have "k - 1 = (s - 1) + (k - s)" using assms(1,2) by simp
  then have "nanos d * (k - 1) = nanos d * (s - 1) + nanos d * (k - s)" by (metis add_mult_distrib2)
  then show ?thesis using assms(3) by simp
qed

lemma fire_task_inv:
  assumes fire: "fire_task accept t_max now i t ch = (t', ch')" and inv: "task_inv lim i t ch"
    and now: "epoch_nanos now \<le> t_max" "time_bound t_max"
  shows "task_inv lim i t' ch'"
  using fire
proof (cases rule: fire_task_cases)
  case idle
  then show ?thesis using inv by simp
next
  case (one_shot n a b)
  let ?ps = "if b then [\<lparr>payload_task = i, payload_sequence = sequence t, payload_at = n,
           payload_missed = missed_fires t\<rparr>] else []"
  have d: "delivered i ch' = delivered i ch @ ?ps"
    using delivered_append [OF one_shot(5), of i i] by simp
  have old: "fires_ok i t ch" "grid_ok i t ch" using inv by (simp_all add: task_inv_def)
  have "fires_ok i t' ch'"
  proof (rule fires_ok_extend [OF old(1) d, of t' 1])
    assume g: "unat (sequence t') < 2 ^ 64 - 1"
    then have s: "unat (sequence t') = unat (sequence t) + 1" "unat (sequence t) + 1 < 2 ^ 64 - 1"
      using unat_saturating_guard [of "sequence t" 1] one_shot(6) by simp_all
    then have "unat (missed_fires t) < unat (sequence t)" using old(1) by (simp add: fires_ok_def)
    then have "unat (saturating_add (missed_fires t) 1) = unat (missed_fires t) + 1"
      using s unat_saturating_small [of "missed_fires t" 1] by simp
    with s show "unat (sequence t') = unat (sequence t) + 1 \<and>
        accounted ?ps + unat (missed_fires t') = unat (missed_fires t) + 1 \<and> sorted_wrt (<) (map seq_nat ?ps) \<and>
        (\<forall>p \<in> set ?ps. unat (sequence t) \<le> seq_nat p \<and> seq_nat p < unat (sequence t) + 1)"
      using one_shot(6) by simp
  qed
  moreover have "grid_ok i t' ch'"
    unfolding grid_ok_def
  proof (intro impI)
    assume "unat (sequence t') < 2 ^ 32"
    then have "unat (sequence t) < 2 ^ 32"
      using unat_saturating_guard [of "sequence t" 1] one_shot(6) by simp
    then show "(\<forall>p \<in> set (delivered i ch'). epoch_nanos (payload_at p) = nominal (trigger t') (seq_nat p)) \<and>
        (\<forall>n. next_fire_at t' = Some n \<longrightarrow> epoch_nanos n = nominal (trigger t') (unat (sequence t')))"
      using old(2) one_shot by (auto simp: d grid_ok_def)
  qed
  ultimately show ?thesis using inv one_shot by (simp add: task_inv_def)
next
  case (periodic n f d m)
  let ?K = "due_grid_points n now d"
  have t': "trigger t' = trigger t" "sequence t' = saturating_add (sequence t) (of_nat ?K)" "missed_fires t' = m"
      "tstate t' = Scheduled \<longleftrightarrow> next_fire_at t' \<noteq> None"
      "\<And>x. next_fire_at t' = Some x \<Longrightarrow> UtcInstant_checked_add t_max n (grid_offset d ?K) = Inr x"
    using periodic(1,6) by (auto simp: Let_def split: sum.splits)
  from fire_grid_sent [OF periodic(5)] obtain qs where
    q: "sent ch' = sent ch @ qs" "\<forall>p \<in> set qs. payload_task p = i" by blast
  have d: "delivered i ch' = delivered i ch @ qs" using delivered_append [OF q, of i] by simp
  have old: "fires_ok i t ch" "grid_ok i t ch" using inv by (simp_all add: task_inv_def)
  note K = due_grid_points_bounds [of n now d]
  have loop: "accounted qs + unat m = unat (missed_fires t) + ?K \<and> sorted_wrt (<) (map seq_nat qs) \<and>
      (\<forall>p \<in> set qs. unat (sequence t) \<le> seq_nat p \<and> seq_nat p < unat (sequence t) + ?K \<and>
        UtcInstant_checked_add t_max n (grid_offset d (seq_nat p - unat (sequence t))) = Inr (payload_at p))"
    if g: "unat (sequence t') < 2 ^ 64 - 1"
  proof -
    from g unat_saturating_guard [of "sequence t" ?K] K have s: "unat (sequence t) + ?K < 2 ^ 64 - 1"
      by (simp add: t'(2))
    then have m: "unat (missed_fires t) < unat (sequence t) + 0" using old(1) by (simp add: fires_ok_def)
    have ok: "is_ok (UtcInstant_checked_add t_max n (grid_offset d k))" if "k < ?K" for k
      using due_point_in_range [OF periodic(3) now that] .
    from fire_grid_account [OF ok s periodic(5) _ m] q(1) show ?thesis by auto
  qed
  have "fires_ok i t' ch'"
    by (rule fires_ok_extend [OF old(1) d, of t' ?K])
      (use loop unat_saturating_guard [of "sequence t" ?K] K in \<open>auto simp: t'(2,3)\<close>)
  moreover have "grid_ok i t' ch'"
    unfolding grid_ok_def
  proof (intro impI)
    assume g: "unat (sequence t') < 2 ^ 32"
    then have s: "unat (sequence t') = unat (sequence t) + ?K"
      using unat_saturating_guard [of "sequence t" ?K] K by (simp add: t'(2))
    then have s32: "unat (sequence t) < 2 ^ 32" "?K < 2 ^ 32" using g by simp_all
    have gd: "\<forall>p \<in> set (delivered i ch). epoch_nanos (payload_at p) = nominal (trigger t) (seq_nat p)"
      and n: "epoch_nanos n = nominal (Periodic f d) (unat (sequence t))"
      using old(2) s32(1) periodic(2,4) by (auto simp: grid_ok_def)
    note shift = nominal_shift [OF sequence_pos [OF old(1)] _ n]
    have "epoch_nanos (payload_at p) = nominal (trigger t) (seq_nat p)" if "p \<in> set qs" for p
    proof -
      from loop g that have le: "unat (sequence t) \<le> seq_nat p" "seq_nat p - unat (sequence t) < 2 ^ 32"
        and a: "UtcInstant_checked_add t_max n (grid_offset d (seq_nat p - unat (sequence t))) = Inr (payload_at p)"
        using s32(2) by fastforce+
      from grid_add_exact [OF a le(2)] shift [OF le(1)] show ?thesis by (simp add: periodic(4))
    qed
    moreover have "epoch_nanos x = nominal (trigger t) (unat (sequence t'))" if "next_fire_at t' = Some x" for x
      using grid_add_exact [OF t'(5) [OF that] s32(2)] shift [of "unat (sequence t) + ?K"] s
      by (simp add: periodic(4))
    ultimately show "(\<forall>p \<in> set (delivered i ch'). epoch_nanos (payload_at p) = nominal (trigger t') (seq_nat p)) \<and>
        (\<forall>n. next_fire_at t' = Some n \<longrightarrow> epoch_nanos n = nominal (trigger t') (unat (sequence t')))"
      using gd by (auto simp: d t'(1))
  qed
  ultimately show ?thesis using inv t'(1,4) by (simp add: task_inv_def)
qed

text \<open>After a firing the next time lies in the future, so the driver does not spin.\<close>

lemma fire_task_future:
  assumes fire: "fire_task accept t_max now i t ch = (t', ch')"
    and d: "\<And>f d. trigger t = Periodic f d \<Longrightarrow> 0 < nanos d"
    and u32: "\<And>f d n. trigger t = Periodic f d \<Longrightarrow> next_fire_at t = Some n \<Longrightarrow>
      (epoch_nanos now - epoch_nanos n) div nanos d + 1 < 2 ^ 32"
    and s: "tstate t' = Scheduled" "next_fire_at t' = Some x"
  shows "now < x"
  using fire
proof (cases rule: fire_task_cases)
  case idle
  with s show ?thesis by simp
next
  case one_shot
  with s show ?thesis by simp
next
  case (periodic n f e m)
  let ?q = "(epoch_nanos now - epoch_nanos n) div nanos e"
  note e = d [OF periodic(4)] and q = u32 [OF periodic(4,2)]
  have K: "due_grid_points n now e = ?q + 1" using e q by (simp add: due_grid_points_def)
  from periodic(6) s have "UtcInstant_checked_add t_max n (grid_offset e (?q + 1)) = Inr x"
    by (auto simp: K Let_def split: sum.splits)
  then have "epoch_nanos x = epoch_nanos n + nanos e * (?q + 1)" using grid_add_exact q by blast
  moreover have "epoch_nanos now - epoch_nanos n < nanos e * (?q + 1)"
    using e by (metis Suc_eq_plus1 dividend_less_times_div mult_Suc_right add.commute)
  ultimately show ?thesis using periodic(3) by (simp add: less_UtcInstant_def less_eq_UtcInstant_def)
qed

section \<open>Firing all tasks of an installation\<close>

lemma fire_tasks_keys: "fire_tasks accept t_max now ts ch = (ts', ch') \<Longrightarrow> map fst ts' = map fst ts"
  by (induction ts arbitrary: ch ts' ch') (auto simp: Let_def split: prod.splits)

lemma fire_tasks_sent:
  "fire_tasks accept t_max now ts ch = (ts', ch') \<Longrightarrow>
    \<exists>ps. sent ch' = sent ch @ ps \<and>
      (\<forall>p \<in> set ps. \<exists>t. (payload_task p, t) \<in> set ts \<and> tstate t = Scheduled)"
proof (induction ts arbitrary: ch ts' ch')
  case (Cons e ts)
  obtain i t where e: "e = (i, t)" by (cases e)
  obtain t' c where f: "fire_task accept t_max now i t ch = (t', c)" by fastforce
  obtain us c' where g: "fire_tasks accept t_max now ts c = (us, c')" by fastforce
  from Cons.prems have "ch' = c'" by (simp add: e f g)
  from Cons.IH [OF g] obtain qs where q: "sent c' = sent c @ qs"
    "\<forall>p \<in> set qs. \<exists>t. (payload_task p, t) \<in> set ts \<and> tstate t = Scheduled" by blast
  from fire_task_frame(3) [OF f] obtain ps where p: "sent c = sent ch @ ps" "\<forall>p \<in> set ps. payload_task p = i" by blast
  have "tstate t = Scheduled \<or> ps = []" using fire_task_frame(4) [OF f] p(1) by auto
  then have "sent ch' = sent ch @ (ps @ qs) \<and>
      (\<forall>p \<in> set (ps @ qs). \<exists>u. (payload_task p, u) \<in> set (e # ts) \<and> tstate u = Scheduled)"
    using p q \<open>ch' = c'\<close> by (auto simp: e)
  then show ?case by blast
qed simp

lemma fire_tasks_pointwise:
  assumes "fire_tasks accept t_max now ts ch = (ts', ch')" "distinct (map fst ts)" "(i, t') \<in> set ts'"
  shows "\<exists>t c c'. (i, t) \<in> set ts \<and> fire_task accept t_max now i t c = (t', c') \<and>
    delivered i c = delivered i ch \<and> delivered i c' = delivered i ch'"
  using assms
proof (induction ts arbitrary: ch ts')
  case (Cons e ts)
  obtain j u where e: "e = (j, u)" by (cases e)
  obtain u' c where f: "fire_task accept t_max now j u ch = (u', c)" by fastforce
  obtain us c' where g: "fire_tasks accept t_max now ts c = (us, c')" by fastforce
  from Cons.prems have r: "ts' = (j, u') # us" "c' = ch'" by (simp_all add: e f g)
  from fire_task_frame(3) [OF f] obtain ps where p: "sent c = sent ch @ ps" "\<forall>p \<in> set ps. payload_task p = j" by blast
  from fire_tasks_sent [OF g] obtain qs where q: "sent c' = sent c @ qs"
    "\<forall>p \<in> set qs. \<exists>t. (payload_task p, t) \<in> set ts \<and> tstate t = Scheduled" by blast
  have j: "j \<notin> fst ` set ts" using Cons.prems(2) by (simp add: e)
  show ?case
  proof (cases "(i, t') = (j, u')")
    case True
    have "payload_task p \<noteq> j" if "p \<in> set qs" for p using q(2) that j by force
    then have "delivered j ch' = delivered j c" using q(1) r(2) by (auto simp: delivered_def filter_empty_conv)
    with True f show ?thesis by (auto simp: e)
  next
    case False
    then have "(i, t') \<in> set us" using Cons.prems(3) r(1) by auto
    moreover from this have "i \<noteq> j" using fire_tasks_keys [OF g] j by (metis fst_conv image_eqI set_map)
    ultimately show ?thesis using Cons.IH [OF g [unfolded r(2)]] Cons.prems(2) delivered_append [OF p, of i]
      by (auto simp: e)
  qed
qed simp

lemma scheduled_count_fire:
  "fire_tasks accept t_max now ts ch = (ts', ch') \<Longrightarrow> scheduled_count ts' \<le> scheduled_count ts"
proof (induction ts arbitrary: ch ts' ch')
  case (Cons e ts)
  obtain i t where e: "e = (i, t)" by (cases e)
  obtain t' c where f: "fire_task accept t_max now i t ch = (t', c)" by fastforce
  obtain us c' where g: "fire_tasks accept t_max now ts c = (us, c')" by fastforce
  from Cons.prems have "ts' = (i, t') # us" by (simp add: e f g)
  with Cons.IH [OF g] fire_task_frame(2) [OF f] show ?case by (auto simp: scheduled_count_def e)
qed simp

section \<open>The invariant of the service\<close>

definition install_inv :: "SchedulerLimits \<Rightarrow> nat \<Rightarrow> InstallSchedulerState \<Rightarrow> bool" where
  "install_inv lim bound st \<longleftrightarrow>
     bt_ok (tasks st) \<and>
     (\<forall>(i, t) \<in> set (tasks st). task_inv lim i t (chan st) \<and> unat (task_number i) < bound) \<and>
     (\<forall>p \<in> set (sent (chan st)). payload_task p \<in> fst ` set (tasks st)) \<and>
     scheduled_count (tasks st) \<le> max_tasks_per_installation lim"

definition total_scheduled :: "Scheduler \<Rightarrow> nat" where
  "total_scheduled s = (\<Sum>(j, st) \<leftarrow> installs s. scheduled_count (tasks st))"

definition service_inv :: "SchedulerLimits \<Rightarrow> Scheduler \<Rightarrow> bool" where
  "service_inv lim s \<longleftrightarrow>
     bt_ok (installs s) \<and>
     (\<forall>(i, st) \<in> set (installs s). install_inv lim (unat (next_task_id s)) st) \<and>
     total_scheduled s \<le> max_total_tasks lim"

lemma install_inv_mono: "install_inv lim b st \<Longrightarrow> b \<le> b' \<Longrightarrow> install_inv lim b' st"
  by (fastforce simp: install_inv_def)

lemma install_inv_new: "install_inv lim b state_new"
  by (simp add: install_inv_def state_new_def scheduled_count_def)

lemma lookup_inv:
  assumes "service_inv lim s" "map_of (installs s) i = Some st"
  shows "install_inv lim (unat (next_task_id s)) st"
  using assms by (auto simp: service_inv_def bt_ok_map_of)

lemma entry_or_new_inv: "service_inv lim s \<Longrightarrow> install_inv lim (unat (next_task_id s)) (entry_or_new i s)"
  by (auto simp: entry_or_new_def install_inv_new lookup_inv split: option.splits)

lemma is_stopped_entry: "is_stopped i s = stopped (entry_or_new i s)"
  by (simp add: is_stopped_def entry_or_new_def state_new_def split: option.splits)

lemma entry_or_new_Some: "map_of (installs s) i = Some st \<Longrightarrow> entry_or_new i s = st"
  by (simp add: entry_or_new_def)

lemma total_set_install:
  assumes "bt_ok (installs s)"
  shows "total_scheduled (set_install i st s) + scheduled_count (tasks (entry_or_new i s)) =
    total_scheduled s + scheduled_count (tasks st)"
  using sum_bt_insert [OF assms, of "\<lambda>st. scheduled_count (tasks st)" i st]
  by (simp add: total_scheduled_def set_install_def entry_or_new_def state_new_def scheduled_count_def
      split: option.splits)

lemma set_install_inv:
  assumes inv: "service_inv lim s" and st: "install_inv lim (unat (next_task_id s)) st"
    and total: "total_scheduled s + scheduled_count (tasks st) \<le>
      max_total_tasks lim + scheduled_count (tasks (entry_or_new i s))"
  shows "service_inv lim (set_install i st s)"
proof -
  have ok: "bt_ok (installs s)" using inv by (simp add: service_inv_def)
  have "install_inv lim (unat (next_task_id s)) w" if "(j, w) \<in> set (bt_insert i st (installs s))" for j w
  proof -
    have "map_of (bt_insert i st (installs s)) j = Some w" using that bt_ok_insert [OF ok] by (simp add: bt_ok_map_of)
    then show ?thesis using st inv by (auto simp: map_of_bt_insert [OF ok] lookup_inv split: if_splits)
  qed
  moreover have "total_scheduled (set_install i st s) \<le> max_total_tasks lim"
    using total_set_install [OF ok, of i st] total by linarith
  ultimately show ?thesis using ok by (auto simp: service_inv_def set_install_def)
qed

lemma set_install_inv_shrink:
  assumes "service_inv lim s" "install_inv lim (unat (next_task_id s)) st"
    and "scheduled_count (tasks st) \<le> scheduled_count (tasks (entry_or_new i s))"
  shows "service_inv lim (set_install i st s)"
  using assms by (intro set_install_inv) (simp_all add: service_inv_def)

lemma entry_or_new_set [simp]: "bt_ok (installs s) \<Longrightarrow> entry_or_new j (set_install i st s) = (if j = i then st else entry_or_new j s)"
  by (simp add: entry_or_new_def set_install_def map_of_bt_insert)

lemma service_ok: "service_inv lim s \<Longrightarrow> bt_ok (installs s)"
  by (simp add: service_inv_def)

lemma next_task_id_set_install [simp]: "next_task_id (set_install i st s) = next_task_id s"
  by (simp add: set_install_def)

lemma scheduled_count_sum: "scheduled_count ts = (\<Sum>(j, t) \<leftarrow> ts. if tstate t = Scheduled then 1 else 0)"
  by (induction ts) (auto simp: scheduled_count_def)

lemma scheduled_count_insert:
  assumes "bt_ok ts"
  shows "scheduled_count (bt_insert i t ts) +
      (case map_of ts i of Some u \<Rightarrow> if tstate u = Scheduled then 1 else 0 | None \<Rightarrow> 0) =
    scheduled_count ts + (if tstate t = Scheduled then 1 else 0)"
  unfolding scheduled_count_sum
  using sum_bt_insert [OF assms, of "\<lambda>t. if tstate t = Scheduled then 1 else 0" i t] by simp

lemma bt_insert_mem: "bt_ok m \<Longrightarrow> (j, w) \<in> set (bt_insert k v m) \<longleftrightarrow> (if j = k then w = v else (j, w) \<in> set m)"
  by (auto simp: bt_ok_map_of [OF bt_ok_insert, symmetric] bt_ok_map_of [symmetric] map_of_bt_insert)

lemma stop_keeps_inv: "service_inv lim s \<Longrightarrow> service_inv lim (snd (stop i s))"
proof -
  assume inv: "service_inv lim s"
  let ?st = "entry_or_new i s"
  have a: "service_inv lim (set_install i ?st s)"
    by (rule set_install_inv_shrink [OF inv entry_or_new_inv [OF inv]]) simp
  have st: "install_inv lim (unat (next_task_id s)) (?st\<lparr>stopped := True\<rparr>)"
    using entry_or_new_inv [OF inv, of i] by (simp add: install_inv_def)
  have "service_inv lim (set_install i (?st\<lparr>stopped := True\<rparr>) (set_install i ?st s))"
    by (rule set_install_inv_shrink [OF a]) (use st service_ok [OF inv] in simp_all)
  with a show ?thesis by (simp add: stop_def Let_def)
qed

lemma driver_exit_inv: "service_inv lim s \<Longrightarrow> service_inv lim (driver_exit i s)"
  by (cases "map_of (installs s) i")
    (auto simp: driver_exit_def entry_or_new_Some install_inv_def intro!: set_install_inv_shrink dest: lookup_inv)

lemma cancel_inv: "service_inv lim s \<Longrightarrow> service_inv lim (snd (cancel i task s))"
proof -
  assume inv: "service_inv lim s"
  show ?thesis
  proof (cases "\<exists>st e. map_of (installs s) i = Some st \<and> \<not> stopped st \<and> map_of (tasks st) task = Some e \<and>
      tstate e = Scheduled")
    case True
    then obtain st e where st: "map_of (installs s) i = Some st" "\<not> stopped st"
      "map_of (tasks st) task = Some e" "tstate e = Scheduled" by blast
    let ?e = "e\<lparr>tstate := Cancelled, next_fire_at := None\<rparr>"
    let ?st = "st\<lparr>tasks := bt_insert task ?e (tasks st)\<rparr>"
    note I = lookup_inv [OF inv st(1)]
    then have ok: "bt_ok (tasks st)" by (simp add: install_inv_def)
    have e: "(task, e) \<in> set (tasks st)" using st(3) by (rule map_of_SomeD)
    then have "task_inv lim task e (chan st)" "unat (task_number task) < unat (next_task_id s)"
      using I by (auto simp: install_inv_def)
    then have e': "task_inv lim task ?e (chan st)" "unat (task_number task) < unat (next_task_id s)"
      by (simp_all add: task_inv_def fires_ok_def grid_ok_def)
    have cnt: "scheduled_count (tasks ?st) \<le> scheduled_count (tasks st)"
      using scheduled_count_insert [OF ok, of task ?e] st(3,4) by simp
    have "install_inv lim (unat (next_task_id s)) ?st"
      unfolding install_inv_def
    proof (intro conjI)
      show "bt_ok (tasks ?st)" using ok by (simp add: bt_ok_insert)
      show "\<forall>(j, t) \<in> set (tasks ?st). task_inv lim j t (chan ?st) \<and> unat (task_number j) < unat (next_task_id s)"
        using I e' by (auto simp: bt_insert_mem [OF ok] install_inv_def split: if_splits)
      show "\<forall>p \<in> set (sent (chan ?st)). payload_task p \<in> fst ` set (tasks ?st)"
        using I by (simp add: set_fst_bt_insert install_inv_def)
      show "scheduled_count (tasks ?st) \<le> max_tasks_per_installation lim"
        using cnt I by (simp add: install_inv_def)
    qed
    then have "service_inv lim (set_install i ?st s)"
      using cnt by (intro set_install_inv_shrink [OF inv]) (simp_all add: entry_or_new_Some [OF st(1)])
    with st show ?thesis by (simp add: cancel_def)
  next
    case False
    then have "snd (cancel i task s) = s" by (auto simp: cancel_def split: option.splits TaskState.splits)
    with inv show ?thesis by simp
  qed
qed

lemma fire_due_inv:
  assumes inv: "service_inv lim s" and t: "time_bound t_max" "\<And>now. clock = Inr now \<Longrightarrow> epoch_nanos now \<le> t_max"
  shows "service_inv lim (fire_due accept t_max clock i s)"
proof (cases "\<exists>now st. clock = Inr now \<and> map_of (installs s) i = Some st \<and> \<not> stopped st")
  case True
  then obtain now st where st: "clock = Inr now" "map_of (installs s) i = Some st" "\<not> stopped st" by blast
  obtain ts ch where f: "fire_tasks (accept i) t_max now (tasks st) (chan st) = (ts, ch)" by fastforce
  let ?st = "st\<lparr>tasks := ts, chan := ch\<rparr>"
  note I = lookup_inv [OF inv st(2)] and keys = fire_tasks_keys [OF f]
  then have ok: "bt_ok (tasks st)" by (simp add: install_inv_def)
  have "install_inv lim (unat (next_task_id s)) ?st"
    unfolding install_inv_def
  proof (intro conjI)
    show "bt_ok (tasks ?st)" using ok by (simp add: bt_ok_def keys)
    have "task_inv lim j t (chan ?st) \<and> unat (task_number j) < unat (next_task_id s)" if m: "(j, t) \<in> set ts" for j t
    proof -
      from fire_tasks_pointwise [OF f bt_ok_distinct [OF ok] m] obtain u c c' where
        u: "(j, u) \<in> set (tasks st)" "fire_task (accept i) t_max now j u c = (t, c')"
          "delivered j c = delivered j (chan st)" "delivered j c' = delivered j ch" by blast
      then have b: "task_inv lim j u c" "unat (task_number j) < unat (next_task_id s)"
        using I task_inv_cong [OF u(3)] by (auto simp: install_inv_def)
      from fire_task_inv [OF u(2) b(1) t(2) [OF st(1)] t(1)] task_inv_cong [OF u(4)] b(2) show ?thesis by simp
    qed
    then show "\<forall>(j, t) \<in> set (tasks ?st). task_inv lim j t (chan ?st) \<and> unat (task_number j) < unat (next_task_id s)"
      by auto
    have fst_ts: "fst ` set ts = fst ` set (tasks st)" using keys by (metis set_map)
    obtain ps where ps: "sent ch = sent (chan st) @ ps"
      "\<forall>p \<in> set ps. \<exists>t. (payload_task p, t) \<in> set (tasks st) \<and> tstate t = Scheduled"
      using fire_tasks_sent [OF f] by blast
    have "payload_task p \<in> fst ` set (tasks st)" if "p \<in> set (sent ch)" for p
    proof (cases "p \<in> set ps")
      case True
      then obtain t where "(payload_task p, t) \<in> set (tasks st)" using ps(2) by blast
      then show ?thesis by (metis fst_conv image_eqI)
    next
      case False
      then have "p \<in> set (sent (chan st))" using that ps(1) by simp
      then show ?thesis using I by (simp add: install_inv_def)
    qed
    then show "\<forall>p \<in> set (sent (chan ?st)). payload_task p \<in> fst ` set (tasks ?st)"
      by (simp add: fst_ts)
    show "scheduled_count (tasks ?st) \<le> max_tasks_per_installation lim"
      using scheduled_count_fire [OF f] I by (simp add: install_inv_def)
  qed
  then have "service_inv lim (set_install i ?st s)"
    using scheduled_count_fire [OF f] by (intro set_install_inv_shrink [OF inv]) (simp_all add: entry_or_new_Some [OF st(2)])
  with st f show ?thesis by (simp add: fire_due_def)
next
  case False
  then have "fire_due accept t_max clock i s = s" by (auto simp: fire_due_def split: sum.splits option.splits)
  with inv show ?thesis by simp
qed

lemma ensure_driver_inv: "service_inv lim s \<Longrightarrow> service_inv lim (snd (ensure_driver runtime i s))"
  by (cases "map_of (installs s) i")
    (auto simp: ensure_driver_def entry_or_new_Some install_inv_def intro!: set_install_inv_shrink dest: lookup_inv)

lemma task_new_inv:
  assumes "validate_trigger t now (min_periodic_interval lim) = Inr u" "delivered i ch = []"
  shows "task_inv lim i (task_new t) ch"
  using assms
  by (cases t) (auto simp: task_inv_def task_new_def validate_trigger_def fires_ok_def grid_ok_def not_less
      split: if_splits)

text \<open>A call of \<open>schedule\<close> refuses, before or after it took a number, or adds the task.\<close>

lemma schedule_cases:
  obtains (refused) "snd (schedule lim runtime granted clock i t s) = s"
    | (numbered) "snd (schedule lim runtime granted clock i t s) = s\<lparr>next_task_id := next_task_id s + 1\<rparr> \<or>
        snd (schedule lim runtime granted clock i t s) =
          set_install i (entry_or_new i s) (s\<lparr>next_task_id := next_task_id s + 1\<rparr>)"
    | (added) now where "validate_trigger t now (min_periodic_interval lim) = Inr ()"
        "total_scheduled s < max_total_tasks lim" "\<not> stopped (entry_or_new i s)"
        "scheduled_count (tasks (entry_or_new i s)) < max_tasks_per_installation lim"
        "snd (schedule lim runtime granted clock i t s) = snd (ensure_driver runtime i
          (set_install i ((entry_or_new i s)\<lparr>tasks := bt_insert (ScheduledTaskId (next_task_id s)) (task_new t)
            (tasks (entry_or_new i s))\<rparr>)
          (set_install i (entry_or_new i s) (s\<lparr>next_task_id := next_task_id s + 1\<rparr>))))"
proof -
  let ?s = "s\<lparr>next_task_id := next_task_id s + 1\<rparr>"
  have en: "entry_or_new i ?s = entry_or_new i s" by (simp add: entry_or_new_def)
  show ?thesis
  proof (cases "\<exists>now. runtime \<and> granted = Inr True \<and> clock = Inr now \<and>
      validate_trigger t now (min_periodic_interval lim) = Inr ()")
    case False
    then have "snd (schedule lim runtime granted clock i t s) = s"
      by (auto simp: schedule_def split: sum.splits)
    then show ?thesis by (rule refused)
  next
    case True
    then obtain now where g: "runtime" "granted = Inr True" "clock = Inr now"
      "validate_trigger t now (min_periodic_interval lim) = Inr ()" by blast
    show ?thesis
    proof (cases "total_scheduled s < max_total_tasks lim \<and> \<not> stopped (entry_or_new i s) \<and>
        scheduled_count (tasks (entry_or_new i s)) < max_tasks_per_installation lim")
      case True
      with g show ?thesis
        by (intro added [OF g(4)])
          (simp_all add: schedule_def Let_def en total_scheduled_def split: prod.splits sum.splits)
    next
      case False
      with g show ?thesis
        by (intro numbered) (auto simp: schedule_def Let_def en total_scheduled_def)
    qed
  qed
qed

lemma bump_inv:
  assumes inv: "service_inv lim s" and w: "unat (next_task_id s) < 2 ^ 64 - 1"
  shows "service_inv lim (s\<lparr>next_task_id := next_task_id s + 1\<rparr>)"
    and "unat (next_task_id s + 1) = unat (next_task_id s) + 1"
proof -
  show n: "unat (next_task_id s + 1) = unat (next_task_id s) + 1"
    using w by (simp add: unat_word_ariths)
  show "service_inv lim (s\<lparr>next_task_id := next_task_id s + 1\<rparr>)"
    using inv by (auto simp: service_inv_def total_scheduled_def n intro: install_inv_mono)
qed

lemma schedule_inv:
  assumes inv: "service_inv lim s" and w: "unat (next_task_id s) < 2 ^ 64 - 1"
  shows "service_inv lim (snd (schedule lim runtime granted clock i t s))"
proof -
  let ?s = "s\<lparr>next_task_id := next_task_id s + 1\<rparr>" and ?st = "entry_or_new i s"
  note b = bump_inv [OF inv w]
  have en: "entry_or_new i ?s = ?st" by (simp add: entry_or_new_def)
  have s1: "service_inv lim (set_install i ?st ?s)"
    using b(1) entry_or_new_inv [OF b(1), of i] by (intro set_install_inv_shrink) (simp_all add: en)
  show ?thesis
  proof (cases rule: schedule_cases [of lim runtime granted clock i t s])
    case refused
    with inv show ?thesis by simp
  next
    case numbered
    with s1 b(1) show ?thesis by metis
  next
    case (added now)
    let ?i = "ScheduledTaskId (next_task_id s)"
    let ?st' = "?st\<lparr>tasks := bt_insert ?i (task_new t) (tasks ?st)\<rparr>"
    note I = entry_or_new_inv [OF inv, of i]
    then have ok: "bt_ok (tasks ?st)" by (simp add: install_inv_def)
    have fresh: "?i \<notin> fst ` set (tasks ?st)" using I by (force simp: install_inv_def)
    then have none: "map_of (tasks ?st) ?i = None" by (simp add: map_of_eq_None_iff)
    have "delivered ?i (chan ?st) = []"
      using I fresh unfolding install_inv_def delivered_def filter_empty_conv by metis
    note new = task_new_inv [OF added(1) this]
    have cnt: "scheduled_count (tasks ?st') = scheduled_count (tasks ?st) + 1"
      using scheduled_count_insert [OF ok, of ?i "task_new t"] none by (simp add: task_new_def)
    have "install_inv lim (unat (next_task_id s + 1)) ?st'"
      unfolding install_inv_def
    proof (intro conjI)
      show "bt_ok (tasks ?st')" using ok by (simp add: bt_ok_insert)
      show "\<forall>(j, u) \<in> set (tasks ?st'). task_inv lim j u (chan ?st') \<and> unat (task_number j) < unat (next_task_id s + 1)"
        using install_inv_mono [OF I, of "unat (next_task_id s + 1)"] new b(2)
        by (auto simp: bt_insert_mem [OF ok] install_inv_def split: if_splits)
      show "\<forall>p \<in> set (sent (chan ?st')). payload_task p \<in> fst ` set (tasks ?st')"
        using I by (auto simp: set_fst_bt_insert install_inv_def)
      show "scheduled_count (tasks ?st') \<le> max_tasks_per_installation lim" using cnt added(4) by simp
    qed
    moreover have "total_scheduled (set_install i ?st ?s) = total_scheduled s"
      using total_set_install [OF service_ok [OF b(1)], of i ?st] en by (simp add: total_scheduled_def)
    ultimately have "service_inv lim (set_install i ?st' (set_install i ?st ?s))"
      using added(2) cnt service_ok [OF b(1)] by (intro set_install_inv [OF s1]) simp_all
    from ensure_driver_inv [OF this] show ?thesis by (simp only: added(5))
  qed
qed

lemma service_new_inv: "service_inv lim service_new"
  by (simp add: service_inv_def service_new_def total_scheduled_def)

text \<open>Clock readings are instants, so they do not exceed the largest one.\<close>

fun op_ok :: "nat \<Rightarrow> op \<Rightarrow> bool" where
  "op_ok t_max (Fire (Inr now) i) \<longleftrightarrow> epoch_nanos now \<le> t_max"
| "op_ok t_max _ \<longleftrightarrow> True"

lemma next_task_id_driver [simp]:
  "next_task_id (snd (stop i s)) = next_task_id s"
  "next_task_id (snd (cancel i task s)) = next_task_id s"
  "next_task_id (driver_exit i s) = next_task_id s"
  "next_task_id (snd (ensure_driver runtime i s)) = next_task_id s"
  "next_task_id (fire_due accept t_max clock i s) = next_task_id s"
  by (auto simp: stop_def cancel_def driver_exit_def ensure_driver_def fire_due_def Let_def
      split: option.splits TaskState.splits sum.splits prod.splits)

lemma step_inv:
  assumes "service_inv lim s" "unat (next_task_id s) < 2 ^ 64 - 1" "op_ok t_max x" "time_bound t_max"
  shows "service_inv lim (step lim accept t_max x s)"
    and "unat (next_task_id (step lim accept t_max x s)) \<le> unat (next_task_id s) + 1"
proof -
  show "service_inv lim (step lim accept t_max x s)"
  proof (cases x)
    case (Fire clock i)
    with assms show ?thesis by (cases clock) (auto intro!: fire_due_inv)
  qed (use assms in \<open>simp_all add: schedule_inv cancel_inv stop_keeps_inv driver_exit_inv\<close>)
  show "unat (next_task_id (step lim accept t_max x s)) \<le> unat (next_task_id s) + 1"
  proof (cases x)
    case (Schedule runtime granted clock i t)
    show ?thesis
      by (cases rule: schedule_cases [of lim runtime granted clock i t s])
        (use bump_inv(2) [OF assms(1,2)] in \<open>auto simp: Schedule\<close>)
  qed auto
qed

lemma run_inv:
  assumes "service_inv lim s" "unat (next_task_id s) + length ops < 2 ^ 64" "\<forall>x \<in> set ops. op_ok t_max x" "time_bound t_max"
  shows "service_inv lim (run lim accept t_max ops s)"
  using assms(1-3)
proof (induction ops arbitrary: s)
  case (Cons x ops)
  then have n: "unat (next_task_id s) < 2 ^ 64 - 1" by simp
  from step_inv [OF Cons.prems(1) n _ assms(4), of x accept] Cons.prems
  show ?case by (auto simp: run_def intro!: Cons.IH [unfolded run_def])
qed (simp add: run_def)

section \<open>What is over stays over\<close>

text \<open>
  No step revives a task that is not scheduled or sends for it, and nothing at all changes in a
  stopped installation but the running of its driver.
\<close>

definition evolves :: "InstallSchedulerState \<Rightarrow> InstallSchedulerState \<Rightarrow> bool" where
  "evolves st st' \<longleftrightarrow>
     (\<forall>i t. map_of (tasks st) i = Some t \<longrightarrow> tstate t \<noteq> Scheduled \<longrightarrow>
        map_of (tasks st') i = Some t \<and> delivered i (chan st') = delivered i (chan st)) \<and>
     (stopped st \<longrightarrow> stopped st' \<and> tasks st' = tasks st \<and> chan st' = chan st)"

lemma evolves_refl [simp]: "evolves st st"
  by (simp add: evolves_def)

lemma evolves_trans: "evolves a b \<Longrightarrow> evolves b c \<Longrightarrow> evolves a c"
  by (simp add: evolves_def)

lemma evolves_same: "tasks st' = tasks st \<Longrightarrow> chan st' = chan st \<Longrightarrow> (stopped st \<Longrightarrow> stopped st') \<Longrightarrow> evolves st st'"
  by (simp add: evolves_def)

lemma evolves_entry_set:
  assumes "bt_ok (installs s)" "evolves (entry_or_new i s) st"
  shows "evolves (entry_or_new j s) (entry_or_new j (set_install i st s))"
  using assms by simp

lemma fire_evolves:
  assumes f: "fire_tasks accept t_max now (tasks st) (chan st) = (ts, ch)" and ok: "bt_ok (tasks st)" "\<not> stopped st"
  shows "evolves st (st\<lparr>tasks := ts, chan := ch\<rparr>)"
proof -
  have d: "distinct (map fst (tasks st))" using ok(1) by (rule bt_ok_distinct)
  have "map_of ts i = Some t \<and> delivered i ch = delivered i (chan st)"
    if m: "map_of (tasks st) i = Some t" "tstate t \<noteq> Scheduled" for i t
  proof -
    have "i \<in> fst ` set (tasks st)" using map_of_SomeD [OF m(1)] by force
    then have "i \<in> fst ` set ts" using fire_tasks_keys [OF f] by (metis set_map)
    then obtain t' where t': "(i, t') \<in> set ts" by auto
    from fire_tasks_pointwise [OF f d t'] obtain u c c' where
      u: "(i, u) \<in> set (tasks st)" "fire_task accept t_max now i u c = (t', c')"
        "delivered i c = delivered i (chan st)" "delivered i c' = delivered i ch" by blast
    have "u = t" using u(1) map_of_SomeD [OF m(1)] d by (meson eq_key_imp_eq_value)
    with fire_task_frame(4) [OF u(2)] m(2) have "t' = t" "sent c' = sent c" by simp_all
    moreover from this have "delivered i c' = delivered i c" by (simp add: delivered_def)
    moreover have "distinct (map fst ts)" using d fire_tasks_keys [OF f] by simp
    ultimately show ?thesis using t' u by simp
  qed
  with ok(2) show ?thesis by (simp add: evolves_def)
qed

lemma ensure_driver_evolves:
  "bt_ok (installs s) \<Longrightarrow> evolves (entry_or_new j s) (entry_or_new j (snd (ensure_driver runtime i s)))"
  by (cases "map_of (installs s) i")
    (auto simp: ensure_driver_def entry_or_new_Some intro!: evolves_entry_set evolves_same)

lemma schedule_evolves:
  assumes inv: "service_inv lim s"
  shows "evolves (entry_or_new j s) (entry_or_new j (snd (schedule lim runtime granted clock i t s)))"
proof (cases rule: schedule_cases [of lim runtime granted clock i t s])
  case refused
  then show ?thesis by simp
next
  case numbered
  have ok: "bt_ok (installs (s\<lparr>next_task_id := next_task_id s + 1\<rparr>))" using service_ok [OF inv] by simp
  have "entry_or_new j (s\<lparr>next_task_id := next_task_id s + 1\<rparr>) = entry_or_new j s" for j
    by (simp add: entry_or_new_def)
  with numbered show ?thesis using entry_or_new_set [OF ok] by (metis evolves_refl)
next
  case (added now)
  let ?s = "s\<lparr>next_task_id := next_task_id s + 1\<rparr>" and ?st = "entry_or_new i s"
  let ?i = "ScheduledTaskId (next_task_id s)"
  let ?st' = "?st\<lparr>tasks := bt_insert ?i (task_new t) (tasks ?st)\<rparr>"
  have ok: "bt_ok (installs ?s)" using service_ok [OF inv] by simp
  have en: "entry_or_new j ?s = entry_or_new j s" for j by (simp add: entry_or_new_def)
  note I = entry_or_new_inv [OF inv, of i]
  then have tok: "bt_ok (tasks ?st)" by (simp add: install_inv_def)
  have "?i \<notin> fst ` set (tasks ?st)" using I by (force simp: install_inv_def)
  then have "map_of (tasks ?st) ?i = None" by (simp add: map_of_eq_None_iff)
  then have ev: "evolves ?st ?st'" using added(3) by (auto simp: evolves_def map_of_bt_insert [OF tok])
  let ?s1 = "set_install i ?st ?s"
  have ok1: "bt_ok (installs ?s1)" using ok by (auto simp: set_install_def)
  have ok2: "bt_ok (installs (set_install i ?st' ?s1))" using ok1 by (auto simp: set_install_def)
  have "evolves (entry_or_new j s) (entry_or_new j (set_install i ?st' ?s1))"
    using ev by (simp add: entry_or_new_set [OF ok1] entry_or_new_set [OF ok] en)
  then show ?thesis
    unfolding added(5) by (rule evolves_trans) (rule ensure_driver_evolves [OF ok2])
qed

lemma cancel_evolves:
  assumes inv: "service_inv lim s"
  shows "evolves (entry_or_new j s) (entry_or_new j (snd (cancel i task s)))"
proof (cases "\<exists>st e. map_of (installs s) i = Some st \<and> \<not> stopped st \<and> map_of (tasks st) task = Some e \<and>
      tstate e = Scheduled")
  case True
  then obtain st e where st: "map_of (installs s) i = Some st" "\<not> stopped st"
    "map_of (tasks st) task = Some e" "tstate e = Scheduled" by blast
  have ok: "bt_ok (tasks st)" using lookup_inv [OF inv st(1)] by (simp add: install_inv_def)
  have "evolves (entry_or_new i s)
      (st\<lparr>tasks := bt_insert task (e\<lparr>tstate := Cancelled, next_fire_at := None\<rparr>) (tasks st)\<rparr>)"
    using st by (auto simp: evolves_def map_of_bt_insert [OF ok] entry_or_new_Some)
  from evolves_entry_set [OF service_ok [OF inv] this, of j] st show ?thesis by (simp add: cancel_def)
next
  case False
  then have "snd (cancel i task s) = s" by (auto simp: cancel_def split: option.splits TaskState.splits)
  then show ?thesis by simp
qed

lemma stop_evolves: "bt_ok (installs s) \<Longrightarrow> evolves (entry_or_new j s) (entry_or_new j (snd (stop i s)))"
proof -
  assume ok: "bt_ok (installs s)"
  then have ok1: "bt_ok (installs (set_install i (entry_or_new i s) s))" by (auto simp: set_install_def)
  show ?thesis
    by (auto simp: stop_def Let_def entry_or_new_set [OF ok] entry_or_new_set [OF ok1] intro: evolves_same)
qed

lemma fire_due_evolves:
  assumes inv: "service_inv lim s"
  shows "evolves (entry_or_new j s) (entry_or_new j (fire_due accept t_max clock i s))"
proof (cases "\<exists>now st. clock = Inr now \<and> map_of (installs s) i = Some st \<and> \<not> stopped st")
  case True
  then obtain now st where st: "clock = Inr now" "map_of (installs s) i = Some st" "\<not> stopped st" by blast
  obtain ts ch where f: "fire_tasks (accept i) t_max now (tasks st) (chan st) = (ts, ch)" by fastforce
  have "bt_ok (tasks st)" using lookup_inv [OF inv st(2)] by (simp add: install_inv_def)
  from fire_evolves [OF f this st(3)] have "evolves (entry_or_new i s) (st\<lparr>tasks := ts, chan := ch\<rparr>)"
    by (simp add: entry_or_new_Some [OF st(2)])
  from evolves_entry_set [OF service_ok [OF inv] this, of j] st f show ?thesis by (simp add: fire_due_def)
next
  case False
  then have "fire_due accept t_max clock i s = s" by (auto simp: fire_due_def split: sum.splits option.splits)
  then show ?thesis by simp
qed

lemma driver_exit_evolves:
  "bt_ok (installs s) \<Longrightarrow> evolves (entry_or_new j s) (entry_or_new j (driver_exit i s))"
  by (cases "map_of (installs s) i")
    (auto simp: driver_exit_def entry_or_new_Some intro!: evolves_entry_set evolves_same)

lemma step_evolves:
  "service_inv lim s \<Longrightarrow> evolves (entry_or_new j s) (entry_or_new j (step lim accept t_max x s))"
  by (cases x) (simp_all add: schedule_evolves cancel_evolves stop_evolves fire_due_evolves driver_exit_evolves service_ok)

lemma run_evolves:
  assumes "service_inv lim s" "unat (next_task_id s) + length ops < 2 ^ 64" "\<forall>x \<in> set ops. op_ok t_max x" "time_bound t_max"
  shows "evolves (entry_or_new j s) (entry_or_new j (run lim accept t_max ops s))"
  using assms(1-3)
proof (induction ops arbitrary: s)
  case (Cons x ops)
  then have n: "unat (next_task_id s) < 2 ^ 64 - 1" by simp
  note st = step_inv [OF Cons.prems(1) n _ assms(4), of x accept]
  have "evolves (entry_or_new j (step lim accept t_max x s)) (entry_or_new j (run lim accept t_max ops (step lim accept t_max x s)))"
    using st Cons.prems by (intro Cons.IH) auto
  then show ?case
    using step_evolves [OF Cons.prems(1), of j accept t_max x] by (auto simp: run_def intro: evolves_trans)
qed (simp add: run_def)

section \<open>Properties\<close>

text \<open>A run of the demonstration: the queue takes one payload, so of the three due fires two are missed.\<close>

definition demo_limits :: SchedulerLimits where
  "demo_limits = \<lparr>max_tasks_per_installation = 2, max_total_tasks = 3, delivery_queue_capacity = 1,
     min_periodic_interval = Duration 1\<rparr>"

definition demo_accept :: "InstallationId \<Rightarrow> nat \<Rightarrow> bool" where
  "demo_accept i n \<longleftrightarrow> n = 0"

definition demo_trigger :: ScheduleTrigger where
  "demo_trigger = Periodic (UtcInstant 5) (Duration 10)"

definition demo_ops :: "op list" where
  "demo_ops = [Schedule True (Inr True) (Inr (UtcInstant 0)) (InstallationId 1) demo_trigger,
     Fire (Inr (UtcInstant 30)) (InstallationId 1)]"

definition demo_task :: TaskEntry where
  "demo_task = \<lparr>trigger = demo_trigger, tstate = Scheduled, sequence = 4, missed_fires = 2,
     next_fire_at = Some (UtcInstant 35)\<rparr>"

definition demo_install :: InstallSchedulerState where
  "demo_install = \<lparr>tasks = [(ScheduledTaskId 1, demo_task)], stopped = False, driver = True,
     chan = \<lparr>attempts = 2, sent = [\<lparr>payload_task = ScheduledTaskId 1, payload_sequence = 1,
       payload_at = UtcInstant 5, payload_missed = 0\<rparr>]\<rparr>\<rparr>"

lemma demo_run:
  "run demo_limits demo_accept 1000 demo_ops service_new =
    \<lparr>installs = [(InstallationId 1, demo_install)], next_task_id = 2\<rparr>"
proof -
  have s1: "step demo_limits demo_accept 1000 (hd demo_ops) service_new =
    \<lparr>installs = [(InstallationId 1, \<lparr>tasks = [(ScheduledTaskId 1, task_new demo_trigger)], stopped = False,
      driver = True, chan = \<lparr>attempts = 0, sent = []\<rparr>\<rparr>)], next_task_id = 2\<rparr>"
    by (simp add: demo_ops_def demo_limits_def demo_trigger_def schedule_def validate_trigger_def service_new_def
        entry_or_new_def set_install_def state_new_def ensure_driver_def scheduled_count_def Let_def
        less_eq_UtcInstant_def less_Duration_def)
  have g: "fire_grid (demo_accept (InstallationId 1)) 1000 (ScheduledTaskId 1) (Duration 10) (UtcInstant 5) 1 3 0 0
      \<lparr>attempts = 0, sent = []\<rparr> = (2, chan demo_install)"
    by (simp add: fire_grid.simps [of _ _ _ _ _ _ _ 0] fire_grid.simps [of _ _ _ _ _ _ _ "Suc 0"] grid_offset_def
        UtcInstant_checked_add_def time_duration_def try_send_def demo_accept_def saturating_add_def
        demo_install_def)
  have f: "fire_task (demo_accept (InstallationId 1)) 1000 (UtcInstant 30) (ScheduledTaskId 1)
      (task_new demo_trigger) \<lparr>attempts = 0, sent = []\<rparr> = (demo_task, chan demo_install)"
    by (simp add: fire_task_def task_new_def demo_trigger_def due_grid_points_def g less_UtcInstant_def
        UtcInstant_checked_add_def time_duration_def grid_offset_def demo_task_def saturating_add_def Let_def)
  show ?thesis
    using s1 by (simp add: run_def demo_ops_def fire_due_def f set_install_def demo_install_def)
qed

lemma demo_facts:
  "length demo_ops < 2 ^ 64 - 1" "\<forall>x \<in> set demo_ops. op_ok 1000 x" "(1000 :: nat) < 2 ^ 63 * NANOS_PER_SEC"
  "map_of (installs (run demo_limits demo_accept 1000 demo_ops service_new)) (InstallationId 1) = Some demo_install"
  "map_of (tasks demo_install) (ScheduledTaskId 1) = Some demo_task" "unat (sequence demo_task) = 4"
proof -
  show "map_of (installs (run demo_limits demo_accept 1000 demo_ops service_new)) (InstallationId 1) = Some demo_install"
    unfolding demo_run by simp
qed (simp_all add: demo_ops_def demo_install_def demo_task_def)

text \<open>C13: No fire is lost. For every task, whatever the sequence of calls, the clock and the queue do, the
  payloads sent for it together with the missed fires they report, and the missed fires counted since
  the last payload, are all the fires the task has had so far; the payloads carry strictly increasing
  sequence numbers (so none is sent twice), until the 64-bit sequence counter is exhausted.\<close>

theorem fires_accounted:
  assumes "length ops < 2 ^ 64 - 1" "\<forall>x \<in> set ops. op_ok t_max x" "t_max < 2 ^ 63 * NANOS_PER_SEC"
    and "map_of (installs (run lim accept t_max ops service_new)) i = Some st"
    and "map_of (tasks st) task = Some t" "unat (sequence t) < 2 ^ 64 - 1"
  shows "(\<Sum>p \<leftarrow> delivered task (chan st). 1 + unat (payload_missed p)) + unat (missed_fires t) =
      unat (sequence t) - 1 \<and>
    sorted_wrt (<) (map (\<lambda>p. unat (payload_sequence p)) (delivered task (chan st))) \<and>
    (\<forall>p \<in> set (delivered task (chan st)). 1 \<le> unat (payload_sequence p) \<and>
      unat (payload_sequence p) < unat (sequence t))"
proof -
  have "service_inv lim (run lim accept t_max ops service_new)"
    using assms(1) by (intro run_inv [OF service_new_inv _ assms(2,3)]) (simp add: service_new_def)
  from lookup_inv [OF this assms(4)] map_of_SomeD [OF assms(5)] have "fires_ok task t (chan st)"
    by (auto simp: install_inv_def task_inv_def)
  with assms(6) show ?thesis unfolding fires_ok_def accounted_def by auto
qed

lemma fires_accounted_witness:
  "(\<Sum>p \<leftarrow> delivered (ScheduledTaskId 1) (chan demo_install). 1 + unat (payload_missed p)) +
     unat (missed_fires demo_task) = unat (sequence demo_task) - 1"
proof -
  have "unat (sequence demo_task) < 2 ^ 64 - 1" by (simp add: demo_facts(6))
  from fires_accounted [OF demo_facts(1-5) this] show ?thesis by blast
qed

text \<open>C14: Fires keep to the grid: the payload with sequence number k carries the nominal time of the k-th
  fire, the first time plus k - 1 intervals (the fixed time of a one-shot task), with no drift however
  late the driver ran, as long as the sequence numbers fit 32 bits (beyond that \<open>grid_offset\<close>
  saturates).\<close>

theorem fires_on_grid:
  assumes "length ops < 2 ^ 64 - 1" "\<forall>x \<in> set ops. op_ok t_max x" "t_max < 2 ^ 63 * NANOS_PER_SEC"
    and "map_of (installs (run lim accept t_max ops service_new)) i = Some st"
    and "map_of (tasks st) task = Some t" "unat (sequence t) < 2 ^ 32"
  shows "(\<forall>p \<in> set (delivered task (chan st)).
      epoch_nanos (payload_at p) = nominal (trigger t) (unat (payload_sequence p))) \<and>
    (\<forall>n. next_fire_at t = Some n \<longrightarrow> epoch_nanos n = nominal (trigger t) (unat (sequence t)))"
proof -
  have "service_inv lim (run lim accept t_max ops service_new)"
    using assms(1) by (intro run_inv [OF service_new_inv _ assms(2,3)]) (simp add: service_new_def)
  from lookup_inv [OF this assms(4)] map_of_SomeD [OF assms(5)] have "grid_ok task t (chan st)"
    by (auto simp: install_inv_def task_inv_def)
  with assms(6) show ?thesis by (simp add: grid_ok_def)
qed

lemma fires_on_grid_witness:
  "list_all (\<lambda>p. epoch_nanos (payload_at p) = nominal (trigger demo_task) (unat (payload_sequence p)))
     (delivered (ScheduledTaskId 1) (chan demo_install))"
proof -
  have "unat (sequence demo_task) < 2 ^ 32" by (simp add: demo_facts(6))
  from fires_on_grid [OF demo_facts(1-5) this] show ?thesis unfolding list_all_iff by (rule conjunct1)
qed

text \<open>The budgets hold in every reachable state: no installation has more scheduled tasks than its
  limit, and all installations together no more than the total.\<close>

theorem task_budgets_hold:
  assumes "length ops < 2 ^ 64 - 1" "\<forall>x \<in> set ops. op_ok t_max x" "t_max < 2 ^ 63 * NANOS_PER_SEC"
    and "s = run lim accept t_max ops service_new"
  shows "(\<forall>(i, st) \<in> set (installs s). scheduled_count (tasks st) \<le> max_tasks_per_installation lim) \<and>
    (\<Sum>(i, st) \<leftarrow> installs s. scheduled_count (tasks st)) \<le> max_total_tasks lim"
proof -
  have "service_inv lim s"
    unfolding assms(4) using assms(1) by (intro run_inv [OF service_new_inv _ assms(2,3)]) (simp add: service_new_def)
  then show ?thesis by (auto simp: service_inv_def total_scheduled_def install_inv_def)
qed

lemma task_budgets_hold_witness:
  "scheduled_count (tasks demo_install) \<le> max_tasks_per_installation demo_limits"
  using task_budgets_hold [OF demo_facts(1-3) refl, of demo_limits demo_accept] by (simp add: demo_run)

text \<open>C15: A cancelled task and a stopped installation are silent for ever: after a successful \<open>cancel\<close> no
  continuation sends another payload for the task, which stays cancelled, and after \<open>stop\<close> no
  continuation sends anything for the installation or changes its tasks.\<close>

theorem cancelled_or_stopped_is_silent:
  assumes "length ops + length ops' < 2 ^ 64 - 2" "\<forall>x \<in> set (ops @ ops'). op_ok t_max x"
    and "t_max < 2 ^ 63 * NANOS_PER_SEC" and "s = run lim accept t_max ops service_new"
  shows "(fst (cancel i task s) = Inr () \<longrightarrow>
      (let s' = run lim accept t_max ops' (snd (cancel i task s)) in
       delivered task (chan (entry_or_new i s')) = delivered task (chan (entry_or_new i s)) \<and>
       map_option tstate (map_of (tasks (entry_or_new i s')) task) = Some Cancelled)) \<and>
    (let s' = run lim accept t_max ops' (snd (stop i s)) in
       chan (entry_or_new i s') = chan (entry_or_new i s) \<and> tasks (entry_or_new i s') = tasks (entry_or_new i s) \<and>
       is_stopped i s')"
proof -
  have inv: "service_inv lim s" and bound: "unat (next_task_id s) + length ops' < 2 ^ 64"
  proof -
    have "service_inv lim (run lim accept t_max ops u) \<and> unat (next_task_id (run lim accept t_max ops u)) \<le>
        unat (next_task_id u) + length ops"
      if "service_inv lim u" "unat (next_task_id u) + length ops < 2 ^ 64" for u
      using that assms(2)
    proof (induction ops arbitrary: u)
      case (Cons x ops)
      then have n: "unat (next_task_id u) < 2 ^ 64 - 1" by simp
      from step_inv [OF Cons.prems(1) n _ assms(3), of x accept] Cons.prems
        Cons.IH [of "step lim accept t_max x u"] show ?case by (auto simp: run_def)
    qed (simp add: run_def)
    from this [OF service_new_inv] assms(1) show "service_inv lim s" "unat (next_task_id s) + length ops' < 2 ^ 64"
      by (auto simp: service_new_def assms(4))
  qed
  have ops': "\<forall>x \<in> set ops'. op_ok t_max x" using assms(2) by simp
  have c: "unat (next_task_id (snd (cancel i task s))) + length ops' < 2 ^ 64"
    and d: "unat (next_task_id (snd (stop i s))) + length ops' < 2 ^ 64" using bound by simp_all
  note ec = run_evolves [OF cancel_inv [OF inv] c ops' assms(3), of i accept]
    and es = run_evolves [OF stop_keeps_inv [OF inv] d ops' assms(3), of i accept]
  have "delivered task (chan (entry_or_new i (run lim accept t_max ops' (snd (cancel i task s))))) =
        delivered task (chan (entry_or_new i s)) \<and>
      map_option tstate (map_of (tasks (entry_or_new i (run lim accept t_max ops' (snd (cancel i task s))))) task) =
        Some Cancelled"
    if ok: "fst (cancel i task s) = Inr ()"
  proof -
    from ok obtain st e where st: "map_of (installs s) i = Some st" "\<not> stopped st" "map_of (tasks st) task = Some e"
      "tstate e = Scheduled"
      by (auto simp: cancel_def split: option.splits if_splits TaskState.splits)
    let ?st = "st\<lparr>tasks := bt_insert task (e\<lparr>tstate := Cancelled, next_fire_at := None\<rparr>) (tasks st)\<rparr>"
    have "entry_or_new i (snd (cancel i task s)) = ?st"
      using st service_ok [OF inv] by (simp add: cancel_def)
    moreover have "bt_ok (tasks st)" using lookup_inv [OF inv st(1)] by (simp add: install_inv_def)
    ultimately show ?thesis
      using ec by (simp add: evolves_def map_of_bt_insert entry_or_new_Some [OF st(1)])
  qed
  moreover have "stopped (entry_or_new i (snd (stop i s)))" "chan (entry_or_new i (snd (stop i s))) = chan (entry_or_new i s)"
    "tasks (entry_or_new i (snd (stop i s))) = tasks (entry_or_new i s)"
    using service_ok [OF inv] bt_ok_insert [OF service_ok [OF inv]]
    by (simp_all add: stop_def Let_def entry_or_new_def set_install_def map_of_bt_insert)
  with es have "chan (entry_or_new i (run lim accept t_max ops' (snd (stop i s)))) = chan (entry_or_new i s)"
    "tasks (entry_or_new i (run lim accept t_max ops' (snd (stop i s)))) = tasks (entry_or_new i s)"
    "stopped (entry_or_new i (run lim accept t_max ops' (snd (stop i s))))"
    by (simp_all add: evolves_def)
  ultimately show ?thesis by (simp add: Let_def is_stopped_entry)
qed

lemma cancelled_or_stopped_is_silent_witness:
  "is_stopped (InstallationId 1) (run demo_limits demo_accept 1000 [Fire (Inr (UtcInstant 50)) (InstallationId 1)]
     (snd (stop (InstallationId 1) (run demo_limits demo_accept 1000 demo_ops service_new))))"
  using cancelled_or_stopped_is_silent [of demo_ops "[Fire (Inr (UtcInstant 50)) (InstallationId 1)]" 1000 _
      demo_limits demo_accept "InstallationId 1" "ScheduledTaskId 1", OF _ _ _ refl]
  by (simp add: demo_ops_def Let_def)

end
