(* ===== verification/SchedulerLive.thy ===== *)
theory SchedulerLive
  imports Scheduler
begin

text \<open>
  Progress of the scheduler (\<open>crates/application/src/scheduler.rs\<close>): a firing of the driver takes every
  task that is due one step further and leaves none due at the same time, so that the driver's loop
  sleeps or waits afterwards instead of firing again.
\<close>

lemma earliest_next_fire_Some:
  assumes "earliest_next_fire ts = Some x"
  obtains i t where "(i, t) \<in> set ts" "tstate t = Scheduled" "next_fire_at t = Some x"
proof -
  have mem: "fold min ns n \<in> set (n # ns)" for ns and n :: UtcInstant
  proof (induction ns arbitrary: n)
    case (Cons m ns)
    from Cons [of "min m n"] show ?case by (auto simp: min_def split: if_splits)
  qed simp
  from assms obtain n ns where "List.map_filter (\<lambda>(i, t). if tstate t = Scheduled then next_fire_at t else None) ts = n # ns"
    "x = fold min ns n"
    by (auto simp: earliest_next_fire_def split: list.splits)
  with mem [of ns n] have "x \<in> set (List.map_filter (\<lambda>(i, t). if tstate t = Scheduled then next_fire_at t else None) ts)" by simp
  with that show thesis by (auto simp: List.map_filter_def split: if_splits)
qed

lemma fire_task_progress:
  assumes fire: "fire_task accept t_max now i t ch = (t', ch')"
    and due: "tstate t = Scheduled" "next_fire_at t = Some n" "n \<le> now" and sq: "unat (sequence t) < 2 ^ 64 - 1"
  shows "unat (sequence t) < unat (sequence t')"
  using fire
proof (cases rule: fire_task_cases)
  case idle
  with due show ?thesis by auto
next
  case (one_shot m a b)
  with sq show ?thesis by (simp add: unat_saturating_add)
next
  case (periodic m f d k)
  note K = due_grid_points_bounds [of m now d]
  have "unat (of_nat (due_grid_points m now d) :: u64) = due_grid_points m now d"
    using K(2) by (simp add: unat_of_nat take_bit_eq_mod)
  moreover have "sequence t' = saturating_add (sequence t) (of_nat (due_grid_points m now d))"
    by (simp add: periodic(6) Let_def split: sum.split)
  ultimately show ?thesis using sq K(1) by (simp add: unat_saturating_add)
qed

lemma fire_tasks_lookup:
  assumes f: "fire_tasks accept t_max now ts ch = (ts', ch')" and d: "distinct (map fst ts)" and t: "(i, t) \<in> set ts"
  shows "\<exists>t' c c'. map_of ts' i = Some t' \<and> fire_task accept t_max now i t c = (t', c')"
proof -
  note keys = fire_tasks_keys [OF f]
  from t keys have "i \<in> fst ` set ts'" by (metis fst_conv image_eqI set_map)
  then obtain t' where t': "(i, t') \<in> set ts'" by auto
  with keys d have "map_of ts' i = Some t'" by simp
  moreover from fire_tasks_pointwise [OF f d t'] obtain u c c' where
    "(i, u) \<in> set ts" "fire_task accept t_max now i u c = (t', c')" by blast
  moreover from this(1) t d have "u = t" by (metis eq_key_imp_eq_value)
  ultimately show ?thesis by blast
qed

text \<open>C26: A turn of the driver gets on, provided that the least interval configured for periodic tasks is
  positive (it is one millisecond by default). After fewer than \<open>2 ^ 64 - 1\<close> calls, with clock readings
  within a range of instants that ends before \<open>2 ^ 63\<close> seconds, let an installation not be stopped and
  the backlog of each of its periodic tasks be below \<open>2 ^ 32\<close> intervals. Then a firing at a time takes
  every task that is due one fire further at least (until its 64-bit sequence number is exhausted), in
  whatever way the queue answers, and completes it or sets its next time after that time; so the next
  turn at the same time does not fire again. A least interval of zero is excluded because a task of
  interval zero would be due again at once.\<close>

theorem due_tasks_progress:
  assumes "length ops < 2 ^ 64 - 1" "\<forall>x \<in> set ops. op_ok t_max x" "t_max < 2 ^ 63 * NANOS_PER_SEC"
    and "0 < nanos (min_periodic_interval lim)"
    and "map_of (installs (run lim accept t_max ops service_new)) i = Some st" "\<not> stopped st"
    and "\<forall>(j, t) \<in> set (tasks st). \<forall>f d n. trigger t = Periodic f d \<longrightarrow> next_fire_at t = Some n \<longrightarrow>
      (epoch_nanos now - epoch_nanos n) div nanos d + 1 < 2 ^ 32"
    and "s' = fire_due accept' t_max (Inr now) i (run lim accept t_max ops service_new)"
  shows "run_driver_turn (Inr now) i s' \<noteq> FireNow \<and>
    (\<exists>st'. map_of (installs s') i = Some st' \<and>
      (\<forall>(j, t) \<in> set (tasks st). \<forall>n. tstate t = Scheduled \<longrightarrow> next_fire_at t = Some n \<longrightarrow> n \<le> now \<longrightarrow>
        (\<exists>t'. map_of (tasks st') j = Some t' \<and>
          (unat (sequence t) < 2 ^ 64 - 1 \<longrightarrow> unat (sequence t) < unat (sequence t')) \<and>
          (tstate t' = Scheduled \<longrightarrow> (\<exists>x. next_fire_at t' = Some x \<and> now < x)))))"
proof -
  let ?s = "run lim accept t_max ops service_new"
  have inv: "service_inv lim ?s"
    using assms(1) by (intro run_inv [OF service_new_inv _ assms(2,3)]) (simp add: service_new_def)
  from lookup_inv [OF inv assms(5)] have ok: "bt_ok (tasks st)"
    and tinv: "\<And>j t. (j, t) \<in> set (tasks st) \<Longrightarrow> task_inv lim j t (chan st)" by (auto simp: install_inv_def)
  note dist = bt_ok_distinct [OF ok]
  obtain ts ch where f: "fire_tasks (accept' i) t_max now (tasks st) (chan st) = (ts, ch)" by fastforce
  let ?st = "st\<lparr>tasks := ts, chan := ch\<rparr>"
  have s': "s' = set_install i ?st ?s" using assms(5,6,8) f by (simp add: fire_due_def)
  have look: "map_of (installs s') i = Some ?st"
    using service_ok [OF inv] by (simp add: s' set_install_def map_of_bt_insert)
  have future: "now < x" if "(j, t) \<in> set (tasks st)" "fire_task (accept' i) t_max now j t c = (t', c')"
    "tstate t' = Scheduled" "next_fire_at t' = Some x" for j t c t' c' x
  proof (rule fire_task_future [OF that(2) _ _ that(3,4)])
    show "0 < nanos d" if "trigger t = Periodic g d" for g d
      using tinv [OF \<open>(j, t) \<in> set (tasks st)\<close>] that assms(4) by (auto simp: task_inv_def less_eq_Duration_def)
    show "(epoch_nanos now - epoch_nanos n) div nanos d + 1 < 2 ^ 32" if "trigger t = Periodic g d" "next_fire_at t = Some n" for g d n
      using assms(7) \<open>(j, t) \<in> set (tasks st)\<close> that by blast
  qed
  have "run_driver_turn (Inr now) i s' \<noteq> FireNow"
  proof
    assume "run_driver_turn (Inr now) i s' = FireNow"
    then obtain x where x: "earliest_next_fire ts = Some x" "x \<le> now"
      by (auto simp: run_driver_turn_def look split: option.splits if_splits)
    from x(1) obtain j t' where t': "(j, t') \<in> set ts" "tstate t' = Scheduled" "next_fire_at t' = Some x"
      by (rule earliest_next_fire_Some)
    from fire_tasks_pointwise [OF f dist t'(1)] obtain t c c' where
      "(j, t) \<in> set (tasks st)" "fire_task (accept' i) t_max now j t c = (t', c')" by blast
    from future [OF this t'(2,3)] x(2) show False by simp
  qed
  moreover have "\<exists>t'. map_of (tasks ?st) j = Some t' \<and>
      (unat (sequence t) < 2 ^ 64 - 1 \<longrightarrow> unat (sequence t) < unat (sequence t')) \<and>
      (tstate t' = Scheduled \<longrightarrow> (\<exists>x. next_fire_at t' = Some x \<and> now < x))"
    if m: "(j, t) \<in> set (tasks st)" and due: "tstate t = Scheduled" "next_fire_at t = Some n" "n \<le> now" for j t n
  proof -
    from fire_tasks_lookup [OF f dist m] obtain t' c c' where t': "map_of ts j = Some t'"
      "fire_task (accept' i) t_max now j t c = (t', c')" by blast
    have "next_fire_at t' \<noteq> None" if "tstate t' = Scheduled"
      using t'(2) that due
      by (cases rule: fire_task_cases) (auto simp: Let_def split: sum.splits)
    with t' future [OF m t'(2)] fire_task_progress [OF t'(2) due] show ?thesis by auto
  qed
  ultimately show ?thesis using look by blast
qed

text \<open>A task every 10 ns from 5 on, seen at 30, is fired up to its next time, 35.\<close>

lemma due_tasks_progress_witness:
  "run_driver_turn (Inr (UtcInstant 40)) (InstallationId 1)
     (fire_due demo_accept 1000 (Inr (UtcInstant 40)) (InstallationId 1)
       (run demo_limits demo_accept 1000 demo_ops service_new)) \<noteq> FireNow"
proof -
  have "\<forall>(j, t) \<in> set (tasks demo_install). \<forall>f d n. trigger t = Periodic f d \<longrightarrow> next_fire_at t = Some n \<longrightarrow>
      (epoch_nanos (UtcInstant 40) - epoch_nanos n) div nanos d + 1 < 2 ^ 32"
    by (simp add: demo_install_def demo_task_def demo_trigger_def)
  from due_tasks_progress [OF demo_facts(1-3) _ demo_facts(4) _ this refl] show ?thesis
    by (simp add: demo_limits_def demo_install_def)
qed

end
