(* ===== verification/Web.thy ===== *)
theory Web
  imports Paths
begin

text \<open>
  The declarations of a web application (\<open>crates/domain/src/web.rs\<close>): pages, permissions, routes with
  their path templates and typed parameters, the conflict test of two templates and the assembly of
  an app declaration with its seven checks in their fixed order.

  A template is its text with the parsed segments. \<open>template_matches\<close> says which concrete paths a
  template stands for; \<open>detect\<close> is specified against it.
\<close>

section \<open>Identifiers and closed enums\<close>

datatype PageId = PageId (page_id_text: string)

definition PageId_new :: "string \<Rightarrow> DomainError + PageId" where
  "PageId_new v = and_then (validate_identifier v K_PageId) (\<lambda>_. Inr (PageId v))"

definition PageId_impls :: "(DomainError, PageId) text_codec" where
  "PageId_impls = text_impls PageId_new page_id_text"

interpretation page_id: validated_newtype PageId_new page_id_text
  by unfold_locales (auto simp: PageId_new_def result_simps PageId.expand)

datatype PermissionName = PermissionName (permission_text: string)

definition PermissionName_new :: "string \<Rightarrow> DomainError + PermissionName" where
  "PermissionName_new v = and_then (validate_identifier v K_PermissionName) (\<lambda>_. Inr (PermissionName v))"

definition PermissionName_impls :: "(DomainError, PermissionName) text_codec" where
  "PermissionName_impls = text_impls PermissionName_new permission_text"

interpretation permission_name: validated_newtype PermissionName_new permission_text
  by unfold_locales (auto simp: PermissionName_new_def result_simps PermissionName.expand)

datatype RouteId = RouteId (route_id_text: string)

definition RouteId_new :: "string \<Rightarrow> DomainError + RouteId" where
  "RouteId_new v = and_then (validate_identifier v K_RouteId) (\<lambda>_. Inr (RouteId v))"

definition RouteId_impls :: "(DomainError, RouteId) text_codec" where
  "RouteId_impls = text_impls RouteId_new route_id_text"

interpretation route_id: validated_newtype RouteId_new route_id_text
  by unfold_locales (auto simp: RouteId_new_def result_simps RouteId.expand)

datatype HttpMethod = Get | Post | Put | Patch | Delete

fun http_method_as_str :: "HttpMethod \<Rightarrow> string" where
  "http_method_as_str Get = ''get''"
| "http_method_as_str Post = ''post''"
| "http_method_as_str Put = ''put''"
| "http_method_as_str Patch = ''patch''"
| "http_method_as_str Delete = ''delete''"

definition http_method_from_str_checked :: "string \<Rightarrow> DomainError + HttpMethod" where
  "http_method_from_str_checked s =
     (if s = ''get'' then Inr Get
      else if s = ''post'' then Inr Post
      else if s = ''put'' then Inr Put
      else if s = ''patch'' then Inr Patch
      else if s = ''delete'' then Inr Delete
      else Inl (InvalidValue K_HttpMethod (UnknownVariant s)))"

definition HttpMethod_impls :: "(DomainError, HttpMethod) text_codec" where
  "HttpMethod_impls = text_impls http_method_from_str_checked http_method_as_str"

interpretation http_method: closed_enum http_method_from_str_checked http_method_as_str
proof unfold_locales
  show "http_method_from_str_checked (http_method_as_str x) = Inr x" for x
    by (cases x) (simp_all add: http_method_from_str_checked_def)
  show "http_method_from_str_checked s = Inr x \<Longrightarrow> http_method_as_str x = s" for s x
    by (auto simp: http_method_from_str_checked_def split: if_splits)
qed

datatype ParamType = TextType | IntegerType | UnsignedType | BooleanType | DecimalType

fun param_type_as_str :: "ParamType \<Rightarrow> string" where
  "param_type_as_str TextType = ''text''"
| "param_type_as_str IntegerType = ''integer''"
| "param_type_as_str UnsignedType = ''unsigned''"
| "param_type_as_str BooleanType = ''boolean''"
| "param_type_as_str DecimalType = ''decimal''"

definition param_type_from_str_checked :: "string \<Rightarrow> DomainError + ParamType" where
  "param_type_from_str_checked s =
     (if s = ''text'' then Inr TextType
      else if s = ''integer'' then Inr IntegerType
      else if s = ''unsigned'' then Inr UnsignedType
      else if s = ''boolean'' then Inr BooleanType
      else if s = ''decimal'' then Inr DecimalType
      else Inl (InvalidValue K_ParamType (UnknownVariant s)))"

definition ParamType_impls :: "(DomainError, ParamType) text_codec" where
  "ParamType_impls = text_impls param_type_from_str_checked param_type_as_str"

interpretation param_type: closed_enum param_type_from_str_checked param_type_as_str
proof unfold_locales
  show "param_type_from_str_checked (param_type_as_str x) = Inr x" for x
    by (cases x) (simp_all add: param_type_from_str_checked_def)
  show "param_type_from_str_checked s = Inr x \<Longrightarrow> param_type_as_str x = s" for s x
    by (auto simp: param_type_from_str_checked_def split: if_splits)
qed

section \<open>Path templates\<close>

datatype PathSegment = Literal string | Param string

fun is_literal :: "PathSegment \<Rightarrow> bool" where
  "is_literal (Literal s) \<longleftrightarrow> True"
| "is_literal (Param n) \<longleftrightarrow> False"

fun as_param :: "PathSegment \<Rightarrow> string option" where
  "as_param (Literal s) = None"
| "as_param (Param n) = Some n"

record PathTemplate =
  template_text :: string
  segments :: "PathSegment list"

definition param_name_char :: "char \<Rightarrow> bool" where
  "param_name_char b \<longleftrightarrow> is_lower b \<or> is_digit b \<or> b = CHR ''-''"

definition param_name_error :: "string \<Rightarrow> detail option" where
  "param_name_error v =
     (if v = [] then Some ParamNameEmpty
      else if length v > MAX_IDENTIFIER_LEN then Some ParamNameTooLong
      else if \<not> list_all param_name_char v then Some (ParamNameCharset v)
      else None)"

datatype template_error =
    Structural detail
  | NotOfTemplateForm string
  | BadParamName string detail
  | ParamRepeated string
  | StrayBrace string

datatype PathConflictParty = RouteParty RouteId | PageParty PageId

datatype param_mismatch = TemplateParamUndeclared string | DeclaredParamNotInTemplate string | ParamDeclaredTwice string

datatype permission_error =
    PermissionDeclaredTwice PermissionName
  | PageUndeclared PageId PermissionName
  | RouteUndeclared RouteId PermissionName

datatype WebDeclarationError =
    RouteIdConflict RouteId
  | PageIdConflict PageId
  | PathConflict HttpMethod PathTemplate PathConflictParty PathConflictParty
  | InvalidPathTemplate template_error
  | ParamMismatch RouteId param_mismatch
  | InvalidPermission permission_error
  | InvalidDefaultPage PageId

fun party_display :: "PathConflictParty \<Rightarrow> string" where
  "party_display (RouteParty i) = ''route '' @ route_id_text i"
| "party_display (PageParty i) = ''page '' @ page_id_text i"

text \<open>The loop over \<open>value.split('/').skip(1)\<close>, with the parameter names seen so far.\<close>

fun parse_segments :: "string list \<Rightarrow> string set \<Rightarrow> template_error + PathSegment list" where
  "parse_segments [] seen = Inr []"
| "parse_segments (seg # segs) seen =
     (if seg = [] then Inl (Structural EmptySegment)
      else if dot_segment seg then Inl (Structural (TraversalSegment seg))
      else case strip_prefix ''{'' seg of
        Some rest \<Rightarrow>
          (case strip_suffix_char (CHR ''}'') rest of
             None \<Rightarrow> Inl (NotOfTemplateForm seg)
           | Some name \<Rightarrow>
               (case param_name_error name of
                  Some d \<Rightarrow> Inl (BadParamName seg d)
                | None \<Rightarrow>
                    if name \<in> seen then Inl (ParamRepeated name)
                    else and_then (parse_segments segs (insert name seen)) (\<lambda>ps. Inr (Param name # ps))))
      | None \<Rightarrow>
          if CHR ''{'' \<in> set seg \<or> CHR ''}'' \<in> set seg then Inl (StrayBrace seg)
          else and_then (parse_segments segs seen) (\<lambda>ps. Inr (Literal seg # ps)))"

definition parse_template :: "string \<Rightarrow> template_error + PathSegment list" where
  "parse_template v =
     (if v = [] then Inl (Structural MustNotBeEmpty)
      else if length v > MAX_PATH_LEN then Inl (Structural (MustNotExceed MAX_PATH_LEN))
      else if has_control v then Inl (Structural ControlCharacters)
      else if backslash \<in> set v then Inl (Structural BackslashSeparator)
      else if \<not> starts_with [slash] v then Inl (Structural MustBeAbsolute)
      else parse_segments (tl (split_on slash v)) {})"

definition PathTemplate_new :: "string \<Rightarrow> WebDeclarationError + PathTemplate" where
  "PathTemplate_new v =
     and_then (map_err InvalidPathTemplate (parse_template v))
       (\<lambda>ss. Inr \<lparr>template_text = v, segments = ss\<rparr>)"

definition PathTemplate_impls :: "(WebDeclarationError, PathTemplate) text_codec" where
  "PathTemplate_impls = text_impls PathTemplate_new template_text"

definition param_names :: "PathTemplate \<Rightarrow> string list" where
  "param_names t = List.map_filter as_param (segments t)"

definition from_literal_segments :: "string list \<Rightarrow> PathTemplate" where
  "from_literal_segments ss =
     \<lparr>template_text = slash # join_with slash ss, segments = map Literal ss\<rparr>"

definition template_of_page :: "PagePath \<Rightarrow> PathTemplate" where
  "template_of_page p = from_literal_segments (literal_segments p)"

definition detect :: "PathTemplate \<Rightarrow> PathTemplate \<Rightarrow> bool" where
  "detect first second \<longleftrightarrow>
     (let a = segments first; b = segments second in
      length a = length b \<and>
      list_all (\<lambda>(sa, sb). \<not> (is_literal sa \<and> is_literal sb) \<or> sa = sb) (zip a b))"

section \<open>Declarations\<close>

record RouteParam =
  param_name :: string
  value_type :: ParamType

definition RouteParam_new :: "string \<Rightarrow> ParamType \<Rightarrow> DomainError + RouteParam" where
  "RouteParam_new n ty =
     (case param_name_error n of
        Some d \<Rightarrow> Inl (InvalidValue K_RouteParam d)
      | None \<Rightarrow> Inr \<lparr>param_name = n, value_type = ty\<rparr>)"

record RouteDeclaration =
  route_id :: RouteId
  route_method :: HttpMethod
  route_path :: PathTemplate
  params :: "RouteParam list"
  route_permission :: "PermissionName option"

text \<open>The two loops of \<open>RouteDeclaration::new\<close>.\<close>

fun check_template_names :: "RouteId \<Rightarrow> RouteParam list \<Rightarrow> string list \<Rightarrow> WebDeclarationError + unit" where
  "check_template_names i ps [] = Inr ()"
| "check_template_names i ps (n # ns) =
     (if n \<notin> set (map param_name ps) then Inl (ParamMismatch i (TemplateParamUndeclared n))
      else check_template_names i ps ns)"

fun check_declared_params :: "RouteId \<Rightarrow> string list \<Rightarrow> RouteParam list \<Rightarrow> string set \<Rightarrow> WebDeclarationError + unit" where
  "check_declared_params i names [] seen = Inr ()"
| "check_declared_params i names (p # ps) seen =
     (if param_name p \<notin> set names then Inl (ParamMismatch i (DeclaredParamNotInTemplate (param_name p)))
      else if param_name p \<in> seen then Inl (ParamMismatch i (ParamDeclaredTwice (param_name p)))
      else check_declared_params i names ps (insert (param_name p) seen))"

definition RouteDeclaration_new ::
  "RouteId \<Rightarrow> HttpMethod \<Rightarrow> PathTemplate \<Rightarrow> RouteParam list \<Rightarrow> PermissionName option \<Rightarrow>
    WebDeclarationError + RouteDeclaration" where
  "RouteDeclaration_new i m t ps req =
     (let names = param_names t in
      and_then (check_template_names i ps names) (\<lambda>_.
      and_then (check_declared_params i names ps {}) (\<lambda>_.
      Inr \<lparr>route_id = i, route_method = m, route_path = t, params = ps, route_permission = req\<rparr>)))"

definition RouteDeclaration_deserialize :: "RouteDeclaration \<Rightarrow> WebDeclarationError + RouteDeclaration" where
  "RouteDeclaration_deserialize w =
     RouteDeclaration_new (route_id w) (route_method w) (route_path w) (params w) (route_permission w)"

record PageDeclaration =
  page_id :: PageId
  page_path :: PagePath
  page_display_name :: "string option"
  page_permission :: "PermissionName option"

record PermissionDeclaration =
  permission_name :: PermissionName
  permission_description :: "string option"

record AppFeatures =
  static_assets :: bool
  backend_actions :: bool
  navigation :: bool
  typed_routes :: bool
  permissions_feature :: bool

record AppDeclaration =
  entry :: AssetPath
  features :: AppFeatures
  app_display_name :: "string option"
  permissions :: "PermissionDeclaration list"
  pages :: "PageDeclaration list"
  routes :: "RouteDeclaration list"
  default_page :: "PageId option"

section \<open>Assembly of an app declaration\<close>

text \<open>\<open>for x in xs { if !seen.insert(key(x)) { return Err(err(x)) } }\<close>.\<close>

fun check_unique :: "('a \<Rightarrow> 'k) \<Rightarrow> ('a \<Rightarrow> 'e) \<Rightarrow> 'a list \<Rightarrow> 'k set \<Rightarrow> 'e + unit" where
  "check_unique key err [] seen = Inr ()"
| "check_unique key err (x # xs) seen =
     (if key x \<in> seen then Inl (err x) else check_unique key err xs (insert (key x) seen))"

text \<open>\<open>for x in xs { if let Some(e) = err(x) { return Err(e) } }\<close>.\<close>

fun check_all :: "('a \<Rightarrow> 'e option) \<Rightarrow> 'a list \<Rightarrow> 'e + unit" where
  "check_all err [] = Inr ()"
| "check_all err (x # xs) = (case err x of Some e \<Rightarrow> Inl e | None \<Rightarrow> check_all err xs)"

definition undeclared :: "PermissionName set \<Rightarrow> PermissionName option \<Rightarrow> (PermissionName \<Rightarrow> permission_error) \<Rightarrow>
    WebDeclarationError option" where
  "undeclared names req err =
     (case req of
        Some r \<Rightarrow> if r \<notin> names then Some (InvalidPermission (err r)) else None
      | None \<Rightarrow> None)"

definition route_conflict :: "RouteDeclaration \<Rightarrow> RouteDeclaration \<Rightarrow> WebDeclarationError option" where
  "route_conflict first second =
     (if route_method first = route_method second \<and> detect (route_path first) (route_path second)
      then Some (PathConflict (route_method first) (route_path first)
             (RouteParty (route_id first)) (RouteParty (route_id second)))
      else None)"

fun check_route_pairs :: "RouteDeclaration list \<Rightarrow> WebDeclarationError + unit" where
  "check_route_pairs [] = Inr ()"
| "check_route_pairs (r # rs) = and_then (check_all (route_conflict r) rs) (\<lambda>_. check_route_pairs rs)"

definition page_conflict :: "PageDeclaration \<Rightarrow> RouteDeclaration \<Rightarrow> WebDeclarationError option" where
  "page_conflict p r =
     (let t = template_of_page (page_path p) in
      if route_method r = Get \<and> detect t (route_path r)
      then Some (PathConflict Get t (PageParty (page_id p)) (RouteParty (route_id r)))
      else None)"

fun check_page_routes :: "PageDeclaration list \<Rightarrow> RouteDeclaration list \<Rightarrow> WebDeclarationError + unit" where
  "check_page_routes [] rs = Inr ()"
| "check_page_routes (p # ps) rs = and_then (check_all (page_conflict p) rs) (\<lambda>_. check_page_routes ps rs)"

definition AppDeclaration_new ::
  "AssetPath \<Rightarrow> AppFeatures \<Rightarrow> string option \<Rightarrow> PermissionDeclaration list \<Rightarrow> PageDeclaration list \<Rightarrow>
    RouteDeclaration list \<Rightarrow> PageId option \<Rightarrow> WebDeclarationError + AppDeclaration" where
  "AppDeclaration_new e f dn perms ps rs dp =
     (let names = set (map permission_name perms) in
      and_then (check_unique permission_name
          (\<lambda>p. InvalidPermission (PermissionDeclaredTwice (permission_name p))) perms {}) (\<lambda>_.
      and_then (check_all (\<lambda>p. undeclared names (page_permission p) (PageUndeclared (page_id p))) ps) (\<lambda>_.
      and_then (check_all (\<lambda>r. undeclared names (route_permission r) (RouteUndeclared (route_id r))) rs) (\<lambda>_.
      and_then (check_unique page_id (\<lambda>p. PageIdConflict (page_id p)) ps {}) (\<lambda>_.
      and_then (check_unique route_id (\<lambda>r. RouteIdConflict (route_id r)) rs {}) (\<lambda>_.
      and_then (check_route_pairs rs) (\<lambda>_.
      and_then (check_page_routes ps rs) (\<lambda>_.
      and_then (case dp of
          Some d \<Rightarrow> if d \<notin> set (map page_id ps) then Inl (InvalidDefaultPage d) else Inr ()
        | None \<Rightarrow> Inr ()) (\<lambda>_.
      Inr \<lparr>entry = e, features = f, app_display_name = dn, permissions = perms, pages = ps, routes = rs,
        default_page = dp\<rparr>)))))))))"

definition AppDeclaration_deserialize :: "AppDeclaration \<Rightarrow> WebDeclarationError + AppDeclaration" where
  "AppDeclaration_deserialize w =
     AppDeclaration_new (entry w) (features w) (app_display_name w) (permissions w) (pages w) (routes w) (default_page w)"

section \<open>Parameter values\<close>

text \<open>
  \<open>i64\<close> values are 64-bit words read with \<open>sint\<close>; an \<open>f64\<close> is its bit pattern, which the code only
  passes on.
\<close>

datatype ParamValue = TextValue string | IntegerValue "64 word" | UnsignedValue u64 | BooleanValue bool | DecimalValue "64 word"

fun param_type :: "ParamValue \<Rightarrow> ParamType" where
  "param_type (TextValue v) = TextType"
| "param_type (IntegerValue v) = IntegerType"
| "param_type (UnsignedValue v) = UnsignedType"
| "param_type (BooleanValue v) = BooleanType"
| "param_type (DecimalValue v) = DecimalType"

definition ParamValue_try_from_i128 :: "int \<Rightarrow> DomainError + ParamValue" where
  "ParamValue_try_from_i128 v =
     (if - (2 ^ 63) \<le> v \<and> v < 2 ^ 63 then Inr (IntegerValue (of_int v))
      else Inl (InvalidValue K_ParamValue (OverflowsI64 v)))"

definition ParamValue_try_from_u128 :: "u128 \<Rightarrow> DomainError + ParamValue" where
  "ParamValue_try_from_u128 v =
     (if unat v < 2 ^ 64 then Inr (UnsignedValue (ucast v))
      else Inl (InvalidValue K_ParamValue (OverflowsU64 (unat v))))"

record TypedParam =
  typed_name :: string
  typed_value :: ParamValue

definition TypedParam_new :: "string \<Rightarrow> ParamValue \<Rightarrow> DomainError + TypedParam" where
  "TypedParam_new n v =
     (case param_name_error n of
        Some d \<Rightarrow> Inl (InvalidValue K_TypedParam d)
      | None \<Rightarrow> Inr \<lparr>typed_name = n, typed_value = v\<rparr>)"

section \<open>What a template stands for\<close>

fun segment_matches :: "PathSegment \<Rightarrow> string \<Rightarrow> bool" where
  "segment_matches (Literal l) v \<longleftrightarrow> l = v"
| "segment_matches (Param n) v \<longleftrightarrow> True"

definition template_matches :: "PathTemplate \<Rightarrow> string list \<Rightarrow> bool" where
  "template_matches t segs \<longleftrightarrow> list_all2 segment_matches (segments t) segs"

text \<open>A template the parser or a page can give: its literals are segments of normalised paths.\<close>

definition template_ok :: "PathTemplate \<Rightarrow> bool" where
  "template_ok t \<longleftrightarrow> (\<forall>l. Literal l \<in> set (segments t) \<longrightarrow> mount_segment True l)"

lemma starts_with_brace: "CHR ''{'' \<notin> set seg \<Longrightarrow> strip_prefix ''{'' seg = None"
  by (cases seg) (auto simp: strip_prefix_def)

lemma parse_segments_Inr:
  "parse_segments segs seen = Inr ps \<Longrightarrow>
    length ps = length segs \<and> distinct (List.map_filter as_param ps) \<and>
    set (List.map_filter as_param ps) \<inter> seen = {} \<and>
    (\<forall>l. Literal l \<in> set ps \<longrightarrow> l \<in> set segs \<and> l \<noteq> [] \<and> \<not> dot_segment l \<and> CHR ''{'' \<notin> set l \<and> CHR ''}'' \<notin> set l)"
proof (induction segs seen arbitrary: ps rule: parse_segments.induct)
  case (2 seg segs seen)
  show ?case
  proof (cases "strip_prefix ''{'' seg")
    case None
    with "2.prems" obtain qs where q: "parse_segments segs seen = Inr qs" "ps = Literal seg # qs"
      and s: "seg \<noteq> []" "\<not> dot_segment seg" "CHR ''{'' \<notin> set seg" "CHR ''}'' \<notin> set seg"
      by (auto simp: result_simps split: if_splits)
    from "2.IH" s None q(1) have "length qs = length segs \<and> distinct (List.map_filter as_param qs) \<and>
      set (List.map_filter as_param qs) \<inter> seen = {} \<and>
      (\<forall>l. Literal l \<in> set qs \<longrightarrow> l \<in> set segs \<and> l \<noteq> [] \<and> \<not> dot_segment l \<and> CHR ''{'' \<notin> set l \<and> CHR ''}'' \<notin> set l)"
      by simp
    with q(2) s show ?thesis by (auto simp: List.map_filter_def)
  next
    case (Some rest)
    with "2.prems" obtain name qs where q: "strip_suffix_char (CHR ''}'') rest = Some name"
      "param_name_error name = None" "name \<notin> seen" "parse_segments segs (insert name seen) = Inr qs" "ps = Param name # qs"
      and s: "seg \<noteq> []" "\<not> dot_segment seg"
      by (auto simp: result_simps split: if_splits option.splits)
    from "2.IH" s Some q(1-4) have "length qs = length segs \<and> distinct (List.map_filter as_param qs) \<and>
      set (List.map_filter as_param qs) \<inter> insert name seen = {} \<and>
      (\<forall>l. Literal l \<in> set qs \<longrightarrow> l \<in> set segs \<and> l \<noteq> [] \<and> \<not> dot_segment l \<and> CHR ''{'' \<notin> set l \<and> CHR ''}'' \<notin> set l)"
      by simp
    with q(3,5) show ?thesis by (auto simp: List.map_filter_def)
  qed
qed (simp add: List.map_filter_def)

lemma PathTemplate_new_Inr:
  assumes "PathTemplate_new v = Inr t"
  shows "template_text t = v" and "template_ok t" and "distinct (param_names t)" and "segments t \<noteq> []"
proof -
  from assms have p: "parse_template v = Inr (segments t)" and v: "template_text t = v"
    by (auto simp: PathTemplate_new_def result_simps)
  show "template_text t = v" by (rule v)
  from p have a: "starts_with [slash] v" and c: "\<not> has_control v" and b: "backslash \<notin> set v"
    and s: "parse_segments (tl (split_on slash v)) {} = Inr (segments t)"
    by (auto simp: parse_template_def split: if_splits)
  let ?segs = "tl (split_on slash v)"
  have mv: "v = mount_text ?segs" and ne: "?segs \<noteq> []" using absolute_text [OF a] by blast+
  have sl: "\<forall>seg \<in> set ?segs. slash \<notin> set seg"
    by (meson list.set_sel(2) split_on_no_sep split_on_not_Nil)
  have "\<forall>seg \<in> set ?segs. backslash \<notin> set seg"
    using b backslash_mount_text [of ?segs] unfolding mv [symmetric] by blast
  moreover have "\<forall>seg \<in> set ?segs. \<not> has_control seg"
    using c has_control_mount_text [OF sl] unfolding mv [symmetric] by blast
  ultimately show "template_ok t"
    using parse_segments_Inr [OF s] sl by (simp add: template_ok_def mount_segment_def)
  show "distinct (param_names t)" using parse_segments_Inr [OF s] by (simp add: param_names_def)
  have "length (segments t) = length ?segs" using parse_segments_Inr [OF s] by blast
  with ne show "segments t \<noteq> []" by (metis length_0_conv)
qed

lemma template_of_page_ok:
  "PagePath_new v = Inr p \<Longrightarrow> template_ok (template_of_page p) \<and> template_text (template_of_page p) = v \<and>
    (template_matches (template_of_page p) segs \<longleftrightarrow> segs = literal_segments p)"
proof -
  assume p: "PagePath_new v = Inr p"
  have "list_all2 segment_matches (map Literal ls) segs \<longleftrightarrow> segs = ls" for ls
    by (induction ls arbitrary: segs) (auto simp: list_all2_Cons1)
  moreover have "page_path_text p = v" using p page_path.new_text by blast
  ultimately show ?thesis
    using PagePath_new_segments [OF p]
    by (auto simp: template_of_page_def from_literal_segments_def template_ok_def template_matches_def mount_text_def)
qed

lemma PathTemplate_codec: "codec_ok PathTemplate_impls"
  by (auto simp: codec_ok_def PathTemplate_impls_def text_impls_def PathTemplate_new_Inr(1))

section \<open>Conflicts\<close>

lemma detect_segments:
  assumes "\<forall>l. Literal l \<in> set a \<union> set b \<longrightarrow> P l" and "P w"
  shows "(length a = length b \<and> list_all (\<lambda>(sa, sb). \<not> (is_literal sa \<and> is_literal sb) \<or> sa = sb) (zip a b)) \<longleftrightarrow>
    (\<exists>segs. (\<forall>s \<in> set segs. P s) \<and> list_all2 segment_matches a segs \<and> list_all2 segment_matches b segs)"
  using assms(1)
proof (induction a arbitrary: b)
  case Nil
  show ?case by (cases b) auto
next
  case (Cons x a)
  show ?case
  proof (cases b)
    case Nil
    then show ?thesis by (auto simp: list_all2_Cons1)
  next
    case (Cons y b')
    have P: "\<forall>l. Literal l \<in> {x, y} \<longrightarrow> P l" using Cons.prems Cons by auto
    have head: "(\<not> (is_literal x \<and> is_literal y) \<or> x = y) \<longleftrightarrow>
        (\<exists>s. P s \<and> segment_matches x s \<and> segment_matches y s)"
      using P assms(2) by (cases x; cases y) auto
    have ih: "(length a = length b' \<and> list_all (\<lambda>(sa, sb). \<not> (is_literal sa \<and> is_literal sb) \<or> sa = sb) (zip a b')) \<longleftrightarrow>
      (\<exists>segs. (\<forall>s \<in> set segs. P s) \<and> list_all2 segment_matches a segs \<and> list_all2 segment_matches b' segs)"
      using Cons.prems Cons by (intro Cons.IH) auto
    have "(\<exists>segs. (\<forall>s \<in> set segs. P s) \<and> list_all2 segment_matches (x # a) segs \<and> list_all2 segment_matches (y # b') segs) \<longleftrightarrow>
        (\<exists>s. P s \<and> segment_matches x s \<and> segment_matches y s) \<and>
        (\<exists>segs. (\<forall>s \<in> set segs. P s) \<and> list_all2 segment_matches a segs \<and> list_all2 segment_matches b' segs)"
      (is "?L \<longleftrightarrow> ?R")
    proof
      assume ?L
      then obtain segs where "\<forall>s \<in> set segs. P s" "list_all2 segment_matches (x # a) segs"
        "list_all2 segment_matches (y # b') segs" by blast
      then show ?R by (cases segs) auto
    next
      assume ?R
      then obtain s segs where "P s" "segment_matches x s" "segment_matches y s" "\<forall>s \<in> set segs. P s"
        "list_all2 segment_matches a segs" "list_all2 segment_matches b' segs" by blast
      then have "(\<forall>s \<in> set (s # segs). P s) \<and> list_all2 segment_matches (x # a) (s # segs) \<and>
        list_all2 segment_matches (y # b') (s # segs)" by simp
      then show ?L by blast
    qed
    with head ih show ?thesis by (auto simp: Cons)
  qed
qed

lemma detect_iff:
  assumes "template_ok t" "template_ok u"
  shows "detect t u \<longleftrightarrow>
    (\<exists>segs. (\<forall>s \<in> set segs. mount_segment True s) \<and> template_matches t segs \<and> template_matches u segs)"
proof -
  have w: "mount_segment True ''a''" by (simp add: mount_segment_def dot_segment_def)
  have l: "\<forall>l. Literal l \<in> set (segments t) \<union> set (segments u) \<longrightarrow> mount_segment True l"
    using assms by (auto simp: template_ok_def)
  show ?thesis
    using detect_segments [where P = "mount_segment True", OF l w]
    by (simp add: detect_def Let_def template_matches_def)
qed

lemma detect_commute: "detect t u = detect u t"
proof -
  have "detect t u = (\<exists>segs. template_matches t segs \<and> template_matches u segs)" for t u
    using detect_segments [of "segments t" "segments u" "\<lambda>_. True" "[]"]
    by (simp add: detect_def Let_def template_matches_def)
  then show ?thesis by blast
qed

text \<open>Not only normalised paths are unambiguous: two templates without conflict share no path at all.\<close>

lemma not_detect: "\<not> detect t u \<Longrightarrow> template_matches t segs \<Longrightarrow> \<not> template_matches u segs"
  using detect_segments [of "segments t" "segments u" "\<lambda>_. True" "[]"]
  by (auto simp: detect_def Let_def template_matches_def)

section \<open>Accepted declarations\<close>

lemma check_unique_Inr:
  "check_unique key err xs seen = Inr u \<longleftrightarrow> distinct (map key xs) \<and> key ` set xs \<inter> seen = {}"
  by (induction xs arbitrary: seen) auto

lemma check_all_Inr: "check_all err xs = Inr u \<longleftrightarrow> (\<forall>x \<in> set xs. err x = None)"
  by (induction xs) (auto split: option.splits)

lemma check_route_pairs_Inr:
  "check_route_pairs rs = Inr u \<longleftrightarrow> sorted_wrt (\<lambda>r s. route_conflict r s = None) rs"
  by (induction rs) (auto simp: result_simps check_all_Inr)

lemma check_page_routes_Inr:
  "check_page_routes ps rs = Inr u \<longleftrightarrow> (\<forall>p \<in> set ps. \<forall>r \<in> set rs. page_conflict p r = None)"
  by (induction ps) (auto simp: result_simps check_all_Inr)

lemma check_template_names_Inr:
  "check_template_names i ps ns = Inr u \<longleftrightarrow> set ns \<subseteq> set (map param_name ps)"
  by (induction ns) auto

lemma check_declared_params_Inr:
  "check_declared_params i names ps seen = Inr u \<longleftrightarrow>
    set (map param_name ps) \<subseteq> set names \<and> distinct (map param_name ps) \<and> set (map param_name ps) \<inter> seen = {}"
  by (induction ps arbitrary: seen) auto

lemma RouteDeclaration_new_Inr:
  "RouteDeclaration_new i m t ps req = Inr r \<longleftrightarrow>
    set (map param_name ps) = set (param_names t) \<and> distinct (map param_name ps) \<and>
    r = \<lparr>route_id = i, route_method = m, route_path = t, params = ps, route_permission = req\<rparr>"
  by (auto simp: RouteDeclaration_new_def Let_def result_simps check_template_names_Inr check_declared_params_Inr)

text \<open>No two routes of one method, and no page and \<open>GET\<close> route, share a path.\<close>

definition unambiguous :: "PageDeclaration list \<Rightarrow> RouteDeclaration list \<Rightarrow> bool" where
  "unambiguous ps rs \<longleftrightarrow>
     (\<forall>j < length rs. \<forall>i < j. route_method (rs ! i) = route_method (rs ! j) \<longrightarrow>
        \<not> detect (route_path (rs ! i)) (route_path (rs ! j))) \<and>
     (\<forall>p \<in> set ps. \<forall>r \<in> set rs. route_method r = Get \<longrightarrow> \<not> detect (template_of_page (page_path p)) (route_path r))"

lemma AppDeclaration_new_Inr:
  "AppDeclaration_new e f dn perms ps rs dp = Inr d \<longleftrightarrow>
    distinct (map permission_name perms) \<and>
    (\<forall>p \<in> set ps. set_option (page_permission p) \<subseteq> permission_name ` set perms) \<and>
    (\<forall>r \<in> set rs. set_option (route_permission r) \<subseteq> permission_name ` set perms) \<and>
    distinct (map page_id ps) \<and> distinct (map route_id rs) \<and> unambiguous ps rs \<and>
    set_option dp \<subseteq> page_id ` set ps \<and>
    d = \<lparr>entry = e, features = f, app_display_name = dn, permissions = perms, pages = ps, routes = rs,
      default_page = dp\<rparr>"
proof -
  let ?names = "permission_name ` set perms"
  have u: "undeclared names q err = None \<longleftrightarrow> set_option q \<subseteq> names" for names q err
    by (cases q) (auto simp: undeclared_def)
  have r: "route_conflict a b = None \<longleftrightarrow> (route_method a = route_method b \<longrightarrow> \<not> detect (route_path a) (route_path b))" for a b
    by (simp add: route_conflict_def)
  have p: "page_conflict a b = None \<longleftrightarrow>
      (route_method b = Get \<longrightarrow> \<not> detect (template_of_page (page_path a)) (route_path b))" for a b
    by (simp add: page_conflict_def Let_def)
  have un: "unambiguous ps rs \<longleftrightarrow> check_route_pairs rs = Inr () \<and> check_page_routes ps rs = Inr ()"
    by (auto simp: unambiguous_def check_route_pairs_Inr check_page_routes_Inr sorted_wrt_iff_nth_less r p)
  have dpq: "(case dp of Some d \<Rightarrow> if d \<notin> set (map page_id ps) then Inl (InvalidDefaultPage d) else Inr ()
        | None \<Rightarrow> Inr ()) = Inr v \<longleftrightarrow> set_option dp \<subseteq> page_id ` set ps" for v
    by (cases dp) auto
  show ?thesis
    unfolding AppDeclaration_new_def Let_def
    by (simp add: result_simps check_unique_Inr check_all_Inr u dpq un conj_ac eq_commute [of d])
qed

lemma parse_segments_names:
  "parse_segments segs seen = Inr ps \<Longrightarrow> Param n \<in> set ps \<Longrightarrow> param_name_error n = None"
proof (induction segs seen arbitrary: ps rule: parse_segments.induct)
  case (2 seg segs seen)
  show ?case
  proof (cases "strip_prefix ''{'' seg")
    case None
    with "2.prems" obtain qs where q: "parse_segments segs seen = Inr qs" "ps = Literal seg # qs"
      and s: "seg \<noteq> []" "\<not> dot_segment seg" "CHR ''{'' \<notin> set seg" "CHR ''}'' \<notin> set seg"
      by (auto simp: result_simps split: if_splits)
    with "2.IH" None "2.prems"(2) show ?thesis by simp
  next
    case (Some rest)
    with "2.prems" obtain name qs where q: "strip_suffix_char (CHR ''}'') rest = Some name"
      "param_name_error name = None" "name \<notin> seen" "parse_segments segs (insert name seen) = Inr qs" "ps = Param name # qs"
      and s: "seg \<noteq> []" "\<not> dot_segment seg"
      by (auto simp: result_simps split: if_splits option.splits)
    with "2.IH" Some "2.prems"(2) show ?thesis by auto
  qed
qed simp

lemma PathTemplate_param_names:
  "PathTemplate_new v = Inr t \<Longrightarrow> n \<in> set (param_names t) \<Longrightarrow> param_name_error n = None"
proof -
  assume t: "PathTemplate_new v = Inr t" and n: "n \<in> set (param_names t)"
  from t have "parse_segments (tl (split_on slash v)) {} = Inr (segments t)"
    by (auto simp: PathTemplate_new_def parse_template_def result_simps split: if_splits)
  moreover have "Param n \<in> set (segments t)"
  proof -
    from n obtain x where x: "x \<in> set (segments t)" "as_param x = Some n"
      by (auto simp: param_names_def List.map_filter_def)
    have "x = Param n" using x(2) by (cases x) simp_all
    with x(1) show ?thesis by simp
  qed
  ultimately show ?thesis by (rule parse_segments_names)
qed

section \<open>Properties\<close>

text \<open>C16: The conflict test is exact: two route templates conflict if and only if some concrete normalised
  path (non-empty segments, no dot segments, no separators, control characters or braces) matches
  both; and templates that do not conflict share no path at all, normalised or not.\<close>

theorem conflict_iff_common_path:
  assumes "PathTemplate_new v = Inr t" "PathTemplate_new w = Inr u"
  shows "(detect t u \<longleftrightarrow>
      (\<exists>segs. (\<forall>s \<in> set segs. mount_segment True s) \<and> template_matches t segs \<and> template_matches u segs)) \<and>
    (detect t u \<longleftrightarrow> (\<exists>segs. template_matches t segs \<and> template_matches u segs))"
  using detect_iff [OF PathTemplate_new_Inr(2) [OF assms(1)] PathTemplate_new_Inr(2) [OF assms(2)]]
    not_detect [of t u] by blast

lemma conflict_iff_common_path_witness:
  "\<exists>t u. PathTemplate_new ''/a/{x}'' = Inr t \<and> PathTemplate_new ''/{y}/b'' = Inr u \<and>
     (\<exists>segs. template_matches t segs \<and> template_matches u segs)"
proof -
  let ?t = "\<lparr>template_text = ''/a/{x}'', segments = [Literal ''a'', Param ''x'']\<rparr>"
  let ?u = "\<lparr>template_text = ''/{y}/b'', segments = [Param ''y'', Literal ''b'']\<rparr>"
  have t: "PathTemplate_new ''/a/{x}'' = Inr ?t" and u: "PathTemplate_new ''/{y}/b'' = Inr ?u"
    by (simp_all add: PathTemplate_new_def parse_template_def MAX_PATH_LEN_def starts_with_def strip_prefix_def
        strip_suffix_char_def param_name_error_def MAX_IDENTIFIER_LEN_def param_name_char_def is_lower_def
        dot_segment_def less_eq_char_def)
  have "detect ?t ?u" by (simp add: detect_def)
  with conflict_iff_common_path [OF t u] t u show ?thesis by blast
qed

text \<open>An app declaration is accepted, from the component or from the wire, exactly when the permission
  names, page ids and route ids are unique, every required permission and the default page are
  declared, no two routes of one method conflict, and no page conflicts with a \<open>GET\<close> route.\<close>

theorem app_declaration_accepted_iff:
  "is_ok (AppDeclaration_deserialize w) \<longleftrightarrow>
    distinct (map permission_name (permissions w)) \<and>
    (\<forall>p \<in> set (pages w). set_option (page_permission p) \<subseteq> permission_name ` set (permissions w)) \<and>
    (\<forall>r \<in> set (routes w). set_option (route_permission r) \<subseteq> permission_name ` set (permissions w)) \<and>
    distinct (map page_id (pages w)) \<and> distinct (map route_id (routes w)) \<and>
    unambiguous (pages w) (routes w) \<and> set_option (default_page w) \<subseteq> page_id ` set (pages w)"
  by (auto simp: AppDeclaration_deserialize_def is_ok_iff AppDeclaration_new_Inr)

definition demo_app :: AppDeclaration where
  "demo_app = \<lparr>entry = AssetPath ''/index.html'', features = \<lparr>static_assets = True, backend_actions = False,
     navigation = True, typed_routes = False, permissions_feature = False\<rparr>, app_display_name = None,
     permissions = [], pages = [\<lparr>page_id = PageId ''home'', page_path = PagePath ''/home'',
       page_display_name = None, page_permission = None\<rparr>], routes = [], default_page = Some (PageId ''home'')\<rparr>"

lemma app_declaration_accepted_iff_witness: "is_ok (AppDeclaration_deserialize demo_app)"
  by (subst app_declaration_accepted_iff) (simp add: demo_app_def unambiguous_def)

end
