(* ===== verification/Dispatch.thy ===== *)
theory Dispatch
  imports Web
begin

text \<open>
  The dispatch of web requests (\<open>crates/web-component/src/dispatch.rs\<close>): the matching of a method and a
  path against the declared routes, the parsing of typed parameters, and the quota gate in front of
  the guest (\<open>crates/web-component/src/quota.rs\<close>).

  The loop of \<open>match_route\<close> returns the first route that matches; \<open>dispatch_unambiguous\<close> shows that in an
  accepted declaration it is the only one. \<open>f64::from_str\<close> is the parameter \<open>parse_f64\<close>, giving the bit
  pattern; the parsers of integers are modelled.
\<close>

section \<open>Matching\<close>

definition normalize_mount_path :: "string \<Rightarrow> string" where
  "normalize_mount_path raw = (if starts_with [slash] raw then raw else slash # raw)"

text \<open>The inner loop over the zipped segments: the extracted parameters, or \<open>None\<close> on the \<open>break\<close>.\<close>

fun match_segments :: "(PathSegment \<times> string) list \<Rightarrow> (string \<times> string) list \<Rightarrow> (string \<times> string) list option" where
  "match_segments [] extracted = Some extracted"
| "match_segments ((Literal l, v) # zs) extracted =
     (if l \<noteq> v then None else match_segments zs extracted)"
| "match_segments ((Param n, v) # zs) extracted = match_segments zs (extracted @ [(n, v)])"

fun match_in :: "RouteDeclaration list \<Rightarrow> HttpMethod \<Rightarrow> string list \<Rightarrow> (RouteDeclaration \<times> (string \<times> string) list) option" where
  "match_in [] m segs = None"
| "match_in (r # rs) m segs =
     (if route_method r \<noteq> m then match_in rs m segs
      else if length (segments (route_path r)) \<noteq> length segs then match_in rs m segs
      else case match_segments (zip (segments (route_path r)) segs) [] of
        Some extracted \<Rightarrow> Some (r, extracted)
      | None \<Rightarrow> match_in rs m segs)"

definition match_route :: "RouteDeclaration list \<Rightarrow> HttpMethod \<Rightarrow> string \<Rightarrow> (RouteDeclaration \<times> (string \<times> string) list) option" where
  "match_route rs m path = match_in rs m (tl (split_on slash path))"

section \<open>Typed parameters\<close>

text \<open>
  \<open>str::parse\<close> of integers: an optional sign (\<open>-\<close> only for \<open>i64\<close>), then at least one digit, and the value in
  range.
\<close>

fun digits_value :: "string \<Rightarrow> nat \<Rightarrow> nat option" where
  "digits_value [] acc = Some acc"
| "digits_value (c # s) acc =
     (if is_digit c then digits_value s (10 * acc + (of_char c - 48)) else None)"

definition parse_digits :: "string \<Rightarrow> nat option" where
  "parse_digits s = (if s = [] then None else digits_value s 0)"

definition parse_u64 :: "string \<Rightarrow> u64 option" where
  "parse_u64 s =
     Option.bind (parse_digits (case s of c # r \<Rightarrow> if c = CHR ''+'' then r else s | [] \<Rightarrow> s))
       (\<lambda>n. if n < 2 ^ 64 then Some (of_nat n) else None)"

definition parse_i64 :: "string \<Rightarrow> 64 word option" where
  "parse_i64 s =
     (case s of
        [] \<Rightarrow> None
      | c # r \<Rightarrow>
          if c = CHR ''-''
          then Option.bind (parse_digits r) (\<lambda>n. if n \<le> 2 ^ 63 then Some (- of_nat n) else None)
          else Option.bind (parse_digits (if c = CHR ''+'' then r else s))
                 (\<lambda>n. if n < 2 ^ 63 then Some (of_nat n) else None))"

definition parse_param :: "(string \<Rightarrow> 64 word option) \<Rightarrow> string \<Rightarrow> ParamType \<Rightarrow> ParamValue option" where
  "parse_param parse_f64 raw ty =
     (case ty of
        TextType \<Rightarrow> Some (TextValue raw)
      | IntegerType \<Rightarrow> map_option IntegerValue (parse_i64 raw)
      | UnsignedType \<Rightarrow> map_option UnsignedValue (parse_u64 raw)
      | BooleanType \<Rightarrow>
          if raw = ''true'' then Some (BooleanValue True)
          else if raw = ''false'' then Some (BooleanValue False)
          else None
      | DecimalType \<Rightarrow> map_option DecimalValue (parse_f64 raw))"

text \<open>The loop over the declared parameters, in their order.\<close>

fun build_params :: "(string \<Rightarrow> 64 word option) \<Rightarrow> RouteParam list \<Rightarrow> (string \<times> string) list \<Rightarrow> TypedParam list option" where
  "build_params parse_f64 [] extracted = Some []"
| "build_params parse_f64 (p # ps) extracted =
     Option.bind (find (\<lambda>e. fst e = param_name p) extracted) (\<lambda>raw.
     Option.bind (parse_param parse_f64 (snd raw) (value_type p)) (\<lambda>v.
     case TypedParam_new (param_name p) v of
       Inl _ \<Rightarrow> None
     | Inr t \<Rightarrow> map_option (\<lambda>ts. t # ts) (build_params parse_f64 ps extracted)))"

definition build_typed_params ::
  "(string \<Rightarrow> 64 word option) \<Rightarrow> RouteDeclaration \<Rightarrow> (string \<times> string) list \<Rightarrow> TypedParam list option" where
  "build_typed_params parse_f64 r extracted = build_params parse_f64 (params r) extracted"

section \<open>The quota gate\<close>

text \<open>
  The state of an installation, with the window's start in nanoseconds of the monotonic clock;
  \<open>duration_since\<close> saturates at zero. \<open>enter\<close> reads the clock once, and a second time for the entry of a
  new installation.
\<close>

datatype QuotaDenied = Busy | RateLimited

record GateState =
  in_flight :: nat
  window_start :: nat
  window_count :: u32

record QuotaGate =
  max_in_flight :: nat
  rate_per_minute :: u32
  gate_state :: "InstallationId \<rightharpoonup> GateState"

definition RATE_WINDOW_SECS :: nat where "RATE_WINDOW_SECS = 60"

definition QuotaGate_new :: "nat \<Rightarrow> u32 \<Rightarrow> QuotaGate" where
  "QuotaGate_new m r = \<lparr>max_in_flight = m, rate_per_minute = r, gate_state = Map.empty\<rparr>"

definition gate_default :: "nat \<Rightarrow> GateState" where
  "gate_default fresh = \<lparr>in_flight = 0, window_start = fresh, window_count = 0\<rparr>"

definition refresh :: "nat \<Rightarrow> GateState \<Rightarrow> GateState" where
  "refresh now e =
     (if now - window_start e \<ge> RATE_WINDOW_SECS * 1000000000
      then e\<lparr>window_start := now, window_count := 0\<rparr> else e)"

definition enter :: "InstallationId \<Rightarrow> nat \<Rightarrow> nat \<Rightarrow> QuotaGate \<Rightarrow> (QuotaDenied + unit) \<times> QuotaGate" where
  "enter i now fresh g =
     (let e = refresh now (case gate_state g i of Some e \<Rightarrow> e | None \<Rightarrow> gate_default fresh);
          g = g\<lparr>gate_state := (gate_state g)(i \<mapsto> e)\<rparr>
      in if window_count e \<ge> rate_per_minute g then (Inl RateLimited, g)
         else if in_flight e \<ge> max_in_flight g then (Inl Busy, g)
         else (Inr (), g\<lparr>gate_state := (gate_state g)
                (i \<mapsto> e\<lparr>window_count := saturating_add (window_count e) 1,
                        in_flight := in_flight e + 1\<rparr>)\<rparr>))"

definition release :: "InstallationId \<Rightarrow> QuotaGate \<Rightarrow> QuotaGate" where
  "release i g =
     (case gate_state g i of
        None \<Rightarrow> g
      | Some e \<Rightarrow> g\<lparr>gate_state := (gate_state g)(i \<mapsto> e\<lparr>in_flight := in_flight e - 1\<rparr>)\<rparr>)"

section \<open>What matching computes\<close>

text \<open>The parameters of a matching path, in the order of the template.\<close>

definition binds :: "PathSegment list \<Rightarrow> string list \<Rightarrow> (string \<times> string) list" where
  "binds ss vs = List.map_filter (\<lambda>(s, v). map_option (\<lambda>n. (n, v)) (as_param s)) (zip ss vs)"

lemma binds_simps [simp]:
  "binds [] vs = []" "binds ss [] = []"
  "binds (Literal l # ss) (v # vs) = binds ss vs"
  "binds (Param n # ss) (v # vs) = (n, v) # binds ss vs"
  by (simp_all add: binds_def List.map_filter_def)

lemma match_segments_eq:
  "length ss = length vs \<Longrightarrow>
    match_segments (zip ss vs) acc = (if list_all2 segment_matches ss vs then Some (acc @ binds ss vs) else None)"
proof (induction ss vs arbitrary: acc rule: list_induct2)
  case (Cons s ss v vs)
  then show ?case by (cases s) auto
qed simp

lemma match_in_eq:
  "match_in rs m segs =
    map_option (\<lambda>r. (r, binds (segments (route_path r)) segs))
      (find (\<lambda>r. route_method r = m \<and> template_matches (route_path r) segs) rs)"
proof (induction rs)
  case (Cons r rs)
  show ?case
  proof (cases "length (segments (route_path r)) = length segs")
    case True
    with Cons show ?thesis by (simp add: match_segments_eq template_matches_def)
  next
    case False
    then have "\<not> template_matches (route_path r) segs" by (auto simp: template_matches_def dest: list_all2_lengthD)
    with False Cons show ?thesis by simp
  qed
qed simp

lemma find_unique:
  assumes "\<And>i j. i < j \<Longrightarrow> j < length xs \<Longrightarrow> P (xs ! i) \<Longrightarrow> \<not> P (xs ! j)"
  shows "find P xs = Some x \<longleftrightarrow> x \<in> set xs \<and> P x"
proof
  assume "x \<in> set xs \<and> P x"
  then obtain j where j: "j < length xs" "x = xs ! j" "P (xs ! j)" by (auto simp: in_set_conv_nth)
  have "\<forall>i < j. \<not> P (xs ! i)" using assms j by blast
  with j show "find P xs = Some x" by (auto simp: find_Some_iff)
qed (auto simp: find_Some_iff)

lemma map_fst_binds: "length ss = length vs \<Longrightarrow> map fst (binds ss vs) = List.map_filter as_param ss"
proof (induction ss vs rule: list_induct2)
  case (Cons s ss v vs)
  then show ?case by (cases s) (simp_all add: List.map_filter_def)
qed (simp add: List.map_filter_def)

section \<open>What parameters are built\<close>

lemma parse_param_type: "parse_param f raw ty = Some v \<Longrightarrow> param_type v = ty"
  by (cases ty) (auto simp: parse_param_def split: if_splits)

lemma build_params_spec:
  assumes "\<forall>p \<in> set ps. \<exists>v. map_of ex (param_name p) = Some v" "\<forall>p \<in> set ps. param_name_error (param_name p) = None"
  shows "build_params f ps ex =
    (if \<forall>p \<in> set ps. parse_param f (the (map_of ex (param_name p))) (value_type p) \<noteq> None
     then Some (map (\<lambda>p. \<lparr>typed_name = param_name p,
       typed_value = the (parse_param f (the (map_of ex (param_name p))) (value_type p))\<rparr>) ps)
     else None)"
  using assms
proof (induction ps)
  case (Cons p ps)
  then obtain v where v: "map_of ex (param_name p) = Some v" by auto
  have "find (\<lambda>e. fst e = param_name p) ex = Some (param_name p, v)"
    using v by (induction ex) auto
  with Cons v show ?case by (auto simp: TypedParam_new_def)
qed simp

section \<open>Properties\<close>

text \<open>C17: In an accepted app declaration dispatch is unambiguous: a request is dispatched to a route if and
  only if the route has its method and its template matches the path, whatever the order of the
  declarations, with the parameters of the template in their order; and a declared page is never
  shadowed by a \<open>GET\<close> route.\<close>

theorem dispatch_unambiguous:
  assumes "AppDeclaration_deserialize w = Inr d"
  shows "(match_route (routes d) m path = Some (r, ex) \<longleftrightarrow>
      r \<in> set (routes d) \<and> route_method r = m \<and>
      template_matches (route_path r) (tl (split_on slash path)) \<and>
      ex = binds (segments (route_path r)) (tl (split_on slash path))) \<and>
    (\<forall>p \<in> set (pages d). match_route (routes d) Get (page_path_text (page_path p)) = None)"
proof -
  let ?segs = "tl (split_on slash path)"
  from assms have un: "unambiguous (pages d) (routes d)"
    by (auto simp: AppDeclaration_deserialize_def AppDeclaration_new_Inr)
  have "find (\<lambda>r. route_method r = m \<and> template_matches (route_path r) ?segs) (routes d) = Some r \<longleftrightarrow>
      r \<in> set (routes d) \<and> route_method r = m \<and> template_matches (route_path r) ?segs" for r
    by (rule find_unique) (use un not_detect in \<open>fastforce simp: unambiguous_def\<close>)
  then have "match_route (routes d) m path = Some (r, ex) \<longleftrightarrow>
      r \<in> set (routes d) \<and> route_method r = m \<and> template_matches (route_path r) ?segs \<and>
      ex = binds (segments (route_path r)) ?segs"
    by (auto simp: match_route_def match_in_eq)
  moreover have "match_route (routes d) Get (page_path_text (page_path p)) = None" if p: "p \<in> set (pages d)" for p
  proof -
    let ?t = "template_of_page (page_path p)" and ?l = "literal_segments (page_path p)"
    have "list_all2 segment_matches (map Literal ls) ls" for ls by (induction ls) auto
    then have "template_matches ?t ?l"
      by (simp add: template_matches_def template_of_page_def from_literal_segments_def)
    then have "\<not> template_matches (route_path r) ?l" if "r \<in> set (routes d)" "route_method r = Get" for r
      using un p that not_detect [of ?t "route_path r" ?l] by (auto simp: unambiguous_def)
    then show ?thesis by (auto simp: match_route_def match_in_eq find_None_iff literal_segments_def)
  qed
  ultimately show ?thesis by blast
qed

lemma dispatch_unambiguous_witness:
  "\<exists>d. AppDeclaration_deserialize demo_app = Inr d \<and> match_route (routes d) Get ''/home'' = None"
proof -
  have d: "AppDeclaration_deserialize demo_app = Inr demo_app"
    by (simp add: AppDeclaration_deserialize_def AppDeclaration_new_Inr) (simp add: demo_app_def unambiguous_def)
  have "\<lparr>page_id = PageId ''home'', page_path = PagePath ''/home'', page_display_name = None, page_permission = None\<rparr>
      \<in> set (pages demo_app)" by (simp add: demo_app_def)
  with dispatch_unambiguous [OF d] d show ?thesis by fastforce
qed

text \<open>C18: The typed parameters of a dispatched request follow the declaration: the request is refused if and
  only if the text of some declared parameter is not of its declared type, and otherwise the guest
  receives exactly the declared parameters, in the declared order, with values of the declared types
  parsed from the segments of the path.\<close>

theorem typed_params_follow_declaration:
  assumes "PathTemplate_new v = Inr t" "RouteDeclaration_new i m t ps req = Inr r" "template_matches t segs"
    and "ex = binds (segments t) segs"
  shows "(build_typed_params f r ex = None \<longleftrightarrow>
      (\<exists>p \<in> set ps. \<exists>raw. (param_name p, raw) \<in> set ex \<and> parse_param f raw (value_type p) = None)) \<and>
    (\<forall>ts. build_typed_params f r ex = Some ts \<longrightarrow>
      map typed_name ts = map param_name ps \<and> map (\<lambda>t. param_type (typed_value t)) ts = map value_type ps \<and>
      (\<forall>k < length ps. \<exists>raw. (param_name (ps ! k), raw) \<in> set ex \<and>
        parse_param f raw (value_type (ps ! k)) = Some (typed_value (ts ! k))))"
proof -
  from assms(2) have r: "params r = ps" and names: "set (map param_name ps) = set (param_names t)"
    by (auto simp: RouteDeclaration_new_Inr)
  have "length (segments t) = length segs" using assms(3) by (auto simp: template_matches_def dest: list_all2_lengthD)
  then have fst: "map fst ex = param_names t" by (simp add: assms(4) map_fst_binds param_names_def)
  then have d: "distinct (map fst ex)" using PathTemplate_new_Inr(3) [OF assms(1)] by simp
  then have look: "map_of ex n = Some raw \<longleftrightarrow> (n, raw) \<in> set ex" for n raw by simp
  have have_all: "\<forall>p \<in> set ps. \<exists>v. map_of ex (param_name p) = Some v"
  proof
    fix p assume "p \<in> set ps"
    then have "param_name p \<in> set (map fst ex)" using names fst by auto
    then show "\<exists>v. map_of ex (param_name p) = Some v" by (simp add: map_of_eq_Some_iff [OF d]) auto
  qed
  have "\<forall>p \<in> set ps. param_name_error (param_name p) = None"
    using names PathTemplate_param_names [OF assms(1)] by auto
  note spec = build_params_spec [OF have_all this, of f]
  have eq: "the (map_of ex (param_name p)) = raw" if "p \<in> set ps" "(param_name p, raw) \<in> set ex" for p raw
    by (simp only: iffD2 [OF look that(2)] option.sel)
  have mem: "(param_name p, the (map_of ex (param_name p))) \<in> set ex" if p: "p \<in> set ps" for p
  proof -
    from bspec [OF have_all p] obtain v where v: "map_of ex (param_name p) = Some v" ..
    show ?thesis unfolding v option.sel by (rule iffD1 [OF look v])
  qed
  have "build_typed_params f r ex = None \<longleftrightarrow>
      (\<exists>p \<in> set ps. \<exists>raw. (param_name p, raw) \<in> set ex \<and> parse_param f raw (value_type p) = None)"
  proof (cases "\<forall>p \<in> set ps. parse_param f (the (map_of ex (param_name p))) (value_type p) \<noteq> None")
    case True
    have "build_typed_params f r ex \<noteq> None" unfolding build_typed_params_def r spec if_P [OF True] by simp
    moreover have "parse_param f raw (value_type p) \<noteq> None"
      if p: "p \<in> set ps" "(param_name p, raw) \<in> set ex" for p raw
      using bspec [OF True p(1)] unfolding eq [OF p] .
    ultimately show ?thesis by blast
  next
    case False
    have "build_typed_params f r ex = None" unfolding build_typed_params_def r spec if_not_P [OF False] by simp
    moreover obtain p where "p \<in> set ps" "parse_param f (the (map_of ex (param_name p))) (value_type p) = None"
      using False by blast
    ultimately show ?thesis using mem by blast
  qed
  moreover have "map typed_name ts = map param_name ps \<and> map (\<lambda>t. param_type (typed_value t)) ts = map value_type ps \<and>
      (\<forall>k < length ps. \<exists>raw. (param_name (ps ! k), raw) \<in> set ex \<and>
        parse_param f raw (value_type (ps ! k)) = Some (typed_value (ts ! k)))"
    if "build_typed_params f r ex = Some ts" for ts
  proof -
    from that have ok: "\<forall>p \<in> set ps. parse_param f (the (map_of ex (param_name p))) (value_type p) \<noteq> None"
      and ts: "ts = map (\<lambda>p. \<lparr>typed_name = param_name p,
        typed_value = the (parse_param f (the (map_of ex (param_name p))) (value_type p))\<rparr>) ps"
      unfolding build_typed_params_def r spec by (auto split: if_splits)
    have vals: "parse_param f (the (map_of ex (param_name p))) (value_type p) =
        Some (the (parse_param f (the (map_of ex (param_name p))) (value_type p)))" if "p \<in> set ps" for p
      using bspec [OF ok that] by simp
    have "map typed_name ts = map param_name ps" by (simp add: ts comp_def)
    moreover have "map (\<lambda>t. param_type (typed_value t)) ts = map value_type ps"
      using parse_param_type [OF vals] by (simp add: ts comp_def)
    moreover have "(param_name (ps ! k), the (map_of ex (param_name (ps ! k)))) \<in> set ex \<and>
        parse_param f (the (map_of ex (param_name (ps ! k)))) (value_type (ps ! k)) = Some (typed_value (ts ! k))"
      if "k < length ps" for k
      using mem [OF nth_mem [OF that]] vals [OF nth_mem [OF that]] that by (simp add: ts)
    ultimately show ?thesis by blast
  qed
  ultimately show ?thesis by blast
qed

lemma typed_params_follow_declaration_witness:
  "build_typed_params (\<lambda>_. None) \<lparr>route_id = RouteId ''r'', route_method = Get,
     route_path = \<lparr>template_text = ''/{x}'', segments = [Param ''x'']\<rparr>,
     params = [\<lparr>param_name = ''x'', value_type = UnsignedType\<rparr>], route_permission = None\<rparr> [(''x'', ''-1'')] = None"
proof -
  let ?t = "\<lparr>template_text = ''/{x}'', segments = [Param ''x'']\<rparr>"
  let ?p = "\<lparr>param_name = ''x'', value_type = UnsignedType\<rparr>"
  have t: "PathTemplate_new ''/{x}'' = Inr ?t"
    by (simp add: PathTemplate_new_def parse_template_def MAX_PATH_LEN_def starts_with_def strip_prefix_def
        strip_suffix_char_def param_name_error_def MAX_IDENTIFIER_LEN_def param_name_char_def is_lower_def
        dot_segment_def less_eq_char_def)
  have r: "RouteDeclaration_new (RouteId ''r'') Get ?t [?p] None = Inr \<lparr>route_id = RouteId ''r'', route_method = Get,
     route_path = ?t, params = [?p], route_permission = None\<rparr>"
    by (simp add: RouteDeclaration_new_Inr param_names_def List.map_filter_def)
  have m: "template_matches ?t [''-1'']" by (simp add: template_matches_def)
  have "parse_param (\<lambda>_. None) ''-1'' UnsignedType = None"
    by (simp add: parse_param_def parse_u64_def parse_digits_def is_digit_def less_eq_char_def)
  with typed_params_follow_declaration [OF t r m refl, of "\<lambda>_. None"] show ?thesis by simp
qed

end
