(* ===== verification/Sqlite.thy ===== *)
theory Sqlite
  imports Lifecycle Interfaces
begin

text \<open>
  The storage layer's connection: the errors of \<open>crates/storage-sqlite/src/error.rs\<close>, and what the
  repository (\<open>crates/storage-sqlite/src/repository.rs\<close>) does with SQLite.

  SQLite is not part of the repository. The model keeps what the code relies on: a statement works on
  the tables of the connection, a transaction can be rolled back to its beginning, what is durable at
  any moment is the contents outside the open transaction, and any statement can fail. How the \<open>n\<close>-th
  statement of a connection ends is the parameter \<open>answer\<close>: it works, or it fails and leaves the
  transaction as it was, or it fails and SQLite rolls the whole transaction back and returns to
  autocommit, which its documentation allows for a full disk, an I/O error or a lack of memory; a
  \<open>ROLLBACK\<close> has an answer of its own. A statement is a function on the tables whose result is the rows it reads or the number of rows it
  changes, so the SQL text of the code is the function. The clock is a parameter too.

  The tables are those the modelled commands use. A row is what the columns hold, so the parsers at
  the border of the database are part of the model.
\<close>

section \<open>Errors\<close>

text \<open>The texts of the errors, one constructor per message with the values it shows.\<close>

datatype storage_text =
    MustBeNonEmpty string
  | TooLongKey string nat
  | BadKeyChar string
  | TextControlCharacters string
  | StateValueTooLarge nat
  | NoInstallation InstallationId
  | NoStateKey string InstallationId
  | NotThisTransaction InstallationId
  | NoSuchTransaction
  | AlreadyInProgress
  | CommitNotInProgress
  | WindowClosed
  | VersionInsideTransaction
  | VersionRequired
  | EmptyStoreMigration
  | ClockBeforeEpoch
  | TimestampRange int
  | NegativeTimestamp int
  | SchemaVersionRange int
  | InvalidStateKeyInDatabase
  | InvalidComponentId string
  | InvalidLifecycleState string
  | SqliteContext string
  | UnexpectedResponse string
  | ConfigValueTooLarge nat
  | InvalidConfigFormat string
  | ConfigRevisionRange int
  | SecretCiphertextRange nat
  | SecretMetadataInvalid
  | InvalidSecretNameInDatabase
  | SecretVersionRange int
  | NoSecret string InstallationId
  | StateValueBound

datatype BudgetSpace = Staging | Quarantine | Final

datatype StorageError =
    InvalidArgument storage_text
  | NotFound storage_text
  | AlreadyExists storage_text
  | DigestConflict ComponentId ComponentVersion ContentDigest ContentDigest
  | LifecycleConflict storage_text
  | SchemaVersionMismatch InstallationId u32 u32
  | StateTransactionConflict storage_text
  | QueueFull
  | Shutdown
  | Cancelled
  | SchemaTooNew u32 u32
  | SchemaTooOld u32 u32
  | MigrationFailed u32 string storage_text
  | CorruptState storage_text
  | ArtifactTooLarge ByteSize ByteSize
  | BudgetExceeded BudgetSpace storage_text
  | Io storage_text
  | SqliteError storage_text
  | WorkerJoin
  | DomainFailure DomainError

section \<open>Tables\<close>

text \<open>
  The columns of \<open>installations\<close>, \<open>component_state\<close>, \<open>audit_events\<close>, \<open>component_config\<close> and
  \<open>component_secret\<close>. The primary keys are the keys of the maps; the installation identifier is kept as
  the value its text stands for (the uuid crate prints and parses it). The secrets of an installation
  are read in the order of their names, so they are a list in that order.
\<close>

record installation_row =
  component_col :: string
  enabled_col :: int
  lifecycle_col :: string
  created_col :: int
  updated_col :: int

record state_row =
  version_col :: int
  value_col :: "u8 list"
  stamp_col :: int

record config_row =
  format_col :: string
  config_version_col :: int
  revision_col :: int
  config_value_col :: "u8 list"
  config_stamp_col :: int

record secret_row =
  secret_version_col :: int
  ciphertext_col :: "u8 list"
  metadata_col :: string
  secret_stamp_col :: int

record 'audit tables =
  installations_table :: "InstallationId \<rightharpoonup> installation_row"
  state_table :: "InstallationId \<times> string \<rightharpoonup> state_row"
  audit_table :: "('audit \<times> int) list"
  config_table :: "InstallationId \<rightharpoonup> config_row"
  secret_table :: "InstallationId \<Rightarrow> (string \<times> secret_row) list"

section \<open>The connection\<close>

datatype sql_answer = Works | Fails | Fails_and_rolls_back

record sql_env =
  answer :: "nat \<Rightarrow> sql_answer"
  rollback_fails :: "nat \<Rightarrow> bool"
  clock :: "nat \<Rightarrow> int"

text \<open>\<open>at_begin\<close> is the contents at the beginning of the open transaction.\<close>

record 'audit conn =
  contents :: "'audit tables"
  at_begin :: "'audit tables option"
  executed :: nat

definition durable :: "'audit conn \<Rightarrow> 'audit tables" where
  "durable c = (case at_begin c of Some t \<Rightarrow> t | None \<Rightarrow> contents c)"

definition sql_failed :: "sql_answer \<Rightarrow> 'audit conn \<Rightarrow> 'audit conn" where
  "sql_failed a c =
     (if a = Fails_and_rolls_back then c\<lparr>contents := durable c, at_begin := None\<rparr> else c)"

definition execute ::
  "sql_env \<Rightarrow> string \<Rightarrow> ('audit tables \<Rightarrow> 'a \<times> 'audit tables) \<Rightarrow> 'audit conn \<Rightarrow>
    (StorageError + 'a) \<times> 'audit conn" where
  "execute env context stmt c =
     (let a = answer env (executed c); c = c\<lparr>executed := executed c + 1\<rparr> in
      if a = Works
      then (case stmt (contents c) of (x, t) \<Rightarrow> (Inr x, c\<lparr>contents := t\<rparr>))
      else (Inl (SqliteError (SqliteContext context)), sql_failed a c))"

definition query ::
  "sql_env \<Rightarrow> string \<Rightarrow> ('audit tables \<Rightarrow> 'a) \<Rightarrow> 'audit conn \<Rightarrow> (StorageError + 'a) \<times> 'audit conn" where
  "query env context f c = execute env context (\<lambda>t. (f t, t)) c"

definition begin_sql :: "sql_env \<Rightarrow> string \<Rightarrow> 'audit conn \<Rightarrow> (StorageError + unit) \<times> 'audit conn" where
  "begin_sql env context c =
     (let a = answer env (executed c); c = c\<lparr>executed := executed c + 1\<rparr> in
      if a = Works \<and> at_begin c = None then (Inr (), c\<lparr>at_begin := Some (contents c)\<rparr>)
      else (Inl (SqliteError (SqliteContext context)), sql_failed a c))"

definition commit_sql :: "sql_env \<Rightarrow> string \<Rightarrow> 'audit conn \<Rightarrow> (StorageError + unit) \<times> 'audit conn" where
  "commit_sql env context c =
     (let a = answer env (executed c); c = c\<lparr>executed := executed c + 1\<rparr> in
      if a = Works \<and> at_begin c \<noteq> None then (Inr (), c\<lparr>at_begin := None\<rparr>)
      else (Inl (SqliteError (SqliteContext context)), sql_failed a c))"

definition rollback_sql :: "sql_env \<Rightarrow> string \<Rightarrow> 'audit conn \<Rightarrow> (StorageError + unit) \<times> 'audit conn" where
  "rollback_sql env context c =
     (let failing = rollback_fails env (executed c); c = c\<lparr>executed := executed c + 1\<rparr> in
      if at_begin c \<noteq> None \<and> \<not> failing then (Inr (), c\<lparr>contents := durable c, at_begin := None\<rparr>)
      else (Inl (SqliteError (SqliteContext context)), c))"

text \<open>
  \<open>run_tx\<close>: the operation between \<open>BEGIN\<close> and \<open>COMMIT\<close>. The transaction guard rolls back when it is
  dropped without a commit, so also after a commit that failed; an error of that is ignored.
\<close>

definition drop_tx :: "sql_env \<Rightarrow> 'audit conn \<Rightarrow> 'audit conn" where
  "drop_tx env c = (if at_begin c = None then c else snd (rollback_sql env ''rollback'' c))"

definition run_tx ::
  "sql_env \<Rightarrow> string \<Rightarrow> ('audit conn \<Rightarrow> (StorageError + 'a) \<times> 'audit conn) \<Rightarrow> 'audit conn \<Rightarrow>
    (StorageError + 'a) \<times> 'audit conn" where
  "run_tx env context operation c =
     step_then (begin_sql env context c) (\<lambda>_ c.
     case operation c of
       (Inr x, c) \<Rightarrow>
         (case commit_sql env context c of
            (Inr _, c) \<Rightarrow> (Inr x, c)
          | (Inl e, c) \<Rightarrow> (Inl e, drop_tx env c))
     | (Inl e, c) \<Rightarrow> (Inl e, drop_tx env c))"

text \<open>The clock is read once per operation; the count of the statements stands for the moment.\<close>

definition sql_now :: "sql_env \<Rightarrow> 'audit conn \<Rightarrow> (StorageError + int) \<times> 'audit conn" where
  "sql_now env c =
     (let s = clock env (executed c) in
      (if s < 0 then Inl (InvalidArgument ClockBeforeEpoch)
       else if s \<ge> 2 ^ 63 then Inl (CorruptState (TimestampRange s))
       else Inr s, c))"

definition check_cancel :: "bool \<Rightarrow> 's \<Rightarrow> (StorageError + unit) \<times> 's" where
  "check_cancel cancelled s = (if cancelled then (Inl Cancelled, s) else (Inr (), s))"

definition timestamp_from_i64 :: "int \<Rightarrow> StorageError + u64" where
  "timestamp_from_i64 v = (if v < 0 then Inl (CorruptState (NegativeTimestamp v)) else Inr (of_int v))"

section \<open>What the operations do to a connection\<close>

text \<open>An orderly SQLite: no statement takes the transaction down with it, and a rollback works.\<close>

definition orderly :: "sql_env \<Rightarrow> bool" where
  "orderly env \<longleftrightarrow> (\<forall>n. answer env n \<noteq> Fails_and_rolls_back \<and> \<not> rollback_fails env n)"

text \<open>The connection differs only in the number of statements it has executed.\<close>

definition same_conn :: "'audit conn \<Rightarrow> 'audit conn \<Rightarrow> bool" where
  "same_conn c c' \<longleftrightarrow> contents c' = contents c \<and> at_begin c' = at_begin c"

named_theorems conn_simps "the connection after an operation"

lemma same_conn_refl [simp]: "same_conn c c"
  by (simp add: same_conn_def)

lemma same_conn_trans: "same_conn c1 c2 \<Longrightarrow> same_conn c2 c3 \<Longrightarrow> same_conn c1 c3"
  by (simp add: same_conn_def)

lemma execute_spec:
  assumes "orderly env" "execute env ctx stmt c = (r, c')"
  shows "at_begin c' = at_begin c"
    and "r = Inl e \<Longrightarrow> contents c' = contents c"
    and "r = Inr x \<Longrightarrow> stmt (contents c) = (x, contents c')"
  using assms by (auto simp: execute_def Let_def sql_failed_def orderly_def split: if_splits prod.splits)

lemma query_spec:
  assumes "orderly env" "query env ctx f c = (r, c')"
  shows "same_conn c c'" and "r = Inr x \<Longrightarrow> x = f (contents c)"
  using assms by (auto simp: query_def execute_def Let_def sql_failed_def orderly_def same_conn_def split: if_splits)

lemma begin_sql_spec:
  assumes "orderly env" "begin_sql env ctx c = (r, c')"
  shows "contents c' = contents c"
    and "r = Inl e \<Longrightarrow> at_begin c' = at_begin c"
    and "r = Inr u \<Longrightarrow> at_begin c = None \<and> at_begin c' = Some (contents c)"
  using assms by (auto simp: begin_sql_def Let_def sql_failed_def orderly_def split: if_splits)

lemma commit_sql_spec:
  assumes "orderly env" "commit_sql env ctx c = (r, c')"
  shows "contents c' = contents c"
    and "r = Inl e \<Longrightarrow> at_begin c' = at_begin c"
    and "r = Inr u \<Longrightarrow> at_begin c \<noteq> None \<and> at_begin c' = None"
  using assms by (auto simp: commit_sql_def Let_def sql_failed_def orderly_def split: if_splits)

lemma rollback_sql_spec:
  assumes "orderly env" "rollback_sql env ctx c = (r, c')" "at_begin c = Some t"
  shows "at_begin c' = None" and "contents c' = t" and "r = Inr ()"
  using assms by (auto simp: rollback_sql_def Let_def orderly_def durable_def split: if_splits)

lemma drop_tx_spec:
  assumes "orderly env" "at_begin c = Some t"
  shows "at_begin (drop_tx env c) = None" and "contents (drop_tx env c) = t"
  using rollback_sql_spec [OF assms(1) _ assms(2), of "''rollback''" "fst (rollback_sql env ''rollback'' c)"
      "snd (rollback_sql env ''rollback'' c)"] assms(2)
  by (simp_all add: drop_tx_def)

text \<open>An operation that leaves an open transaction open.\<close>

definition keeps_tx :: "('audit conn \<Rightarrow> 'r \<times> 'audit conn) \<Rightarrow> bool" where
  "keeps_tx f \<longleftrightarrow> (\<forall>c. at_begin (snd (f c)) = at_begin c)"

lemma keeps_tx_execute: "orderly env \<Longrightarrow> keeps_tx (execute env ctx stmt)"
  unfolding keeps_tx_def by (metis execute_spec(1) prod.collapse)

lemma keeps_tx_step_then:
  "keeps_tx f \<Longrightarrow> (\<And>x. keeps_tx (g x)) \<Longrightarrow> keeps_tx (\<lambda>c. step_then (f c) g)"
  unfolding keeps_tx_def step_then_def
  by (auto split: prod.split sum.split) (metis snd_conv)+

text \<open>\<open>run_tx\<close> is all or nothing.\<close>

lemma run_tx_spec:
  assumes "orderly env" "keeps_tx f" "at_begin c = None" "run_tx env ctx f c = (r, c')"
  shows "at_begin c' = None"
    and "r = Inl e \<Longrightarrow> contents c' = contents c"
    and "r = Inr x \<Longrightarrow> \<exists>c1 c2. contents c1 = contents c \<and> at_begin c1 = Some (contents c) \<and>
      f c1 = (Inr x, c2) \<and> contents c' = contents c2"
proof -
  have "at_begin c' = None \<and> (r = Inl e \<longrightarrow> contents c' = contents c) \<and>
      (r = Inr x \<longrightarrow> (\<exists>c1 c2. contents c1 = contents c \<and> at_begin c1 = Some (contents c) \<and>
        f c1 = (Inr x, c2) \<and> contents c' = contents c2))" for e x
  proof (cases "begin_sql env ctx c")
    case (Pair b c1)
    show ?thesis
    proof (cases b)
      case (Inl e')
      with assms(4) Pair have "r = Inl e'" "c' = c1" by (simp_all add: run_tx_def)
      with begin_sql_spec [OF assms(1) Pair] Inl assms(3) show ?thesis by simp
    next
      case (Inr u)
      note b = begin_sql_spec [OF assms(1) Pair]
      from b(3) [OF Inr] b(1) have c1: "contents c1 = contents c" "at_begin c1 = Some (contents c)" by simp_all
      obtain y c2 where f: "f c1 = (y, c2)" by fastforce
      with assms(2) c1(2) have c2: "at_begin c2 = Some (contents c)" unfolding keeps_tx_def by (metis snd_conv)
      show ?thesis
      proof (cases y)
        case (Inl e')
        with assms(4) Pair Inr f have "r = Inl e'" "c' = drop_tx env c2" by (simp_all add: run_tx_def)
        with drop_tx_spec [OF assms(1) c2] show ?thesis by simp
      next
        case y: (Inr x')
        obtain z c3 where commit: "commit_sql env ctx c2 = (z, c3)" by fastforce
        note cs = commit_sql_spec [OF assms(1) commit]
        show ?thesis
        proof (cases z)
          case (Inl e')
          with assms(4) Pair Inr f y commit have "r = Inl e'" "c' = drop_tx env c3" by (simp_all add: run_tx_def)
          moreover have "at_begin c3 = Some (contents c)" using cs(2) [OF Inl] c2 by simp
          note drop_tx_spec [OF assms(1) this]
          ultimately show ?thesis by simp
        next
          case z: (Inr v)
          with assms(4) Pair Inr f y commit have "r = Inr x'" "c' = c3" by (simp_all add: run_tx_def)
          with cs(1) cs(3) [OF z] c1 f y show ?thesis by auto
        qed
      qed
    qed
  qed
  then show "at_begin c' = None" "r = Inl e \<Longrightarrow> contents c' = contents c"
    "r = Inr x \<Longrightarrow> \<exists>c1 c2. contents c1 = contents c \<and> at_begin c1 = Some (contents c) \<and>
      f c1 = (Inr x, c2) \<and> contents c' = contents c2" by blast+
qed

lemma check_cancel_Inr [result_simps]: "check_cancel b s = (Inr u, s') \<longleftrightarrow> \<not> b \<and> s' = s"
  by (auto simp: check_cancel_def)

lemma check_cancel_Inl [result_simps]: "check_cancel b s = (Inl e, s') \<longleftrightarrow> b \<and> e = Cancelled \<and> s' = s"
  by (auto simp: check_cancel_def)

lemma sql_now_conn: "sql_now env c = (r, c') \<Longrightarrow> c' = c"
  by (auto simp: sql_now_def Let_def split: if_splits)

end
