(* ===== verification/StateStore.thy ===== *)
theory StateStore
  imports Sqlite
begin

text \<open>
  The state of the components in the storage layer: the rows and their schema version
  (\<open>crates/storage-sqlite/src/repository.rs\<close>), and the worker that serves one command at a time and keeps
  at most one state transaction open on its connection (\<open>crates/storage-sqlite/src/executor.rs\<close>).

  A command is one step of the worker. The commands modelled are all those that
  \<open>dispatch_stateful\<close> serves (state, configuration and secrets) and, of those that are refused while a
  state transaction is open, \<open>AppendAudit\<close>, through which the services write their audit, and
  \<open>RemoveInstallation\<close>, the only other command that touches the state, configuration or secrets of an
  installation. The rest of that second family (artifacts, versions, lifecycle, grants, users,
  sessions, platform configuration, graph records) works on other tables and is left out. Whether the
  caller has cancelled the request is asked at several points of a command, so the cancellation is a
  function of the point.
\<close>

section \<open>Keys and versions\<close>

definition STATE_KEY_MAX_LEN :: nat where "STATE_KEY_MAX_LEN = 255"
definition STATE_VALUE_MAX_BYTES :: nat where "STATE_VALUE_MAX_BYTES = 1024 * 1024"
definition CONFIG_VALUE_MAX_BYTES :: nat where "CONFIG_VALUE_MAX_BYTES = 1024 * 1024"
definition SECRET_NAME_MAX_LEN :: nat where "SECRET_NAME_MAX_LEN = 255"
definition SECRET_CIPHERTEXT_MAX_BYTES :: nat where "SECRET_CIPHERTEXT_MAX_BYTES = 256 * 1024"
definition SECRET_METADATA_MAX_LEN :: nat where "SECRET_METADATA_MAX_LEN = 4096"
definition STATE_SCHEMA_MARKER_KEY :: string where "STATE_SCHEMA_MARKER_KEY = ''!schema-version''"

definition validate_key :: "string \<Rightarrow> string \<Rightarrow> string \<Rightarrow> nat \<Rightarrow> StorageError + unit" where
  "validate_key v kind allowed_punct max_len =
     (if v = [] then Inl (InvalidArgument (MustBeNonEmpty kind))
      else if length v > max_len then Inl (InvalidArgument (TooLongKey kind max_len))
      else if \<not> list_all (\<lambda>b. is_lower b \<or> is_upper b \<or> is_digit b \<or> b \<in> set allowed_punct) v
      then Inl (InvalidArgument (BadKeyChar kind))
      else Inr ())"

datatype StorageKey = StorageKey (storage_key_text: string)

definition StorageKey_new :: "string \<Rightarrow> StorageError + StorageKey" where
  "StorageKey_new v =
     and_then (validate_key v ''state key'' ''._-/'' STATE_KEY_MAX_LEN) (\<lambda>_. Inr (StorageKey v))"

interpretation storage_key: validated_newtype StorageKey_new storage_key_text
  by unfold_locales (auto simp: StorageKey_new_def result_simps StorageKey.expand)

datatype StorageSecretName = StorageSecretName (stored_secret_name: string)

definition StorageSecretName_new :: "string \<Rightarrow> StorageError + StorageSecretName" where
  "StorageSecretName_new v =
     and_then (validate_key v ''secret name'' ''._-'' SECRET_NAME_MAX_LEN) (\<lambda>_. Inr (StorageSecretName v))"

interpretation stored_secret_name: validated_newtype StorageSecretName_new stored_secret_name
  by unfold_locales (auto simp: StorageSecretName_new_def result_simps StorageSecretName.expand)

datatype StoredConfigFormat = FormatJson | FormatToml | FormatRaw

fun format_display :: "StoredConfigFormat \<Rightarrow> string" where
  "format_display FormatJson = ''json''"
| "format_display FormatToml = ''toml''"
| "format_display FormatRaw = ''raw''"

definition format_from_str :: "string \<Rightarrow> StorageError + StoredConfigFormat" where
  "format_from_str s =
     (if s = ''json'' then Inr FormatJson
      else if s = ''toml'' then Inr FormatToml
      else if s = ''raw'' then Inr FormatRaw
      else Inl (CorruptState (InvalidConfigFormat s)))"

interpretation stored_format: closed_enum format_from_str format_display
proof
  show "format_from_str (format_display x) = Inr x" for x
    by (cases x) (simp_all add: format_from_str_def)
  show "format_display x = s" if "format_from_str s = Inr x" for s x
    using that by (auto simp: format_from_str_def split: if_splits)
qed

definition schema_version_from_i64 :: "int \<Rightarrow> StorageError + u32" where
  "schema_version_from_i64 v =
     (if 0 \<le> v \<and> v < 2 ^ 32 then Inr (of_int v) else Inl (CorruptState (SchemaVersionRange v)))"

section \<open>Rows\<close>

record StateValueRecord =
  record_installation :: InstallationId
  record_key :: StorageKey
  record_version :: u32
  record_value :: "u8 list"
  record_updated :: u64

record ComponentConfigRecord =
  config_installation :: InstallationId
  config_format :: StoredConfigFormat
  config_version :: u32
  config_revision :: u64
  config_value :: "u8 list"
  config_updated :: u64

record SecretRecord =
  secret_name_of :: StorageSecretName
  secret_version :: u64
  secret_ciphertext :: "u8 list"
  secret_metadata :: string
  secret_updated :: u64

record SecretMetadata =
  meta_name :: StorageSecretName
  meta_version :: u64

record InstallationRecord =
  inst_component :: ComponentId
  inst_enabled :: bool
  inst_lifecycle :: ComponentLifecycleState
  inst_created :: u64
  inst_updated :: u64

definition parse_component_id :: "string \<Rightarrow> StorageError + ComponentId" where
  "parse_component_id v = map_err (\<lambda>_. CorruptState (InvalidComponentId v)) (ComponentId_new v)"

definition parse_lifecycle_state :: "string \<Rightarrow> StorageError + ComponentLifecycleState" where
  "parse_lifecycle_state v = map_err (\<lambda>_. CorruptState (InvalidLifecycleState v)) (state_from_str v)"

definition read_installation ::
  "sql_env \<Rightarrow> InstallationId \<Rightarrow> 'audit conn \<Rightarrow> (StorageError + InstallationRecord option) \<times> 'audit conn" where
  "read_installation env i c =
     step_then (query env ''read installation'' (\<lambda>t. installations_table t i) c) (\<lambda>row c.
     case row of
       None \<Rightarrow> (Inr None, c)
     | Some r \<Rightarrow>
         (and_then (parse_component_id (component_col r)) (\<lambda>component.
          and_then (parse_lifecycle_state (lifecycle_col r)) (\<lambda>lifecycle.
          and_then (timestamp_from_i64 (created_col r)) (\<lambda>created.
          and_then (timestamp_from_i64 (updated_col r)) (\<lambda>updated.
          Inr (Some \<lparr>inst_component = component, inst_enabled = enabled_col r \<noteq> 0,
            inst_lifecycle = lifecycle, inst_created = created, inst_updated = updated\<rparr>))))), c))"

definition read_state_row ::
  "sql_env \<Rightarrow> InstallationId \<Rightarrow> StorageKey \<Rightarrow> 'audit conn \<Rightarrow>
    (StorageError + StateValueRecord option) \<times> 'audit conn" where
  "read_state_row env i k c =
     step_then (query env ''read state row'' (\<lambda>t. state_table t (i, storage_key_text k)) c) (\<lambda>row c.
     case row of
       None \<Rightarrow> (Inr None, c)
     | Some r \<Rightarrow>
         (case StorageKey_new (storage_key_text k) of
            Inl _ \<Rightarrow> (Inl (CorruptState InvalidStateKeyInDatabase), c)
          | Inr key \<Rightarrow>
              (and_then (schema_version_from_i64 (version_col r)) (\<lambda>version.
               and_then (timestamp_from_i64 (stamp_col r)) (\<lambda>updated.
               Inr (Some \<lparr>record_installation = i, record_key = key, record_version = version,
                 record_value = value_col r, record_updated = updated\<rparr>))), c)))"

definition get_state_schema_version ::
  "sql_env \<Rightarrow> InstallationId \<Rightarrow> 'audit conn \<Rightarrow> (StorageError + u32 option) \<times> 'audit conn" where
  "get_state_schema_version env i c =
     step_then (query env ''read state schema version''
         (\<lambda>t. map_option version_col (state_table t (i, STATE_SCHEMA_MARKER_KEY))) c) (\<lambda>v c.
     case v of
       None \<Rightarrow> (Inr None, c)
     | Some v \<Rightarrow> (and_then (schema_version_from_i64 v) (\<lambda>v. Inr (Some v)), c))"

definition upsert_state_row ::
  "sql_env \<Rightarrow> InstallationId \<Rightarrow> StorageKey \<Rightarrow> u32 \<Rightarrow> u8 list \<Rightarrow> int \<Rightarrow> 'audit conn \<Rightarrow>
    (StorageError + unit) \<times> 'audit conn" where
  "upsert_state_row env i k v value now c =
     execute env ''upsert state row'' (\<lambda>t. ((), t\<lparr>state_table := (state_table t)((i, storage_key_text k) \<mapsto>
       \<lparr>version_col = uint v, value_col = value, stamp_col = now\<rparr>)\<rparr>)) c"

definition upsert_schema_marker ::
  "sql_env \<Rightarrow> InstallationId \<Rightarrow> u32 \<Rightarrow> int \<Rightarrow> 'audit conn \<Rightarrow> (StorageError + unit) \<times> 'audit conn" where
  "upsert_schema_marker env i v now c =
     execute env ''upsert state schema marker'' (\<lambda>t. ((), t\<lparr>state_table := (state_table t)((i, STATE_SCHEMA_MARKER_KEY) \<mapsto>
       \<lparr>version_col = uint v, value_col = [], stamp_col = now\<rparr>)\<rparr>)) c"

text \<open>\<open>DELETE ... WHERE installation_id = ?1 AND state_key = ?2\<close> with the number of rows it changed.\<close>

definition delete_row :: "InstallationId \<Rightarrow> StorageKey \<Rightarrow> 'audit tables \<Rightarrow> nat \<times> 'audit tables" where
  "delete_row i k t =
     (if state_table t (i, storage_key_text k) = None then 0 else 1,
      t\<lparr>state_table := (state_table t)((i, storage_key_text k) := None)\<rparr>)"

section \<open>Operations outside a transaction\<close>

definition put_state ::
  "sql_env \<Rightarrow> InstallationId \<Rightarrow> StorageKey \<Rightarrow> u32 \<Rightarrow> u8 list \<Rightarrow> bool \<Rightarrow> 'audit conn \<Rightarrow>
    (StorageError + unit) \<times> 'audit conn" where
  "put_state env i k v value cancelled c =
     step_then (check_cancel cancelled c) (\<lambda>_ c.
     if length value > STATE_VALUE_MAX_BYTES
     then (Inl (InvalidArgument (StateValueTooLarge (length value))), c)
     else
     step_then (read_installation env i c) (\<lambda>inst c.
     if inst = None then (Inl (NotFound (NoInstallation i)), c)
     else
     step_then (get_state_schema_version env i c) (\<lambda>current c.
     if current \<noteq> None \<and> current \<noteq> Some v
     then (Inl (SchemaVersionMismatch i (the current) v), c)
     else
     step_then (sql_now env c) (\<lambda>now c.
     run_tx env ''begin state put transaction'' (\<lambda>c.
       step_then (upsert_state_row env i k v value now c) (\<lambda>_ c.
       upsert_schema_marker env i v now c)) c))))"

definition delete_state ::
  "sql_env \<Rightarrow> InstallationId \<Rightarrow> StorageKey \<Rightarrow> bool \<Rightarrow> 'audit conn \<Rightarrow> (StorageError + unit) \<times> 'audit conn" where
  "delete_state env i k cancelled c =
     step_then (check_cancel cancelled c) (\<lambda>_ c.
     step_then (read_installation env i c) (\<lambda>inst c.
     if inst = None then (Inl (NotFound (NoInstallation i)), c)
     else
     run_tx env ''begin state delete transaction'' (\<lambda>c.
       step_then (execute env ''delete state row'' (delete_row i k) c) (\<lambda>changed c.
       if changed = 0 then (Inl (NotFound (NoStateKey (storage_key_text k) i)), c) else (Inr (), c))) c))"

text \<open>\<open>insert_audit\<close> with the row identifier that \<open>last_insert_rowid\<close> reports after it.\<close>

definition insert_audit ::
  "sql_env \<Rightarrow> 'audit \<Rightarrow> int \<Rightarrow> 'audit conn \<Rightarrow> (StorageError + nat) \<times> 'audit conn" where
  "insert_audit env event now c =
     execute env ''insert audit event''
       (\<lambda>t. (length (audit_table t) + 1, t\<lparr>audit_table := audit_table t @ [(event, now)]\<rparr>)) c"

definition append_audit ::
  "sql_env \<Rightarrow> 'audit \<Rightarrow> 'audit conn \<Rightarrow> (StorageError + nat) \<times> 'audit conn" where
  "append_audit env event c =
     step_then (sql_now env c) (\<lambda>now c.
     run_tx env ''begin audit transaction'' (insert_audit env event now) c)"

text \<open>
  The ten \<open>DELETE\<close> statements of \<open>remove_installation\<close>, children before parents. Grants, the active
  version, upgrade transactions, graph records and versions are rows of tables that are not part of
  the model: their statements can fail, and delete nothing the model holds.
\<close>

definition uninstall_statements :: "InstallationId \<Rightarrow> ('audit tables \<Rightarrow> 'audit tables) list" where
  "uninstall_statements i =
     [\<lambda>t. t,
      \<lambda>t. t,
      \<lambda>t. t,
      \<lambda>t. t,
      \<lambda>t. t,
      \<lambda>t. t\<lparr>state_table := (\<lambda>(j, k). if j = i then None else state_table t (j, k))\<rparr>,
      \<lambda>t. t\<lparr>config_table := (config_table t)(i := None)\<rparr>,
      \<lambda>t. t\<lparr>secret_table := (secret_table t)(i := [])\<rparr>,
      \<lambda>t. t,
      \<lambda>t. t\<lparr>installations_table := (installations_table t)(i := None)\<rparr>]"

fun execute_all ::
  "sql_env \<Rightarrow> string \<Rightarrow> ('audit tables \<Rightarrow> 'audit tables) list \<Rightarrow> 'audit conn \<Rightarrow>
    (StorageError + unit) \<times> 'audit conn" where
  "execute_all env context [] c = (Inr (), c)"
| "execute_all env context (stmt # stmts) c =
     step_then (execute env context (\<lambda>t. ((), stmt t)) c) (\<lambda>_ c. execute_all env context stmts c)"

definition remove_installation ::
  "sql_env \<Rightarrow> InstallationId \<Rightarrow> 'audit \<Rightarrow> bool \<Rightarrow> 'audit conn \<Rightarrow> (StorageError + unit) \<times> 'audit conn" where
  "remove_installation env i event cancelled c =
     step_then (check_cancel cancelled c) (\<lambda>_ c.
     step_then (read_installation env i c) (\<lambda>inst c.
     if inst = None then (Inl (NotFound (NoInstallation i)), c)
     else
     step_then (sql_now env c) (\<lambda>now c.
     run_tx env ''begin uninstall transaction'' (\<lambda>c.
       step_then (execute_all env ''delete uninstall rows'' (uninstall_statements i) c) (\<lambda>_ c.
       step_then (insert_audit env event now c) (\<lambda>_ c. (Inr (), c)))) c)))"

section \<open>Configuration and secrets\<close>

definition upsert_config :: "InstallationId \<Rightarrow> StoredConfigFormat \<Rightarrow> u32 \<Rightarrow> u8 list \<Rightarrow> int \<Rightarrow> 'audit tables \<Rightarrow> 'audit tables" where
  "upsert_config i format v value now t =
     t\<lparr>config_table := (config_table t)(i \<mapsto>
       \<lparr>format_col = format_display format, config_version_col = uint v,
        revision_col = (case config_table t i of None \<Rightarrow> 1 | Some r \<Rightarrow> revision_col r + 1),
        config_value_col = value, config_stamp_col = now\<rparr>)\<rparr>"

definition put_component_config ::
  "sql_env \<Rightarrow> InstallationId \<Rightarrow> StoredConfigFormat \<Rightarrow> u32 \<Rightarrow> u8 list \<Rightarrow> bool \<Rightarrow> 'audit conn \<Rightarrow>
    (StorageError + unit) \<times> 'audit conn" where
  "put_component_config env i format v value cancelled c =
     step_then (check_cancel cancelled c) (\<lambda>_ c.
     if length value > CONFIG_VALUE_MAX_BYTES
     then (Inl (InvalidArgument (ConfigValueTooLarge (length value))), c)
     else
     step_then (read_installation env i c) (\<lambda>inst c.
     if inst = None then (Inl (NotFound (NoInstallation i)), c)
     else
     step_then (sql_now env c) (\<lambda>now c.
     run_tx env ''begin component config transaction''
       (execute env ''upsert component config'' (\<lambda>t. ((), upsert_config i format v value now t))) c)))"

definition get_component_config ::
  "sql_env \<Rightarrow> InstallationId \<Rightarrow> 'audit conn \<Rightarrow> (StorageError + ComponentConfigRecord option) \<times> 'audit conn" where
  "get_component_config env i c =
     step_then (query env ''read component config'' (\<lambda>t. config_table t i) c) (\<lambda>row c.
     case row of
       None \<Rightarrow> (Inr None, c)
     | Some r \<Rightarrow>
         (and_then (format_from_str (format_col r)) (\<lambda>format.
          and_then (schema_version_from_i64 (config_version_col r)) (\<lambda>version.
          and_then (if revision_col r < 0 then Inl (CorruptState (ConfigRevisionRange (revision_col r)))
                    else Inr (of_int (revision_col r))) (\<lambda>revision.
          and_then (timestamp_from_i64 (config_stamp_col r)) (\<lambda>updated.
          Inr (Some \<lparr>config_installation = i, config_format = format, config_version = version,
            config_revision = revision, config_value = config_value_col r, config_updated = updated\<rparr>))))), c))"

definition upsert_secret :: "InstallationId \<Rightarrow> string \<Rightarrow> u8 list \<Rightarrow> string \<Rightarrow> int \<Rightarrow> 'audit tables \<Rightarrow> 'audit tables" where
  "upsert_secret i name ciphertext metadata now t =
     t\<lparr>secret_table := (secret_table t)(i := bt_insert name
       \<lparr>secret_version_col = (case map_of (secret_table t i) name of None \<Rightarrow> 1 | Some r \<Rightarrow> secret_version_col r + 1),
        ciphertext_col = ciphertext, metadata_col = metadata, secret_stamp_col = now\<rparr> (secret_table t i))\<rparr>"

definition put_secret ::
  "sql_env \<Rightarrow> InstallationId \<Rightarrow> StorageSecretName \<Rightarrow> u8 list \<Rightarrow> string \<Rightarrow> bool \<Rightarrow> 'audit conn \<Rightarrow>
    (StorageError + unit) \<times> 'audit conn" where
  "put_secret env i name ciphertext metadata cancelled c =
     step_then (check_cancel cancelled c) (\<lambda>_ c.
     if ciphertext = [] \<or> length ciphertext > SECRET_CIPHERTEXT_MAX_BYTES
     then (Inl (InvalidArgument (SecretCiphertextRange (length ciphertext))), c)
     else if length metadata > SECRET_METADATA_MAX_LEN \<or> has_control metadata
     then (Inl (InvalidArgument SecretMetadataInvalid), c)
     else
     step_then (read_installation env i c) (\<lambda>inst c.
     if inst = None then (Inl (NotFound (NoInstallation i)), c)
     else
     step_then (sql_now env c) (\<lambda>now c.
     run_tx env ''begin secret put transaction''
       (execute env ''upsert secret ciphertext''
         (\<lambda>t. ((), upsert_secret i (stored_secret_name name) ciphertext metadata now t))) c)))"

definition secret_version_from_i64 :: "int \<Rightarrow> StorageError + u64" where
  "secret_version_from_i64 v =
     (if v < 0 then Inl (CorruptState (SecretVersionRange v)) else Inr (of_int v))"

definition secret_name_from_db :: "string \<Rightarrow> StorageError + StorageSecretName" where
  "secret_name_from_db s =
     map_err (\<lambda>_. CorruptState InvalidSecretNameInDatabase) (StorageSecretName_new s)"

definition get_secret ::
  "sql_env \<Rightarrow> InstallationId \<Rightarrow> StorageSecretName \<Rightarrow> 'audit conn \<Rightarrow> (StorageError + SecretRecord option) \<times> 'audit conn" where
  "get_secret env i name c =
     step_then (query env ''read secret ciphertext'' (\<lambda>t. map_of (secret_table t i) (stored_secret_name name)) c) (\<lambda>row c.
     case row of
       None \<Rightarrow> (Inr None, c)
     | Some r \<Rightarrow>
         (and_then (secret_name_from_db (stored_secret_name name)) (\<lambda>name.
          and_then (secret_version_from_i64 (secret_version_col r)) (\<lambda>version.
          and_then (timestamp_from_i64 (secret_stamp_col r)) (\<lambda>updated.
          Inr (Some \<lparr>secret_name_of = name, secret_version = version, secret_ciphertext = ciphertext_col r,
            secret_metadata = metadata_col r, secret_updated = updated\<rparr>)))), c))"

text \<open>Preparing the statement, binding its parameter and reading its rows can each fail.\<close>

fun secret_list :: "(string \<times> secret_row) list \<Rightarrow> StorageError + SecretMetadata list" where
  "secret_list [] = Inr []"
| "secret_list ((name, r) # rows) =
     and_then (secret_name_from_db name) (\<lambda>name.
     and_then (secret_version_from_i64 (secret_version_col r)) (\<lambda>version.
     and_then (secret_list rows) (\<lambda>rest.
     Inr (\<lparr>meta_name = name, meta_version = version\<rparr> # rest))))"

definition list_secret_names ::
  "sql_env \<Rightarrow> InstallationId \<Rightarrow> 'audit conn \<Rightarrow> (StorageError + SecretMetadata list) \<times> 'audit conn" where
  "list_secret_names env i c =
     step_then (query env ''prepare list secret names'' (\<lambda>_. ()) c) (\<lambda>_ c.
     step_then (query env ''query secret names'' (\<lambda>_. ()) c) (\<lambda>_ c.
     step_then (query env ''read secret name row'' (\<lambda>t. secret_table t i) c) (\<lambda>rows c.
     (secret_list rows, c))))"

definition delete_secret_row :: "InstallationId \<Rightarrow> string \<Rightarrow> 'audit tables \<Rightarrow> nat \<times> 'audit tables" where
  "delete_secret_row i name t =
     (if map_of (secret_table t i) name = None then 0 else 1,
      t\<lparr>secret_table := (secret_table t)(i := filter (\<lambda>e. fst e \<noteq> name) (secret_table t i))\<rparr>)"

definition delete_secret ::
  "sql_env \<Rightarrow> InstallationId \<Rightarrow> StorageSecretName \<Rightarrow> bool \<Rightarrow> 'audit conn \<Rightarrow> (StorageError + unit) \<times> 'audit conn" where
  "delete_secret env i name cancelled c =
     step_then (check_cancel cancelled c) (\<lambda>_ c.
     run_tx env ''begin secret delete transaction'' (\<lambda>c.
       step_then (execute env ''delete secret'' (delete_secret_row i (stored_secret_name name)) c) (\<lambda>changed c.
       if changed = 0 then (Inl (NotFound (NoSecret (stored_secret_name name) i)), c) else (Inr (), c))) c)"

section \<open>Operations inside a transaction\<close>

definition tx_get_state ::
  "sql_env \<Rightarrow> InstallationId \<Rightarrow> StorageKey \<Rightarrow> 'audit conn \<Rightarrow>
    (StorageError + StateValueRecord option) \<times> 'audit conn" where
  "tx_get_state env i k c = read_state_row env i k c"

definition tx_put_state ::
  "sql_env \<Rightarrow> InstallationId \<Rightarrow> StorageKey \<Rightarrow> u32 \<Rightarrow> u8 list \<Rightarrow> 'audit conn \<Rightarrow>
    (StorageError + unit) \<times> 'audit conn" where
  "tx_put_state env i k v value c =
     (if length value > STATE_VALUE_MAX_BYTES
      then (Inl (InvalidArgument (StateValueTooLarge (length value))), c)
      else step_then (sql_now env c) (\<lambda>now c. upsert_state_row env i k v value now c))"

definition tx_delete_state ::
  "sql_env \<Rightarrow> InstallationId \<Rightarrow> StorageKey \<Rightarrow> 'audit conn \<Rightarrow> (StorageError + unit) \<times> 'audit conn" where
  "tx_delete_state env i k c =
     step_then (execute env ''delete state row in transaction'' (delete_row i k) c) (\<lambda>changed c.
     if changed = 0 then (Inl (NotFound (NoStateKey (storage_key_text k) i)), c) else (Inr (), c))"

definition tx_finalize ::
  "sql_env \<Rightarrow> InstallationId \<Rightarrow> u32 \<Rightarrow> 'audit conn \<Rightarrow> (StorageError + unit) \<times> 'audit conn" where
  "tx_finalize env i v c = step_then (sql_now env c) (\<lambda>now c. upsert_schema_marker env i v now c)"

section \<open>The worker\<close>

datatype StateTxMode = Normal | Migration

record ActiveStateTx =
  tx_handle :: u64
  tx_installation :: InstallationId
  tx_version :: u32
  dirty :: bool

record 'audit worker =
  conn :: "'audit conn"
  state_tx :: "ActiveStateTx option"
  tx_counter :: u64

datatype 'audit Command =
    GetState InstallationId StorageKey "u64 option"
  | PutState InstallationId StorageKey "u32 option" "u8 list" "u64 option"
  | DeleteState InstallationId StorageKey "u64 option"
  | GetStateSchemaVersion InstallationId
  | BeginStateTransaction InstallationId u32 StateTxMode
  | CommitStateTransaction u64
  | AbortStateTransaction u64
  | GetComponentConfig InstallationId
  | PutComponentConfig InstallationId StoredConfigFormat u32 "u8 list"
  | PutSecret InstallationId StorageSecretName "u8 list" string
  | GetSecretCiphertext InstallationId StorageSecretName
  | ListSecretNames InstallationId
  | DeleteSecret InstallationId StorageSecretName
  | AppendAudit 'audit
  | RemoveInstallation InstallationId 'audit

datatype Response =
    StateValueIs "StateValueRecord option"
  | StatePut
  | StateDeleted
  | StateSchemaVersionIs "u32 option"
  | StateTransactionBegan u64
  | StateCommitted
  | StateAborted
  | ComponentConfigIs "ComponentConfigRecord option"
  | ComponentConfigSet
  | SecretPut
  | SecretIs "SecretRecord option"
  | SecretListIs "SecretMetadata list"
  | SecretDeleted
  | AuditAppended nat
  | Removed

text \<open>A repository call on the worker's connection, and the response it gives.\<close>

definition on_conn ::
  "('a \<Rightarrow> Response) \<Rightarrow> ('audit conn \<Rightarrow> (StorageError + 'a) \<times> 'audit conn) \<Rightarrow> 'audit worker \<Rightarrow>
    (StorageError + Response) \<times> 'audit worker" where
  "on_conn resp f w =
     (case f (conn w) of
        (Inl e, c) \<Rightarrow> (Inl e, w\<lparr>conn := c\<rparr>)
      | (Inr x, c) \<Rightarrow> (Inr (resp x), w\<lparr>conn := c\<rparr>))"

definition rollback_state_tx :: "sql_env \<Rightarrow> 'audit worker \<Rightarrow> 'audit worker" where
  "rollback_state_tx env w =
     (if state_tx w = None then w
      else w\<lparr>conn := snd (rollback_sql env ''rollback'' (conn w)), state_tx := None\<rparr>)"

definition require_active_tx ::
  "ActiveStateTx option \<Rightarrow> u64 option \<Rightarrow> InstallationId \<Rightarrow> StorageError + ActiveStateTx option" where
  "require_active_tx st tx i =
     (case st of
        Some active \<Rightarrow>
          if tx \<noteq> Some (tx_handle active) \<or> tx_installation active \<noteq> i
          then Inl (StateTransactionConflict (NotThisTransaction i))
          else Inr (Some active)
      | None \<Rightarrow> if tx \<noteq> None then Inl (StateTransactionConflict NoSuchTransaction) else Inr None)"

text \<open>\<open>dirty\<close> is set when the operation succeeded.\<close>

definition mark_dirty ::
  "(StorageError + Response) \<times> 'audit worker \<Rightarrow> (StorageError + Response) \<times> 'audit worker" where
  "mark_dirty r =
     (case r of
        (Inr x, w) \<Rightarrow> (Inr x, w\<lparr>state_tx := map_option (\<lambda>a. a\<lparr>dirty := True\<rparr>) (state_tx w)\<rparr>)
      | (Inl e, w) \<Rightarrow> (Inl e, w))"

definition begin_state_transaction ::
  "sql_env \<Rightarrow> InstallationId \<Rightarrow> u32 \<Rightarrow> StateTxMode \<Rightarrow> bool \<Rightarrow> 'audit worker \<Rightarrow>
    (StorageError + Response) \<times> 'audit worker" where
  "begin_state_transaction env i v mode cancelled w =
     (if state_tx w \<noteq> None then (Inl (StateTransactionConflict AlreadyInProgress), w)
      else
      step_then (case get_state_schema_version env i (conn w) of (r, c) \<Rightarrow> (r, w\<lparr>conn := c\<rparr>)) (\<lambda>current w.
      step_then (case mode of
          Normal \<Rightarrow>
            if current \<noteq> None \<and> current \<noteq> Some v
            then (Inl (SchemaVersionMismatch i (the current) v), w) else (Inr (), w)
        | Migration \<Rightarrow>
            (case current of
               None \<Rightarrow> (Inl (InvalidArgument EmptyStoreMigration), w)
             | Some cur \<Rightarrow>
                 if v \<le> cur then (Inl (SchemaVersionMismatch i cur v), w) else (Inr (), w))) (\<lambda>_ w.
      step_then (check_cancel cancelled w) (\<lambda>_ w.
      case begin_sql env ''begin state transaction'' (conn w) of
        (Inl e, c) \<Rightarrow> (Inl e, w\<lparr>conn := c\<rparr>)
      | (Inr _, c) \<Rightarrow>
          (let n = saturating_add (tx_counter w) 1 in
           (Inr (StateTransactionBegan n),
            w\<lparr>conn := c, tx_counter := n,
              state_tx := Some \<lparr>tx_handle = n, tx_installation = i, tx_version = v, dirty = False\<rparr>\<rparr>))))))"

definition commit_state_transaction ::
  "sql_env \<Rightarrow> u64 \<Rightarrow> bool \<Rightarrow> 'audit worker \<Rightarrow> (StorageError + Response) \<times> 'audit worker" where
  "commit_state_transaction env h cancelled w =
     (case state_tx w of
        None \<Rightarrow> (Inl (StateTransactionConflict CommitNotInProgress), w)
      | Some active \<Rightarrow>
          if tx_handle active \<noteq> h then (Inl (StateTransactionConflict CommitNotInProgress), w)
          else if cancelled then (Inl Cancelled, rollback_state_tx env w)
          else
            (case step_then (if dirty active then tx_finalize env (tx_installation active) (tx_version active) (conn w)
                 else (Inr (), conn w)) (\<lambda>_. commit_sql env ''commit state transaction'') of
               (Inl e, c) \<Rightarrow> (Inl e, rollback_state_tx env (w\<lparr>conn := c\<rparr>))
             | (Inr _, c) \<Rightarrow> (Inr StateCommitted, w\<lparr>conn := c, state_tx := None\<rparr>)))"

definition abort_state_transaction ::
  "sql_env \<Rightarrow> u64 \<Rightarrow> 'audit worker \<Rightarrow> (StorageError + Response) \<times> 'audit worker" where
  "abort_state_transaction env h w =
     (if map_option tx_handle (state_tx w) \<noteq> Some h then (Inr StateAborted, w)
      else case rollback_sql env ''abort state transaction'' (conn w) of
        (Inl e, c) \<Rightarrow> (Inl e, w\<lparr>conn := c\<rparr>)
      | (Inr _, c) \<Rightarrow> (Inr StateAborted, w\<lparr>conn := c, state_tx := None\<rparr>))"

definition dispatch_stateful ::
  "sql_env \<Rightarrow> (nat \<Rightarrow> bool) \<Rightarrow> 'audit Command \<Rightarrow> 'audit worker \<Rightarrow> (StorageError + Response) \<times> 'audit worker" where
  "dispatch_stateful env cancel cmd w =
     (case cmd of
        GetState i k tx \<Rightarrow>
          step_then (require_active_tx (state_tx w) tx i, w) (\<lambda>active w.
          case active of
            Some _ \<Rightarrow> on_conn StateValueIs (tx_get_state env i k) w
          | None \<Rightarrow> on_conn StateValueIs (read_state_row env i k) w)
      | PutState i k version value tx \<Rightarrow>
          step_then (require_active_tx (state_tx w) tx i, w) (\<lambda>active w.
          case active of
            Some a \<Rightarrow>
              if version \<noteq> None then (Inl (InvalidArgument VersionInsideTransaction), w)
              else if cancel 1 then (Inl Cancelled, rollback_state_tx env w)
              else mark_dirty (on_conn (\<lambda>_. StatePut) (tx_put_state env i k (tx_version a) value) w)
          | None \<Rightarrow>
              (case version of
                 None \<Rightarrow> (Inl (InvalidArgument VersionRequired), w)
               | Some v \<Rightarrow> on_conn (\<lambda>_. StatePut) (put_state env i k v value (cancel 1)) w))
      | DeleteState i k tx \<Rightarrow>
          step_then (require_active_tx (state_tx w) tx i, w) (\<lambda>active w.
          case active of
            Some a \<Rightarrow>
              if cancel 1 then (Inl Cancelled, rollback_state_tx env w)
              else mark_dirty (on_conn (\<lambda>_. StateDeleted) (tx_delete_state env i k) w)
          | None \<Rightarrow>
              step_then (check_cancel (cancel 1) w) (\<lambda>_ w.
              on_conn (\<lambda>_. StateDeleted) (delete_state env i k (cancel 2)) w))
      | GetStateSchemaVersion i \<Rightarrow> on_conn StateSchemaVersionIs (get_state_schema_version env i) w
      | BeginStateTransaction i v mode \<Rightarrow> begin_state_transaction env i v mode (cancel 1) w
      | CommitStateTransaction h \<Rightarrow> commit_state_transaction env h (cancel 1) w
      | AbortStateTransaction h \<Rightarrow> abort_state_transaction env h w
      | GetComponentConfig i \<Rightarrow> on_conn ComponentConfigIs (get_component_config env i) w
      | PutComponentConfig i format v value \<Rightarrow>
          step_then (check_cancel (cancel 1) w) (\<lambda>_ w.
          on_conn (\<lambda>_. ComponentConfigSet) (put_component_config env i format v value (cancel 2)) w)
      | PutSecret i name ciphertext metadata \<Rightarrow>
          step_then (check_cancel (cancel 1) w) (\<lambda>_ w.
          on_conn (\<lambda>_. SecretPut) (put_secret env i name ciphertext metadata (cancel 2)) w)
      | GetSecretCiphertext i name \<Rightarrow> on_conn SecretIs (get_secret env i name) w
      | ListSecretNames i \<Rightarrow> on_conn SecretListIs (list_secret_names env i) w
      | DeleteSecret i name \<Rightarrow>
          step_then (check_cancel (cancel 1) w) (\<lambda>_ w.
          on_conn (\<lambda>_. SecretDeleted) (delete_secret env i name (cancel 2)) w)
      | _ \<Rightarrow> (Inl (CorruptState (UnexpectedResponse ''non-stateful command'')), w))"

text \<open>One turn of the loop of \<open>worker_main\<close>.\<close>

definition serve ::
  "sql_env \<Rightarrow> (nat \<Rightarrow> bool) \<Rightarrow> 'audit Command \<Rightarrow> 'audit worker \<Rightarrow> (StorageError + Response) \<times> 'audit worker" where
  "serve env cancel cmd w =
     (if cancel 0 then (Inl Cancelled, rollback_state_tx env w)
      else case cmd of
        AppendAudit event \<Rightarrow>
          if state_tx w \<noteq> None then (Inl (StateTransactionConflict WindowClosed), w)
          else on_conn AuditAppended (append_audit env event) w
      | RemoveInstallation i event \<Rightarrow>
          if state_tx w \<noteq> None then (Inl (StateTransactionConflict WindowClosed), w)
          else on_conn (\<lambda>_. Removed) (remove_installation env i event (cancel 1)) w
      | _ \<Rightarrow> dispatch_stateful env cancel cmd w)"

text \<open>What is left on disk when the worker stops, or the process dies.\<close>

definition on_disk :: "'audit worker \<Rightarrow> 'audit tables" where
  "on_disk w = durable (conn w)"

definition worker_new :: "'audit tables \<Rightarrow> 'audit worker" where
  "worker_new t = \<lparr>conn = \<lparr>contents = t, at_begin = None, executed = 0\<rparr>, state_tx = None, tx_counter = 0\<rparr>"

end
