(* ===== verification/StateSpec.thy ===== *)
theory StateSpec
  imports StateStore
begin

text \<open>
  What the storage layer promises about the state of the components, and that the worker keeps it.

  The specification of the worker's commands has no rows, no marker row and no connection: every
  installation has a version and a map from keys to values, and at most one transaction holds the
  values its installation will have. Every command is one atomic step of it; those about configuration
  and secrets leave it alone, and their writes are refused while a transaction is open. The refinement
  holds for an orderly SQLite (\<open>orderly\<close>: it never ends a transaction on its own, and \<open>ROLLBACK\<close> works),
  whatever the pattern of failing statements; what happens when SQLite rolls a transaction back by
  itself is shown at the end, and what is left of the promises then in \<open>StateDisk\<close>.
\<close>

section \<open>The specification\<close>

record view =
  view_version :: "u32 option"
  view_values :: "string \<rightharpoonup> u8 list"

record spec =
  committed :: "InstallationId \<Rightarrow> view"
  open_tx :: "(ActiveStateTx \<times> (string \<rightharpoonup> u8 list)) option"
  begun :: u64

text \<open>\<open>NotState\<close>: an answer about configuration or secrets, which the specification does not hold.\<close>

datatype answer_value = ValueIs "u8 list option" | VersionIs "u32 option" | Began u64 | Done | NotState

fun answer_of :: "Response \<Rightarrow> answer_value" where
  "answer_of (StateValueIs r) = ValueIs (map_option record_value r)"
| "answer_of (StateSchemaVersionIs v) = VersionIs v"
| "answer_of (StateTransactionBegan h) = Began h"
| "answer_of StatePut = Done"
| "answer_of StateDeleted = Done"
| "answer_of StateCommitted = Done"
| "answer_of StateAborted = Done"
| "answer_of (AuditAppended n) = Done"
| "answer_of Removed = Done"
| "answer_of (ComponentConfigIs r) = NotState"
| "answer_of ComponentConfigSet = NotState"
| "answer_of SecretPut = NotState"
| "answer_of (SecretIs r) = NotState"
| "answer_of (SecretListIs names) = NotState"
| "answer_of SecretDeleted = NotState"

text \<open>The transaction that a command with handle \<open>tx\<close> for installation \<open>i\<close> works in.\<close>

definition in_tx :: "spec \<Rightarrow> u64 option \<Rightarrow> InstallationId \<Rightarrow> bool" where
  "in_tx s tx i \<longleftrightarrow>
     (case open_tx s of Some (a, vals) \<Rightarrow> tx = Some (tx_handle a) \<and> tx_installation a = i | None \<Rightarrow> False)"

definition outside_tx :: "spec \<Rightarrow> u64 option \<Rightarrow> bool" where
  "outside_tx s tx \<longleftrightarrow> open_tx s = None \<and> tx = None"

definition write_values :: "((string \<rightharpoonup> u8 list) \<Rightarrow> (string \<rightharpoonup> u8 list)) \<Rightarrow> spec \<Rightarrow> spec" where
  "write_values f s =
     s\<lparr>open_tx := map_option (\<lambda>(a, vals). (a\<lparr>dirty := True\<rparr>, f vals)) (open_tx s)\<rparr>"

text \<open>\<open>None\<close>: the command is refused.\<close>

fun spec_step :: "'audit Command \<Rightarrow> spec \<Rightarrow> (answer_value \<times> spec) option" where
  "spec_step (GetState i k tx) s =
     (if in_tx s tx i then Some (ValueIs (snd (the (open_tx s)) (storage_key_text k)), s)
      else if outside_tx s tx then Some (ValueIs (view_values (committed s i) (storage_key_text k)), s)
      else None)"
| "spec_step (PutState i k version value tx) s =
     (if in_tx s tx i \<and> version = None
      then Some (Done, write_values (\<lambda>vals. vals(storage_key_text k \<mapsto> value)) s)
      else if outside_tx s tx \<and> version \<noteq> None \<and> view_version (committed s i) \<in> {None, version}
      then Some (Done, s\<lparr>committed := (committed s)(i :=
             \<lparr>view_version = version,
              view_values = (view_values (committed s i))(storage_key_text k \<mapsto> value)\<rparr>)\<rparr>)
      else None)"
| "spec_step (DeleteState i k tx) s =
     (if in_tx s tx i \<and> snd (the (open_tx s)) (storage_key_text k) \<noteq> None
      then Some (Done, write_values (\<lambda>vals. vals(storage_key_text k := None)) s)
      else if outside_tx s tx \<and> view_values (committed s i) (storage_key_text k) \<noteq> None
      then Some (Done, s\<lparr>committed := (committed s)(i := (committed s i)
             \<lparr>view_values := (view_values (committed s i))(storage_key_text k := None)\<rparr>)\<rparr>)
      else None)"
| "spec_step (GetStateSchemaVersion i) s = Some (VersionIs (view_version (committed s i)), s)"
| "spec_step (BeginStateTransaction i v mode) s =
     (if open_tx s = None \<and>
        (case mode of
           Normal \<Rightarrow> view_version (committed s i) \<in> {None, Some v}
         | Migration \<Rightarrow> (case view_version (committed s i) of None \<Rightarrow> False | Some cur \<Rightarrow> cur < v))
      then let n = saturating_add (begun s) 1 in
        Some (Began n, s\<lparr>begun := n, open_tx :=
          Some (\<lparr>tx_handle = n, tx_installation = i, tx_version = v, dirty = False\<rparr>, view_values (committed s i))\<rparr>)
      else None)"
| "spec_step (CommitStateTransaction h) s =
     (case open_tx s of
        Some (a, vals) \<Rightarrow>
          if tx_handle a = h
          then Some (Done, s\<lparr>open_tx := None, committed :=
                 (if dirty a then (committed s)(tx_installation a := \<lparr>view_version = Some (tx_version a), view_values = vals\<rparr>)
                  else committed s)\<rparr>)
          else None
      | None \<Rightarrow> None)"
| "spec_step (AbortStateTransaction h) s =
     Some (Done, if (\<exists>a vals. open_tx s = Some (a, vals) \<and> tx_handle a = h) then s\<lparr>open_tx := None\<rparr> else s)"
| "spec_step (AppendAudit e) s = (if open_tx s = None then Some (Done, s) else None)"
| "spec_step (RemoveInstallation i e) s =
     (if open_tx s = None
      then Some (Done, s\<lparr>committed := (committed s)(i := \<lparr>view_version = None, view_values = Map.empty\<rparr>)\<rparr>)
      else None)"
| "spec_step (GetComponentConfig i) s = Some (NotState, s)"
| "spec_step (GetSecretCiphertext i name) s = Some (NotState, s)"
| "spec_step (ListSecretNames i) s = Some (NotState, s)"
| "spec_step (PutComponentConfig i format v value) s = (if open_tx s = None then Some (NotState, s) else None)"
| "spec_step (PutSecret i name bytes meta) s = (if open_tx s = None then Some (NotState, s) else None)"
| "spec_step (DeleteSecret i name) s = (if open_tx s = None then Some (NotState, s) else None)"

section \<open>The abstraction\<close>

definition values_of :: "'audit tables \<Rightarrow> InstallationId \<Rightarrow> string \<rightharpoonup> u8 list" where
  "values_of t i k = (if k = STATE_SCHEMA_MARKER_KEY then None else map_option value_col (state_table t (i, k)))"

definition view_of :: "'audit tables \<Rightarrow> InstallationId \<Rightarrow> view" where
  "view_of t i =
     \<lparr>view_version = map_option (\<lambda>r. of_int (version_col r)) (state_table t (i, STATE_SCHEMA_MARKER_KEY)),
      view_values = values_of t i\<rparr>"

definition abs_worker :: "'audit worker \<Rightarrow> spec" where
  "abs_worker w =
     \<lparr>committed = view_of (on_disk w),
      open_tx = map_option (\<lambda>a. (a, values_of (contents (conn w)) (tx_installation a))) (state_tx w),
      begun = tx_counter w\<rparr>"

text \<open>
  The invariant: a transaction is open on the connection exactly while the worker holds one; inside it
  the installation's version is still the old one, the other installations are untouched, and nothing
  has changed before the first successful write.
\<close>

definition tx_view :: "ActiveStateTx \<Rightarrow> 'audit tables \<Rightarrow> 'audit tables \<Rightarrow> bool" where
  "tx_view a t0 t \<longleftrightarrow>
     installations_table t = installations_table t0 \<and> audit_table t = audit_table t0 \<and>
     (\<forall>i k. i \<noteq> tx_installation a \<or> k = STATE_SCHEMA_MARKER_KEY \<longrightarrow> state_table t (i, k) = state_table t0 (i, k)) \<and>
     (\<not> dirty a \<longrightarrow> t = t0)"

definition worker_inv :: "'audit worker \<Rightarrow> bool" where
  "worker_inv w \<longleftrightarrow>
     (case state_tx w of
        None \<Rightarrow> at_begin (conn w) = None
      | Some a \<Rightarrow> (\<exists>t0. at_begin (conn w) = Some t0 \<and> tx_view a t0 (contents (conn w))))"

text \<open>A key the storage layer accepts is never the marker.\<close>

definition key_ok :: "StorageKey \<Rightarrow> bool" where
  "key_ok k \<longleftrightarrow> StorageKey_new (storage_key_text k) = Inr k"

lemma key_ok_not_marker: "key_ok k \<Longrightarrow> storage_key_text k \<noteq> STATE_SCHEMA_MARKER_KEY"
  by (auto simp: key_ok_def StorageKey_new_def validate_key_def STATE_SCHEMA_MARKER_KEY_def result_simps
      is_lower_def is_upper_def is_digit_def less_eq_char_def split: if_splits)

fun command_ok :: "'audit Command \<Rightarrow> bool" where
  "command_ok (GetState i k tx) \<longleftrightarrow> key_ok k"
| "command_ok (PutState i k version value tx) \<longleftrightarrow> key_ok k"
| "command_ok (DeleteState i k tx) \<longleftrightarrow> key_ok k"
| "command_ok cmd \<longleftrightarrow> True"

section \<open>The repository's operations\<close>

lemma same_conn_view: "same_conn c c' \<Longrightarrow> contents c' = contents c \<and> at_begin c' = at_begin c"
  by (simp add: same_conn_def)

lemma read_installation_conn:
  assumes "orderly env" "read_installation env i c = (r, c')"
  shows "same_conn c c'"
proof (cases "query env ''read installation'' (\<lambda>t. installations_table t i) c")
  case (Pair q c1)
  from query_spec(1) [OF assms(1) Pair] assms(2) Pair show ?thesis
    by (cases q) (auto simp: read_installation_def split: option.splits)
qed

lemma read_state_row_spec:
  assumes "orderly env" "read_state_row env i k c = (r, c')"
  shows "same_conn c c'"
    and "r = Inr x \<Longrightarrow> map_option record_value x = map_option value_col (state_table (contents c) (i, storage_key_text k))"
proof -
  have "same_conn c c' \<and> (r = Inr x \<longrightarrow>
      map_option record_value x = map_option value_col (state_table (contents c) (i, storage_key_text k)))" for x
  proof (cases "query env ''read state row'' (\<lambda>t. state_table t (i, storage_key_text k)) c")
    case (Pair q c1)
    note s = query_spec [OF assms(1) Pair]
    show ?thesis
    proof (cases q)
      case (Inl e)
      with assms(2) Pair s(1) show ?thesis by (auto simp: read_state_row_def)
    next
      case (Inr row)
      from s(2) [OF Inr] assms(2) Pair s(1) Inr show ?thesis
        by (auto simp: read_state_row_def result_simps split: option.splits sum.splits)
    qed
  qed
  then show "same_conn c c'"
    "r = Inr x \<Longrightarrow> map_option record_value x = map_option value_col (state_table (contents c) (i, storage_key_text k))"
    by blast+
qed

lemma get_state_schema_version_spec:
  assumes "orderly env" "get_state_schema_version env i c = (r, c')"
  shows "same_conn c c'"
    and "r = Inr x \<Longrightarrow> x = view_version (view_of (contents c) i)"
proof -
  have "same_conn c c' \<and> (r = Inr x \<longrightarrow> x = view_version (view_of (contents c) i))" for x
  proof (cases "query env ''read state schema version''
         (\<lambda>t. map_option version_col (state_table t (i, STATE_SCHEMA_MARKER_KEY))) c")
    case (Pair q c1)
    note s = query_spec [OF assms(1) Pair]
    show ?thesis
    proof (cases q)
      case (Inl e)
      with assms(2) Pair s(1) show ?thesis by (auto simp: get_state_schema_version_def)
    next
      case (Inr v)
      from s(2) [OF Inr] assms(2) Pair s(1) Inr show ?thesis
        by (auto simp: get_state_schema_version_def result_simps view_of_def schema_version_from_i64_def
            split: option.splits if_splits)
    qed
  qed
  then show "same_conn c c'" "r = Inr x \<Longrightarrow> x = view_version (view_of (contents c) i)" by blast+
qed

text \<open>One row changes, or none.\<close>

definition set_row :: "InstallationId \<Rightarrow> string \<Rightarrow> state_row option \<Rightarrow> 'audit tables \<Rightarrow> 'audit tables" where
  "set_row i k r t = t\<lparr>state_table := (state_table t)((i, k) := r)\<rparr>"

lemma values_of_set_row [conn_simps]:
  "values_of (set_row i k r t) j =
     (if j = i \<and> k \<noteq> STATE_SCHEMA_MARKER_KEY then (values_of t i)(k := map_option value_col r) else values_of t j)"
  by (auto simp: values_of_def set_row_def fun_eq_iff)

lemma view_of_set_row [conn_simps]:
  "k \<noteq> STATE_SCHEMA_MARKER_KEY \<Longrightarrow> view_of (set_row i k r t) j =
     (if j = i then (view_of t i)\<lparr>view_values := (values_of t i)(k := map_option value_col r)\<rparr> else view_of t j)"
  "view_of (set_row i STATE_SCHEMA_MARKER_KEY r t) j =
     (if j = i then (view_of t i)\<lparr>view_version := map_option (\<lambda>r. of_int (version_col r)) r\<rparr> else view_of t j)"
  by (auto simp: view_of_def values_of_set_row) (auto simp: set_row_def)

lemma tx_view_set_row:
  "tx_view a t0 t \<Longrightarrow> k \<noteq> STATE_SCHEMA_MARKER_KEY \<Longrightarrow>
     tx_view (a\<lparr>dirty := True\<rparr>) t0 (set_row (tx_installation a) k r t)"
  by (auto simp: tx_view_def set_row_def)

lemma upsert_state_row_spec:
  assumes "orderly env" "upsert_state_row env i k v value now c = (r, c')"
  shows "at_begin c' = at_begin c"
    and "r = Inl e \<Longrightarrow> contents c' = contents c"
    and "r = Inr u \<Longrightarrow> contents c' = set_row i (storage_key_text k)
      (Some \<lparr>version_col = uint v, value_col = value, stamp_col = now\<rparr>) (contents c)"
  using execute_spec [OF assms(1) assms(2) [unfolded upsert_state_row_def]] by (auto simp: set_row_def)

lemma upsert_schema_marker_spec:
  assumes "orderly env" "upsert_schema_marker env i v now c = (r, c')"
  shows "at_begin c' = at_begin c"
    and "r = Inl e \<Longrightarrow> contents c' = contents c"
    and "r = Inr u \<Longrightarrow> contents c' = set_row i STATE_SCHEMA_MARKER_KEY
      (Some \<lparr>version_col = uint v, value_col = [], stamp_col = now\<rparr>) (contents c)"
  using execute_spec [OF assms(1) assms(2) [unfolded upsert_schema_marker_def]] by (auto simp: set_row_def)

lemma tx_finalize_spec:
  assumes "orderly env" "tx_finalize env i v c = (r, c')"
  shows "at_begin c' = at_begin c"
    and "r = Inl e \<Longrightarrow> contents c' = contents c"
    and "r = Inr u \<Longrightarrow> \<exists>now. contents c' = set_row i STATE_SCHEMA_MARKER_KEY
      (Some \<lparr>version_col = uint v, value_col = [], stamp_col = now\<rparr>) (contents c)"
proof -
  have "at_begin c' = at_begin c \<and> (r = Inl e \<longrightarrow> contents c' = contents c) \<and>
      (r = Inr u \<longrightarrow> (\<exists>now. contents c' = set_row i STATE_SCHEMA_MARKER_KEY
      (Some \<lparr>version_col = uint v, value_col = [], stamp_col = now\<rparr>) (contents c)))" for e u
  proof (cases "sql_now env c")
    case (Pair q c1)
    note c1 = sql_now_conn [OF Pair]
    show ?thesis
    proof (cases q)
      case (Inl e)
      with assms(2) Pair c1 show ?thesis by (auto simp: tx_finalize_def)
    next
      case (Inr now)
      with assms(2) Pair c1 have "upsert_schema_marker env i v now c = (r, c')" by (simp add: tx_finalize_def)
      from upsert_schema_marker_spec [OF assms(1) this] show ?thesis by auto
    qed
  qed
  then show "at_begin c' = at_begin c" "r = Inl e \<Longrightarrow> contents c' = contents c"
    "r = Inr u \<Longrightarrow> \<exists>now. contents c' = set_row i STATE_SCHEMA_MARKER_KEY
      (Some \<lparr>version_col = uint v, value_col = [], stamp_col = now\<rparr>) (contents c)" by blast+
qed

lemma tx_put_state_spec:
  assumes "orderly env" "tx_put_state env i k v value c = (r, c')"
  shows "at_begin c' = at_begin c"
    and "r = Inl e \<Longrightarrow> contents c' = contents c"
    and "r = Inr u \<Longrightarrow> \<exists>now. contents c' = set_row i (storage_key_text k)
      (Some \<lparr>version_col = uint v, value_col = value, stamp_col = now\<rparr>) (contents c)"
proof -
  have "at_begin c' = at_begin c \<and> (r = Inl e \<longrightarrow> contents c' = contents c) \<and>
      (r = Inr u \<longrightarrow> (\<exists>now. contents c' = set_row i (storage_key_text k)
      (Some \<lparr>version_col = uint v, value_col = value, stamp_col = now\<rparr>) (contents c)))" for e u
  proof (cases "sql_now env c")
    case (Pair q c1)
    note c1 = sql_now_conn [OF Pair]
    show ?thesis
    proof (cases "length value > STATE_VALUE_MAX_BYTES \<or> (\<exists>e. q = Inl e)")
      case True
      with assms(2) Pair c1 show ?thesis by (auto simp: tx_put_state_def split: if_splits)
    next
      case False
      then obtain now where "q = Inr now" by (cases q) auto
      with False assms(2) Pair c1 have "upsert_state_row env i k v value now c = (r, c')"
        by (simp add: tx_put_state_def)
      from upsert_state_row_spec [OF assms(1) this] show ?thesis by auto
    qed
  qed
  then show "at_begin c' = at_begin c" "r = Inl e \<Longrightarrow> contents c' = contents c"
    "r = Inr u \<Longrightarrow> \<exists>now. contents c' = set_row i (storage_key_text k)
      (Some \<lparr>version_col = uint v, value_col = value, stamp_col = now\<rparr>) (contents c)" by blast+
qed

text \<open>A deletion that finds no row changes nothing, whether or not it is rolled back.\<close>

lemma delete_row_spec:
  "delete_row i k t = (n, t') \<longleftrightarrow>
     n = (if state_table t (i, storage_key_text k) = None then 0 else 1) \<and> t' = set_row i (storage_key_text k) None t"
  by (auto simp: delete_row_def set_row_def)

lemma set_row_same: "state_table t (i, k) = None \<Longrightarrow> set_row i k None t = t"
  by (simp add: set_row_def fun_upd_idem)

definition delete_checked where
  "delete_checked env ctx i k c =
     step_then (execute env ctx (delete_row i k) c) (\<lambda>changed c.
     if changed = 0 then (Inl (NotFound (NoStateKey (storage_key_text k) i)), c) else (Inr (), c))"

lemma delete_checked_spec:
  assumes "orderly env" "delete_checked env ctx i k c = (r, c')"
  shows "at_begin c' = at_begin c"
    and "r = Inl e \<Longrightarrow> contents c' = contents c"
    and "r = Inr u \<Longrightarrow> state_table (contents c) (i, storage_key_text k) \<noteq> None \<and>
      contents c' = set_row i (storage_key_text k) None (contents c)"
proof -
  have "at_begin c' = at_begin c \<and> (r = Inl e \<longrightarrow> contents c' = contents c) \<and>
      (r = Inr u \<longrightarrow> state_table (contents c) (i, storage_key_text k) \<noteq> None \<and>
      contents c' = set_row i (storage_key_text k) None (contents c))" for e u
  proof (cases "execute env ctx (delete_row i k) c")
    case (Pair q c1)
    note s = execute_spec [OF assms(1) Pair]
    show ?thesis
    proof (cases q)
      case (Inl e)
      with assms(2) Pair s show ?thesis by (auto simp: delete_checked_def)
    next
      case (Inr n)
      from s(3) [OF Inr] assms(2) Pair s(1) Inr show ?thesis
        by (auto simp: delete_checked_def delete_row_spec set_row_same split: if_splits)
    qed
  qed
  then show "at_begin c' = at_begin c" "r = Inl e \<Longrightarrow> contents c' = contents c"
    "r = Inr u \<Longrightarrow> state_table (contents c) (i, storage_key_text k) \<noteq> None \<and>
      contents c' = set_row i (storage_key_text k) None (contents c)" by blast+
qed

lemma tx_delete_state_eq: "tx_delete_state env i k = delete_checked env ''delete state row in transaction'' i k"
  by (rule ext) (simp add: tx_delete_state_def delete_checked_def)

lemma keeps_tx_delete: "orderly env \<Longrightarrow> keeps_tx (delete_checked env ctx i k)"
  unfolding keeps_tx_def by (metis delete_checked_spec(1) prod.collapse)

lemma delete_state_spec:
  assumes "orderly env" "delete_state env i k b c = (r, c')" "at_begin c = None"
  shows "at_begin c' = None"
    and "r = Inl e \<Longrightarrow> contents c' = contents c"
    and "r = Inr u \<Longrightarrow> state_table (contents c) (i, storage_key_text k) \<noteq> None \<and>
      contents c' = set_row i (storage_key_text k) None (contents c)"
proof -
  have "at_begin c' = None \<and> (r = Inl e \<longrightarrow> contents c' = contents c) \<and>
      (r = Inr u \<longrightarrow> state_table (contents c) (i, storage_key_text k) \<noteq> None \<and>
      contents c' = set_row i (storage_key_text k) None (contents c))" for e u
  proof (cases "b")
    case True
    with assms(2,3) show ?thesis by (auto simp: delete_state_def check_cancel_def)
  next
    case False
    obtain q c1 where read: "read_installation env i c = (q, c1)" by fastforce
    note same = same_conn_view [OF read_installation_conn [OF assms(1) read]]
    show ?thesis
    proof (cases "(\<exists>e. q = Inl e) \<or> q = Inr None")
      case True
      with assms(2,3) False read same show ?thesis
        by (auto simp: delete_state_def check_cancel_def split: if_splits)
    next
      case found: False
      then obtain x where "q = Inr (Some x)" by (cases q) auto
      with assms(2) False read have run: "run_tx env ''begin state delete transaction''
          (delete_checked env ''delete state row'' i k) c1 = (r, c')"
        by (simp add: delete_state_def check_cancel_def delete_checked_def [abs_def])
      have none: "at_begin c1 = None" using same assms(3) by simp
      note rs = run_tx_spec [OF assms(1) keeps_tx_delete [OF assms(1)] none run]
      show ?thesis
      proof (cases r)
        case (Inl e)
        with rs(1,2) same show ?thesis by auto
      next
        case (Inr u)
        from rs(3) [OF Inr] obtain c2 c3 where "contents c2 = contents c1" "delete_checked env ''delete state row'' i k c2 = (Inr u, c3)"
          "contents c' = contents c3" by blast
        with delete_checked_spec(3) [OF assms(1), of _ i k c2 "Inr u" c3 u] rs(1) same Inr show ?thesis by auto
      qed
    qed
  qed
  then show "at_begin c' = None" "r = Inl e \<Longrightarrow> contents c' = contents c"
    "r = Inr u \<Longrightarrow> state_table (contents c) (i, storage_key_text k) \<noteq> None \<and>
      contents c' = set_row i (storage_key_text k) None (contents c)" by blast+
qed

definition put_rows where
  "put_rows env i k v value now c =
     step_then (upsert_state_row env i k v value now c) (\<lambda>_ c. upsert_schema_marker env i v now c)"

lemma keeps_tx_put_rows: "orderly env \<Longrightarrow> keeps_tx (put_rows env i k v value now)"
  unfolding put_rows_def upsert_state_row_def upsert_schema_marker_def
  by (intro keeps_tx_step_then keeps_tx_execute)

lemma put_rows_Inr:
  assumes "orderly env" "put_rows env i k v value now c = (Inr u, c')"
  shows "contents c' = set_row i STATE_SCHEMA_MARKER_KEY (Some \<lparr>version_col = uint v, value_col = [], stamp_col = now\<rparr>)
    (set_row i (storage_key_text k) (Some \<lparr>version_col = uint v, value_col = value, stamp_col = now\<rparr>) (contents c))"
proof -
  from assms(2) obtain u1 c1 where "upsert_state_row env i k v value now c = (Inr u1, c1)"
    "upsert_schema_marker env i v now c1 = (Inr u, c')" by (auto simp: put_rows_def result_simps)
  with upsert_state_row_spec(3) [OF assms(1) this(1) refl] upsert_schema_marker_spec(3) [OF assms(1) this(2) refl]
  show ?thesis by simp
qed

lemma put_state_spec:
  assumes "orderly env" "put_state env i k v value b c = (r, c')" "at_begin c = None"
  shows "at_begin c' = None"
    and "r = Inl e \<Longrightarrow> contents c' = contents c"
    and "r = Inr u \<Longrightarrow> view_version (view_of (contents c) i) \<in> {None, Some v} \<and> (\<exists>now. contents c' =
      set_row i STATE_SCHEMA_MARKER_KEY (Some \<lparr>version_col = uint v, value_col = [], stamp_col = now\<rparr>)
       (set_row i (storage_key_text k) (Some \<lparr>version_col = uint v, value_col = value, stamp_col = now\<rparr>) (contents c)))"
proof -
  let ?rows = "\<lambda>now. set_row i STATE_SCHEMA_MARKER_KEY (Some \<lparr>version_col = uint v, value_col = [], stamp_col = now\<rparr>)
       (set_row i (storage_key_text k) (Some \<lparr>version_col = uint v, value_col = value, stamp_col = now\<rparr>) (contents c))"
  have "at_begin c' = None \<and> (r = Inl e \<longrightarrow> contents c' = contents c) \<and>
      (r = Inr u \<longrightarrow> view_version (view_of (contents c) i) \<in> {None, Some v} \<and> (\<exists>now. contents c' = ?rows now))" for e u
  proof (cases "b \<or> length value > STATE_VALUE_MAX_BYTES")
    case True
    with assms(2,3) show ?thesis by (auto simp: put_state_def check_cancel_def split: if_splits)
  next
    case False
    obtain q c1 where read: "read_installation env i c = (q, c1)" by fastforce
    note same1 = same_conn_view [OF read_installation_conn [OF assms(1) read]]
    show ?thesis
    proof (cases "(\<exists>e. q = Inl e) \<or> q = Inr None")
      case True
      with assms(2,3) False read same1 show ?thesis
        by (auto simp: put_state_def check_cancel_def split: if_splits)
    next
      case found: False
      then obtain x where q: "q = Inr (Some x)" by (cases q) auto
      obtain p c2 where ver: "get_state_schema_version env i c1 = (p, c2)" by fastforce
      note same2 = same_conn_view [OF get_state_schema_version_spec(1) [OF assms(1) ver]]
      show ?thesis
      proof (cases "\<exists>cur. p = Inr cur \<and> cur \<in> {None, Some v}")
        case no: False
        with assms(2,3) False read q ver same1 same2 show ?thesis
          by (cases p) (auto simp: put_state_def check_cancel_def split: if_splits)
      next
        case True
        then obtain cur where p: "p = Inr cur" "cur \<in> {None, Some v}" by blast
        with get_state_schema_version_spec(2) [OF assms(1) ver] same1
        have current: "view_version (view_of (contents c) i) \<in> {None, Some v}" by auto
        obtain n c3 where now: "sql_now env c2 = (n, c3)" by fastforce
        note c3 = sql_now_conn [OF now]
        show ?thesis
        proof (cases n)
          case (Inl e')
          with assms(2,3) False read q ver p now c3 same1 same2 show ?thesis
            by (auto simp: put_state_def check_cancel_def split: if_splits)
        next
          case (Inr moment)
          with assms(2) False read q ver p now c3
          have run: "run_tx env ''begin state put transaction'' (put_rows env i k v value moment) c2 = (r, c')"
            by (auto simp: put_state_def check_cancel_def put_rows_def [abs_def] split: if_splits)
          have none: "at_begin c2 = None" using same1 same2 assms(3) by simp
          note rs = run_tx_spec [OF assms(1) keeps_tx_put_rows [OF assms(1)] none run]
          show ?thesis
          proof (cases r)
            case (Inl e)
            with rs(1,2) same1 same2 show ?thesis by auto
          next
            case r: (Inr u)
            from rs(3) [OF r] obtain c4 c5 where "contents c4 = contents c2"
              "put_rows env i k v value moment c4 = (Inr u, c5)" "contents c' = contents c5" by blast
            with put_rows_Inr [OF assms(1) this(2)] same1 same2 rs(1) current r show ?thesis by auto
          qed
        qed
      qed
    qed
  qed
  then show "at_begin c' = None" "r = Inl e \<Longrightarrow> contents c' = contents c"
    "r = Inr u \<Longrightarrow> view_version (view_of (contents c) i) \<in> {None, Some v} \<and> (\<exists>now. contents c' = ?rows now)" by blast+
qed

text \<open>
  Operations that work on other rows: outside a transaction they leave the state rows as they are,
  inside one they leave the connection as it is.
\<close>

definition elsewhere :: "('audit conn \<Rightarrow> 'r \<times> 'audit conn) \<Rightarrow> bool" where
  "elsewhere f \<longleftrightarrow> (\<forall>c r c'. f c = (r, c') \<longrightarrow>
     (if at_begin c = None then at_begin c' = None \<and> state_table (contents c') = state_table (contents c)
      else same_conn c c'))"

text \<open>A write of its own transaction is refused while another one is open.\<close>

definition needs_tx :: "('audit conn \<Rightarrow> (StorageError + 'r) \<times> 'audit conn) \<Rightarrow> bool" where
  "needs_tx f \<longleftrightarrow> (\<forall>c. at_begin c \<noteq> None \<longrightarrow> \<not> is_ok (fst (f c)))"

lemma elsewhere_same: "(\<And>c r c'. f c = (r, c') \<Longrightarrow> same_conn c c') \<Longrightarrow> elsewhere f"
  by (fastforce simp: elsewhere_def same_conn_def)

lemma elsewhere_step_then:
  "elsewhere f \<Longrightarrow> (\<And>x. elsewhere (g x)) \<Longrightarrow> elsewhere (\<lambda>c. step_then (f c) g)"
  unfolding elsewhere_def same_conn_def
  by (auto simp: step_then_def split: prod.splits sum.splits if_splits)

lemma elsewhere_if: "elsewhere f \<Longrightarrow> elsewhere g \<Longrightarrow> elsewhere (\<lambda>c. if b then f c else g c)"
  by (cases b) simp_all

lemma elsewhere_option:
  "elsewhere f \<Longrightarrow> (\<And>x. elsewhere (g x)) \<Longrightarrow> elsewhere (\<lambda>c. case m of None \<Rightarrow> f c | Some x \<Rightarrow> g x c)"
  by (cases m) simp_all

lemma elsewhere_pure: "elsewhere (\<lambda>c. (x, c))"
  by (rule elsewhere_same) simp

lemma elsewhere_query: "orderly env \<Longrightarrow> elsewhere (query env ctx f)"
  by (rule elsewhere_same) (rule query_spec(1))

lemma elsewhere_read: "orderly env \<Longrightarrow> elsewhere (read_installation env i)"
  by (rule elsewhere_same) (rule read_installation_conn)

lemma elsewhere_now: "elsewhere (sql_now env)"
  by (rule elsewhere_same) (auto dest: sql_now_conn)

lemma elsewhere_check: "elsewhere (check_cancel b)"
  by (rule elsewhere_same) (simp add: check_cancel_def split: if_splits)

lemma run_tx_refused:
  assumes "orderly env" "at_begin c \<noteq> None" "run_tx env ctx f c = (r, c')"
  shows "same_conn c c' \<and> \<not> is_ok r"
proof (cases "begin_sql env ctx c")
  case (Pair b c1)
  note s = begin_sql_spec [OF assms(1) Pair]
  show ?thesis
  proof (cases b)
    case (Inl e)
    with assms(3) Pair s(1,2) show ?thesis by (auto simp: run_tx_def same_conn_def)
  next
    case (Inr u)
    with s(3) [OF Inr] assms(2) show ?thesis by simp
  qed
qed

lemma elsewhere_run_tx:
  assumes "orderly env" "keeps_tx f"
    and "\<And>c x c'. f c = (Inr x, c') \<Longrightarrow> state_table (contents c') = state_table (contents c)"
  shows "elsewhere (run_tx env ctx f)"
  unfolding elsewhere_def
proof (intro allI impI)
  fix c r c' assume run: "run_tx env ctx f c = (r, c')"
  show "if at_begin c = None then at_begin c' = None \<and> state_table (contents c') = state_table (contents c)
      else same_conn c c'"
  proof (cases "at_begin c = None")
    case False
    from run_tx_refused [OF assms(1) False run] show ?thesis by (simp only: False if_False)
  next
    case True
    note rs = run_tx_spec [OF assms(1,2) True run]
    show ?thesis
    proof (cases r)
      case (Inl e)
      with rs(1,2) True show ?thesis by simp
    next
      case (Inr x)
      from rs(3) [OF Inr] obtain c1 c2 where "contents c1 = contents c" "f c1 = (Inr x, c2)" "contents c' = contents c2" by blast
      with assms(3) [OF this(2)] rs(1) True show ?thesis by simp
    qed
  qed
qed

lemma execute_rows:
  assumes "orderly env" "execute env ctx stmt c = (Inr x, c')" "\<And>t. state_table (snd (stmt t)) = state_table t"
  shows "state_table (contents c') = state_table (contents c)"
  using execute_spec(3) [OF assms(1,2) refl] assms(3) [of "contents c"] by simp

lemma elsewhere_write:
  assumes "orderly env" "\<And>t. state_table (snd (stmt t)) = state_table t"
  shows "elsewhere (run_tx env ctx (execute env ctx' stmt))"
  by (rule elsewhere_run_tx [OF assms(1) keeps_tx_execute [OF assms(1)]]) (rule execute_rows [OF assms(1) _ assms(2)])

lemma needs_tx_run: "orderly env \<Longrightarrow> needs_tx (run_tx env ctx f)"
  unfolding needs_tx_def using run_tx_refused by (metis prod.collapse)

lemma needs_tx_step_then:
  assumes "elsewhere f" "\<And>x. needs_tx (g x)"
  shows "needs_tx (\<lambda>c. step_then (f c) g)"
  unfolding needs_tx_def
proof (intro allI impI)
  fix c :: "'a conn" assume "at_begin c \<noteq> None"
  obtain r c' where f: "f c = (r, c')" by fastforce
  have "same_conn c c'"
    using assms(1) [unfolded elsewhere_def, rule_format, OF f] \<open>at_begin c \<noteq> None\<close> by (simp only: if_False)
  with \<open>at_begin c \<noteq> None\<close> have "at_begin c' \<noteq> None" by (simp add: same_conn_def)
  with f assms(2) show "\<not> is_ok (fst (step_then (f c) g))"
    by (cases r) (auto simp: needs_tx_def)
qed

lemma needs_tx_refuse: "needs_tx (\<lambda>c. (Inl e, c))"
  by (simp add: needs_tx_def)

lemma needs_tx_if: "needs_tx f \<Longrightarrow> needs_tx g \<Longrightarrow> needs_tx (\<lambda>c. if b then f c else g c)"
  by (cases b) simp_all

lemmas elsewhere_intros = elsewhere_step_then elsewhere_if elsewhere_option elsewhere_pure elsewhere_query elsewhere_read
  elsewhere_now elsewhere_check elsewhere_write

lemma append_audit_elsewhere: "orderly env \<Longrightarrow> elsewhere (append_audit env ev)"
  unfolding append_audit_def insert_audit_def by (intro elsewhere_intros) simp_all

lemma put_config_elsewhere: "orderly env \<Longrightarrow> elsewhere (put_component_config env i format v value b)"
  unfolding put_component_config_def by (intro elsewhere_intros) (simp_all add: upsert_config_def)

lemma put_secret_elsewhere: "orderly env \<Longrightarrow> elsewhere (put_secret env i name bytes meta b)"
  unfolding put_secret_def by (intro elsewhere_intros) (simp_all add: upsert_secret_def)

lemma get_config_elsewhere: "orderly env \<Longrightarrow> elsewhere (get_component_config env i)"
  unfolding get_component_config_def by (intro elsewhere_intros) simp_all

lemma get_secret_elsewhere: "orderly env \<Longrightarrow> elsewhere (get_secret env i name)"
  unfolding get_secret_def by (intro elsewhere_intros) simp_all

lemma list_secrets_elsewhere: "orderly env \<Longrightarrow> elsewhere (list_secret_names env i)"
  unfolding list_secret_names_def by (intro elsewhere_intros) simp_all

lemma delete_secret_elsewhere: "orderly env \<Longrightarrow> elsewhere (delete_secret env i name b)"
  unfolding delete_secret_def
proof (intro elsewhere_step_then elsewhere_check elsewhere_run_tx)
  let ?stmt = "delete_secret_row i (stored_secret_name name)"
  let ?f = "\<lambda>c. step_then (execute env ''delete secret'' ?stmt c) (\<lambda>changed c.
       if changed = 0 then (Inl (NotFound (NoSecret (stored_secret_name name) i)), c) else (Inr (), c))"
  assume o: "orderly env"
  then show "keeps_tx ?f"
    by (intro keeps_tx_step_then keeps_tx_execute) (simp_all add: keeps_tx_def)
  fix c x c' assume "?f c = (Inr x, c')"
  then obtain n where "execute env ''delete secret'' ?stmt c = (Inr n, c')"
    by (auto simp: result_simps split: if_splits)
  from execute_rows [OF o this] show "state_table (contents c') = state_table (contents c)"
    by (simp add: delete_secret_row_def)
qed simp_all

lemma config_writes_need_tx:
  assumes "orderly env"
  shows "needs_tx (put_component_config env i format v value b)" "needs_tx (put_secret env i name bytes meta b)"
    "needs_tx (delete_secret env i name b)"
  unfolding put_component_config_def put_secret_def delete_secret_def
  by (intro needs_tx_step_then needs_tx_if needs_tx_refuse needs_tx_run assms elsewhere_check elsewhere_read elsewhere_now)+

text \<open>The statements of \<open>remove_installation\<close>.\<close>

lemma keeps_tx_execute_all: "orderly env \<Longrightarrow> keeps_tx (execute_all env ctx stmts)"
proof (induction stmts)
  case Nil
  show ?case by (simp add: keeps_tx_def)
next
  case (Cons stmt stmts)
  have "execute_all env ctx (stmt # stmts) = (\<lambda>c. step_then (execute env ctx (\<lambda>t. ((), stmt t)) c) (\<lambda>_ c. execute_all env ctx stmts c))"
    by (rule ext) simp
  then show ?case using Cons by (simp only:) (intro keeps_tx_step_then keeps_tx_execute; simp)
qed

lemma execute_all_Inr:
  "orderly env \<Longrightarrow> execute_all env ctx stmts c = (Inr u, c') \<Longrightarrow> contents c' = fold (\<lambda>stmt t. stmt t) stmts (contents c)"
proof (induction stmts arbitrary: c)
  case (Cons stmt stmts)
  from Cons.prems(2) obtain c1 where one: "execute env ctx (\<lambda>t. ((), stmt t)) c = (Inr (), c1)"
    and rest: "execute_all env ctx stmts c1 = (Inr u, c')" by (auto simp: result_simps)
  have "contents c1 = stmt (contents c)" using execute_spec(3) [OF Cons.prems(1) one refl] by simp
  with Cons.IH [OF Cons.prems(1) rest] show ?case by simp
qed simp

definition remove_rows where
  "remove_rows env i ev now c =
     step_then (execute_all env ''delete uninstall rows'' (uninstall_statements i) c) (\<lambda>_ c.
     step_then (insert_audit env ev now c) (\<lambda>_ c. (Inr (), c)))"

lemma keeps_tx_remove_rows: "orderly env \<Longrightarrow> keeps_tx (remove_rows env i ev now)"
  unfolding remove_rows_def insert_audit_def
  by (intro keeps_tx_step_then keeps_tx_execute_all keeps_tx_execute) (simp_all add: keeps_tx_def)

lemma remove_rows_Inr:
  assumes "orderly env" "remove_rows env i ev now c = (Inr u, c')"
  shows "state_table (contents c') = (\<lambda>(j, k). if j = i then None else state_table (contents c) (j, k))"
proof -
  from assms(2) obtain u1 c1 n where all: "execute_all env ''delete uninstall rows'' (uninstall_statements i) c = (Inr u1, c1)"
    and ins: "insert_audit env ev now c1 = (Inr n, c')" by (auto simp: remove_rows_def result_simps)
  have "state_table (contents c') = state_table (contents c1)"
    by (rule execute_rows [OF assms(1) ins [unfolded insert_audit_def]]) simp
  with execute_all_Inr [OF assms(1) all] show ?thesis by (simp add: uninstall_statements_def)
qed

lemma remove_installation_spec:
  assumes "orderly env" "remove_installation env i ev b c = (r, c')" "at_begin c = None"
  shows "at_begin c' = None \<and> (case r of
      Inl e \<Rightarrow> state_table (contents c') = state_table (contents c)
    | Inr u \<Rightarrow> state_table (contents c') = (\<lambda>(j, k). if j = i then None else state_table (contents c) (j, k)))"
proof (cases b)
  case True
  with assms(2,3) show ?thesis by (auto simp: remove_installation_def check_cancel_def)
next
  case False
  obtain q c1 where read: "read_installation env i c = (q, c1)" by fastforce
  note same = same_conn_view [OF read_installation_conn [OF assms(1) read]]
  obtain n c2 where now: "sql_now env c1 = (n, c2)" by fastforce
  note c2 = sql_now_conn [OF now]
  show ?thesis
  proof (cases "(\<exists>e. q = Inl e) \<or> q = Inr None \<or> (\<exists>e. n = Inl e)")
    case True
    with assms(2,3) False read same now c2 show ?thesis
      by (cases q; cases n) (auto simp: remove_installation_def check_cancel_def split: if_splits)
  next
    case found: False
    then obtain x moment where q: "q = Inr (Some x)" "n = Inr moment" by (cases q; cases n) auto
    with assms(2) False read now c2 have run: "run_tx env ''begin uninstall transaction'' (remove_rows env i ev moment) c1 = (r, c')"
      by (simp add: remove_installation_def check_cancel_def remove_rows_def [abs_def])
    have none: "at_begin c1 = None" using same assms(3) by simp
    note rs = run_tx_spec [OF assms(1) keeps_tx_remove_rows [OF assms(1)] none run]
    show ?thesis
    proof (cases r)
      case (Inl e)
      with rs(1,2) same show ?thesis by auto
    next
      case (Inr u)
      from rs(3) [OF Inr] obtain c3 c4 where c3: "contents c3 = contents c1" and rows: "remove_rows env i ev moment c3 = (Inr u, c4)"
        and c4: "contents c' = contents c4" by blast
      have "contents c3 = contents c" using c3 same by simp
      from remove_rows_Inr [OF assms(1) rows, unfolded this] c4 rs(1) Inr show ?thesis by simp
    qed
  qed
qed

section \<open>The refinement\<close>

lemma on_conn_cases:
  assumes "on_conn resp f w = (r, w')"
  obtains e c where "f (conn w) = (Inl e, c)" "r = Inl e" "w' = w\<lparr>conn := c\<rparr>"
    | x c where "f (conn w) = (Inr x, c)" "r = Inr (resp x)" "w' = w\<lparr>conn := c\<rparr>"
  using assms by (auto simp: on_conn_def split: prod.splits sum.splits)

lemma abs_worker_conn:
  assumes "contents c = contents (conn w)" "at_begin c = at_begin (conn w)"
  shows "abs_worker (w\<lparr>conn := c\<rparr>) = abs_worker w" and "worker_inv (w\<lparr>conn := c\<rparr>) = worker_inv w"
  using assms by (simp_all add: abs_worker_def on_disk_def durable_def worker_inv_def split: option.split)

lemma abs_worker_same:
  "same_conn (conn w) c \<Longrightarrow> abs_worker (w\<lparr>conn := c\<rparr>) = abs_worker w"
  "same_conn (conn w) c \<Longrightarrow> worker_inv (w\<lparr>conn := c\<rparr>) = worker_inv w"
  by (simp_all add: same_conn_def abs_worker_conn)

text \<open>A step keeps the invariant, and is the step of the specification or no step at all.\<close>

definition refines_step :: "'audit Command \<Rightarrow> 'audit worker \<Rightarrow> (StorageError + Response) \<times> 'audit worker \<Rightarrow> bool" where
  "refines_step cmd w out \<longleftrightarrow>
     worker_inv (snd out) \<and>
     (case fst out of
        Inr x \<Rightarrow> spec_step cmd (abs_worker w) = Some (answer_of x, abs_worker (snd out))
      | Inl e \<Rightarrow> abs_worker (snd out) \<in> {abs_worker w, (abs_worker w)\<lparr>open_tx := None\<rparr>})"

lemma refines_step_idle:
  "worker_inv w \<Longrightarrow> refines_step cmd w (Inl e, w)"
  by (simp add: refines_step_def)

lemma refines_step_same:
  "worker_inv w \<Longrightarrow> same_conn (conn w) c \<Longrightarrow> refines_step cmd w (Inl e, w\<lparr>conn := c\<rparr>)"
  by (simp add: refines_step_def abs_worker_same)

lemma rollback_worker:
  assumes "orderly env" "worker_inv w"
  shows "worker_inv (rollback_state_tx env w)"
    and "abs_worker (rollback_state_tx env w) = (abs_worker w)\<lparr>open_tx := None\<rparr>"
proof -
  have "worker_inv (rollback_state_tx env w) \<and>
      abs_worker (rollback_state_tx env w) = (abs_worker w)\<lparr>open_tx := None\<rparr>"
  proof (cases "state_tx w")
    case None
    with assms(2) show ?thesis by (simp add: rollback_state_tx_def abs_worker_def)
  next
    case (Some a)
    with assms(2) obtain t0 where t0: "at_begin (conn w) = Some t0" by (auto simp: worker_inv_def)
    obtain r c where rb: "rollback_sql env ''rollback'' (conn w) = (r, c)" by fastforce
    from rollback_sql_spec [OF assms(1) rb t0] Some rb t0 show ?thesis
      by (simp add: rollback_state_tx_def abs_worker_def on_disk_def durable_def worker_inv_def)
  qed
  then show "worker_inv (rollback_state_tx env w)"
    "abs_worker (rollback_state_tx env w) = (abs_worker w)\<lparr>open_tx := None\<rparr>" by blast+
qed

lemma refines_step_rollback:
  "orderly env \<Longrightarrow> worker_inv w \<Longrightarrow> refines_step cmd w (Inl e, rollback_state_tx env w)"
  by (simp add: refines_step_def rollback_worker)

lemma in_tx_abs: "in_tx (abs_worker w) tx i \<longleftrightarrow>
    (\<exists>a. state_tx w = Some a \<and> tx = Some (tx_handle a) \<and> tx_installation a = i)"
  by (auto simp: in_tx_def abs_worker_def split: option.splits)

lemma outside_tx_abs: "outside_tx (abs_worker w) tx \<longleftrightarrow> state_tx w = None \<and> tx = None"
  by (auto simp: outside_tx_def abs_worker_def)

lemma require_active_tx_cases:
  assumes "require_active_tx (state_tx w) tx i = r"
  obtains e where "r = Inl e" "\<not> in_tx (abs_worker w) tx i" "\<not> outside_tx (abs_worker w) tx"
    | a where "r = Inr (Some a)" "state_tx w = Some a" "in_tx (abs_worker w) tx i" "tx_installation a = i"
    | "r = Inr None" "state_tx w = None" "outside_tx (abs_worker w) tx" "\<not> in_tx (abs_worker w) tx i"
  using assms by (auto simp: require_active_tx_def in_tx_abs outside_tx_abs split: option.splits if_splits)

lemma abs_in_tx:
  "state_tx w = Some a \<Longrightarrow> snd (the (open_tx (abs_worker w))) = values_of (contents (conn w)) (tx_installation a)"
  by (simp add: abs_worker_def)

lemma abs_outside:
  "worker_inv w \<Longrightarrow> state_tx w = None \<Longrightarrow> committed (abs_worker w) = view_of (contents (conn w))"
  by (simp add: abs_worker_def on_disk_def durable_def worker_inv_def)

lemma view_values_of [simp]: "view_values (view_of t i) = values_of t i"
  by (simp add: view_of_def)

lemma values_of_key: "key_ok k \<Longrightarrow> values_of t i (storage_key_text k) = map_option value_col (state_table t (i, storage_key_text k))"
  by (simp add: values_of_def key_ok_not_marker)

lemma tx_get_state_eq: "tx_get_state env i k = read_state_row env i k"
  by (rule ext) (simp add: tx_get_state_def)

lemma refines_get:
  assumes "orderly env" "worker_inv w" "key_ok k"
  shows "refines_step (GetState i k tx) w (dispatch_stateful env cancel (GetState i k tx) w)"
proof -
  obtain r c where read: "read_state_row env i k (conn w) = (r, c)" by fastforce
  note rd = read_state_row_spec [OF assms(1) read]
  have "refines_step (GetState i k tx) w (on_conn StateValueIs (read_state_row env i k) w)"
    if "in_tx (abs_worker w) tx i \<and> (\<exists>a. state_tx w = Some a \<and> tx_installation a = i) \<or>
      outside_tx (abs_worker w) tx \<and> state_tx w = None \<and> \<not> in_tx (abs_worker w) tx i"
  proof (cases r)
    case (Inl e)
    then show ?thesis by (simp add: on_conn_def read refines_step_same [OF assms(2) rd(1)])
  next
    case (Inr x)
    with rd(2) [OF Inr] values_of_key [OF assms(3)] that abs_outside [OF assms(2)]
    show ?thesis
      by (auto simp: on_conn_def read refines_step_def abs_worker_same [OF rd(1)] assms(2) abs_in_tx)
  qed
  then show ?thesis
    by (cases rule: require_active_tx_cases [OF refl, of w tx i])
      (auto simp: dispatch_stateful_def tx_get_state_eq refines_step_idle [OF assms(2)])
qed

lemma refines_version:
  assumes "orderly env" "worker_inv w"
  shows "refines_step (GetStateSchemaVersion i) w (dispatch_stateful env cancel (GetStateSchemaVersion i) w)"
proof -
  obtain r c where read: "get_state_schema_version env i (conn w) = (r, c)" by fastforce
  note rd = get_state_schema_version_spec [OF assms(1) read]
  have same: "view_version (view_of (contents (conn w)) i) = view_version (committed (abs_worker w) i)"
    using assms(2) by (auto simp: worker_inv_def tx_view_def abs_worker_def on_disk_def durable_def view_of_def
        split: option.splits)
  show ?thesis
  proof (cases r)
    case (Inl e)
    then show ?thesis by (simp add: dispatch_stateful_def on_conn_def read refines_step_same [OF assms(2) rd(1)])
  next
    case (Inr x)
    with rd(2) [OF Inr] same show ?thesis
      by (simp add: dispatch_stateful_def on_conn_def read refines_step_def abs_worker_same [OF rd(1)] assms(2))
  qed
qed

text \<open>A write inside the transaction.\<close>

lemma refines_write:
  assumes "orderly env" "worker_inv w" "state_tx w = Some a" "key_ok k"
    and op: "\<And>r c. f (conn w) = (r, c) \<Longrightarrow> at_begin c = at_begin (conn w) \<and>
      (\<forall>e. r = Inl e \<longrightarrow> contents c = contents (conn w)) \<and>
      (\<forall>u. r = Inr u \<longrightarrow> (\<exists>row. map_option value_col row = v \<and>
        contents c = set_row (tx_installation a) (storage_key_text k) row (contents (conn w))))"
    and step: "\<And>u c. f (conn w) = (Inr u, c) \<Longrightarrow> spec_step cmd (abs_worker w) =
      Some (Done, write_values (\<lambda>vals. vals(storage_key_text k := v)) (abs_worker w))"
    and resp: "\<And>x. answer_of (resp x) = Done"
  shows "refines_step cmd w (mark_dirty (on_conn resp f w))"
proof -
  obtain r c where f: "f (conn w) = (r, c)" by fastforce
  note o = op [OF f]
  show ?thesis
  proof (cases r)
    case (Inl e)
    with o have "same_conn (conn w) c" by (simp add: same_conn_def)
    with Inl show ?thesis by (simp add: on_conn_def f mark_dirty_def refines_step_same assms(2))
  next
    case (Inr u)
    with o obtain row where row: "map_option value_col row = v"
      "contents c = set_row (tx_installation a) (storage_key_text k) row (contents (conn w))" by blast
    let ?w = "w\<lparr>conn := c, state_tx := Some (a\<lparr>dirty := True\<rparr>)\<rparr>"
    have out: "mark_dirty (on_conn resp f w) = (Inr (resp u), ?w)"
      using Inr assms(3) by (simp add: on_conn_def f mark_dirty_def)
    from assms(2,3) obtain t0 where t0: "at_begin (conn w) = Some t0" "tx_view a t0 (contents (conn w))"
      by (auto simp: worker_inv_def)
    have "worker_inv ?w"
      using o t0 tx_view_set_row [OF t0(2) key_ok_not_marker [OF assms(4)]] row(2) by (simp add: worker_inv_def)
    moreover have "abs_worker ?w = write_values (\<lambda>vals. vals(storage_key_text k := v)) (abs_worker w)"
      using o t0 assms(3) row key_ok_not_marker [OF assms(4)]
      by (simp add: abs_worker_def on_disk_def durable_def write_values_def conn_simps)
    ultimately show ?thesis using step f Inr by (simp add: refines_step_def out resp)
  qed
qed

lemma refines_put:
  assumes "orderly env" "worker_inv w" "key_ok k"
  shows "refines_step (PutState i k ver value tx) w (dispatch_stateful env cancel (PutState i k ver value tx) w)"
proof (cases rule: require_active_tx_cases [OF refl, of w tx i])
  case (1 e)
  then show ?thesis by (simp add: dispatch_stateful_def refines_step_idle [OF assms(2)])
next
  case (2 a)
  show ?thesis
  proof (cases "ver \<noteq> None \<or> cancel 1")
    case True
    with 2 show ?thesis
      by (auto simp: dispatch_stateful_def refines_step_idle [OF assms(2)] refines_step_rollback [OF assms(1,2)])
  next
    case False
    have "refines_step (PutState i k ver value tx) w
        (mark_dirty (on_conn (\<lambda>_. StatePut) (tx_put_state env i k (tx_version a) value) w))"
    proof (rule refines_write [OF assms(1,2) 2(2) assms(3), where v = "Some value"])
      fix r c assume "tx_put_state env i k (tx_version a) value (conn w) = (r, c)"
      note s = tx_put_state_spec [OF assms(1) this]
      show "at_begin c = at_begin (conn w) \<and> (\<forall>e. r = Inl e \<longrightarrow> contents c = contents (conn w)) \<and>
        (\<forall>u. r = Inr u \<longrightarrow> (\<exists>row. map_option value_col row = Some value \<and>
          contents c = set_row (tx_installation a) (storage_key_text k) row (contents (conn w))))"
      proof (cases r)
        case (Inl e)
        with s(1,2) show ?thesis by simp
      next
        case (Inr u)
        from s(3) [OF Inr] obtain now where "contents c = set_row i (storage_key_text k)
          (Some \<lparr>version_col = uint (tx_version a), value_col = value, stamp_col = now\<rparr>) (contents (conn w))" ..
        with s(1) 2(4) Inr show ?thesis by (auto intro!: exI [of _ "Some _"])
      qed
    qed (use 2 False in simp_all)
    with 2 False show ?thesis by (simp add: dispatch_stateful_def)
  qed
next
  case 3
  show ?thesis
  proof (cases ver)
    case None
    with 3 show ?thesis by (simp add: dispatch_stateful_def refines_step_idle [OF assms(2)])
  next
    case (Some v)
    obtain r c where put: "put_state env i k v value (cancel 1) (conn w) = (r, c)" by fastforce
    have none: "at_begin (conn w) = None" using assms(2) 3 by (simp add: worker_inv_def)
    note s = put_state_spec [OF assms(1) put none]
    have out: "dispatch_stateful env cancel (PutState i k ver value tx) w = on_conn (\<lambda>_. StatePut) (put_state env i k v value (cancel 1)) w"
      using 3 Some by (simp add: dispatch_stateful_def)
    show ?thesis
    proof (cases r)
      case (Inl e)
      with s none have "same_conn (conn w) c" by (simp add: same_conn_def)
      then show ?thesis unfolding out by (simp add: on_conn_def put [unfolded One_nat_def] Inl refines_step_same [OF assms(2)])
    next
      case (Inr u)
      from s(3) [OF Inr] obtain now where ok: "view_version (view_of (contents (conn w)) i) \<in> {None, Some v}"
        and c: "contents c = set_row i STATE_SCHEMA_MARKER_KEY (Some \<lparr>version_col = uint v, value_col = [], stamp_col = now\<rparr>)
       (set_row i (storage_key_text k) (Some \<lparr>version_col = uint v, value_col = value, stamp_col = now\<rparr>) (contents (conn w)))"
        by blast
      have com: "committed (abs_worker w) = view_of (contents (conn w))" using abs_outside [OF assms(2)] 3 by blast
      have "view_of (contents c) = (view_of (contents (conn w)))(i :=
          \<lparr>view_version = ver, view_values = (values_of (contents (conn w)) i)(storage_key_text k \<mapsto> value)\<rparr>)"
        using key_ok_not_marker [OF assms(3)] by (auto simp: c conn_simps fun_eq_iff Some)
      then have "spec_step (PutState i k ver value tx) (abs_worker w) = Some (Done, abs_worker (w\<lparr>conn := c\<rparr>))"
        using 3 ok Some s(1) none by (auto simp: com) (simp_all add: abs_worker_def on_disk_def durable_def)
      moreover have "worker_inv (w\<lparr>conn := c\<rparr>)" using 3 s(1) by (simp add: worker_inv_def)
      ultimately show ?thesis unfolding out by (simp add: on_conn_def put [unfolded One_nat_def] Inr refines_step_def)
    qed
  qed
qed

lemma refines_delete:
  assumes "orderly env" "worker_inv w" "key_ok k"
  shows "refines_step (DeleteState i k tx) w (dispatch_stateful env cancel (DeleteState i k tx) w)"
proof (cases rule: require_active_tx_cases [OF refl, of w tx i])
  case (1 e)
  then show ?thesis by (simp add: dispatch_stateful_def refines_step_idle [OF assms(2)])
next
  case (2 a)
  show ?thesis
  proof (cases "cancel 1")
    case True
    with 2 show ?thesis by (simp add: dispatch_stateful_def refines_step_rollback [OF assms(1,2)])
  next
    case False
    let ?f = "delete_checked env ''delete state row in transaction'' i k"
    have "refines_step (DeleteState i k tx) w (mark_dirty (on_conn (\<lambda>_. StateDeleted) ?f w))"
    proof (rule refines_write [OF assms(1,2) 2(2) assms(3), where v = None])
      fix r c assume "?f (conn w) = (r, c)"
      note s = delete_checked_spec [OF assms(1) this]
      show "at_begin c = at_begin (conn w) \<and> (\<forall>e. r = Inl e \<longrightarrow> contents c = contents (conn w)) \<and>
        (\<forall>u. r = Inr u \<longrightarrow> (\<exists>row. map_option value_col row = None \<and>
          contents c = set_row (tx_installation a) (storage_key_text k) row (contents (conn w))))"
        using s(1,2) s(3) [THEN conjunct2] 2(4) by auto
    next
      fix u c assume "?f (conn w) = (Inr u, c)"
      from delete_checked_spec(3) [OF assms(1) this refl]
      have "values_of (contents (conn w)) i (storage_key_text k) \<noteq> None"
        by (simp add: values_of_key [OF assms(3)])
      then show "spec_step (DeleteState i k tx) (abs_worker w) =
          Some (Done, write_values (\<lambda>vals. vals(storage_key_text k := None)) (abs_worker w))"
        using 2 by (simp add: abs_in_tx)
    qed simp
    with 2 False show ?thesis by (simp add: dispatch_stateful_def tx_delete_state_eq)
  qed
next
  case 3
  show ?thesis
  proof (cases "cancel 1")
    case True
    with 3 show ?thesis by (simp add: dispatch_stateful_def check_cancel_def refines_step_idle [OF assms(2)])
  next
    case False
    obtain r c where del: "delete_state env i k (cancel 2) (conn w) = (r, c)" by fastforce
    have none: "at_begin (conn w) = None" using assms(2) 3 by (simp add: worker_inv_def)
    note s = delete_state_spec [OF assms(1) del none]
    have out: "dispatch_stateful env cancel (DeleteState i k tx) w = on_conn (\<lambda>_. StateDeleted) (delete_state env i k (cancel 2)) w"
      using 3 False by (simp add: dispatch_stateful_def check_cancel_def)
    show ?thesis
    proof (cases r)
      case (Inl e)
      with s none have "same_conn (conn w) c" by (simp add: same_conn_def)
      then show ?thesis unfolding out by (simp add: on_conn_def del Inl refines_step_same [OF assms(2)])
    next
      case (Inr u)
      note c = s(3) [OF Inr]
      have com: "committed (abs_worker w) = view_of (contents (conn w))" using abs_outside [OF assms(2)] 3 by blast
      have "view_of (contents c) = (view_of (contents (conn w)))(i := (view_of (contents (conn w)) i)
          \<lparr>view_values := (values_of (contents (conn w)) i)(storage_key_text k := None)\<rparr>)"
        using key_ok_not_marker [OF assms(3)] c by (auto simp: conn_simps fun_eq_iff)
      then have "spec_step (DeleteState i k tx) (abs_worker w) = Some (Done, abs_worker (w\<lparr>conn := c\<rparr>))"
        using 3 c s(1) none
        by (auto simp: com values_of_key [OF assms(3)]) (simp_all add: abs_worker_def on_disk_def durable_def)
      moreover have "worker_inv (w\<lparr>conn := c\<rparr>)" using 3 s(1) by (simp add: worker_inv_def)
      ultimately show ?thesis unfolding out by (simp add: on_conn_def del Inr refines_step_def)
    qed
  qed
qed

lemma refines_elsewhere:
  assumes "worker_inv w" "elsewhere f"
    and "\<And>x. is_ok (fst (f (conn w))) \<Longrightarrow> spec_step cmd (abs_worker w) = Some (answer_of (resp x), abs_worker w)"
  shows "refines_step cmd w (on_conn resp f w)"
proof -
  obtain r c where f: "f (conn w) = (r, c)" by fastforce
  note ew = assms(2) [unfolded elsewhere_def, rule_format, OF f]
  have "abs_worker (w\<lparr>conn := c\<rparr>) = abs_worker w \<and> worker_inv (w\<lparr>conn := c\<rparr>)"
  proof (cases "state_tx w")
    case None
    with assms(1) have none: "at_begin (conn w) = None" by (simp add: worker_inv_def)
    with ew have rows: "at_begin c = None" "state_table (contents c) = state_table (contents (conn w))" by simp_all
    have "values_of (contents c) = values_of (contents (conn w))"
      using rows(2) by (intro ext) (simp add: values_of_def)
    then have "view_of (contents c) = view_of (contents (conn w))"
      using rows(2) by (intro ext) (simp add: view_of_def)
    with rows(1) none None show ?thesis by (simp add: abs_worker_def on_disk_def durable_def worker_inv_def)
  next
    case (Some a)
    with assms(1) have "at_begin (conn w) \<noteq> None" by (auto simp: worker_inv_def)
    with ew have "same_conn (conn w) c" by (simp only: if_False)
    with assms(1) show ?thesis by (simp add: abs_worker_same)
  qed
  with assms(3) f show ?thesis
    by (cases r) (auto simp: on_conn_def refines_step_def)
qed

lemma refines_removal:
  assumes "orderly env" "worker_inv w" "state_tx w = None"
  shows "refines_step (RemoveInstallation i ev) w (on_conn (\<lambda>_. Removed) (remove_installation env i ev b) w)"
proof -
  obtain r c where f: "remove_installation env i ev b (conn w) = (r, c)" by fastforce
  have none: "at_begin (conn w) = None" using assms by (simp add: worker_inv_def)
  note s = remove_installation_spec [OF assms(1) f none]
  have com: "committed (abs_worker w) = view_of (contents (conn w))" by (rule abs_outside [OF assms(2,3)])
  have inv: "worker_inv (w\<lparr>conn := c\<rparr>)" using s assms(3) by (simp add: worker_inv_def)
  have rows: "abs_worker (w\<lparr>conn := c\<rparr>) = (abs_worker w)\<lparr>committed := view_of (contents c)\<rparr>"
    using s assms(3) by (simp add: abs_worker_def on_disk_def durable_def)
  show ?thesis
  proof (cases r)
    case (Inl e)
    with s have "state_table (contents c) = state_table (contents (conn w))" by simp
    then have "view_of (contents c) = view_of (contents (conn w))"
      by (intro ext) (simp add: view_of_def values_of_def fun_eq_iff)
    with com have "abs_worker (w\<lparr>conn := c\<rparr>) = abs_worker w" unfolding rows by simp
    with Inl inv f show ?thesis by (simp add: on_conn_def refines_step_def)
  next
    case (Inr u)
    with s have rest: "state_table (contents c) = (\<lambda>(j, k). if j = i then None else state_table (contents (conn w)) (j, k))"
      by simp
    have "view_of (contents c) = (view_of (contents (conn w)))(i := \<lparr>view_version = None, view_values = Map.empty\<rparr>)"
      by (intro ext) (simp add: view_of_def values_of_def rest fun_eq_iff)
    with com Inr inv f assms(3) show ?thesis
      by (simp add: on_conn_def refines_step_def rows) (simp add: abs_worker_def)
  qed
qed

text \<open>The commands about configuration and secrets, and the audit.\<close>

fun config_command :: "'audit Command \<Rightarrow> bool" where
  "config_command (GetComponentConfig i) \<longleftrightarrow> True"
| "config_command (PutComponentConfig i format v value) \<longleftrightarrow> True"
| "config_command (PutSecret i name bytes meta) \<longleftrightarrow> True"
| "config_command (GetSecretCiphertext i name) \<longleftrightarrow> True"
| "config_command (ListSecretNames i) \<longleftrightarrow> True"
| "config_command (DeleteSecret i name) \<longleftrightarrow> True"
| "config_command _ \<longleftrightarrow> False"

lemma needs_tx_closed:
  assumes "worker_inv w" "needs_tx f" "is_ok (fst (f (conn w)))"
  shows "open_tx (abs_worker w) = None"
proof -
  have "at_begin (conn w) = None" using assms(2,3) unfolding needs_tx_def by blast
  with assms(1) show ?thesis by (auto simp: worker_inv_def abs_worker_def split: option.splits)
qed

lemma refines_config:
  assumes "orderly env" "worker_inv w" "config_command cmd"
  shows "refines_step cmd w (dispatch_stateful env cancel cmd w)"
proof -
  note closed = needs_tx_closed [OF assms(2) config_writes_need_tx(1) [OF assms(1)]]
    needs_tx_closed [OF assms(2) config_writes_need_tx(2) [OF assms(1)]]
    needs_tx_closed [OF assms(2) config_writes_need_tx(3) [OF assms(1)]]
  note step = refines_elsewhere [OF assms(2)]
  show ?thesis
  proof (cases cmd)
    case (GetComponentConfig i)
    then show ?thesis using step [OF get_config_elsewhere [OF assms(1)]] by (simp add: dispatch_stateful_def)
  next
    case (GetSecretCiphertext i name)
    then show ?thesis using step [OF get_secret_elsewhere [OF assms(1)]] by (simp add: dispatch_stateful_def)
  next
    case (ListSecretNames i)
    then show ?thesis using step [OF list_secrets_elsewhere [OF assms(1)]] by (simp add: dispatch_stateful_def)
  next
    case (PutComponentConfig i format v bytes)
    then show ?thesis using step [OF put_config_elsewhere [OF assms(1)]] closed(1) refines_step_idle [OF assms(2)]
      by (simp add: dispatch_stateful_def check_cancel_def)
  next
    case (PutSecret i name bytes meta)
    then show ?thesis using step [OF put_secret_elsewhere [OF assms(1)]] closed(2) refines_step_idle [OF assms(2)]
      by (simp add: dispatch_stateful_def check_cancel_def)
  next
    case (DeleteSecret i name)
    then show ?thesis using step [OF delete_secret_elsewhere [OF assms(1)]] closed(3) refines_step_idle [OF assms(2)]
      by (simp add: dispatch_stateful_def check_cancel_def)
  qed (use assms(3) in simp_all)
qed

lemma refines_begin:
  assumes "orderly env" "worker_inv w"
  shows "refines_step (BeginStateTransaction i v mode) w (begin_state_transaction env i v mode b w)"
proof (cases "state_tx w")
  case (Some a)
  then show ?thesis by (simp add: begin_state_transaction_def refines_step_idle [OF assms(2)])
next
  case None
  let ?cmd = "BeginStateTransaction i v mode"
  have none: "at_begin (conn w) = None" using assms(2) None by (simp add: worker_inv_def)
  obtain q c1 where ver: "get_state_schema_version env i (conn w) = (q, c1)" by fastforce
  note vs = get_state_schema_version_spec [OF assms(1) ver]
  have idle: "refines_step ?cmd w (Inl e, w\<lparr>conn := c1\<rparr>)" for e by (rule refines_step_same [OF assms(2) vs(1)])
  show ?thesis
  proof (cases q)
    case (Inl e)
    with None ver idle show ?thesis by (simp add: begin_state_transaction_def)
  next
    case (Inr cur)
    have com: "view_version (committed (abs_worker w) i) = cur"
      using vs(2) [OF Inr] abs_outside [OF assms(2) None] by simp
    let ?allowed = "case mode of Normal \<Rightarrow> cur \<in> {None, Some v}
      | Migration \<Rightarrow> (case cur of None \<Rightarrow> False | Some x \<Rightarrow> x < v)"
    show ?thesis
    proof (cases "?allowed \<and> \<not> b")
      case False
      with None ver Inr idle show ?thesis
        by (auto simp: begin_state_transaction_def check_cancel_def split: StateTxMode.splits option.splits)
    next
      case True
      obtain r c2 where beg: "begin_sql env ''begin state transaction'' c1 = (r, c2)" by fastforce
      note bs = begin_sql_spec [OF assms(1) beg]
      let ?n = "saturating_add (tx_counter w) 1"
      have out: "begin_state_transaction env i v mode b w =
          (case r of Inl e \<Rightarrow> (Inl e, w\<lparr>conn := c2\<rparr>)
           | Inr _ \<Rightarrow> (Inr (StateTransactionBegan ?n), w\<lparr>conn := c2, tx_counter := ?n,
              state_tx := Some \<lparr>tx_handle = ?n, tx_installation = i, tx_version = v, dirty = False\<rparr>\<rparr>))"
        using None ver Inr True beg
        by (auto simp: begin_state_transaction_def check_cancel_def Let_def split: StateTxMode.splits option.splits sum.splits)
      show ?thesis
      proof (cases r)
        case (Inl e)
        with bs vs(1) have "same_conn (conn w) c2" by (simp add: same_conn_def)
        then show ?thesis unfolding out by (simp add: Inl refines_step_same [OF assms(2)])
      next
        case r: (Inr u)
        have c2: "contents c2 = contents (conn w)" "at_begin c2 = Some (contents (conn w))"
          using bs(1) bs(3) [OF r] vs(1) by (simp_all add: same_conn_def)
        have "open_tx (abs_worker w) = None" using None by (simp add: abs_worker_def)
        then show ?thesis
          using True com c2 none None unfolding out
          by (simp add: r refines_step_def worker_inv_def tx_view_def)
            (auto simp: abs_worker_def on_disk_def durable_def Let_def split: StateTxMode.splits option.splits)
      qed
    qed
  qed
qed

lemma refines_commit:
  assumes "orderly env" "worker_inv w"
  shows "refines_step (CommitStateTransaction h) w (commit_state_transaction env h b w)"
proof (cases "state_tx w")
  case None
  then show ?thesis by (simp add: commit_state_transaction_def refines_step_idle [OF assms(2)])
next
  case (Some a)
  let ?cmd = "CommitStateTransaction h"
  from assms(2) Some obtain t0 where t0: "at_begin (conn w) = Some t0" "tx_view a t0 (contents (conn w))"
    by (auto simp: worker_inv_def)
  show ?thesis
  proof (cases "tx_handle a \<noteq> h \<or> b")
    case True
    with Some show ?thesis
      by (auto simp: commit_state_transaction_def refines_step_idle [OF assms(2)] refines_step_rollback [OF assms])
  next
    case False
    let ?fin = "if dirty a then tx_finalize env (tx_installation a) (tx_version a) (conn w) else (Inr (), conn w)"
    obtain q c1 where fin: "?fin = (q, c1)" by fastforce
    have c1: "at_begin c1 = Some t0 \<and> (\<forall>u. q = Inr u \<longrightarrow> view_of (contents c1) =
        (if dirty a then (view_of t0)(tx_installation a := \<lparr>view_version = Some (tx_version a),
           view_values = values_of (contents (conn w)) (tx_installation a)\<rparr>) else view_of t0))"
    proof (cases "dirty a")
      case True
      with fin have "tx_finalize env (tx_installation a) (tx_version a) (conn w) = (q, c1)" by simp
      note s = tx_finalize_spec [OF assms(1) this]
      have "view_of (contents c1) = (view_of t0)(tx_installation a := \<lparr>view_version = Some (tx_version a),
           view_values = values_of (contents (conn w)) (tx_installation a)\<rparr>)" if q: "q = Inr u" for u
      proof -
        from s(3) [OF q] obtain now where c: "contents c1 = set_row (tx_installation a) STATE_SCHEMA_MARKER_KEY
            (Some \<lparr>version_col = uint (tx_version a), value_col = [], stamp_col = now\<rparr>) (contents (conn w))" ..
        have other: "view_of (contents (conn w)) j = view_of t0 j" if "j \<noteq> tx_installation a" for j
          using t0(2) that by (simp add: view_of_def tx_view_def fun_eq_iff values_of_def)
        show ?thesis
        proof
          fix j
          show "view_of (contents c1) j = ((view_of t0)(tx_installation a := \<lparr>view_version = Some (tx_version a),
             view_values = values_of (contents (conn w)) (tx_installation a)\<rparr>)) j"
            using other [of j] by (simp add: c conn_simps)
        qed
      qed
      with s(1) t0(1) True show ?thesis by simp
    next
      case False
      with fin t0 show ?thesis by (auto simp: tx_view_def)
    qed
    have failed: "refines_step ?cmd w (Inl e, rollback_state_tx env (w\<lparr>conn := c\<rparr>))"
      if "at_begin c = Some t0" for e c
    proof -
      obtain r c' where rb: "rollback_sql env ''rollback'' c = (r, c')" by fastforce
      from rollback_sql_spec [OF assms(1) rb that] Some rb t0 show ?thesis
        by (simp add: refines_step_def rollback_state_tx_def abs_worker_def on_disk_def durable_def worker_inv_def)
    qed
    show ?thesis
    proof (cases q)
      case (Inl e)
      with Some False fin c1 failed show ?thesis by (simp add: commit_state_transaction_def)
    next
      case (Inr u)
      obtain r c2 where com: "commit_sql env ''commit state transaction'' c1 = (r, c2)" by fastforce
      note cs = commit_sql_spec [OF assms(1) com]
      show ?thesis
      proof (cases r)
        case (Inl e)
        with cs(2) [OF Inl] c1 Some False fin Inr com failed show ?thesis
          by (simp add: commit_state_transaction_def)
      next
        case r: (Inr u')
        have "commit_state_transaction env h b w = (Inr StateCommitted, w\<lparr>conn := c2, state_tx := None\<rparr>)"
          using Some False fin Inr com r by (simp add: commit_state_transaction_def)
        moreover have "view_of (contents c2) = (if dirty a then (view_of t0)(tx_installation a := \<lparr>view_version = Some (tx_version a),
           view_values = values_of (contents (conn w)) (tx_installation a)\<rparr>) else view_of t0)"
          using cs(1) c1 Inr by simp
        ultimately show ?thesis
          using cs(3) [OF r] Some False t0
          by (simp add: refines_step_def worker_inv_def abs_worker_def on_disk_def durable_def)
      qed
    qed
  qed
qed

lemma refines_abort:
  assumes "orderly env" "worker_inv w"
  shows "refines_step (AbortStateTransaction h) w (abort_state_transaction env h w)"
proof (cases "map_option tx_handle (state_tx w) = Some h")
  case False
  then show ?thesis
    by (auto simp: abort_state_transaction_def refines_step_def assms(2) abs_worker_def)
next
  case True
  then obtain a where a: "state_tx w = Some a" "tx_handle a = h" by auto
  from assms(2) a obtain t0 where t0: "at_begin (conn w) = Some t0" by (auto simp: worker_inv_def)
  obtain r c where rb: "rollback_sql env ''abort state transaction'' (conn w) = (r, c)" by fastforce
  from rollback_sql_spec [OF assms(1) rb t0] a rb t0 show ?thesis
    by (simp add: abort_state_transaction_def refines_step_def abs_worker_def on_disk_def durable_def worker_inv_def)
qed

lemma serve_refines:
  assumes "orderly env" "worker_inv w" "command_ok cmd"
  shows "refines_step cmd w (serve env cancel cmd w)"
proof (cases "cancel 0")
  case True
  then show ?thesis by (simp add: serve_def refines_step_rollback [OF assms(1,2)])
next
  case False
  show ?thesis
  proof (cases cmd)
    case (AppendAudit ev)
    have "refines_step cmd w (on_conn AuditAppended (append_audit env ev) w)" if "state_tx w = None"
      by (rule refines_elsewhere [OF assms(2) append_audit_elsewhere [OF assms(1)]])
        (use AppendAudit that in \<open>simp add: abs_worker_def\<close>)
    with AppendAudit False show ?thesis using refines_step_idle [OF assms(2)] by (simp add: serve_def)
  next
    case (RemoveInstallation i ev)
    with False show ?thesis
      using refines_removal [OF assms(1,2)] refines_step_idle [OF assms(2)] by (simp add: serve_def)
  next
    case (BeginStateTransaction i v mode)
    with False show ?thesis by (simp add: serve_def dispatch_stateful_def refines_begin [OF assms(1,2)])
  next
    case (CommitStateTransaction h)
    with False show ?thesis by (simp add: serve_def dispatch_stateful_def refines_commit [OF assms(1,2)])
  next
    case (AbortStateTransaction h)
    with False show ?thesis by (simp add: serve_def dispatch_stateful_def refines_abort [OF assms(1,2)])
  qed (use False assms(3) refines_get [OF assms(1,2)] refines_put [OF assms(1,2)] refines_delete [OF assms(1,2)]
      refines_version [OF assms(1,2)] refines_config [OF assms(1,2)] in \<open>simp_all add: serve_def\<close>)
qed

section \<open>Runs\<close>

text \<open>A request is a command with the moments at which it is found cancelled.\<close>

type_synonym 'audit request = "(nat \<Rightarrow> bool) \<times> 'audit Command"

fun serve_all :: "sql_env \<Rightarrow> 'audit request list \<Rightarrow> 'audit worker \<Rightarrow>
    ('audit Command \<times> (StorageError + Response)) list \<times> 'audit worker" where
  "serve_all env [] w = ([], w)"
| "serve_all env ((cancel, cmd) # reqs) w =
     (let (r, w) = serve env cancel cmd w; (trace, w) = serve_all env reqs w in ((cmd, r) # trace, w))"

definition requests_ok :: "'audit request list \<Rightarrow> bool" where
  "requests_ok reqs \<longleftrightarrow> (\<forall>q \<in> set reqs. command_ok (snd q))"

lemma worker_new_inv [simp]: "worker_inv (worker_new t)"
  by (simp add: worker_inv_def worker_new_def)

lemma serve_all_inv:
  assumes "orderly env" "worker_inv w" "requests_ok reqs"
  shows "worker_inv (snd (serve_all env reqs w))"
  using assms(2,3)
proof (induction reqs arbitrary: w)
  case (Cons q reqs)
  obtain cancel cmd where q: "q = (cancel, cmd)" by fastforce
  obtain r w1 where s: "serve env cancel cmd w = (r, w1)" by fastforce
  have "worker_inv w1"
    using serve_refines [OF assms(1) Cons.prems(1), of cmd cancel] Cons.prems(2) s q
    by (simp add: requests_ok_def refines_step_def)
  moreover have "requests_ok reqs" using Cons.prems(2) by (simp add: requests_ok_def)
  ultimately show ?case using Cons.IH [of w1] by (simp add: q s split_beta)
qed simp

section \<open>One transaction\<close>

text \<open>The writes a trace shows to have succeeded.\<close>

fun effect :: "'audit Command \<times> (StorageError + Response) \<Rightarrow> (string \<rightharpoonup> u8 list) \<Rightarrow> (string \<rightharpoonup> u8 list)" where
  "effect (PutState i k ver value tx, Inr x) vals = vals(storage_key_text k \<mapsto> value)"
| "effect (DeleteState i k tx, Inr x) vals = vals(storage_key_text k := None)"
| "effect _ vals = vals"

fun is_write :: "'audit Command \<times> (StorageError + Response) \<Rightarrow> bool" where
  "is_write (PutState i k ver value tx, Inr x) \<longleftrightarrow> True"
| "is_write (DeleteState i k tx, Inr x) \<longleftrightarrow> True"
| "is_write _ \<longleftrightarrow> False"

fun is_begin :: "'audit Command \<Rightarrow> bool" where
  "is_begin (BeginStateTransaction i v mode) \<longleftrightarrow> True"
| "is_begin _ \<longleftrightarrow> False"

lemma spec_step_closed:
  "spec_step cmd s = Some (x, s') \<Longrightarrow> \<not> is_begin cmd \<Longrightarrow> open_tx s = None \<Longrightarrow> open_tx s' = None"
  by (cases cmd) (auto simp: in_tx_def outside_tx_def split: if_splits)

lemma spec_step_open:
  assumes "spec_step cmd s = Some (answer_of x, s')" "\<not> is_begin cmd"
    "open_tx s = Some (a, vals)" "open_tx s' = Some (a', vals')"
  shows "committed s' = committed s \<and> vals' = effect (cmd, Inr x) vals \<and>
    a' = (if is_write (cmd, Inr x :: StorageError + Response) then a\<lparr>dirty := True\<rparr> else a)"
  using assms by (cases cmd) (auto simp: in_tx_def outside_tx_def write_values_def split: if_splits)

lemma serve_all_tx:
  assumes "orderly env" "worker_inv w" "requests_ok reqs" "list_all (\<lambda>q. \<not> is_begin (snd q)) reqs"
    and "serve_all env reqs w = (tr, w')" "open_tx (abs_worker w') = Some (a', vals')"
  obtains a vals where "open_tx (abs_worker w) = Some (a, vals)" "committed (abs_worker w') = committed (abs_worker w)"
    "vals' = fold effect tr vals" "a' = (if \<exists>e \<in> set tr. is_write e then a\<lparr>dirty := True\<rparr> else a)"
proof -
  have "\<exists>a vals. open_tx (abs_worker w) = Some (a, vals) \<and> committed (abs_worker w') = committed (abs_worker w) \<and>
      vals' = fold effect tr vals \<and> a' = (if \<exists>e \<in> set tr. is_write e then a\<lparr>dirty := True\<rparr> else a)"
    using assms(2-6)
  proof (induction reqs arbitrary: w tr)
    case (Cons q reqs)
    obtain cancel cmd where q: "q = (cancel, cmd)" by fastforce
    obtain r w1 where s: "serve env cancel cmd w = (r, w1)" by fastforce
    obtain rest where rest: "serve_all env reqs w1 = (rest, w')" "tr = (cmd, r) # rest"
      using Cons.prems(4) by (auto simp: q s split: prod.splits)
    have ok: "command_ok cmd" "requests_ok reqs" "\<not> is_begin cmd" "list_all (\<lambda>q. \<not> is_begin (snd q)) reqs"
      using Cons.prems(2,3) q by (simp_all add: requests_ok_def)
    have ref: "refines_step cmd w (r, w1)" using serve_refines [OF assms(1) Cons.prems(1) ok(1), of cancel] s by simp
    then have "worker_inv w1" by (simp add: refines_step_def)
    from Cons.IH [OF this ok(2,4) rest(1) Cons.prems(5)] obtain a1 vals1 where
      ih: "open_tx (abs_worker w1) = Some (a1, vals1)" "committed (abs_worker w') = committed (abs_worker w1)"
        "vals' = fold effect rest vals1" "a' = (if \<exists>e \<in> set rest. is_write e then a1\<lparr>dirty := True\<rparr> else a1)" by blast
    show ?case
    proof (cases r)
      case (Inl e)
      with ref ih(1) have "abs_worker w1 = abs_worker w" by (auto simp: refines_step_def)
      with ih Inl rest(2) show ?thesis by (cases cmd) auto
    next
      case (Inr x)
      with ref have st: "spec_step cmd (abs_worker w) = Some (answer_of x, abs_worker w1)" by (simp add: refines_step_def)
      with spec_step_closed [OF st ok(3)] ih(1) obtain a vals where op: "open_tx (abs_worker w) = Some (a, vals)" by fastforce
      from spec_step_open [OF st ok(3) op ih(1)] ih op Inr rest(2) show ?thesis by auto
    qed
  qed simp
  with that show ?thesis by blast
qed

section \<open>Properties\<close>

text \<open>An installation and two requests, for the witnesses.\<close>

definition demo_env :: sql_env where
  "demo_env = \<lparr>answer = \<lambda>_. Works, rollback_fails = \<lambda>_. False, clock = \<lambda>_. 7\<rparr>"

definition demo_tables :: "unit tables" where
  "demo_tables = \<lparr>installations_table = [InstallationId 1 \<mapsto> \<lparr>component_col = ''c'', enabled_col = 1,
       lifecycle_col = ''active'', created_col = 0, updated_col = 0\<rparr>], state_table = Map.empty, audit_table = [],
     config_table = Map.empty, secret_table = (\<lambda>_. [])\<rparr>"

definition demo_put :: "u32 option \<Rightarrow> u64 option \<Rightarrow> unit Command" where
  "demo_put ver tx = PutState (InstallationId 1) (StorageKey ''k'') ver [5] tx"

lemma demo_orderly: "orderly demo_env"
  by (simp add: orderly_def demo_env_def)

lemma demo_key_ok: "key_ok (StorageKey ''k'')"
  by (simp add: key_ok_def StorageKey_new_def validate_key_def STATE_KEY_MAX_LEN_def is_lower_def less_eq_char_def)

lemma demo_component: "ComponentId_new ''c'' = Inr (ComponentId ''c'')"
  by code_simp

lemmas serve_eval = serve_def dispatch_stateful_def begin_state_transaction_def commit_state_transaction_def
  get_state_schema_version_def query_def execute_def read_installation_def parse_component_id_def demo_component
  parse_lifecycle_state_def state_from_str_def timestamp_from_i64_def sql_now_def run_tx_def commit_sql_def
  upsert_state_row_def upsert_schema_marker_def STATE_VALUE_MAX_BYTES_def begin_sql_def check_cancel_def
  put_state_def tx_put_state_def tx_finalize_def require_active_tx_def on_conn_def mark_dirty_def
  worker_new_def demo_tables_def demo_env_def demo_put_def Let_def

text \<open>C19: The storage worker implements its specification, provided that SQLite never ends a transaction on
  its own and that every \<open>ROLLBACK\<close> works (\<open>orderly\<close>), and that the keys of the requests are keys the
  storage layer accepts. Then in every state reached from a fresh worker, whichever statements fail,
  requests are cancelled or commands are refused, an accepted command is exactly one atomic step of the
  specification with the answer of the specification, and a command that fails leaves the
  specification's state as it was, or with the open transaction rolled back. The condition on SQLite is
  needed: \<open>autorollback_splits_transaction\<close> shows what happens without it.\<close>

theorem state_store_refines:
  assumes "orderly env" "requests_ok reqs" "command_ok cmd"
    and "w = snd (serve_all env reqs (worker_new t))" "serve env cancel cmd w = (r, w')"
  shows "(\<forall>x. r = Inr x \<longrightarrow> spec_step cmd (abs_worker w) = Some (answer_of x, abs_worker w')) \<and>
    (\<forall>e. r = Inl e \<longrightarrow> abs_worker w' = abs_worker w \<or> abs_worker w' = (abs_worker w)\<lparr>open_tx := None\<rparr>)"
proof -
  have "worker_inv w" unfolding assms(4) by (rule serve_all_inv [OF assms(1) worker_new_inv assms(2)])
  from serve_refines [OF assms(1) this assms(3), of cancel] assms(5) show ?thesis
    by (auto simp: refines_step_def)
qed

lemma state_store_refines_witness:
  "spec_step (demo_put (Some 3) None) (abs_worker (worker_new demo_tables)) =
     Some (Done, abs_worker (snd (serve demo_env (\<lambda>_. False) (demo_put (Some 3) None) (worker_new demo_tables))))"
proof -
  have "fst (serve demo_env (\<lambda>_. False) (demo_put (Some 3) None) (worker_new demo_tables)) = Inr StatePut"
    by (simp add: serve_eval)
  with state_store_refines [OF demo_orderly, of "[]" "demo_put (Some 3) None" "worker_new demo_tables" demo_tables "\<lambda>_. False"]
  show ?thesis by (cases "serve demo_env (\<lambda>_. False) (demo_put (Some 3) None) (worker_new demo_tables)")
      (simp add: requests_ok_def demo_put_def demo_key_ok)
qed

text \<open>C20: A state transaction is all or nothing, provided that SQLite never ends a transaction on its own
  and that every \<open>ROLLBACK\<close> works (\<open>orderly\<close>). While it is open nothing of it is on disk, whatever
  requests with acceptable keys come in between, other than one to begin a further transaction, so a
  crash loses all of it; its commit, when it
  succeeds, puts the effect of all its successful writes on disk together with its schema version, for
  its installation alone; and a commit that fails leaves the disk as it was at the beginning. Without
  the condition on SQLite this is false, as \<open>autorollback_splits_transaction\<close> shows.\<close>

theorem state_tx_all_or_nothing:
  assumes "orderly env" "requests_ok reqs0" "requests_ok reqs" "list_all (\<lambda>q. \<not> is_begin (snd q)) reqs"
    and "w0 = snd (serve_all env reqs0 (worker_new t))"
    and "serve env cancel0 (BeginStateTransaction i v mode) w0 = (Inr (StateTransactionBegan h), w1)"
    and "serve_all env reqs w1 = (tr, w2)" "state_tx w2 \<noteq> None"
    and "serve env cancel (CommitStateTransaction h) w2 = (r, w3)"
  shows "view_of (on_disk w2) = view_of (on_disk w0) \<and>
    view_of (on_disk w3) =
      (if is_ok r \<and> (\<exists>e \<in> set tr. is_write e)
       then (view_of (on_disk w0))(i := \<lparr>view_version = Some v, view_values = fold effect tr (values_of (on_disk w0) i)\<rparr>)
       else view_of (on_disk w0))"
proof -
  have inv0: "worker_inv w0" unfolding assms(5) by (rule serve_all_inv [OF assms(1) worker_new_inv assms(2)])
  have "refines_step (BeginStateTransaction i v mode) w0 (Inr (StateTransactionBegan h), w1)"
    using serve_refines [OF assms(1) inv0, of "BeginStateTransaction i v mode" cancel0] assms(6) by simp
  then have inv1: "worker_inv w1" and "abs_worker w1 = (abs_worker w0)\<lparr>begun := h, open_tx :=
      Some (\<lparr>tx_handle = h, tx_installation = i, tx_version = v, dirty = False\<rparr>, view_values (committed (abs_worker w0) i))\<rparr>"
    by (auto simp: refines_step_def Let_def split: if_splits)
  then have op: "open_tx (abs_worker w1) = Some (\<lparr>tx_handle = h, tx_installation = i, tx_version = v, dirty = False\<rparr>,
        view_values (committed (abs_worker w0) i))" "committed (abs_worker w1) = committed (abs_worker w0)"
    by simp_all
  have inv2: "worker_inv w2" using serve_all_inv [OF assms(1) inv1 assms(3)] assms(7) by simp
  obtain a' vals' where open2: "open_tx (abs_worker w2) = Some (a', vals')" using assms(8) by (auto simp: abs_worker_def)
  have old: "values_of (on_disk w0) i = view_values (committed (abs_worker w0) i)" by (simp add: abs_worker_def)
  obtain a vals where tx: "open_tx (abs_worker w1) = Some (a, vals)" "committed (abs_worker w2) = committed (abs_worker w1)"
    "vals' = fold effect tr vals" "a' = (if \<exists>e \<in> set tr. is_write e then a\<lparr>dirty := True\<rparr> else a)"
    by (rule serve_all_tx [OF assms(1) inv1 assms(3,4,7) open2])
  from tx(1) op(1) have a: "a = \<lparr>tx_handle = h, tx_installation = i, tx_version = v, dirty = False\<rparr>"
    "vals = view_values (committed (abs_worker w0) i)" by simp_all
  have com: "committed (abs_worker w2) = committed (abs_worker w0)" by (simp only: tx(2) op(2))
  have vals: "vals' = fold effect tr (values_of (on_disk w0) i)" by (simp only: tx(3) a(2) old)
  have a': "tx_handle a' = h" "tx_installation a' = i" "tx_version a' = v" "dirty a' \<longleftrightarrow> (\<exists>e \<in> set tr. is_write e)"
    unfolding tx(4) a(1) by (cases "\<exists>e \<in> set tr. is_write e"; simp)+
  have ref: "refines_step (CommitStateTransaction h) w2 (r, w3)"
    using serve_refines [OF assms(1) inv2, of "CommitStateTransaction h" cancel] assms(9) by simp
  have disk: "view_of (on_disk w) = committed (abs_worker w)" for w :: "'a worker" by (simp add: abs_worker_def)
  show ?thesis
  proof (cases r)
    case (Inl e)
    with ref have "committed (abs_worker w3) = committed (abs_worker w2)" by (auto simp: refines_step_def)
    with Inl com show ?thesis unfolding disk by simp
  next
    case (Inr x)
    with ref have "spec_step (CommitStateTransaction h :: 'a Command) (abs_worker w2) = Some (answer_of x, abs_worker w3)"
      by (simp add: refines_step_def)
    note st = this
    have "committed (abs_worker w3) = (if dirty a'
        then (committed (abs_worker w2))(i := \<lparr>view_version = Some v, view_values = vals'\<rparr>) else committed (abs_worker w2))"
    proof (cases "dirty a'")
      case True
      with st open2 a'(1-3) have "(abs_worker w2)\<lparr>open_tx := None, committed :=
        (committed (abs_worker w2))(i := \<lparr>view_version = Some v, view_values = vals'\<rparr>)\<rparr> = abs_worker w3" by simp
      from arg_cong [OF this, of committed] True show ?thesis by simp
    next
      case False
      with st open2 a'(1-3) have "(abs_worker w2)\<lparr>open_tx := None\<rparr> = abs_worker w3" by simp
      from arg_cong [OF this, of committed] False show ?thesis by simp
    qed
    with Inr com a'(4) vals show ?thesis unfolding disk old by simp
  qed
qed

definition demo_begin :: "unit worker" where
  "demo_begin = \<lparr>conn = \<lparr>contents = demo_tables, at_begin = Some demo_tables, executed = 2\<rparr>,
     state_tx = Some \<lparr>tx_handle = 1, tx_installation = InstallationId 1, tx_version = 3, dirty = False\<rparr>, tx_counter = 1\<rparr>"

definition demo_written :: "unit worker" where
  "demo_written = demo_begin\<lparr>conn := \<lparr>contents = demo_tables\<lparr>state_table :=
       [(InstallationId 1, ''k'') \<mapsto> \<lparr>version_col = 3, value_col = [5], stamp_col = 7\<rparr>]\<rparr>,
       at_begin = Some demo_tables, executed = 3\<rparr>,
     state_tx := Some \<lparr>tx_handle = 1, tx_installation = InstallationId 1, tx_version = 3, dirty = True\<rparr>\<rparr>"

lemma demo_begin_ok:
  "serve demo_env (\<lambda>_. False) (BeginStateTransaction (InstallationId 1) 3 Normal) (worker_new demo_tables) =
     (Inr (StateTransactionBegan 1), demo_begin)"
  by (simp add: serve_eval demo_begin_def saturating_add_def)

lemma demo_written_ok:
  "serve_all demo_env [((\<lambda>_. False), demo_put None (Some 1))] demo_begin =
     ([(demo_put None (Some 1), Inr StatePut)], demo_written)"
  by (simp add: serve_eval demo_begin_def demo_written_def)

lemma demo_commit_ok: "is_ok (fst (serve demo_env (\<lambda>_. False) (CommitStateTransaction 1) demo_written))"
  by (simp add: serve_eval demo_begin_def demo_written_def)

lemma state_tx_all_or_nothing_witness:
  "view_of (on_disk (snd (serve demo_env (\<lambda>_. False) (CommitStateTransaction 1) demo_written))) (InstallationId 1) =
     \<lparr>view_version = Some 3, view_values = [''k'' \<mapsto> [5]]\<rparr>"
proof -
  obtain r w3 where c: "serve demo_env (\<lambda>_. False) (CommitStateTransaction 1) demo_written = (r, w3)" by fastforce
  have ok: "requests_ok [((\<lambda>_. False), demo_put None (Some 1))]" "is_ok r"
    "list_all (\<lambda>q. \<not> is_begin (snd q)) [((\<lambda>_. False :: bool) :: nat \<Rightarrow> bool, demo_put None (Some 1))]"
    using demo_commit_ok by (simp_all add: requests_ok_def demo_put_def demo_key_ok c)
  have "state_tx demo_written \<noteq> None" by (simp add: demo_written_def)
  note tx = this
  have "requests_ok []" "worker_new demo_tables = snd (serve_all demo_env [] (worker_new demo_tables))"
    by (simp_all add: requests_ok_def)
  from state_tx_all_or_nothing [OF demo_orderly this(1) ok(1,3) this(2) demo_begin_ok demo_written_ok tx c]
  have "view_of (on_disk w3) (InstallationId 1) = \<lparr>view_version = Some 3,
      view_values = (values_of (on_disk (worker_new demo_tables)) (InstallationId 1))(''k'' \<mapsto> [5])\<rparr>"
    using ok(2) by (simp add: demo_put_def)
  moreover have "values_of (on_disk (worker_new demo_tables)) (InstallationId 1) = Map.empty"
    by (simp add: fun_eq_iff values_of_def on_disk_def durable_def worker_new_def demo_tables_def)
  ultimately show ?thesis by (simp add: c)
qed

section \<open>When SQLite rolls back by itself\<close>

text \<open>
  The worker does not ask the connection whether its transaction is still open. If a statement fails
  in a way that makes SQLite roll the transaction back, the worker goes on: the following writes are
  committed one by one, and the commit at the end reports a failure. Here the second of three writes
  fails so; the first is lost, the third and the schema version are on disk.
\<close>

definition full_disk_env :: sql_env where
  "full_disk_env = demo_env\<lparr>answer := (\<lambda>n. if n = 3 then Fails_and_rolls_back else Works)\<rparr>"

definition three_writes :: "unit request list" where
  "three_writes = map (Pair (\<lambda>_. False))
     [BeginStateTransaction (InstallationId 1) 3 Normal,
      PutState (InstallationId 1) (StorageKey ''a'') None [1] (Some 1),
      PutState (InstallationId 1) (StorageKey ''b'') None [2] (Some 1),
      PutState (InstallationId 1) (StorageKey ''c'') None [3] (Some 1),
      CommitStateTransaction 1]"

lemma autorollback_splits_transaction:
  "map (is_ok \<circ> snd) (fst (serve_all full_disk_env three_writes (worker_new demo_tables))) = [True, True, False, True, False] \<and>
   view_of (on_disk (snd (serve_all full_disk_env three_writes (worker_new demo_tables)))) (InstallationId 1) =
     \<lparr>view_version = Some 3, view_values = [''c'' \<mapsto> [3]]\<rparr>"
  by (simp add: three_writes_def full_disk_env_def serve_eval saturating_add_def sql_failed_def durable_def
      rollback_state_tx_def rollback_sql_def on_disk_def view_of_def values_of_def fun_eq_iff STATE_SCHEMA_MARKER_KEY_def)

end
