(* ===== verification/StatePorts.thy ===== *)
theory StatePorts
  imports StateSpec
begin

text \<open>
  The ports between the application and the storage layer: the trait \<open>StateStorePort\<close>
  (\<open>crates/application/src/ports/state.rs\<close>) and the trait \<open>StatefulAuditPort\<close>
  (\<open>crates/application/src/ports/audit.rs\<close>) as records of operations on a state, what they promise as the
  locale \<open>state_store_port\<close>, and their implementation \<open>StoragePorts\<close>
  (\<open>crates/storage-sqlite/src/ports.rs\<close>) on the worker of \<open>StateStore\<close>.

  \<open>StoragePorts\<close> submits a command and waits for its reply, so one call of a port is one step of the
  worker; its requests are never cancelled. A transaction has two names: the handle the worker gave it,
  and the identifier the ports gave that handle.
\<close>

section \<open>The traits\<close>

datatype ConfigFormat = Json | Toml | Raw

fun ConfigFormat_as_str :: "ConfigFormat \<Rightarrow> string" where
  "ConfigFormat_as_str Json = ''json''"
| "ConfigFormat_as_str Toml = ''toml''"
| "ConfigFormat_as_str Raw = ''raw''"

datatype StatefulAuditEvent =
    StateRead InstallationId StateKey
  | StateCasApplied InstallationId StateKey
  | StateCasRejected InstallationId StateKey
  | StateTxBegan InstallationId u32
  | StateTxCommitted InstallationId u32
  | StateTxAborted InstallationId u32
  | StateTxPut InstallationId StateKey
  | StateTxDeleted InstallationId StateKey
  | StateFailed InstallationId string string
  | MigrationStarted InstallationId u32 u32
  | MigrationCommitted InstallationId u32 u32
  | MigrationRolledBack InstallationId u32 u32 string
  | MigrationFailed InstallationId u32 u32 string
  | ConfigRead InstallationId u64
  | ConfigWritten InstallationId u64 ConfigFormat
  | ConfigFailed InstallationId string string
  | SecretRead InstallationId SecretName u64
  | SecretDenied InstallationId SecretName
  | SecretRotated InstallationId SecretName u64
  | SecretDeleted InstallationId SecretName
  | SecretListed InstallationId nat
  | SecretFailed InstallationId "SecretName option" string

datatype StateStoreError =
    StoreNotFound storage_text
  | StoreVersionMismatch InstallationId "u32 option" u32
  | TransactionConflict storage_text
  | StoreInvalidArgument storage_text
  | StoreCorrupt storage_text
  | StoreStorage StorageError

datatype AuditError = AuditStorage StorageError

record 's StateStorePort =
  port_get :: "InstallationId \<Rightarrow> StateKey \<Rightarrow> 's \<Rightarrow> (StateStoreError + StateValue option) \<times> 's"
  port_put :: "InstallationId \<Rightarrow> StateKey \<Rightarrow> u32 \<Rightarrow> StateValue \<Rightarrow> 's \<Rightarrow> (StateStoreError + unit) \<times> 's"
  port_delete :: "InstallationId \<Rightarrow> StateKey \<Rightarrow> 's \<Rightarrow> (StateStoreError + unit) \<times> 's"
  port_schema_version :: "InstallationId \<Rightarrow> 's \<Rightarrow> (StateStoreError + u32 option) \<times> 's"
  port_begin_transaction :: "InstallationId \<Rightarrow> u32 \<Rightarrow> 's \<Rightarrow> (StateStoreError + u64) \<times> 's"
  port_begin_migration :: "InstallationId \<Rightarrow> u32 \<Rightarrow> 's \<Rightarrow> (StateStoreError + u64) \<times> 's"
  port_tx_get :: "u64 \<Rightarrow> InstallationId \<Rightarrow> StateKey \<Rightarrow> 's \<Rightarrow> (StateStoreError + StateValue option) \<times> 's"
  port_tx_put :: "u64 \<Rightarrow> InstallationId \<Rightarrow> StateKey \<Rightarrow> StateValue \<Rightarrow> 's \<Rightarrow> (StateStoreError + unit) \<times> 's"
  port_tx_delete :: "u64 \<Rightarrow> InstallationId \<Rightarrow> StateKey \<Rightarrow> 's \<Rightarrow> (StateStoreError + unit) \<times> 's"
  port_commit :: "u64 \<Rightarrow> 's \<Rightarrow> (StateStoreError + unit) \<times> 's"
  port_abort :: "u64 \<Rightarrow> 's \<Rightarrow> (StateStoreError + unit) \<times> 's"

type_synonym 's StatefulAuditPort = "StatefulAuditEvent \<Rightarrow> 's \<Rightarrow> (AuditError + unit) \<times> 's"

section \<open>Audit events of the storage layer\<close>

datatype AuditActor = UserActor int | SystemActor | RecoveryActor

datatype AuditCategory =
    AuthCategory | SessionCategory | UserCategory | ComponentLifecycle | GrantCategory | ConfigCategory
  | RecoveryCategory | ArtifactCategory

datatype AuditOutcome = Success | Failure

record AuditEvent =
  audit_actor :: AuditActor
  audit_category :: AuditCategory
  audit_action :: string
  audit_target :: "string option"
  audit_outcome :: AuditOutcome
  audit_detail :: "string option"

definition MAX_TEXT_LEN :: nat where "MAX_TEXT_LEN = 65536"

definition validate_text :: "string \<Rightarrow> string \<Rightarrow> nat \<Rightarrow> StorageError + unit" where
  "validate_text v kind max_len =
     (if v = [] then Inl (InvalidArgument (MustBeNonEmpty kind))
      else if length v > max_len then Inl (InvalidArgument (TooLongKey kind max_len))
      else if has_control v then Inl (InvalidArgument (TextControlCharacters kind))
      else Inr ())"

definition AuditEvent_new ::
  "AuditActor \<Rightarrow> AuditCategory \<Rightarrow> string \<Rightarrow> string option \<Rightarrow> AuditOutcome \<Rightarrow> string option \<Rightarrow> StorageError + AuditEvent" where
  "AuditEvent_new actor category action target outcome detail =
     and_then (validate_text action ''audit action'' 255) (\<lambda>_.
     and_then (case target of Some t \<Rightarrow> validate_text t ''audit target'' 255 | None \<Rightarrow> Inr ()) (\<lambda>_.
     and_then (case detail of Some d \<Rightarrow> validate_text d ''audit detail'' MAX_TEXT_LEN | None \<Rightarrow> Inr ()) (\<lambda>_.
     Inr \<lparr>audit_actor = actor, audit_category = category, audit_action = action, audit_target = target,
       audit_outcome = outcome, audit_detail = detail\<rparr>)))"

section \<open>The implementation\<close>

record StoragePorts =
  executor :: "AuditEvent worker"
  tx_map :: "u64 \<rightharpoonup> u64"
  next_tx :: u64

fun state_error :: "StorageError \<Rightarrow> StateStoreError" where
  "state_error (NotFound m) = StoreNotFound m"
| "state_error (SchemaVersionMismatch i e r) = StoreVersionMismatch i (Some e) r"
| "state_error (StateTransactionConflict m) = TransactionConflict m"
| "state_error (InvalidArgument m) = StoreInvalidArgument m"
| "state_error (CorruptState m) = StoreCorrupt m"
| "state_error e = StoreStorage e"

definition submit ::
  "sql_env \<Rightarrow> AuditEvent Command \<Rightarrow> StoragePorts \<Rightarrow> (StateStoreError + Response) \<times> StoragePorts" where
  "submit env cmd p =
     (let (r, w) = serve env (\<lambda>_. False) cmd (executor p) in (map_err state_error r, p\<lparr>executor := w\<rparr>))"

definition to_storage_state_key :: "StateKey \<Rightarrow> StateStoreError + StorageKey" where
  "to_storage_state_key k = map_err state_error (StorageKey_new (state_key_text k))"

definition to_domain_state_value :: "StateValueRecord \<Rightarrow> StateStoreError + StateValue" where
  "to_domain_state_value r =
     map_err (\<lambda>_. state_error (CorruptState StateValueBound)) (StateValue_new (record_value r))"

definition unexpected :: "string \<Rightarrow> StateStoreError" where
  "unexpected what = state_error (CorruptState (UnexpectedResponse what))"

text \<open>What a call makes of the reply.\<close>

definition reply_value :: "Response \<Rightarrow> StateStoreError + StateValue option" where
  "reply_value x =
     (case x of
        StateValueIs None \<Rightarrow> Inr None
      | StateValueIs (Some r) \<Rightarrow> and_then (to_domain_state_value r) (\<lambda>v. Inr (Some v))
      | _ \<Rightarrow> Inl (unexpected ''GetState''))"

definition reply_unit :: "Response \<Rightarrow> string \<Rightarrow> Response \<Rightarrow> StateStoreError + unit" where
  "reply_unit expected what x = (if x = expected then Inr () else Inl (unexpected what))"

definition remember_tx :: "u64 \<Rightarrow> StoragePorts \<Rightarrow> u64 \<times> StoragePorts" where
  "remember_tx h p =
     (let n = saturating_add (next_tx p) 1 in (n, p\<lparr>next_tx := n, tx_map := (tx_map p)(n \<mapsto> h)\<rparr>))"

definition take_tx :: "u64 \<Rightarrow> StoragePorts \<Rightarrow> (StateStoreError + u64) \<times> StoragePorts" where
  "take_tx tx p =
     (case tx_map p tx of
        None \<Rightarrow> (Inl (TransactionConflict NoSuchTransaction), p)
      | Some h \<Rightarrow> (Inr h, p\<lparr>tx_map := (tx_map p)(tx := None)\<rparr>))"

definition handle_of :: "u64 \<Rightarrow> StoragePorts \<Rightarrow> (StateStoreError + u64) \<times> StoragePorts" where
  "handle_of tx p =
     (case tx_map p tx of
        None \<Rightarrow> (Inl (TransactionConflict NoSuchTransaction), p)
      | Some h \<Rightarrow> (Inr h, p))"

definition storage_get :: "sql_env \<Rightarrow> InstallationId \<Rightarrow> StateKey \<Rightarrow> StoragePorts \<Rightarrow>
    (StateStoreError + StateValue option) \<times> StoragePorts" where
  "storage_get env i k p =
     step_then (to_storage_state_key k, p) (\<lambda>sk p.
     step_then (submit env (GetState i sk None) p) (\<lambda>x p. (reply_value x, p)))"

definition storage_put :: "sql_env \<Rightarrow> InstallationId \<Rightarrow> StateKey \<Rightarrow> u32 \<Rightarrow> StateValue \<Rightarrow> StoragePorts \<Rightarrow>
    (StateStoreError + unit) \<times> StoragePorts" where
  "storage_put env i k v value p =
     step_then (to_storage_state_key k, p) (\<lambda>sk p.
     step_then (submit env (PutState i sk (Some v) (state_value_bytes value) None) p) (\<lambda>x p.
     (reply_unit StatePut ''PutState'' x, p)))"

definition storage_delete :: "sql_env \<Rightarrow> InstallationId \<Rightarrow> StateKey \<Rightarrow> StoragePorts \<Rightarrow>
    (StateStoreError + unit) \<times> StoragePorts" where
  "storage_delete env i k p =
     step_then (to_storage_state_key k, p) (\<lambda>sk p.
     step_then (submit env (DeleteState i sk None) p) (\<lambda>x p. (reply_unit StateDeleted ''DeleteState'' x, p)))"

definition storage_schema_version :: "sql_env \<Rightarrow> InstallationId \<Rightarrow> StoragePorts \<Rightarrow>
    (StateStoreError + u32 option) \<times> StoragePorts" where
  "storage_schema_version env i p =
     step_then (submit env (GetStateSchemaVersion i) p) (\<lambda>x p.
     (case x of StateSchemaVersionIs v \<Rightarrow> Inr v | _ \<Rightarrow> Inl (unexpected ''GetStateSchemaVersion''), p))"

definition storage_begin :: "sql_env \<Rightarrow> StateTxMode \<Rightarrow> InstallationId \<Rightarrow> u32 \<Rightarrow> StoragePorts \<Rightarrow>
    (StateStoreError + u64) \<times> StoragePorts" where
  "storage_begin env mode i v p =
     step_then (submit env (BeginStateTransaction i v mode) p) (\<lambda>x p.
     case x of
       StateTransactionBegan h \<Rightarrow> (let (tx, p) = remember_tx h p in (Inr tx, p))
     | _ \<Rightarrow> (Inl (unexpected ''BeginStateTransaction''), p))"

definition storage_tx_get :: "sql_env \<Rightarrow> u64 \<Rightarrow> InstallationId \<Rightarrow> StateKey \<Rightarrow> StoragePorts \<Rightarrow>
    (StateStoreError + StateValue option) \<times> StoragePorts" where
  "storage_tx_get env tx i k p =
     step_then (handle_of tx p) (\<lambda>h p.
     step_then (to_storage_state_key k, p) (\<lambda>sk p.
     step_then (submit env (GetState i sk (Some h)) p) (\<lambda>x p. (reply_value x, p))))"

definition storage_tx_put :: "sql_env \<Rightarrow> u64 \<Rightarrow> InstallationId \<Rightarrow> StateKey \<Rightarrow> StateValue \<Rightarrow> StoragePorts \<Rightarrow>
    (StateStoreError + unit) \<times> StoragePorts" where
  "storage_tx_put env tx i k value p =
     step_then (handle_of tx p) (\<lambda>h p.
     step_then (to_storage_state_key k, p) (\<lambda>sk p.
     step_then (submit env (PutState i sk None (state_value_bytes value) (Some h)) p) (\<lambda>x p.
     (reply_unit StatePut ''PutState'' x, p))))"

definition storage_tx_delete :: "sql_env \<Rightarrow> u64 \<Rightarrow> InstallationId \<Rightarrow> StateKey \<Rightarrow> StoragePorts \<Rightarrow>
    (StateStoreError + unit) \<times> StoragePorts" where
  "storage_tx_delete env tx i k p =
     step_then (handle_of tx p) (\<lambda>h p.
     step_then (to_storage_state_key k, p) (\<lambda>sk p.
     step_then (submit env (DeleteState i sk (Some h)) p) (\<lambda>x p. (reply_unit StateDeleted ''DeleteState'' x, p))))"

definition storage_commit :: "sql_env \<Rightarrow> u64 \<Rightarrow> StoragePorts \<Rightarrow> (StateStoreError + unit) \<times> StoragePorts" where
  "storage_commit env tx p =
     step_then (take_tx tx p) (\<lambda>h p.
     step_then (submit env (CommitStateTransaction h) p) (\<lambda>x p.
     (reply_unit StateCommitted ''CommitStateTransaction'' x, p)))"

definition storage_abort :: "sql_env \<Rightarrow> u64 \<Rightarrow> StoragePorts \<Rightarrow> (StateStoreError + unit) \<times> StoragePorts" where
  "storage_abort env tx p =
     (case handle_of tx p of
        (Inl _, p) \<Rightarrow> (Inr (), p)
      | (Inr h, p) \<Rightarrow>
          step_then (submit env (AbortStateTransaction h) p) (\<lambda>x p.
          step_then (reply_unit StateAborted ''AbortStateTransaction'' x, p) (\<lambda>_ p.
          step_then (take_tx tx p) (\<lambda>_ p. (Inr (), p)))))"

subsection \<open>The audit row\<close>

text \<open>\<open>to_storage_stateful_audit\<close>: \<open>show_uuid\<close> prints an identifier, numbers print in \<open>decimal\<close>.\<close>

definition shown :: "'a::len word \<Rightarrow> string" where
  "shown w = decimal (unat w)"

definition audit_text :: "(u128 \<Rightarrow> string) \<Rightarrow> StatefulAuditEvent \<Rightarrow> string \<times> string option \<times> AuditOutcome \<times> string option" where
  "audit_text show_uuid event =
     (case event of
        StateRead i k \<Rightarrow> (''state-read'', Some (show_uuid (installation_uuid i)), Success, Some (state_key_text k))
      | StateCasApplied i k \<Rightarrow> (''state-cas-applied'', Some (show_uuid (installation_uuid i)), Success, Some (state_key_text k))
      | StateCasRejected i k \<Rightarrow> (''state-cas-rejected'', Some (show_uuid (installation_uuid i)), Failure, Some (state_key_text k))
      | StateTxBegan i v \<Rightarrow> (''state-tx-began'', Some (show_uuid (installation_uuid i)), Success, Some (''schema-version '' @ shown v))
      | StateTxCommitted i v \<Rightarrow> (''state-tx-committed'', Some (show_uuid (installation_uuid i)), Success, Some (''schema-version '' @ shown v))
      | StateTxAborted i v \<Rightarrow> (''state-tx-aborted'', Some (show_uuid (installation_uuid i)), Success, Some (''schema-version '' @ shown v))
      | StateTxPut i k \<Rightarrow> (''state-tx-put'', Some (show_uuid (installation_uuid i)), Success, Some (state_key_text k))
      | StateTxDeleted i k \<Rightarrow> (''state-tx-deleted'', Some (show_uuid (installation_uuid i)), Success, Some (state_key_text k))
      | StateFailed i operation reason \<Rightarrow>
          (''state-failed'', Some (show_uuid (installation_uuid i)), Failure, Some (''operation '' @ operation @ '': '' @ reason))
      | MigrationStarted i f t \<Rightarrow>
          (''state-migration-started'', Some (show_uuid (installation_uuid i)), Success, Some (''from '' @ shown f @ '' to '' @ shown t))
      | MigrationCommitted i f t \<Rightarrow>
          (''state-migration-committed'', Some (show_uuid (installation_uuid i)), Success, Some (''from '' @ shown f @ '' to '' @ shown t))
      | MigrationRolledBack i f t reason \<Rightarrow>
          (''state-migration-rolled-back'', Some (show_uuid (installation_uuid i)), Failure, Some (''from '' @ shown f @ '' to '' @ shown t @ '': '' @ reason))
      | MigrationFailed i f t reason \<Rightarrow>
          (''state-migration-failed'', Some (show_uuid (installation_uuid i)), Failure, Some (''from '' @ shown f @ '' to '' @ shown t @ '': '' @ reason))
      | ConfigRead i n \<Rightarrow> (''config-read'', Some (show_uuid (installation_uuid i)), Success, Some (''revision '' @ shown n))
      | ConfigWritten i n format \<Rightarrow>
          (''config-written'', Some (show_uuid (installation_uuid i)), Success, Some (''revision '' @ shown n @ '' format '' @ ConfigFormat_as_str format))
      | ConfigFailed i operation reason \<Rightarrow>
          (''config-failed'', Some (show_uuid (installation_uuid i)), Failure, Some (''operation '' @ operation @ '': '' @ reason))
      | SecretRead i name n \<Rightarrow> (''secret-read'', Some (show_uuid (installation_uuid i)), Success, Some (secret_name_text name @ '' version '' @ shown n))
      | SecretDenied i name \<Rightarrow> (''secret-denied'', Some (show_uuid (installation_uuid i)), Failure, Some (secret_name_text name))
      | SecretRotated i name n \<Rightarrow> (''secret-rotated'', Some (show_uuid (installation_uuid i)), Success, Some (secret_name_text name @ '' version '' @ shown n))
      | StatefulAuditEvent.SecretDeleted i name \<Rightarrow> (''secret-deleted'', Some (show_uuid (installation_uuid i)), Success, Some (secret_name_text name))
      | SecretListed i names \<Rightarrow> (''secret-listed'', Some (show_uuid (installation_uuid i)), Success, Some (decimal names @ '' names''))
      | SecretFailed i name reason \<Rightarrow>
          (''secret-failed'', Some (show_uuid (installation_uuid i)), Failure,
           Some (case name of Some name \<Rightarrow> secret_name_text name @ '': '' @ reason | None \<Rightarrow> reason)))"

definition to_storage_stateful_audit :: "(u128 \<Rightarrow> string) \<Rightarrow> StatefulAuditEvent \<Rightarrow> AuditError + AuditEvent" where
  "to_storage_stateful_audit show_uuid event =
     (case audit_text show_uuid event of (action, target, outcome, detail) \<Rightarrow>
        map_err AuditStorage (AuditEvent_new SystemActor ComponentLifecycle action target outcome detail))"

definition storage_append :: "(u128 \<Rightarrow> string) \<Rightarrow> sql_env \<Rightarrow> StoragePorts StatefulAuditPort" where
  "storage_append show_uuid env event p =
     (case to_storage_stateful_audit show_uuid event of
        Inl e \<Rightarrow> (Inl e, p)
      | Inr row \<Rightarrow>
          (case serve env (\<lambda>_. False) (AppendAudit row) (executor p) of
             (Inr (AuditAppended n), w) \<Rightarrow> (Inr (), p\<lparr>executor := w\<rparr>)
           | (Inr _, w) \<Rightarrow> (Inl (AuditStorage (CorruptState (UnexpectedResponse ''AppendAudit''))), p\<lparr>executor := w\<rparr>)
           | (Inl e, w) \<Rightarrow> (Inl (AuditStorage e), p\<lparr>executor := w\<rparr>)))"

definition storage_port :: "sql_env \<Rightarrow> StoragePorts StateStorePort" where
  "storage_port env =
     \<lparr>port_get = storage_get env, port_put = storage_put env, port_delete = storage_delete env,
      port_schema_version = storage_schema_version env,
      port_begin_transaction = storage_begin env Normal, port_begin_migration = storage_begin env Migration,
      port_tx_get = storage_tx_get env, port_tx_put = storage_tx_put env, port_tx_delete = storage_tx_delete env,
      port_commit = storage_commit env, port_abort = storage_abort env\<rparr>"

definition storage_new :: "AuditEvent tables \<Rightarrow> StoragePorts" where
  "storage_new t = \<lparr>executor = worker_new t, tx_map = Map.empty, next_tx = 0\<rparr>"

section \<open>The contract of the port\<close>

text \<open>
  A call that succeeds is the step of the specification (\<open>spec_step\<close>) of the command it stands for; a
  call that fails changes nothing of it, but may have rolled the open transaction back. The names of the
  transactions are \<open>handles\<close>.
\<close>

type_synonym command = "AuditEvent Command"

abbreviation state_key :: "StateKey \<Rightarrow> StorageKey" where
  "state_key k \<equiv> StorageKey (state_key_text k)"

definition refused :: "spec \<Rightarrow> spec \<Rightarrow> bool" where
  "refused a b \<longleftrightarrow> b = a \<or> b = a\<lparr>open_tx := None\<rparr>"

definition stepped :: "command \<Rightarrow> answer_value \<Rightarrow> spec \<Rightarrow> spec \<Rightarrow> bool" where
  "stepped cmd x a b \<longleftrightarrow> spec_step cmd a = Some (x, b)"

locale state_store_port =
  fixes port :: "'s StateStorePort" and inv :: "'s \<Rightarrow> bool" and abs :: "'s \<Rightarrow> spec"
    and handles :: "'s \<Rightarrow> u64 \<rightharpoonup> u64"
  assumes get_law: "inv s \<Longrightarrow> port_get port i k s = (r, s') \<Longrightarrow>
      inv s' \<and> handles s' = handles s \<and>
      (case r of Inr v \<Rightarrow> stepped (GetState i (state_key k) None) (ValueIs (map_option state_value_bytes v)) (abs s) (abs s')
       | Inl e \<Rightarrow> refused (abs s) (abs s'))"
    and put_law: "inv s \<Longrightarrow> port_put port i k ver v s = (q, s') \<Longrightarrow>
      inv s' \<and> handles s' = handles s \<and>
      (case q of Inr u \<Rightarrow> stepped (PutState i (state_key k) (Some ver) (state_value_bytes v) None) Done (abs s) (abs s')
       | Inl e \<Rightarrow> refused (abs s) (abs s'))"
    and delete_law: "inv s \<Longrightarrow> port_delete port i k s = (q, s') \<Longrightarrow>
      inv s' \<and> handles s' = handles s \<and>
      (case q of Inr u \<Rightarrow> stepped (DeleteState i (state_key k) None) Done (abs s) (abs s')
       | Inl e \<Rightarrow> refused (abs s) (abs s'))"
    and version_law: "inv s \<Longrightarrow> port_schema_version port i s = (x, s') \<Longrightarrow>
      inv s' \<and> handles s' = handles s \<and>
      (case x of Inr ver' \<Rightarrow> stepped (GetStateSchemaVersion i) (VersionIs ver') (abs s) (abs s')
       | Inl e \<Rightarrow> refused (abs s) (abs s'))"
    and begin_law: "inv s \<Longrightarrow> port_begin_transaction port i ver s = (t, s') \<Longrightarrow>
      inv s' \<and>
      (case t of Inr tx \<Rightarrow> (\<exists>h. stepped (BeginStateTransaction i ver Normal) (Began h) (abs s) (abs s') \<and>
           handles s' = (handles s)(tx \<mapsto> h))
       | Inl e \<Rightarrow> refused (abs s) (abs s') \<and> handles s' = handles s)"
    and begin_migration_law: "inv s \<Longrightarrow> port_begin_migration port i ver s = (t, s') \<Longrightarrow>
      inv s' \<and>
      (case t of Inr tx \<Rightarrow> (\<exists>h. stepped (BeginStateTransaction i ver Migration) (Began h) (abs s) (abs s') \<and>
           handles s' = (handles s)(tx \<mapsto> h))
       | Inl e \<Rightarrow> refused (abs s) (abs s') \<and> handles s' = handles s)"
    and tx_get_law: "inv s \<Longrightarrow> port_tx_get port tx i k s = (r, s') \<Longrightarrow>
      inv s' \<and> handles s' = handles s \<and>
      (case r of Inr v \<Rightarrow> (\<exists>h. handles s tx = Some h \<and>
          stepped (GetState i (state_key k) (Some h)) (ValueIs (map_option state_value_bytes v)) (abs s) (abs s'))
       | Inl e \<Rightarrow> refused (abs s) (abs s'))"
    and tx_put_law: "inv s \<Longrightarrow> port_tx_put port tx i k v s = (q, s') \<Longrightarrow>
      inv s' \<and> handles s' = handles s \<and>
      (case q of Inr u \<Rightarrow> (\<exists>h. handles s tx = Some h \<and>
          stepped (PutState i (state_key k) None (state_value_bytes v) (Some h)) Done (abs s) (abs s'))
       | Inl e \<Rightarrow> refused (abs s) (abs s'))"
    and tx_delete_law: "inv s \<Longrightarrow> port_tx_delete port tx i k s = (q, s') \<Longrightarrow>
      inv s' \<and> handles s' = handles s \<and>
      (case q of Inr u \<Rightarrow> (\<exists>h. handles s tx = Some h \<and>
          stepped (DeleteState i (state_key k) (Some h)) Done (abs s) (abs s'))
       | Inl e \<Rightarrow> refused (abs s) (abs s'))"
    and commit_law: "inv s \<Longrightarrow> port_commit port tx s = (q, s') \<Longrightarrow>
      inv s' \<and> handles s' = (handles s)(tx := None) \<and>
      (case q of Inr u \<Rightarrow> (\<exists>h. handles s tx = Some h \<and> stepped (CommitStateTransaction h) Done (abs s) (abs s'))
       | Inl e \<Rightarrow> refused (abs s) (abs s'))"
    and abort_law: "inv s \<Longrightarrow> port_abort port tx s = (q, s') \<Longrightarrow>
      inv s' \<and> (handles s' = handles s \<or> handles s' = (handles s)(tx := None)) \<and>
      (case q of Inr u \<Rightarrow> (case handles s tx of None \<Rightarrow> abs s' = abs s
           | Some h \<Rightarrow> stepped (AbortStateTransaction h) Done (abs s) (abs s') \<and> handles s' tx = None)
       | Inl e \<Rightarrow> refused (abs s) (abs s'))"

text \<open>An audit port beside it keeps its state, whatever it answers.\<close>

locale audited_store = state_store_port +
  fixes audit :: "'s StatefulAuditPort"
  assumes audit_law: "inv s \<Longrightarrow> audit event s = (a, s') \<Longrightarrow> inv s' \<and> abs s' = abs s \<and> handles s' = handles s"

section \<open>The implementation keeps the contract\<close>

definition ports_inv :: "sql_env \<Rightarrow> StoragePorts \<Rightarrow> bool" where
  "ports_inv env p \<longleftrightarrow> orderly env \<and> worker_inv (executor p)"

definition ports_abs :: "StoragePorts \<Rightarrow> spec" where
  "ports_abs p = abs_worker (executor p)"

lemma refused_refl [simp]: "refused a a"
  by (simp add: refused_def)

lemma stepped_read:
  "stepped (GetState i k tx) y a b \<Longrightarrow> b = a \<and> (\<exists>v. y = ValueIs v)"
  "stepped (GetStateSchemaVersion i) y a b \<Longrightarrow> b = a"
  by (auto simp: stepped_def split: if_splits)

lemma answer_of_inv:
  "answer_of x = ValueIs v \<longleftrightarrow> (\<exists>r. x = StateValueIs r \<and> v = map_option record_value r)"
  "answer_of x = VersionIs w \<longleftrightarrow> x = StateSchemaVersionIs w"
  "answer_of x = Began h \<longleftrightarrow> x = StateTransactionBegan h"
  by (cases x; auto)+

lemma on_conn_shape: "on_conn resp f w = (Inr x, w') \<Longrightarrow> \<exists>a. x = resp a"
  by (auto simp: on_conn_def split: sum.splits prod.splits)

text \<open>A write, a commit and an abort answer with their own response.\<close>

lemma serve_put_shape: "serve env cancel (PutState i k ver v tx) w = (Inr x, w') \<Longrightarrow> x = StatePut"
  by (auto simp: serve_def dispatch_stateful_def mark_dirty_def step_then_def dest: on_conn_shape
      split: if_splits sum.splits prod.splits option.splits)

lemma serve_delete_shape: "serve env cancel (DeleteState i k tx) w = (Inr x, w') \<Longrightarrow> x = StateDeleted"
  by (auto simp: serve_def dispatch_stateful_def mark_dirty_def step_then_def dest: on_conn_shape
      split: if_splits sum.splits prod.splits option.splits)

lemma serve_commit_shape: "serve env cancel (CommitStateTransaction h) w = (Inr x, w') \<Longrightarrow> x = StateCommitted"
  by (auto simp: serve_def dispatch_stateful_def commit_state_transaction_def
      split: if_splits sum.splits prod.splits option.splits)

lemma serve_abort_shape: "serve env cancel (AbortStateTransaction h) w = (Inr x, w') \<Longrightarrow> x = StateAborted"
  by (auto simp: serve_def dispatch_stateful_def abort_state_transaction_def
      split: if_splits sum.splits prod.splits option.splits)

lemma submit_spec:
  assumes "ports_inv env p" "command_ok cmd" "submit env cmd p = (r, p')"
  shows "ports_inv env p' \<and> tx_map p' = tx_map p \<and>
    (case r of Inr x \<Rightarrow> stepped cmd (answer_of x) (ports_abs p) (ports_abs p') \<and>
        serve env (\<lambda>_. False) cmd (executor p) = (Inr x, executor p')
     | Inl e \<Rightarrow> refused (ports_abs p) (ports_abs p'))"
proof -
  obtain q w where s: "serve env (\<lambda>_. False) cmd (executor p) = (q, w)" by fastforce
  have out: "r = map_err state_error q" "p' = p\<lparr>executor := w\<rparr>"
    using assms(3) s by (auto simp: submit_def)
  have "refines_step cmd (executor p) (q, w)"
    using serve_refines [OF _ _ assms(2), of env "executor p" "\<lambda>_. False"] assms(1) s by (simp add: ports_inv_def)
  with assms(1) s out show ?thesis
    by (cases q) (auto simp: refines_step_def ports_inv_def ports_abs_def stepped_def refused_def)
qed

lemma to_storage_state_key_Inr:
  "to_storage_state_key k = Inr sk \<Longrightarrow> sk = state_key k \<and> key_ok sk"
  by (cases "StorageKey_new (state_key_text k)")
    (auto simp: to_storage_state_key_def key_ok_def StorageKey_new_def result_simps)

lemma to_domain_state_value_Inr: "to_domain_state_value r = Inr v \<Longrightarrow> state_value_bytes v = record_value r"
  by (cases "StateValue_new (record_value r)")
    (auto simp: to_domain_state_value_def StateValue_new_def BoundedBytes_new_def result_simps split: if_splits)

lemma reply_value_cases:
  assumes "stepped (GetState i k tx) (answer_of x) a b"
  shows "b = a \<and> (case reply_value x of
    Inr v \<Rightarrow> stepped (GetState i k tx) (ValueIs (map_option state_value_bytes v)) a b | Inl e \<Rightarrow> True)"
proof -
  from stepped_read(1) [OF assms] obtain v where v: "b = a" "answer_of x = ValueIs v" by blast
  then obtain r where r: "x = StateValueIs r" "v = map_option record_value r" by (auto simp: answer_of_inv)
  show ?thesis
  proof (cases r)
    case None
    with assms v r show ?thesis by (simp add: reply_value_def)
  next
    case (Some rec)
    with assms v r show ?thesis
      by (cases "to_domain_state_value rec") (auto simp: reply_value_def dest: to_domain_state_value_Inr)
  qed
qed

lemma storage_get_law:
  assumes "ports_inv env p" "storage_get env i k p = (r, p')"
  shows "ports_inv env p' \<and> tx_map p' = tx_map p \<and>
    (case r of Inr v \<Rightarrow> stepped (GetState i (state_key k) None) (ValueIs (map_option state_value_bytes v)) (ports_abs p) (ports_abs p')
     | Inl e \<Rightarrow> refused (ports_abs p) (ports_abs p'))"
proof (cases "to_storage_state_key k")
  case (Inl e)
  with assms show ?thesis by (auto simp: storage_get_def)
next
  case (Inr sk)
  note sk = to_storage_state_key_Inr [OF Inr]
  obtain q p1 where s: "submit env (GetState i sk None) p = (q, p1)" by fastforce
  from submit_spec [OF assms(1) _ s] sk show ?thesis
    using assms(2) Inr s reply_value_cases [of i "state_key k" None _ "ports_abs p" "ports_abs p1"]
    by (cases q) (fastforce simp: storage_get_def split: sum.splits)+
qed

lemma storage_put_law:
  assumes "ports_inv env p" "storage_put env i k ver v p = (r, p')"
  shows "ports_inv env p' \<and> tx_map p' = tx_map p \<and>
    (case r of Inr u \<Rightarrow> stepped (PutState i (state_key k) (Some ver) (state_value_bytes v) None) Done (ports_abs p) (ports_abs p')
     | Inl e \<Rightarrow> refused (ports_abs p) (ports_abs p'))"
proof (cases "to_storage_state_key k")
  case (Inl e)
  with assms show ?thesis by (auto simp: storage_put_def)
next
  case (Inr sk)
  note sk = to_storage_state_key_Inr [OF Inr]
  obtain q p1 where s: "submit env (PutState i sk (Some ver) (state_value_bytes v) None) p = (q, p1)" by fastforce
  from submit_spec [OF assms(1) _ s] sk show ?thesis
    using assms(2) Inr s by (cases q) (auto simp: storage_put_def reply_unit_def dest!: serve_put_shape)
qed

lemma storage_delete_law:
  assumes "ports_inv env p" "storage_delete env i k p = (r, p')"
  shows "ports_inv env p' \<and> tx_map p' = tx_map p \<and>
    (case r of Inr u \<Rightarrow> stepped (DeleteState i (state_key k) None) Done (ports_abs p) (ports_abs p')
     | Inl e \<Rightarrow> refused (ports_abs p) (ports_abs p'))"
proof (cases "to_storage_state_key k")
  case (Inl e)
  with assms show ?thesis by (auto simp: storage_delete_def)
next
  case (Inr sk)
  note sk = to_storage_state_key_Inr [OF Inr]
  obtain q p1 where s: "submit env (DeleteState i sk None) p = (q, p1)" by fastforce
  from submit_spec [OF assms(1) _ s] sk show ?thesis
    using assms(2) Inr s by (cases q) (auto simp: storage_delete_def reply_unit_def dest!: serve_delete_shape)
qed

lemma storage_version_law:
  assumes "ports_inv env p" "storage_schema_version env i p = (r, p')"
  shows "ports_inv env p' \<and> tx_map p' = tx_map p \<and>
    (case r of Inr v \<Rightarrow> stepped (GetStateSchemaVersion i) (VersionIs v) (ports_abs p) (ports_abs p')
     | Inl e \<Rightarrow> refused (ports_abs p) (ports_abs p'))"
proof -
  obtain q p1 where s: "submit env (GetStateSchemaVersion i) p = (q, p1)" by fastforce
  from submit_spec [OF assms(1) _ s] assms(2) s show ?thesis
  proof (cases q)
    case (Inr x)
    with submit_spec [OF assms(1) _ s]
    have st: "stepped (GetStateSchemaVersion i) (answer_of x) (ports_abs p) (ports_abs p1)" by simp
    then have "VersionIs (view_version (committed (ports_abs p) i)) = answer_of x"
      by (auto simp: stepped_def)
    note sym [OF this]
    then obtain w where "x = StateSchemaVersionIs w" by (auto simp: answer_of_inv)
    with Inr st submit_spec [OF assms(1) _ s] assms(2) s show ?thesis by (auto simp: storage_schema_version_def)
  qed (auto simp: storage_schema_version_def)
qed

lemma storage_begin_law:
  assumes "ports_inv env p" "storage_begin env mode i ver p = (r, p')"
  shows "ports_inv env p' \<and>
    (case r of Inr tx \<Rightarrow> (\<exists>h. stepped (BeginStateTransaction i ver mode) (Began h) (ports_abs p) (ports_abs p') \<and>
         tx_map p' = (tx_map p)(tx \<mapsto> h))
     | Inl e \<Rightarrow> refused (ports_abs p) (ports_abs p') \<and> tx_map p' = tx_map p)"
proof -
  obtain q p1 where s: "submit env (BeginStateTransaction i ver mode) p = (q, p1)" by fastforce
  note sp = submit_spec [OF assms(1) _ s]
  show ?thesis
  proof (cases q)
    case (Inl e)
    with sp assms(2) s show ?thesis by (auto simp: storage_begin_def)
  next
    case (Inr x)
    with sp have st: "stepped (BeginStateTransaction i ver mode) (answer_of x) (ports_abs p) (ports_abs p1)" by simp
    then have "Began (saturating_add (begun (ports_abs p)) 1) = answer_of x"
      by (simp add: stepped_def Let_def split: if_splits)
    from sym [OF this] obtain h where "x = StateTransactionBegan h" by (auto simp: answer_of_inv)
    with Inr sp st assms(2) s show ?thesis
      by (auto simp: storage_begin_def remember_tx_def Let_def ports_inv_def ports_abs_def)
  qed
qed

text \<open>The calls inside a transaction look its handle up first.\<close>

lemma handle_of_cases:
  obtains "tx_map p tx = None" "handle_of tx p = (Inl (TransactionConflict NoSuchTransaction), p)"
    "take_tx tx p = (Inl (TransactionConflict NoSuchTransaction), p)"
  | h where "tx_map p tx = Some h" "handle_of tx p = (Inr h, p)"
    "take_tx tx p = (Inr h, p\<lparr>tx_map := (tx_map p)(tx := None)\<rparr>)"
  by (cases "tx_map p tx") (simp_all add: handle_of_def take_tx_def)

lemma storage_tx_get_law:
  assumes "ports_inv env p" "storage_tx_get env tx i k p = (r, p')"
  shows "ports_inv env p' \<and> tx_map p' = tx_map p \<and>
    (case r of Inr v \<Rightarrow> (\<exists>h. tx_map p tx = Some h \<and>
        stepped (GetState i (state_key k) (Some h)) (ValueIs (map_option state_value_bytes v)) (ports_abs p) (ports_abs p'))
     | Inl e \<Rightarrow> refused (ports_abs p) (ports_abs p'))"
proof (cases rule: handle_of_cases [of p tx])
  case 1
  with assms show ?thesis by (auto simp: storage_tx_get_def)
next
  case h: (2 h)
  show ?thesis
  proof (cases "to_storage_state_key k")
    case (Inl e)
    with assms h show ?thesis by (auto simp: storage_tx_get_def)
  next
    case (Inr sk)
    note sk = to_storage_state_key_Inr [OF Inr]
    obtain q p1 where s: "submit env (GetState i sk (Some h)) p = (q, p1)" by fastforce
    from submit_spec [OF assms(1) _ s] sk show ?thesis
      using assms(2) Inr s h reply_value_cases [of i "state_key k" "Some h" _ "ports_abs p" "ports_abs p1"]
      by (cases q) (fastforce simp: storage_tx_get_def split: sum.splits)+
  qed
qed

lemma storage_tx_put_law:
  assumes "ports_inv env p" "storage_tx_put env tx i k v p = (r, p')"
  shows "ports_inv env p' \<and> tx_map p' = tx_map p \<and>
    (case r of Inr u \<Rightarrow> (\<exists>h. tx_map p tx = Some h \<and>
        stepped (PutState i (state_key k) None (state_value_bytes v) (Some h)) Done (ports_abs p) (ports_abs p'))
     | Inl e \<Rightarrow> refused (ports_abs p) (ports_abs p'))"
proof (cases rule: handle_of_cases [of p tx])
  case 1
  with assms show ?thesis by (auto simp: storage_tx_put_def)
next
  case h: (2 h)
  show ?thesis
  proof (cases "to_storage_state_key k")
    case (Inl e)
    with assms h show ?thesis by (auto simp: storage_tx_put_def)
  next
    case (Inr sk)
    note sk = to_storage_state_key_Inr [OF Inr]
    obtain q p1 where s: "submit env (PutState i sk None (state_value_bytes v) (Some h)) p = (q, p1)" by fastforce
    from submit_spec [OF assms(1) _ s] sk show ?thesis
      using assms(2) Inr s h by (cases q) (auto simp: storage_tx_put_def reply_unit_def dest!: serve_put_shape)
  qed
qed

lemma storage_tx_delete_law:
  assumes "ports_inv env p" "storage_tx_delete env tx i k p = (r, p')"
  shows "ports_inv env p' \<and> tx_map p' = tx_map p \<and>
    (case r of Inr u \<Rightarrow> (\<exists>h. tx_map p tx = Some h \<and>
        stepped (DeleteState i (state_key k) (Some h)) Done (ports_abs p) (ports_abs p'))
     | Inl e \<Rightarrow> refused (ports_abs p) (ports_abs p'))"
proof (cases rule: handle_of_cases [of p tx])
  case 1
  with assms show ?thesis by (auto simp: storage_tx_delete_def)
next
  case h: (2 h)
  show ?thesis
  proof (cases "to_storage_state_key k")
    case (Inl e)
    with assms h show ?thesis by (auto simp: storage_tx_delete_def)
  next
    case (Inr sk)
    note sk = to_storage_state_key_Inr [OF Inr]
    obtain q p1 where s: "submit env (DeleteState i sk (Some h)) p = (q, p1)" by fastforce
    from submit_spec [OF assms(1) _ s] sk show ?thesis
      using assms(2) Inr s h by (cases q) (auto simp: storage_tx_delete_def reply_unit_def dest!: serve_delete_shape)
  qed
qed

lemma storage_commit_law:
  assumes "ports_inv env p" "storage_commit env tx p = (r, p')"
  shows "ports_inv env p' \<and> tx_map p' = (tx_map p)(tx := None) \<and>
    (case r of Inr u \<Rightarrow> (\<exists>h. tx_map p tx = Some h \<and> stepped (CommitStateTransaction h) Done (ports_abs p) (ports_abs p'))
     | Inl e \<Rightarrow> refused (ports_abs p) (ports_abs p'))"
proof (cases rule: handle_of_cases [of p tx])
  case 1
  with assms show ?thesis by (auto simp: storage_commit_def)
next
  case h: (2 h)
  let ?p = "p\<lparr>tx_map := (tx_map p)(tx := None)\<rparr>"
  have inv: "ports_inv env ?p" and abs: "ports_abs ?p = ports_abs p"
    using assms(1) by (simp_all add: ports_inv_def ports_abs_def)
  obtain q p1 where s: "submit env (CommitStateTransaction h) ?p = (q, p1)" by fastforce
  from submit_spec [OF inv _ s] show ?thesis
    using assms(2) s h abs by (cases q) (auto simp: storage_commit_def reply_unit_def dest!: serve_commit_shape)
qed

lemma storage_abort_law:
  assumes "ports_inv env p" "storage_abort env tx p = (r, p')"
  shows "ports_inv env p' \<and> (tx_map p' = tx_map p \<or> tx_map p' = (tx_map p)(tx := None)) \<and>
    (case r of Inr u \<Rightarrow> (case tx_map p tx of None \<Rightarrow> ports_abs p' = ports_abs p
        | Some h \<Rightarrow> stepped (AbortStateTransaction h) Done (ports_abs p) (ports_abs p') \<and> tx_map p' tx = None)
     | Inl e \<Rightarrow> refused (ports_abs p) (ports_abs p'))"
proof (cases rule: handle_of_cases [of p tx])
  case 1
  with assms show ?thesis by (auto simp: storage_abort_def)
next
  case h: (2 h)
  obtain q p1 where s: "submit env (AbortStateTransaction h) p = (q, p1)" by fastforce
  note sp = submit_spec [OF assms(1) _ s]
  show ?thesis
  proof (cases q)
    case (Inl e)
    with sp assms(2) s h show ?thesis by (auto simp: storage_abort_def)
  next
    case (Inr x)
    with sp have "x = StateAborted" by (auto dest: serve_abort_shape)
    moreover have "take_tx tx p1 = (Inr h, p1\<lparr>tx_map := (tx_map p1)(tx := None)\<rparr>)"
      using sp h(1) by (simp add: take_tx_def)
    moreover have "ports_inv env (p1\<lparr>tx_map := (tx_map p1)(tx := None)\<rparr>) = ports_inv env p1"
      "ports_abs (p1\<lparr>tx_map := (tx_map p1)(tx := None)\<rparr>) = ports_abs p1"
      by (simp_all add: ports_inv_def ports_abs_def)
    ultimately show ?thesis using Inr sp assms(2) s h by (auto simp: storage_abort_def reply_unit_def)
  qed
qed

lemma storage_port_calls:
  "port_get (storage_port env) = storage_get env" "port_put (storage_port env) = storage_put env"
  "port_delete (storage_port env) = storage_delete env" "port_schema_version (storage_port env) = storage_schema_version env"
  "port_begin_transaction (storage_port env) = storage_begin env Normal"
  "port_begin_migration (storage_port env) = storage_begin env Migration"
  "port_tx_get (storage_port env) = storage_tx_get env" "port_tx_put (storage_port env) = storage_tx_put env"
  "port_tx_delete (storage_port env) = storage_tx_delete env"
  "port_commit (storage_port env) = storage_commit env" "port_abort (storage_port env) = storage_abort env"
  by (simp_all add: storage_port_def)

interpretation storage: state_store_port "storage_port env" "ports_inv env" ports_abs tx_map for env
proof (unfold_locales, unfold storage_port_calls)
qed (rule storage_get_law storage_put_law storage_delete_law storage_version_law storage_begin_law storage_tx_get_law
    storage_tx_put_law storage_tx_delete_law storage_commit_law storage_abort_law; assumption)+

text \<open>
  An audit log outside the database keeps the contract, and so does the table of the database itself:
  it takes no event while a transaction is open.
\<close>

definition external_audit :: "(StatefulAuditEvent \<Rightarrow> AuditError + unit) \<Rightarrow> 's StatefulAuditPort" where
  "external_audit verdict event s = (verdict event, s)"

lemma storage_append_law:
  assumes "ports_inv env p" "storage_append show_uuid env event p = (r, p')"
  shows "ports_inv env p' \<and> ports_abs p' = ports_abs p \<and> tx_map p' = tx_map p"
proof (cases "to_storage_stateful_audit show_uuid event")
  case (Inl e)
  with assms show ?thesis by (simp add: storage_append_def)
next
  case (Inr row)
  obtain q w where s: "serve env (\<lambda>_. False) (AppendAudit row) (executor p) = (q, w)" by fastforce
  have p': "p' = p\<lparr>executor := w\<rparr>"
    using assms(2) s Inr by (auto simp: storage_append_def split: sum.splits Response.splits)
  have ref: "refines_step (AppendAudit row) (executor p) (q, w)"
    using serve_refines [of env "executor p" "AppendAudit row" "\<lambda>_. False"] assms(1) s by (simp add: ports_inv_def)
  have "abs_worker w = abs_worker (executor p)"
  proof (cases "state_tx (executor p)")
    case None
    then have "(abs_worker (executor p))\<lparr>open_tx := None\<rparr> = abs_worker (executor p)" by (simp add: abs_worker_def)
    with ref show ?thesis by (auto simp: refines_step_def split: sum.splits if_splits)
  next
    case (Some a)
    with s show ?thesis by (auto simp: serve_def)
  qed
  with ref assms(1) p' show ?thesis by (simp add: ports_inv_def ports_abs_def refines_step_def)
qed

interpretation own_log: audited_store "storage_port env" "ports_inv env" ports_abs tx_map "storage_append show_uuid env" for env show_uuid
  by unfold_locales (rule storage_append_law)

interpretation other_log: audited_store "storage_port env" "ports_inv env" ports_abs tx_map "external_audit verdict"
  for env verdict
  by unfold_locales (simp add: external_audit_def)

end
