(* ===== verification/StateService.thy ===== *)
theory StateService
  imports StatePorts
begin

text \<open>
  The state service (\<open>crates/application/src/state.rs\<close>) and the migration service
  (\<open>crates/application/src/migration.rs\<close>), over the ports of \<open>StatePorts\<close>. Their own state is the set of
  installations in a migration window and the registry of the transactions the service opened; the
  state behind the ports is a component of theirs, so a service operation is a sequence of port calls
  on it, audit events included. The guest's migration is a parameter: a function on the whole state,
  since a guest may call the service while it migrates.
\<close>

section \<open>State\<close>

record TxContext =
  ctx_installation :: InstallationId
  ctx_version :: u32

record 's services =
  world :: 's
  migrating :: "InstallationId set"
  transactions :: "u64 \<rightharpoonup> TxContext"

datatype CasOutcome = Applied | Rejected

datatype StateError =
    NotReady
  | StateNotFound
  | Conflict
  | Corrupt
  | OverBudget
  | UnsupportedSchemaVersion
  | StateStoreFailure StateStoreError
  | StateAuditFailure AuditError
  | StateInternal string

fun state_audit_label :: "StateError \<Rightarrow> string" where
  "state_audit_label NotReady = ''not-ready''"
| "state_audit_label StateNotFound = ''not-found''"
| "state_audit_label Conflict = ''conflict''"
| "state_audit_label Corrupt = ''corrupt''"
| "state_audit_label OverBudget = ''over-budget''"
| "state_audit_label UnsupportedSchemaVersion = ''unsupported-schema-version''"
| "state_audit_label (StateStoreFailure e) = ''store-failure''"
| "state_audit_label (StateAuditFailure e) = ''audit-failure''"
| "state_audit_label (StateInternal m) = ''internal''"

fun map_store_error :: "StateStoreError \<Rightarrow> StateError" where
  "map_store_error (StoreNotFound m) = StateNotFound"
| "map_store_error (StoreVersionMismatch i c r) = UnsupportedSchemaVersion"
| "map_store_error (TransactionConflict m) = Conflict"
| "map_store_error (StoreInvalidArgument m) = OverBudget"
| "map_store_error (StoreCorrupt m) = Corrupt"
| "map_store_error (StoreStorage e) = StateStoreFailure (StoreStorage e)"

definition is_migrating :: "InstallationId \<Rightarrow> 's services \<Rightarrow> bool" where
  "is_migrating i s \<longleftrightarrow> i \<in> migrating s"

definition gate_enter :: "InstallationId \<Rightarrow> 's services \<Rightarrow> 's services" where
  "gate_enter i s = s\<lparr>migrating := insert i (migrating s)\<rparr>"

definition gate_exit :: "InstallationId \<Rightarrow> 's services \<Rightarrow> 's services" where
  "gate_exit i s = s\<lparr>migrating := migrating s - {i}\<rparr>"

text \<open>A port call on the state behind the ports.\<close>

definition call :: "('s \<Rightarrow> ('e + 'a) \<times> 's) \<Rightarrow> 's services \<Rightarrow> ('e + 'a) \<times> 's services" where
  "call f s = (case f (world s) of (r, x) \<Rightarrow> (r, s\<lparr>world := x\<rparr>))"

definition audit_event :: "'s StatefulAuditPort \<Rightarrow> StatefulAuditEvent \<Rightarrow> 's services \<Rightarrow> (StateError + unit) \<times> 's services" where
  "audit_event audit event s = (case call (audit event) s of (r, s) \<Rightarrow> (map_err StateAuditFailure r, s))"

definition audit_failed ::
  "'s StatefulAuditPort \<Rightarrow> InstallationId \<Rightarrow> string \<Rightarrow> StateError \<Rightarrow> 's services \<Rightarrow> (StateError + unit) \<times> 's services" where
  "audit_failed audit i operation e s = audit_event audit (StateFailed i operation (state_audit_label e)) s"

text \<open>\<open>self.audit_failed(installation, operation, &error)?; Err(error)\<close>\<close>

definition fail_with ::
  "'s StatefulAuditPort \<Rightarrow> InstallationId \<Rightarrow> string \<Rightarrow> StateError \<Rightarrow> 's services \<Rightarrow> (StateError + 'a) \<times> 's services" where
  "fail_with audit i operation e s = step_then (audit_failed audit i operation e s) (\<lambda>_ s. (Inl e, s))"

section \<open>The state service\<close>

definition check_version ::
  "'s StateStorePort \<Rightarrow> InstallationId \<Rightarrow> u32 \<Rightarrow> 's services \<Rightarrow> (StateError + unit) \<times> 's services" where
  "check_version port i declared s =
     (if is_migrating i s then (Inl NotReady, s)
      else case call (port_schema_version port i) s of
        (Inr current, s) \<Rightarrow>
          if current \<noteq> None \<and> current \<noteq> Some declared then (Inl UnsupportedSchemaVersion, s) else (Inr (), s)
      | (Inl e, s) \<Rightarrow> (Inl (map_store_error e), s))"

definition service_get ::
  "'s StateStorePort \<Rightarrow> 's StatefulAuditPort \<Rightarrow> InstallationId \<Rightarrow> u32 \<Rightarrow> StateKey \<Rightarrow> 's services \<Rightarrow>
    (StateError + StateValue option) \<times> 's services" where
  "service_get port audit i declared k s =
     (case check_version port i declared s of
        (Inl e, s) \<Rightarrow> fail_with audit i ''get'' e s
      | (Inr _, s) \<Rightarrow>
          (case call (port_get port i k) s of
             (Inr v, s) \<Rightarrow> step_then (audit_event audit (StateRead i k) s) (\<lambda>_ s. (Inr v, s))
           | (Inl e, s) \<Rightarrow> fail_with audit i ''get'' (map_store_error e) s))"

text \<open>\<open>cas\<close> is a read and then, by what was read, a write: two steps, with nothing locked between.\<close>

definition cas_read ::
  "'s StateStorePort \<Rightarrow> 's StatefulAuditPort \<Rightarrow> InstallationId \<Rightarrow> u32 \<Rightarrow> StateKey \<Rightarrow> 's services \<Rightarrow>
    (StateError + StateValue option) \<times> 's services" where
  "cas_read port audit i declared k s =
     (case check_version port i declared s of
        (Inl e, s) \<Rightarrow> fail_with audit i ''cas'' e s
      | (Inr _, s) \<Rightarrow>
          (case call (port_get port i k) s of
             (Inr v, s) \<Rightarrow> (Inr v, s)
           | (Inl e, s) \<Rightarrow> fail_with audit i ''cas'' (map_store_error e) s))"

definition cas_write ::
  "'s StateStorePort \<Rightarrow> 's StatefulAuditPort \<Rightarrow> InstallationId \<Rightarrow> u32 \<Rightarrow> StateKey \<Rightarrow> StateValue option \<Rightarrow>
    StateValue option \<Rightarrow> StateValue option \<Rightarrow> 's services \<Rightarrow> (StateError + CasOutcome) \<times> 's services" where
  "cas_write port audit i declared k expected new_value current s =
     (if current \<noteq> expected
      then step_then (audit_event audit (StateCasRejected i k) s) (\<lambda>_ s. (Inr Rejected, s))
      else
        (case (case (new_value, current) of
            (Some v, _) \<Rightarrow> call (port_put port i k declared v) s
          | (None, Some _) \<Rightarrow> call (port_delete port i k) s
          | (None, None) \<Rightarrow> (Inr (), s)) of
           (Inr _, s) \<Rightarrow> step_then (audit_event audit (StateCasApplied i k) s) (\<lambda>_ s. (Inr Applied, s))
         | (Inl e, s) \<Rightarrow> fail_with audit i ''cas'' (map_store_error e) s))"

definition cas ::
  "'s StateStorePort \<Rightarrow> 's StatefulAuditPort \<Rightarrow> InstallationId \<Rightarrow> u32 \<Rightarrow> StateKey \<Rightarrow> StateValue option \<Rightarrow>
    StateValue option \<Rightarrow> 's services \<Rightarrow> (StateError + CasOutcome) \<times> 's services" where
  "cas port audit i declared k expected new_value s =
     step_then (cas_read port audit i declared k s) (cas_write port audit i declared k expected new_value)"

definition begin_transaction ::
  "'s StateStorePort \<Rightarrow> 's StatefulAuditPort \<Rightarrow> InstallationId \<Rightarrow> u32 \<Rightarrow> 's services \<Rightarrow> (StateError + u64) \<times> 's services" where
  "begin_transaction port audit i declared s =
     (case check_version port i declared s of
        (Inl e, s) \<Rightarrow> fail_with audit i ''begin-transaction'' e s
      | (Inr _, s) \<Rightarrow>
          (case call (port_begin_transaction port i declared) s of
             (Inr tx, s) \<Rightarrow>
               (let s = s\<lparr>transactions := (transactions s)(tx \<mapsto> \<lparr>ctx_installation = i, ctx_version = declared\<rparr>)\<rparr>
                in step_then (audit_event audit (StateTxBegan i declared) s) (\<lambda>_ s. (Inr tx, s)))
           | (Inl e, s) \<Rightarrow> fail_with audit i ''begin-transaction'' (map_store_error e) s))"

definition service_tx_get ::
  "'s StateStorePort \<Rightarrow> 's StatefulAuditPort \<Rightarrow> u64 \<Rightarrow> InstallationId \<Rightarrow> StateKey \<Rightarrow> 's services \<Rightarrow>
    (StateError + StateValue option) \<times> 's services" where
  "service_tx_get port audit tx i k s =
     (case call (port_tx_get port tx i k) s of
        (Inr v, s) \<Rightarrow> (Inr v, s)
      | (Inl e, s) \<Rightarrow> fail_with audit i ''tx-get'' (map_store_error e) s)"

definition service_tx_put ::
  "'s StateStorePort \<Rightarrow> 's StatefulAuditPort \<Rightarrow> u64 \<Rightarrow> InstallationId \<Rightarrow> StateKey \<Rightarrow> StateValue \<Rightarrow> 's services \<Rightarrow>
    (StateError + unit) \<times> 's services" where
  "service_tx_put port audit tx i k v s =
     (case call (port_tx_put port tx i k v) s of
        (Inr _, s) \<Rightarrow> audit_event audit (StateTxPut i k) s
      | (Inl e, s) \<Rightarrow> fail_with audit i ''tx-put'' (map_store_error e) s)"

definition service_tx_delete ::
  "'s StateStorePort \<Rightarrow> 's StatefulAuditPort \<Rightarrow> u64 \<Rightarrow> InstallationId \<Rightarrow> StateKey \<Rightarrow> 's services \<Rightarrow>
    (StateError + unit) \<times> 's services" where
  "service_tx_delete port audit tx i k s =
     (case call (port_tx_delete port tx i k) s of
        (Inr _, s) \<Rightarrow> audit_event audit (StateTxDeleted i k) s
      | (Inl e, s) \<Rightarrow> fail_with audit i ''tx-delete'' (map_store_error e) s)"

definition forget_transaction :: "u64 \<Rightarrow> 's services \<Rightarrow> 's services" where
  "forget_transaction tx s = s\<lparr>transactions := (transactions s)(tx := None)\<rparr>"

definition commit_transaction ::
  "'s StateStorePort \<Rightarrow> 's StatefulAuditPort \<Rightarrow> u64 \<Rightarrow> 's services \<Rightarrow> (StateError + unit) \<times> 's services" where
  "commit_transaction port audit tx s =
     (case call (port_commit port tx) s of
        (Inr _, s) \<Rightarrow>
          (case transactions s tx of
             None \<Rightarrow> (Inl (StateInternal ''commit succeeded on a state transaction not opened by this service (guest contract violation)''), s)
           | Some ctx \<Rightarrow>
               audit_event audit (StateTxCommitted (ctx_installation ctx) (ctx_version ctx)) (forget_transaction tx s))
      | (Inl e, s) \<Rightarrow>
          (let mapped = map_store_error e in
           case transactions s tx of
             None \<Rightarrow> (Inl mapped, s)
           | Some ctx \<Rightarrow>
               fail_with audit (ctx_installation ctx) ''commit'' mapped
                 (if mapped = Conflict then forget_transaction tx s else s)))"

definition abort_transaction ::
  "'s StateStorePort \<Rightarrow> 's StatefulAuditPort \<Rightarrow> u64 \<Rightarrow> 's services \<Rightarrow> (StateError + unit) \<times> 's services" where
  "abort_transaction port audit tx s =
     (case call (port_abort port tx) s of
        (Inr _, s) \<Rightarrow>
          (case transactions s tx of
             None \<Rightarrow> (Inr (), s)
           | Some ctx \<Rightarrow>
               audit_event audit (StateTxAborted (ctx_installation ctx) (ctx_version ctx)) (forget_transaction tx s))
      | (Inl e, s) \<Rightarrow>
          (let mapped = map_store_error e in
           case transactions s tx of
             None \<Rightarrow> (Inl mapped, s)
           | Some ctx \<Rightarrow>
               fail_with audit (ctx_installation ctx) ''abort'' mapped
                 (if mapped = Conflict then forget_transaction tx s else s)))"

definition schema_binding_version ::
  "'s StateStorePort \<Rightarrow> InstallationId \<Rightarrow> 's services \<Rightarrow> (StateError + u32) \<times> 's services" where
  "schema_binding_version port i s =
     (case call (port_schema_version port i) s of
        (Inr (Some v), s) \<Rightarrow> (Inr v, s)
      | (Inr None, s) \<Rightarrow> (Inr 0, s)
      | (Inl e, s) \<Rightarrow> (Inl (map_store_error e), s))"

section \<open>The migration service\<close>

datatype MigrationGuestError = UnsupportedVersionRange | MalformedSource | GuestOverBudget | GuestInternal | Host string

fun guest_audit_label :: "MigrationGuestError \<Rightarrow> string" where
  "guest_audit_label UnsupportedVersionRange = ''unsupported-version-range''"
| "guest_audit_label MalformedSource = ''malformed-source''"
| "guest_audit_label GuestOverBudget = ''over-budget''"
| "guest_audit_label GuestInternal = ''guest-internal''"
| "guest_audit_label (Host reason) = reason"

datatype MigrationOutcome =
    Migrated u32 u32
  | AlreadyAtTarget u32
  | NothingToMigrate
  | RolledBack u32 u32 MigrationGuestError

datatype MigrationError =
    UnexpectedStoreVersion InstallationId u32 u32
  | MigrationRangeUnsupported u32 u32
  | MigrationBusy
  | MigrationConflict
  | MigrationStore StateStoreError
  | MigrationAudit AuditError
  | MigrationInternal string

definition migration_audit ::
  "'s StatefulAuditPort \<Rightarrow> StatefulAuditEvent \<Rightarrow> 's services \<Rightarrow> (MigrationError + unit) \<times> 's services" where
  "migration_audit audit event s = (case call (audit event) s of (r, s) \<Rightarrow> (map_err MigrationAudit r, s))"

text \<open>\<open>self.audit_failed(installation, from, to, stage)?; Err(error)\<close>\<close>

definition migration_failed ::
  "'s StatefulAuditPort \<Rightarrow> InstallationId \<Rightarrow> u32 \<Rightarrow> u32 \<Rightarrow> string \<Rightarrow> MigrationError \<Rightarrow> 's services \<Rightarrow>
    (MigrationError + MigrationOutcome) \<times> 's services" where
  "migration_failed audit i from to stage e s =
     step_then (migration_audit audit (MigrationFailed i from to stage) s) (\<lambda>_ s. (Inl e, s))"

text \<open>Steps 3 to 5, inside the migration window.\<close>

definition migrate_window ::
  "'s StateStorePort \<Rightarrow> 's StatefulAuditPort \<Rightarrow> InstallationId \<Rightarrow> u32 \<Rightarrow> u32 \<Rightarrow>
    (u64 \<Rightarrow> 's services \<Rightarrow> (MigrationGuestError + unit) \<times> 's services) \<Rightarrow> 's services \<Rightarrow>
    (MigrationError + MigrationOutcome) \<times> 's services" where
  "migrate_window port audit i from to guest s =
     (case call (port_begin_migration port i to) s of
        (Inl (TransactionConflict _), s) \<Rightarrow> (Inl MigrationBusy, s)
      | (Inl (StoreVersionMismatch _ _ _), s) \<Rightarrow> (Inl (MigrationRangeUnsupported from to), s)
      | (Inl other, s) \<Rightarrow> migration_failed audit i from to ''begin'' (MigrationStore other) s
      | (Inr tx, s) \<Rightarrow>
          (case migration_audit audit (MigrationStarted i from to) s of
             (Inl e, s) \<Rightarrow> (Inl e, snd (call (port_abort port tx) s))
           | (Inr _, s) \<Rightarrow>
               (case guest tx s of
                  (Inr _, s) \<Rightarrow>
                    (case migration_audit audit (MigrationCommitted i from to) s of
                       (Inl e, s) \<Rightarrow> (Inl e, snd (call (port_abort port tx) s))
                     | (Inr _, s) \<Rightarrow>
                         (case call (port_commit port tx) s of
                            (Inr _, s) \<Rightarrow> (Inr (Migrated from to), s)
                          | (Inl (TransactionConflict _), s) \<Rightarrow> migration_failed audit i from to ''commit'' MigrationConflict s
                          | (Inl other, s) \<Rightarrow> migration_failed audit i from to ''commit'' (MigrationStore other) s))
                | (Inl reason, s) \<Rightarrow>
                    (let s = snd (migration_audit audit (MigrationRolledBack i from to (guest_audit_label reason)) s) in
                     case call (port_abort port tx) s of
                       (Inr _, s) \<Rightarrow> (Inr (RolledBack from to reason), s)
                     | (Inl e, s) \<Rightarrow> (Inl (MigrationStore e), s)))))"

definition migrate ::
  "'s StateStorePort \<Rightarrow> 's StatefulAuditPort \<Rightarrow> InstallationId \<Rightarrow> u32 \<Rightarrow> u32 \<Rightarrow>
    (u64 \<Rightarrow> 's services \<Rightarrow> (MigrationGuestError + unit) \<times> 's services) \<Rightarrow> 's services \<Rightarrow>
    (MigrationError + MigrationOutcome) \<times> 's services" where
  "migrate port audit i from to guest s =
     (case call (port_schema_version port i) s of
        (Inl e, s) \<Rightarrow> (Inl (MigrationStore e), s)
      | (Inr None, s) \<Rightarrow> (Inr NothingToMigrate, s)
      | (Inr (Some current), s) \<Rightarrow>
          if current = to then (Inr (AlreadyAtTarget current), s)
          else if current \<noteq> from then (Inl (UnexpectedStoreVersion i from current), s)
          else if to \<le> from then (Inl (MigrationRangeUnsupported from to), s)
          else
            (case migrate_window port audit i from to guest (gate_enter i s) of
               (out, s) \<Rightarrow> (out, gate_exit i s)))"

definition services_new :: "'s \<Rightarrow> 's services" where
  "services_new x = \<lparr>world = x, migrating = {}, transactions = Map.empty\<rparr>"

end
