(* ===== verification/StateServiceSpec.thy ===== *)
theory StateServiceSpec
  imports StateService
begin

text \<open>
  What the state service and the migration service promise over any store and audit log that keep the
  contract of \<open>StatePorts\<close>, and what becomes of it on the repository's own ports.

  The lemmas of the services are proved once, in the context of the contract; the properties are their
  instances on \<open>StoragePorts\<close>. The guest of a migration is any program of calls to the state service for
  its installation (\<open>guest\<close>).
\<close>

section \<open>Guests\<close>

datatype guest_call =
    Guest_get u32 StateKey
  | Guest_cas u32 StateKey "StateValue option" "StateValue option"
  | Guest_begin u32
  | Guest_tx_get u64 StateKey
  | Guest_tx_put u64 StateKey StateValue
  | Guest_tx_delete u64 StateKey
  | Guest_commit u64
  | Guest_abort u64

datatype guest_reply =
    Value_reply "StateError + StateValue option"
  | Cas_reply "StateError + CasOutcome"
  | Begin_reply "StateError + u64"
  | Unit_reply "StateError + unit"

datatype guest = Finish "MigrationGuestError + unit" | Ask guest_call "guest_reply \<Rightarrow> guest"

fun answer_call ::
  "'s StateStorePort \<Rightarrow> 's StatefulAuditPort \<Rightarrow> InstallationId \<Rightarrow> guest_call \<Rightarrow> 's services \<Rightarrow> guest_reply \<times> 's services" where
  "answer_call port audit i (Guest_get ver k) s = apfst Value_reply (service_get port audit i ver k s)"
| "answer_call port audit i (Guest_cas ver k expected new) s = apfst Cas_reply (cas port audit i ver k expected new s)"
| "answer_call port audit i (Guest_begin ver) s = apfst Begin_reply (begin_transaction port audit i ver s)"
| "answer_call port audit i (Guest_tx_get tx k) s = apfst Value_reply (service_tx_get port audit tx i k s)"
| "answer_call port audit i (Guest_tx_put tx k v) s = apfst Unit_reply (service_tx_put port audit tx i k v s)"
| "answer_call port audit i (Guest_tx_delete tx k) s = apfst Unit_reply (service_tx_delete port audit tx i k s)"
| "answer_call port audit i (Guest_commit tx) s = apfst Unit_reply (commit_transaction port audit tx s)"
| "answer_call port audit i (Guest_abort tx) s = apfst Unit_reply (abort_transaction port audit tx s)"

primrec run_guest ::
  "'s StateStorePort \<Rightarrow> 's StatefulAuditPort \<Rightarrow> InstallationId \<Rightarrow> guest \<Rightarrow> 's services \<Rightarrow>
    (MigrationGuestError + unit) \<times> 's services" where
  "run_guest port audit i (Finish r) = (\<lambda>s. (r, s))"
| "run_guest port audit i (Ask c k) =
     (\<lambda>s. case answer_call port audit i c s of (x, s) \<Rightarrow> run_guest port audit i (k x) s)"

text \<open>
  The writes of a guest that the store has taken, in their order: a key and its new value, or no value. A
  write counts when the port accepts it, also if its audit event fails afterwards.
\<close>

fun accepted_write ::
  "'s StateStorePort \<Rightarrow> InstallationId \<Rightarrow> guest_call \<Rightarrow> 's services \<Rightarrow> (string \<times> u8 list option) list" where
  "accepted_write port i (Guest_tx_put tx k v) s =
     (if is_ok (fst (call (port_tx_put port tx i k v) s)) then [(state_key_text k, Some (state_value_bytes v))] else [])"
| "accepted_write port i (Guest_tx_delete tx k) s =
     (if is_ok (fst (call (port_tx_delete port tx i k) s)) then [(state_key_text k, None)] else [])"
| "accepted_write port i _ s = []"

primrec guest_writes ::
  "'s StateStorePort \<Rightarrow> 's StatefulAuditPort \<Rightarrow> InstallationId \<Rightarrow> guest \<Rightarrow> 's services \<Rightarrow> (string \<times> u8 list option) list" where
  "guest_writes port audit i (Finish r) = (\<lambda>s. [])"
| "guest_writes port audit i (Ask c k) =
     (\<lambda>s. accepted_write port i c s @
       (case answer_call port audit i c s of (x, s) \<Rightarrow> guest_writes port audit i (k x) s))"

fun apply_write :: "string \<times> u8 list option \<Rightarrow> (string \<rightharpoonup> u8 list) \<Rightarrow> (string \<rightharpoonup> u8 list)" where
  "apply_write (k, v) vals = vals(k := v)"

text \<open>The transaction and the state in which a migration calls its guest, if it comes to that.\<close>

definition window_start ::
  "'s StateStorePort \<Rightarrow> 's StatefulAuditPort \<Rightarrow> InstallationId \<Rightarrow> u32 \<Rightarrow> u32 \<Rightarrow> 's services \<Rightarrow> (u64 \<times> 's services) option" where
  "window_start port audit i from to s =
     (case call (port_begin_migration port i to) s of
        (Inl _, s) \<Rightarrow> None
      | (Inr tx, s) \<Rightarrow>
          (case migration_audit audit (MigrationStarted i from to) s of
             (Inl _, s) \<Rightarrow> None
           | (Inr _, s) \<Rightarrow> Some (tx, s)))"

definition guest_start ::
  "'s StateStorePort \<Rightarrow> 's StatefulAuditPort \<Rightarrow> InstallationId \<Rightarrow> u32 \<Rightarrow> u32 \<Rightarrow> 's services \<Rightarrow> (u64 \<times> 's services) option" where
  "guest_start port audit i from to s =
     (case call (port_schema_version port i) s of
        (Inr (Some current), s) \<Rightarrow>
          if current = from \<and> from < to then window_start port audit i from to (gate_enter i s) else None
      | _ \<Rightarrow> None)"

primrec never_commits :: "guest \<Rightarrow> bool" where
  "never_commits (Finish r) \<longleftrightarrow> True"
| "never_commits (Ask c k) \<longleftrightarrow> (\<forall>tx. c \<noteq> Guest_commit tx) \<and> (\<forall>x. never_commits (k x))"

section \<open>Single operations\<close>

text \<open>What a successful compare-and-swap leaves in the store.\<close>

definition store_value ::
  "InstallationId \<Rightarrow> u32 \<Rightarrow> StateKey \<Rightarrow> StateValue option \<Rightarrow> (InstallationId \<Rightarrow> view) \<Rightarrow> (InstallationId \<Rightarrow> view)" where
  "store_value i ver k new c =
     (case new of
        Some v \<Rightarrow> c(i := \<lparr>view_version = Some ver,
          view_values = (view_values (c i))(state_key_text k \<mapsto> state_value_bytes v)\<rparr>)
      | None \<Rightarrow> c(i := (c i)\<lparr>view_values := (view_values (c i))(state_key_text k := None)\<rparr>))"

lemma store_value_absent: "view_values (c i) (state_key_text k) = None \<Longrightarrow> store_value i ver k None c = c"
  by (simp add: store_value_def fun_upd_idem)

lemma value_bytes_eq [simp]:
  "map_option state_value_bytes v = map_option state_value_bytes w \<longleftrightarrow> v = w"
  by (cases v; cases w) (auto intro: StateValue.expand)

context audited_store
begin

definition quiet :: "'s services \<Rightarrow> 's services \<Rightarrow> bool" where
  "quiet s s' \<longleftrightarrow> inv (world s') \<and> abs (world s') = abs (world s) \<and> handles (world s') = handles (world s) \<and>
     migrating s' = migrating s"

lemma quiet_refl: "inv (world s) \<Longrightarrow> quiet s s"
  by (simp add: quiet_def)

lemma quiet_trans: "quiet s t \<Longrightarrow> quiet t u \<Longrightarrow> quiet s u"
  by (simp add: quiet_def)

lemma audit_event_quiet:
  assumes "inv (world s)" "audit_event audit e s = (r, s')"
  shows "quiet s s' \<and> transactions s' = transactions s \<and> (\<forall>x. r = Inl x \<longrightarrow> (\<exists>a. x = StateAuditFailure a))"
proof (cases "audit e (world s)")
  case (Pair q x)
  from audit_law [OF assms(1) Pair] assms(2) Pair show ?thesis
    by (cases q) (auto simp: audit_event_def call_def quiet_def)
qed

lemma fail_with_quiet:
  assumes "inv (world s)" "fail_with audit i op e s = (r, s')"
  shows "quiet s s' \<and> transactions s' = transactions s \<and> (\<exists>x. r = Inl x)"
proof -
  obtain q s1 where a: "audit_event audit (StateFailed i op (state_audit_label e)) s = (q, s1)" by fastforce
  from audit_event_quiet [OF assms(1) a] assms(2) a show ?thesis
    by (cases q) (auto simp: fail_with_def audit_failed_def)
qed

definition turned_down :: "'s services \<Rightarrow> 's services \<Rightarrow> bool" where
  "turned_down s s' \<longleftrightarrow> inv (world s') \<and> refused (abs (world s)) (abs (world s')) \<and> handles (world s') = handles (world s) \<and>
     migrating s' = migrating s"

lemma quiet_turned_down: "quiet s s' \<Longrightarrow> turned_down s s'"
  by (simp add: quiet_def turned_down_def)

lemma refused_trans: "refused a b \<Longrightarrow> refused b c \<Longrightarrow> refused a c"
  by (auto simp: refused_def)

lemma turned_down_trans: "turned_down s t \<Longrightarrow> turned_down t u \<Longrightarrow> turned_down s u"
  using refused_trans by (auto simp: turned_down_def)

lemma turned_down_committed: "turned_down s s' \<Longrightarrow> committed (abs (world s')) = committed (abs (world s))"
  by (auto simp: turned_down_def refused_def)

lemma call_eq: "call f s = (r, s') \<longleftrightarrow> f (world s) = (r, world s') \<and> s' = s\<lparr>world := world s'\<rparr>"
  by (cases "f (world s)") (auto simp: call_def)

lemma check_version_spec:
  assumes "inv (world s)" "check_version port i ver s = (r, s')"
  shows "transactions s' = transactions s \<and>
    (case r of Inr _ \<Rightarrow> quiet s s' \<and> i \<notin> migrating s \<and> view_version (committed (abs (world s)) i) \<in> {None, Some ver}
     | Inl e \<Rightarrow> turned_down s s')"
proof (cases "i \<in> migrating s")
  case True
  with assms show ?thesis
    by (auto simp: check_version_def is_migrating_def turned_down_def)
next
  case False
  obtain q x where v: "port_schema_version port i (world s) = (q, x)" by fastforce
  note law = version_law [OF assms(1) v]
  show ?thesis
  proof (cases q)
    case (Inl e)
    with law v False assms(2) show ?thesis
      by (auto simp: check_version_def is_migrating_def call_def turned_down_def)
  next
    case (Inr cur)
    with law have x: "abs x = abs (world s)" "cur = view_version (committed (abs (world s)) i)"
      by (auto simp: stepped_def)
    have "quiet s (s\<lparr>world := x\<rparr>)" using law x(1) by (simp add: quiet_def)
    with v False Inr x(2) assms(2) show ?thesis
      by (auto simp: check_version_def is_migrating_def call_def intro: quiet_turned_down split: if_splits)
  qed
qed

text \<open>An operation that fails after it was turned down stays so.\<close>

lemma turned_down_fail:
  assumes "turned_down s t" "fail_with audit i op e t = (r, s')"
  shows "turned_down s s' \<and> transactions s' = transactions t \<and> (\<exists>x. r = Inl x)"
  using fail_with_quiet [OF _ assms(2)] assms(1) turned_down_trans quiet_turned_down by (auto simp: turned_down_def)

lemma cas_read_spec:
  assumes "inv (world s)" "cas_read port audit i ver k s = (r, s')"
  shows "transactions s' = transactions s \<and>
    (case r of Inr v \<Rightarrow> quiet s s' \<and> i \<notin> migrating s \<and> view_version (committed (abs (world s)) i) \<in> {None, Some ver} \<and>
        open_tx (abs (world s)) = None \<and>
        map_option state_value_bytes v = view_values (committed (abs (world s)) i) (state_key_text k)
     | Inl e \<Rightarrow> turned_down s s')"
proof -
  obtain q t where c: "check_version port i ver s = (q, t)" by fastforce
  note cv = check_version_spec [OF assms(1) c]
  show ?thesis
  proof (cases q)
    case (Inl e)
    with cv c assms(2) turned_down_fail [of s t i "''cas''" e r s'] show ?thesis
      by (auto simp: cas_read_def split: sum.splits)
  next
    case (Inr u)
    with cv have q: "quiet s t" by simp
    obtain p x where g: "port_get port i k (world t) = (p, x)" by fastforce
    note law = get_law [OF _ g]
    show ?thesis
    proof (cases p)
      case (Inl e)
      with law q have td: "turned_down s (t\<lparr>world := x\<rparr>)" by (auto simp: quiet_def turned_down_def)
      from turned_down_fail [OF td, of i "''cas''" "map_store_error e" r s'] Inl g c Inr assms(2) cv show ?thesis
        by (auto simp: cas_read_def call_def split: sum.splits)
    next
      case v: (Inr v)
      with law q have st: "stepped (GetState i (state_key k) None) (ValueIs (map_option state_value_bytes v)) (abs (world s)) (abs x)"
        "inv x" "handles x = handles (world s)" by (auto simp: quiet_def)
      from st(1) have eq: "abs x = abs (world s)" "open_tx (abs (world s)) = None"
          "map_option state_value_bytes v = view_values (committed (abs (world s)) i) (state_key_text k)"
        by (auto simp: stepped_def in_tx_def outside_tx_def split: if_splits option.splits)
      have "quiet s (t\<lparr>world := x\<rparr>)" using st(2,3) eq(1) q by (simp add: quiet_def)
      with v g c Inr assms(2) cv eq(2,3) show ?thesis by (auto simp: cas_read_def call_def)
    qed
  qed
qed

lemma write_stepped:
  "stepped (PutState i (state_key k) (Some ver) (state_value_bytes v) None) y a b \<Longrightarrow>
     committed b = store_value i ver k (Some v) (committed a)"
  "stepped (DeleteState i (state_key k) None) y a b \<Longrightarrow> committed b = store_value i ver k None (committed a)"
  by (auto simp: stepped_def in_tx_def store_value_def split: if_splits option.splits)

lemma cas_write_spec:
  assumes "inv (world s)" "cas_write port audit i ver k expected new cur s = (r, s')"
    and "map_option state_value_bytes cur = view_values (committed (abs (world s)) i) (state_key_text k)"
  shows "inv (world s') \<and> handles (world s') = handles (world s) \<and> migrating s' = migrating s \<and> transactions s' = transactions s \<and>
    (case r of
       Inr Applied \<Rightarrow> cur = expected \<and> committed (abs (world s')) = store_value i ver k new (committed (abs (world s)))
     | Inr Rejected \<Rightarrow> cur \<noteq> expected \<and> committed (abs (world s')) = committed (abs (world s))
     | Inl e \<Rightarrow> committed (abs (world s')) = committed (abs (world s)) \<or>
         (\<exists>a. e = StateAuditFailure a) \<and> cur = expected \<and>
           committed (abs (world s')) = store_value i ver k new (committed (abs (world s))))"
proof (cases "cur = expected")
  case False
  obtain q t where a: "audit_event audit (StateCasRejected i k) s = (q, t)" by fastforce
  from audit_event_quiet [OF assms(1) a] a assms(2) False show ?thesis
    by (cases q) (auto simp: cas_write_def quiet_def)
next
  case True
  define w where "w = (case (new, cur) of
            (Some v, _) \<Rightarrow> call (port_put port i k ver v) s
          | (None, Some _) \<Rightarrow> call (port_delete port i k) s
          | (None, None) \<Rightarrow> (Inr (), s))"
  obtain q t where qt: "w = (q, t)" by fastforce
  have wr: "inv (world t) \<and> handles (world t) = handles (world s) \<and> migrating t = migrating s \<and> transactions t = transactions s \<and>
      (case q of Inr u \<Rightarrow> committed (abs (world t)) = store_value i ver k new (committed (abs (world s)))
       | Inl e \<Rightarrow> committed (abs (world t)) = committed (abs (world s)))"
  proof (cases new)
    case (Some v)
    then have c: "port_put port i k ver v (world s) = (q, world t)" "t = s\<lparr>world := world t\<rparr>"
      using qt by (simp_all add: w_def call_eq)
    have "migrating t = migrating s \<and> transactions t = transactions s" by (subst (1 2) c(2)) simp
    with put_law [OF assms(1) c(1)] Some show ?thesis
      by (cases q) (auto simp: refused_def dest: write_stepped(1))
  next
    case None
    note new = this
    show ?thesis
    proof (cases cur)
      case None
      with new qt assms(1,3) show ?thesis by (auto simp: w_def store_value_absent)
    next
      case (Some v)
      then have c: "port_delete port i k (world s) = (q, world t)" "t = s\<lparr>world := world t\<rparr>"
        using qt new by (simp_all add: w_def call_eq)
      have "migrating t = migrating s \<and> transactions t = transactions s" by (subst (1 2) c(2)) simp
      with delete_law [OF assms(1) c(1)] new show ?thesis
        by (cases q) (auto simp: refused_def dest: write_stepped(2))
    qed
  qed
  show ?thesis
  proof (cases q)
    case (Inl e)
    then have "fail_with audit i ''cas'' (map_store_error e) t = (r, s')"
      using assms(2) True qt by (simp add: cas_write_def w_def)
    from fail_with_quiet [OF _ this] wr Inl show ?thesis by (auto simp: quiet_def)
  next
    case (Inr u)
    then have "step_then (audit_event audit (StateCasApplied i k) t) (\<lambda>_ s. (Inr Applied, s)) = (r, s')"
      using assms(2) True qt by (simp add: cas_write_def w_def)
    moreover obtain p v where a: "audit_event audit (StateCasApplied i k) t = (p, v)" by fastforce
    ultimately show ?thesis
      using audit_event_quiet [OF _ a] wr Inr True by (cases p) (auto simp: quiet_def)
  qed
qed

lemma cas_spec:
  assumes "inv (world s)" "cas port audit i ver k expected new s = (r, s')"
  shows "inv (world s') \<and> handles (world s') = handles (world s) \<and> migrating s' = migrating s \<and> transactions s' = transactions s \<and>
    (let c = committed (abs (world s)); c' = committed (abs (world s'));
         held = (view_values (c i) (state_key_text k) = map_option state_value_bytes expected) in
     case r of
       Inr Applied \<Rightarrow> i \<notin> migrating s \<and> view_version (c i) \<in> {None, Some ver} \<and> held \<and> c' = store_value i ver k new c
     | Inr Rejected \<Rightarrow> i \<notin> migrating s \<and> view_version (c i) \<in> {None, Some ver} \<and> \<not> held \<and> c' = c
     | Inl e \<Rightarrow> c' = c \<or> (\<exists>a. e = StateAuditFailure a) \<and> held \<and> c' = store_value i ver k new c)"
proof -
  obtain q t where rd: "cas_read port audit i ver k s = (q, t)" by fastforce
  note cr = cas_read_spec [OF assms(1) rd]
  show ?thesis
  proof (cases q)
    case (Inl e)
    with assms(2) rd have "r = Inl e" "s' = t" by (auto simp: cas_def)
    moreover have "committed (abs (world t)) = committed (abs (world s))"
      using cr Inl by (auto dest: turned_down_committed)
    ultimately show ?thesis using cr Inl by (simp add: turned_down_def Let_def)
  next
    case (Inr cur)
    with assms(2) rd have w: "cas_write port audit i ver k expected new cur t = (r, s')" by (simp add: cas_def)
    from cr Inr have q: "quiet s t" "transactions t = transactions s" "i \<notin> migrating s"
      "view_version (committed (abs (world s)) i) \<in> {None, Some ver}" by simp_all
    from cr Inr have cur: "view_values (committed (abs (world s)) i) (state_key_text k) = map_option state_value_bytes cur"
      by simp
    from q(1) cur have "inv (world t)" "map_option state_value_bytes cur =
        view_values (committed (abs (world t)) i) (state_key_text k)" by (simp_all add: quiet_def)
    from cas_write_spec [OF this(1) w this(2)] q cur show ?thesis
      by (auto simp: quiet_def Let_def split: sum.splits CasOutcome.splits)
  qed
qed

end

section \<open>Migrations\<close>

text \<open>The migration is reported as done.\<close>

definition reported :: "(MigrationError + MigrationOutcome) \<Rightarrow> bool" where
  "reported out \<longleftrightarrow> (\<exists>f t. out = Inr (Migrated f t))"

text \<open>
  The store of installation \<open>i\<close> after the writes \<open>ws\<close> of a migration to version \<open>to\<close>, when they have been
  committed; a transaction without writes changes nothing.
\<close>

definition written :: "InstallationId \<Rightarrow> u32 \<Rightarrow> (string \<times> u8 list option) list \<Rightarrow> (InstallationId \<Rightarrow> view) \<Rightarrow> (InstallationId \<Rightarrow> view)" where
  "written i to ws old =
     (if ws = [] then old
      else old(i := \<lparr>view_version = Some to, view_values = fold apply_write ws (view_values (old i))\<rparr>))"

text \<open>
  The state of the store while the migration runs and the writes \<open>ws\<close> have been accepted: the transaction
  is open and holds them, or it is over and they are there or not at all. Only a guest that commits
  itself (\<open>c\<close>) can make them be there.
\<close>

definition window :: "bool \<Rightarrow> InstallationId \<Rightarrow> u32 \<Rightarrow> (InstallationId \<Rightarrow> view) \<Rightarrow> (string \<times> u8 list option) list \<Rightarrow> spec \<Rightarrow> bool" where
  "window c i to old ws a \<longleftrightarrow>
     (case open_tx a of
        Some (t, vals) \<Rightarrow> tx_installation t = i \<and> tx_version t = to \<and> committed a = old \<and>
          vals = fold apply_write ws (view_values (old i)) \<and> (dirty t \<longleftrightarrow> ws \<noteq> [])
      | None \<Rightarrow> committed a = old \<or> c \<and> committed a = written i to ws old)"

lemma window_begun:
  "stepped (BeginStateTransaction i to mode) y a b \<Longrightarrow> window c i to (committed a) [] b"
  by (auto simp: stepped_def window_def Let_def split: if_splits)

lemma window_refused: "window c i to old ws a \<Longrightarrow> refused a b \<Longrightarrow> window c i to old ws b"
  by (auto simp: refused_def window_def split: option.splits)

lemma window_closed: "window c i to old ws a \<Longrightarrow> committed a = old \<or> c \<and> committed a = written i to ws old"
  by (auto simp: window_def split: option.splits)

lemma window_stepped:
  "window c i to old ws a \<Longrightarrow> stepped (GetState j k tx) y a b \<Longrightarrow> window c i to old ws b"
  "window c i to old ws a \<Longrightarrow> stepped (PutState j k None v (Some h)) y a b \<Longrightarrow>
     window c i to old (ws @ [(storage_key_text k, Some v)]) b"
  "window c i to old ws a \<Longrightarrow> stepped (DeleteState j k (Some h)) y a b \<Longrightarrow>
     window c i to old (ws @ [(storage_key_text k, None)]) b"
  "window c i to old ws a \<Longrightarrow> stepped (AbortStateTransaction h) y a b \<Longrightarrow> window c i to old ws b"
  "window True i to old ws a \<Longrightarrow> stepped (CommitStateTransaction h) y a b \<Longrightarrow> window True i to old ws b"
  by (auto simp: window_def stepped_def in_tx_def outside_tx_def write_values_def written_def split: if_splits option.splits)

lemma window_committed:
  assumes "window c i to old ws a" "stepped (CommitStateTransaction h) y a b"
  shows "committed b = written i to ws old"
  using assms by (auto simp: window_def stepped_def written_def split: option.splits if_splits)

context audited_store
begin

definition in_window :: "bool \<Rightarrow> InstallationId \<Rightarrow> u32 \<Rightarrow> (InstallationId \<Rightarrow> view) \<Rightarrow> InstallationId set \<Rightarrow>
    (string \<times> u8 list option) list \<Rightarrow> 's services \<Rightarrow> bool" where
  "in_window c i to old g ws s \<longleftrightarrow> inv (world s) \<and> migrating s = g \<and> window c i to old ws (abs (world s))"

lemma in_window_quiet: "in_window c i to old g ws s \<Longrightarrow> quiet s s' \<Longrightarrow> in_window c i to old g ws s'"
  by (simp add: in_window_def quiet_def)

lemma in_window_fail:
  assumes "in_window c i to old g ws s" "fail_with audit j op e s = (r, s')"
  shows "in_window c i to old g ws s'"
proof -
  have "inv (world s)" using assms(1) by (simp add: in_window_def)
  from fail_with_quiet [OF this assms(2)] in_window_quiet [OF assms(1)] show ?thesis by blast
qed

lemma in_window_audit:
  assumes "in_window c i to old g ws s" "audit_event audit e s = (r, s')"
  shows "in_window c i to old g ws s'"
proof -
  have "inv (world s)" using assms(1) by (simp add: in_window_def)
  from audit_event_quiet [OF this assms(2)] in_window_quiet [OF assms(1)] show ?thesis by blast
qed

text \<open>The installation is not served while it is migrated.\<close>

lemma check_version_migrating: "i \<in> migrating s \<Longrightarrow> check_version port i ver s = (Inl NotReady, s)"
  by (simp add: check_version_def is_migrating_def)

lemma in_window_gated:
  assumes "in_window c i to old g ws s" "i \<in> g"
  shows "in_window c i to old g ws (snd (service_get port audit i ver k s))"
    and "in_window c i to old g ws (snd (cas port audit i ver k expected new s))"
    and "in_window c i to old g ws (snd (begin_transaction port audit i ver s))"
proof -
  have "i \<in> migrating s" using assms by (simp add: in_window_def)
  note cv = check_version_migrating [OF this]
  have f: "in_window c i to old g ws (snd (fail_with audit i op NotReady s :: (StateError + 'x) \<times> 's services))" for op
    using in_window_fail [OF assms(1)] by (metis prod.collapse)
  show "in_window c i to old g ws (snd (service_get port audit i ver k s))"
    using f by (simp add: service_get_def cv)
  show "in_window c i to old g ws (snd (begin_transaction port audit i ver s))"
    using f by (simp add: begin_transaction_def cv)
  obtain r t where rd: "cas_read port audit i ver k s = (r, t)" by fastforce
  then have "fail_with audit i ''cas'' NotReady s = (r, t)" by (simp add: cas_read_def cv)
  moreover from this obtain e where "r = Inl e" using fail_with_quiet assms(1) by (fastforce simp: in_window_def)
  ultimately show "in_window c i to old g ws (snd (cas port audit i ver k expected new s))"
    using in_window_fail [OF assms(1)] rd by (auto simp: cas_def)
qed

lemma in_window_call:
  assumes "in_window c i to old g ws s" "call f s = (r, s')" "inv (world s')" "window c i to old ws' (abs (world s'))"
  shows "in_window c i to old g ws' s'"
proof -
  from assms(2) have "s' = s\<lparr>world := world s'\<rparr>" by (simp add: call_eq)
  from arg_cong [OF this, of migrating] assms show ?thesis by (simp add: in_window_def)
qed

lemma in_window_call_ops:
  assumes "in_window c i to old g ws s"
  shows "call (port_tx_get port tx j k) s = (r1, s') \<Longrightarrow> in_window c i to old g ws s'"
    and "call (port_tx_put port tx j k v) s = (r2, s') \<Longrightarrow>
      in_window c i to old g (ws @ (if is_ok r2 then [(state_key_text k, Some (state_value_bytes v))] else [])) s'"
    and "call (port_tx_delete port tx j k) s = (r2, s') \<Longrightarrow>
      in_window c i to old g (ws @ (if is_ok r2 then [(state_key_text k, None)] else [])) s'"
    and "call (port_abort port tx) s = (r2, s') \<Longrightarrow> in_window c i to old g ws s'"
    and "call (port_commit port tx) s = (r2, s') \<Longrightarrow> c \<or> (\<exists>e. r2 = Inl e) \<Longrightarrow> in_window c i to old g ws s'"
proof -
  have s: "inv (world s)" "window c i to old ws (abs (world s))" using assms by (simp_all add: in_window_def)
  show "call (port_tx_get port tx j k) s = (r1, s') \<Longrightarrow> in_window c i to old g ws s'"
    using tx_get_law [OF s(1), of tx j k r1 "world s'"] window_refused [OF s(2)] window_stepped(1) [OF s(2)]
    by (cases r1) (auto intro!: in_window_call [OF assms] simp: call_eq)
  show "call (port_tx_put port tx j k v) s = (r2, s') \<Longrightarrow>
      in_window c i to old g (ws @ (if is_ok r2 then [(state_key_text k, Some (state_value_bytes v))] else [])) s'"
    using tx_put_law [OF s(1), of tx j k v r2 "world s'"] window_refused [OF s(2)] window_stepped(2) [OF s(2), of j "state_key k"]
    by (cases r2) (auto intro!: in_window_call [OF assms] simp: call_eq)
  show "call (port_tx_delete port tx j k) s = (r2, s') \<Longrightarrow>
      in_window c i to old g (ws @ (if is_ok r2 then [(state_key_text k, None)] else [])) s'"
    using tx_delete_law [OF s(1), of tx j k r2 "world s'"] window_refused [OF s(2)] window_stepped(3) [OF s(2), of j "state_key k"]
    by (cases r2) (auto intro!: in_window_call [OF assms] simp: call_eq)
  show "call (port_abort port tx) s = (r2, s') \<Longrightarrow> in_window c i to old g ws s'"
    using abort_law [OF s(1), of tx r2 "world s'"] window_refused [OF s(2)] window_stepped(4) [OF s(2)] s(2)
    by (cases r2) (auto intro!: in_window_call [OF assms] simp: call_eq split: option.splits)
  assume commit: "call (port_commit port tx) s = (r2, s')" "c \<or> (\<exists>e. r2 = Inl e)"
  then have law: "inv (world s') \<and> (case r2 of
      Inr u \<Rightarrow> \<exists>h. stepped (CommitStateTransaction h) Done (abs (world s)) (abs (world s'))
    | Inl e \<Rightarrow> refused (abs (world s)) (abs (world s')))"
    using commit_law [OF s(1), of tx r2 "world s'"] by (auto simp: call_eq split: sum.splits)
  have "window c i to old ws (abs (world s'))"
  proof (cases r2)
    case (Inr u)
    with commit(2) have c by simp
    with law Inr s(2) window_stepped(5) [of i to old ws "abs (world s)"] show ?thesis by auto
  qed (use law window_refused [OF s(2)] in auto)
  with law show "in_window c i to old g ws s'" using in_window_call [OF assms commit(1)] by blast
qed

lemma in_window_forget: "in_window c i to old g ws (forget_transaction tx s) = in_window c i to old g ws s"
  by (simp add: in_window_def forget_transaction_def)

lemma in_window_answer:
  assumes "in_window c i to old g ws s" "i \<in> g" "answer_call port audit i call' s = (x, s')"
    and "c \<or> (\<forall>tx. call' \<noteq> Guest_commit tx)"
  shows "in_window c i to old g (ws @ accepted_write port i call' s) s'"
proof (cases call')
  case (Guest_get ver k)
  with in_window_gated(1) [OF assms(1,2), of ver k] assms(3) show ?thesis
    by (cases "service_get port audit i ver k s") auto
next
  case (Guest_cas ver k expected new)
  with in_window_gated(2) [OF assms(1,2), of ver k expected new] assms(3) show ?thesis
    by (cases "cas port audit i ver k expected new s") auto
next
  case (Guest_begin ver)
  with in_window_gated(3) [OF assms(1,2), of ver] assms(3) show ?thesis
    by (cases "begin_transaction port audit i ver s") auto
next
  case (Guest_tx_get tx k)
  obtain r t where r: "call (port_tx_get port tx i k) s = (r, t)" by fastforce
  note w = in_window_call_ops(1) [OF assms(1) r]
  from Guest_tx_get r w assms(3) in_window_fail [OF w] show ?thesis
    by (cases r) (auto simp: service_tx_get_def apfst_def map_prod_def split: prod.splits)
next
  case (Guest_tx_put tx k v)
  obtain r t where r: "call (port_tx_put port tx i k v) s = (r, t)" by fastforce
  note w = in_window_call_ops(2) [OF assms(1) r]
  from Guest_tx_put r w assms(3) in_window_fail [OF w] in_window_audit [OF w] show ?thesis
    by (cases r) (auto simp: service_tx_put_def apfst_def map_prod_def split: prod.splits)
next
  case (Guest_tx_delete tx k)
  obtain r t where r: "call (port_tx_delete port tx i k) s = (r, t)" by fastforce
  note w = in_window_call_ops(3) [OF assms(1) r]
  from Guest_tx_delete r w assms(3) in_window_fail [OF w] in_window_audit [OF w] show ?thesis
    by (cases r) (auto simp: service_tx_delete_def apfst_def map_prod_def split: prod.splits)
next
  case (Guest_commit tx)
  obtain r t where r: "call (port_commit port tx) s = (r, t)" by fastforce
  have w: "in_window c i to old g ws t" "in_window c i to old g ws (forget_transaction tx t)"
    using in_window_call_ops(5) [OF assms(1) r] assms(4) Guest_commit by (auto simp: in_window_forget)
  from Guest_commit r w assms(3) in_window_fail [OF w(1)] in_window_fail [OF w(2)] in_window_audit [OF w(2)] show ?thesis
    by (cases r) (auto simp: commit_transaction_def Let_def apfst_def map_prod_def split: prod.splits option.splits if_splits)
next
  case (Guest_abort tx)
  obtain r t where r: "call (port_abort port tx) s = (r, t)" by fastforce
  have w: "in_window c i to old g ws t" "in_window c i to old g ws (forget_transaction tx t)"
    using in_window_call_ops(4) [OF assms(1) r] by (auto simp: in_window_forget)
  from Guest_abort r w assms(3) in_window_fail [OF w(1)] in_window_fail [OF w(2)] in_window_audit [OF w(2)] show ?thesis
    by (cases r) (auto simp: abort_transaction_def Let_def apfst_def map_prod_def split: prod.splits option.splits if_splits)
qed

lemma in_window_guest:
  assumes "in_window c i to old g ws s" "i \<in> g" "c \<or> never_commits p"
  shows "in_window c i to old g (ws @ guest_writes port audit i p s) (snd (run_guest port audit i p s))"
  using assms(1,3)
proof (induction p arbitrary: s ws)
  case (Finish r)
  then show ?case by simp
next
  case (Ask q k)
  obtain x t where a: "answer_call port audit i q s = (x, t)" by fastforce
  have "in_window c i to old g (ws @ accepted_write port i q s) t"
    using in_window_answer [OF Ask.prems(1) assms(2) a] Ask.prems(2) by auto
  moreover have "c \<or> never_commits (k x)" using Ask.prems(2) by auto
  ultimately show ?case using Ask.IH by (fastforce simp: a)
qed

lemma in_window_migration_audit:
  assumes "in_window c i to old g ws s" "migration_audit audit e s = (r, s')"
  shows "in_window c i to old g ws s' \<and> quiet s s'"
proof -
  obtain q x where a: "audit e (world s) = (q, x)" by fastforce
  have "quiet s s'" using audit_law [OF _ a] assms a
    by (auto simp: in_window_def quiet_def migration_audit_def call_def)
  with in_window_quiet [OF assms(1)] show ?thesis by blast
qed

lemma in_window_migration_failed:
  assumes "in_window c i to old g ws s" "migration_failed audit i from to stage e s = (out, s')"
  shows "in_window c i to old g ws s' \<and> (\<exists>e. out = Inl e)"
proof -
  obtain q t where "migration_audit audit (MigrationFailed i from to stage) s = (q, t)" by fastforce
  with in_window_migration_audit [OF assms(1) this] assms(2) show ?thesis
    by (cases q) (auto simp: migration_failed_def)
qed

text \<open>How the store stands when the migration is over.\<close>

definition finished :: "bool \<Rightarrow> InstallationId \<Rightarrow> u32 \<Rightarrow> (string \<times> u8 list option) list \<Rightarrow> (InstallationId \<Rightarrow> view) \<Rightarrow> bool \<Rightarrow>
    's services \<Rightarrow> bool" where
  "finished c i to ws old rep s' \<longleftrightarrow>
     (let new = committed (abs (world s')) in if rep \<or> c \<and> new \<noteq> old then new = written i to ws old else new = old)"

lemma in_window_finished: "in_window c i to old g ws s \<Longrightarrow> finished c i to ws old False s"
  using window_closed by (fastforce simp: in_window_def finished_def Let_def)

text \<open>Step 5, after the guest has returned.\<close>

lemma after_guest:
  assumes "in_window c i to old g ws s2"
    and "(case migration_audit audit (MigrationCommitted i from to) s2 of
            (Inl e, s) \<Rightarrow> (Inl e, snd (call (port_abort port tx) s))
          | (Inr _, s) \<Rightarrow>
              (case call (port_commit port tx) s of
                 (Inr _, s) \<Rightarrow> (Inr (Migrated from to), s)
               | (Inl (TransactionConflict _), s) \<Rightarrow> migration_failed audit i from to ''commit'' MigrationConflict s
               | (Inl other, s) \<Rightarrow> migration_failed audit i from to ''commit'' (MigrationStore other) s)) = (out, s')"
  shows "inv (world s') \<and> migrating s' = g \<and> finished c i to ws old (reported out) s' \<and>
    (out = Inr (Migrated from to) \<or> (\<exists>e. out = Inl e))"
proof -
  obtain q t where a: "migration_audit audit (MigrationCommitted i from to) s2 = (q, t)" by fastforce
  note w = in_window_migration_audit [OF assms(1) a]
  have in_win: "inv (world s) \<and> migrating s = g \<and> finished c i to ws old False s" if "in_window c i to old g ws s" for s
    using that in_window_finished [OF that] by (simp add: in_window_def)
  show ?thesis
  proof (cases q)
    case (Inl e)
    obtain r u where ab: "call (port_abort port tx) t = (r, u)" by fastforce
    from in_window_call_ops(4) [OF _ ab] w have "in_window c i to old g ws u" by blast
    with assms(2) a Inl ab in_win [OF this] show ?thesis by (auto simp: reported_def)
  next
    case (Inr x)
    obtain r u where cm: "call (port_commit port tx) t = (r, u)" by fastforce
    show ?thesis
    proof (cases r)
      case (Inl e)
      from in_window_call_ops(5) [OF _ cm] w Inl have "in_window c i to old g ws u" by blast
      note failed = in_window_migration_failed [OF this]
      have "\<exists>err. migration_failed audit i from to ''commit'' err u = (out, s')"
        using assms(2) a Inr cm Inl by (cases e) auto
      with failed in_win show ?thesis by (fastforce simp: reported_def)
    next
      case r: (Inr y)
      with assms(2) a Inr cm have out: "out = Inr (Migrated from to)" "s' = u" by simp_all
      from cm have p: "port_commit port tx (world t) = (Inr y, world u)" "u = t\<lparr>world := world u\<rparr>"
        using r by (simp_all add: call_eq)
      have "migrating u = migrating t" by (subst p(2)) simp
      have t: "inv (world t)" "window c i to old ws (abs (world t))" "migrating t = g"
        using w by (auto simp: in_window_def)
      from commit_law [OF t(1) p(1)] obtain h where law: "inv (world u)"
        "stepped (CommitStateTransaction h) Done (abs (world t)) (abs (world u))" by auto
      from window_committed [OF t(2) law(2)] out law(1) t(3) \<open>migrating u = migrating t\<close> show ?thesis
        by (simp add: finished_def reported_def Let_def)
    qed
  qed
qed

lemma migrate_window_spec:
  assumes "inv (world s)" "i \<in> migrating s" "c \<or> (\<forall>tx. never_commits (p tx))"
    and "migrate_window port audit i from to (\<lambda>tx. run_guest port audit i (p tx)) s = (out, s')"
  shows "inv (world s') \<and> migrating s' = migrating s \<and> (\<forall>f t. out = Inr (Migrated f t) \<longrightarrow> f = from \<and> t = to) \<and>
    (case window_start port audit i from to s of
       None \<Rightarrow> \<not> reported out \<and> committed (abs (world s')) = committed (abs (world s))
     | Some (tx, s1) \<Rightarrow> finished c i to (guest_writes port audit i (p tx) s1) (committed (abs (world s))) (reported out) s')"
proof -
  let ?old = "committed (abs (world s))"
  let ?w = "in_window c i to ?old (migrating s)"
  obtain q t where b: "call (port_begin_migration port i to) s = (q, t)" by fastforce
  then have bp: "port_begin_migration port i to (world s) = (q, world t)" "t = s\<lparr>world := world t\<rparr>"
    by (simp_all add: call_eq)
  note law = begin_migration_law [OF assms(1) bp(1)]
  have mig: "migrating t = migrating s" by (subst bp(2)) simp
  show ?thesis
  proof (cases q)
    case (Inl e)
    with law have t: "inv (world t)" "committed (abs (world t)) = ?old" by (auto simp: refused_def)
    have "quiet t t" using t(1) by (rule quiet_refl)
    have "\<exists>x u. out = Inl x \<and> s' = u \<and> quiet t u"
    proof (cases "\<exists>m j v n. e = TransactionConflict m \<or> e = StoreVersionMismatch j v n")
      case True
      with assms(4) b Inl \<open>quiet t t\<close> show ?thesis by (auto simp: migrate_window_def)
    next
      case False
      with assms(4) b Inl have f: "migration_failed audit i from to ''begin'' (MigrationStore e) t = (out, s')"
        by (cases e) (auto simp: migrate_window_def)
      obtain r u where a: "migration_audit audit (MigrationFailed i from to ''begin'') t = (r, u)" by fastforce
      obtain v x where au: "audit (MigrationFailed i from to ''begin'') (world t) = (v, x)" by fastforce
      from audit_law [OF t(1) au] au a have "quiet t u" by (auto simp: migration_audit_def call_def quiet_def)
      with f a show ?thesis by (cases r) (auto simp: migration_failed_def)
    qed
    with b Inl t mig show ?thesis by (auto simp: window_start_def reported_def quiet_def)
  next
    case (Inr tx)
    with law obtain h where "inv (world t)" "stepped (BeginStateTransaction i to Migration) (Began h) (abs (world s)) (abs (world t))"
      by auto
    with window_begun [OF this(2)] mig have wt: "?w [] t" by (simp add: in_window_def)
    obtain r u where a: "migration_audit audit (MigrationStarted i from to) t = (r, u)" by fastforce
    from in_window_migration_audit [OF wt a] have wu: "?w [] u" by blast
    show ?thesis
    proof (cases r)
      case (Inl e)
      obtain z v where ab: "call (port_abort port tx) u = (z, v)" by fastforce
      with assms(4) b Inr a Inl have "s' = v" "\<not> reported out" by (auto simp: migrate_window_def reported_def)
      with in_window_call_ops(4) [OF wu ab] window_closed b Inr a Inl show ?thesis
        by (fastforce simp: window_start_def in_window_def written_def reported_def)
    next
      case started: (Inr x)
      let ?ws = "guest_writes port audit i (p tx) u"
      have start: "window_start port audit i from to s = Some (tx, u)" using b Inr a started by (simp add: window_start_def)
      obtain gr v where gst: "run_guest port audit i (p tx) u = (gr, v)" by fastforce
      from in_window_guest [OF wu assms(2), of "p tx"] assms(3) gst have wv: "?w ?ws v" by auto
      show ?thesis
      proof (cases gr)
        case guest: (Inr y)
        have "(case migration_audit audit (MigrationCommitted i from to) v of
            (Inl e, s) \<Rightarrow> (Inl e, snd (call (port_abort port tx) s))
          | (Inr _, s) \<Rightarrow>
              (case call (port_commit port tx) s of
                 (Inr _, s) \<Rightarrow> (Inr (Migrated from to), s)
               | (Inl (TransactionConflict _), s) \<Rightarrow> migration_failed audit i from to ''commit'' MigrationConflict s
               | (Inl other, s) \<Rightarrow> migration_failed audit i from to ''commit'' (MigrationStore other) s)) = (out, s')"
          using assms(4) b Inr a started gst guest by (simp add: migrate_window_def)
        from after_guest [OF wv this] start show ?thesis by auto
      next
        case (Inl reason)
        obtain z k where ra: "migration_audit audit (MigrationRolledBack i from to (guest_audit_label reason)) v = (z, k)" by fastforce
        from in_window_migration_audit [OF wv ra] have wk: "?w ?ws k" by blast
        obtain y l where ab: "call (port_abort port tx) k = (y, l)" by fastforce
        have "s' = l" "\<not> reported out"
          using assms(4) b Inr a started gst Inl ra ab by (cases y; auto simp: migrate_window_def reported_def)+
        with in_window_call_ops(4) [OF wk ab] in_window_finished start show ?thesis
          by (auto simp: in_window_def reported_def)
      qed
    qed
  qed
qed

lemma migrate_spec:
  assumes "inv (world s)" "c \<or> (\<forall>tx. never_commits (p tx))"
    and "migrate port audit i from to (\<lambda>tx. run_guest port audit i (p tx)) s = (out, s')"
  shows "inv (world s') \<and> (migrating s' = migrating s \<or> migrating s' = migrating s - {i}) \<and>
    (\<forall>f t. out = Inr (Migrated f t) \<longrightarrow> f = from \<and> t = to) \<and>
    (case guest_start port audit i from to s of
       None \<Rightarrow> \<not> reported out \<and> committed (abs (world s')) = committed (abs (world s))
     | Some (tx, s1) \<Rightarrow> view_version (committed (abs (world s)) i) = Some from \<and> from < to \<and>
         finished c i to (guest_writes port audit i (p tx) s1) (committed (abs (world s))) (reported out) s')"
proof -
  obtain q t where v: "call (port_schema_version port i) s = (q, t)" by fastforce
  then have vp: "port_schema_version port i (world s) = (q, world t)" "t = s\<lparr>world := world t\<rparr>" by (simp_all add: call_eq)
  note law = version_law [OF assms(1) vp(1)]
  have mig: "migrating t = migrating s" by (subst vp(2)) simp
  show ?thesis
  proof (cases "q = Inr (Some from) \<and> from < to")
    case False
    have "out \<noteq> Inr (Migrated f t)" for f t
      using False assms(3) v by (auto simp: migrate_def not_less split: sum.splits option.splits if_splits)
    moreover have "s' = t"
      using False assms(3) v by (auto simp: migrate_def not_less split: sum.splits option.splits if_splits)
    moreover have "guest_start port audit i from to s = None"
      using False v by (auto simp: guest_start_def split: sum.splits option.splits)
    moreover have "committed (abs (world t)) = committed (abs (world s))"
      using law by (cases q) (auto simp: refused_def stepped_def)
    ultimately show ?thesis using law mig by (simp add: reported_def)
  next
    case True
    with law have t: "inv (world t)" "abs (world t) = abs (world s)" "view_version (committed (abs (world s)) i) = Some from"
      by (auto simp: stepped_def)
    obtain o1 u where w: "migrate_window port audit i from to (\<lambda>tx. run_guest port audit i (p tx)) (gate_enter i t) = (o1, u)"
      by fastforce
    have "from \<noteq> to" "\<not> to \<le> from" using True by auto
    with assms(3) v True w have out: "out = o1" "s' = gate_exit i u" by (simp_all add: migrate_def)
    have start: "guest_start port audit i from to s = window_start port audit i from to (gate_enter i t)"
      using v True by (simp add: guest_start_def)
    have e: "world (gate_enter i t) = world t" "migrating (gate_enter i t) = insert i (migrating s)"
      "world s' = world u" "migrating s' = migrating u - {i}"
      by (simp_all add: gate_enter_def gate_exit_def mig out(2))
    have g: "inv (world (gate_enter i t))" "i \<in> migrating (gate_enter i t)" using t(1) e by simp_all
    note mw = migrate_window_spec [OF g assms(2) w]
    have fin: "finished c i to ws old b u \<longleftrightarrow> finished c i to ws old b s'" for ws old b by (simp add: finished_def e)
    show ?thesis
      using mw True t e out(1) by (auto simp: start fin split: option.splits)
  qed
qed

end

section \<open>On the repository's own ports\<close>

abbreviation stored :: "StoragePorts services \<Rightarrow> InstallationId \<Rightarrow> view" where
  "stored s \<equiv> view_of (on_disk (executor (world s)))"

lemma committed_stored: "committed (ports_abs (world s)) = stored s"
  by (simp add: ports_abs_def abs_worker_def)

lemmas on_disk_cas = other_log.cas_spec [unfolded committed_stored]
lemmas on_disk_migrate = other_log.migrate_spec [unfolded committed_stored Let_def]

text \<open>A store of version 1 with one key, and an audit log that takes every event.\<close>

definition ports_tables :: "AuditEvent tables" where
  "ports_tables = \<lparr>installations_table = [InstallationId 1 \<mapsto> \<lparr>component_col = ''c'', enabled_col = 1,
       lifecycle_col = ''active'', created_col = 0, updated_col = 0\<rparr>],
     state_table = [(InstallationId 1, STATE_SCHEMA_MARKER_KEY) \<mapsto> \<lparr>version_col = 1, value_col = [], stamp_col = 0\<rparr>,
       (InstallationId 1, ''k'') \<mapsto> \<lparr>version_col = 1, value_col = [5], stamp_col = 0\<rparr>], audit_table = [],
     config_table = Map.empty, secret_table = (\<lambda>_. [])\<rparr>"

definition ports_start :: "StoragePorts services" where
  "ports_start = services_new (storage_new ports_tables)"

definition demo_uuid :: "u128 \<Rightarrow> string" where "demo_uuid u = ''installation''"

abbreviation all_accepted :: "StoragePorts StatefulAuditPort" where
  "all_accepted \<equiv> external_audit (\<lambda>_. Inr ())"

lemma ports_start_inv: "ports_inv demo_env (world ports_start)"
  by (simp add: ports_inv_def demo_orderly ports_start_def services_new_def storage_new_def)

lemma ports_start_stored:
  "view_version (stored ports_start (InstallationId 1)) = Some 1"
  "view_values (stored ports_start (InstallationId 1)) = [''k'' \<mapsto> [5]]"
  by (auto simp: ports_start_def services_new_def storage_new_def worker_new_def on_disk_def durable_def view_of_def
      ports_tables_def values_of_def fun_eq_iff STATE_SCHEMA_MARKER_KEY_def)

lemma demo_storage_key: "StorageKey_new ''k'' = Inr (StorageKey ''k'')"
  using demo_key_ok by (simp add: key_ok_def)

lemmas service_eval = cas_def cas_read_def cas_write_def check_version_def is_migrating_def call_def audit_event_def
  external_audit_def storage_port_def storage_schema_version_def storage_get_def storage_put_def storage_begin_def
  storage_tx_put_def storage_commit_def to_storage_state_key_def demo_storage_key submit_def reply_value_def reply_unit_def
  remember_tx_def take_tx_def handle_of_def ports_start_def services_new_def storage_new_def ports_tables_def
  read_state_row_def saturating_add_def migrate_def migrate_window_def migration_audit_def gate_enter_def gate_exit_def
  service_tx_put_def begin_transaction_def storage_append_def

lemma demo_cas:
  "fst (cas (storage_port demo_env) all_accepted (InstallationId 1) 1 (StateKey ''k'') None (Some (StateValue [7])) ports_start)
     = Inr Rejected"
  by (simp add: service_eval serve_eval on_conn_def schema_version_from_i64_def to_domain_state_value_def StateValue_new_def
      BoundedBytes_new_def MAX_STATE_VALUE_LEN_def STATE_SCHEMA_MARKER_KEY_def)

lemmas record_eval = on_conn_def schema_version_from_i64_def to_domain_state_value_def StateValue_new_def
  BoundedBytes_new_def MAX_STATE_VALUE_LEN_def STATE_SCHEMA_MARKER_KEY_def mark_dirty_def

text \<open>
  Nothing is locked between the read and the write of \<open>cas\<close>: two callers that read before either writes
  are both told that their swap was applied, and the first value is lost.
\<close>

lemma cas_lost_update:
  "let expected = Some (StateValue [5]);
       port = storage_port demo_env; i = InstallationId 1; k = StateKey ''k'';
       (a, s1) = cas_read port all_accepted i 1 k ports_start;
       (b, s2) = cas_read port all_accepted i 1 k s1;
       (x, s3) = cas_write port all_accepted i 1 k expected (Some (StateValue [6])) expected s2;
       (y, s4) = cas_write port all_accepted i 1 k expected (Some (StateValue [7])) expected s3
   in a = Inr expected \<and> b = Inr expected \<and> x = Inr Applied \<and> y = Inr Applied \<and>
      view_values (stored s4 i) ''k'' = Some [7]"
  by (simp add: service_eval serve_eval record_eval on_disk_def durable_def values_of_def view_of_def)

lemma begun_open: "stepped (BeginStateTransaction i ver mode) y a b \<Longrightarrow> open_tx b \<noteq> None"
  by (auto simp: stepped_def Let_def split: if_splits)

lemma storage_append_open:
  assumes "open_tx (ports_abs p) \<noteq> None"
  shows "\<exists>e. storage_append show_uuid env event p = (Inl e, p)"
  using assms by (cases "to_storage_stateful_audit show_uuid event") (auto simp: storage_append_def serve_def ports_abs_def abs_worker_def)

lemma own_log_open:
  assumes "open_tx (ports_abs (world s)) \<noteq> None"
  shows "\<exists>e. audit_event (storage_append show_uuid env) event s = (Inl (StateAuditFailure e), s)"
  using storage_append_open [OF assms, of show_uuid env event] by (auto simp: audit_event_def call_def)

section \<open>Properties\<close>

text \<open>C22: A compare-and-swap of one caller, over a store that may fail at any statement: it is applied exactly
  when the stored value is the expected one, and then the store holds the new value (or no value) for
  that key under the declared version and nothing else has changed; it is rejected exactly when it is
  another one, and then nothing has changed. An error leaves the store alone, unless it comes from the
  audit log, which is written after the store.\<close>

theorem cas_exact:
  assumes "ports_inv env (world s)"
    and "cas (storage_port env) (external_audit verdict) i ver k expected new s = (r, s')"
  shows "let held = (view_values (stored s i) (state_key_text k) = map_option state_value_bytes expected) in
    case r of
      Inr Applied \<Rightarrow> i \<notin> migrating s \<and> view_version (stored s i) \<in> {None, Some ver} \<and> held \<and>
        stored s' = store_value i ver k new (stored s)
    | Inr Rejected \<Rightarrow> i \<notin> migrating s \<and> view_version (stored s i) \<in> {None, Some ver} \<and> \<not> held \<and> stored s' = stored s
    | Inl e \<Rightarrow> stored s' = stored s \<or>
        (\<exists>a. e = StateAuditFailure a) \<and> held \<and> stored s' = store_value i ver k new (stored s)"
  using on_disk_cas [OF assms, THEN conjunct2, THEN conjunct2, THEN conjunct2, THEN conjunct2] unfolding Let_def .

text \<open>C23: A migration is all or nothing, provided that SQLite never ends a transaction on its own and every
  \<open>ROLLBACK\<close> works (\<open>ports_inv\<close> holds of an orderly one only). Whatever the guest does, commits and aborts
  of its own included, whichever statements and audit events fail, the store is afterwards exactly as it
  was before, or the installation, which was at the version the migration starts from, has the target
  version and exactly the values that the accepted writes of the guest, in their order, make of the old
  ones; when the migration is reported as done and the guest has written, it is the latter. No other
  installation is touched, and the migration window is closed.\<close>

theorem migration_all_or_nothing:
  assumes "ports_inv env (world s)" "i \<notin> migrating s"
    and "migrate (storage_port env) (external_audit verdict) i from to
      (\<lambda>tx. run_guest (storage_port env) (external_audit verdict) i (p tx)) s = (out, s')"
  shows "migrating s' = migrating s \<and>
    (case guest_start (storage_port env) (external_audit verdict) i from to s of
       None \<Rightarrow> \<not> reported out \<and> stored s' = stored s
     | Some (tx, s1) \<Rightarrow>
         let ws = guest_writes (storage_port env) (external_audit verdict) i (p tx) s1 in
         view_version (stored s i) = Some from \<and> from < to \<and>
         (stored s' = stored s \<and> (reported out \<longrightarrow> ws = []) \<or>
          ws \<noteq> [] \<and> stored s' = (stored s)(i := \<lparr>view_version = Some to,
            view_values = fold apply_write ws (view_values (stored s i))\<rparr>)))"
proof -
  note m = on_disk_migrate [OF assms(1) _ assms(3), of True, simplified]
  have "migrating s' = migrating s" using m assms(2) by auto
  with m show ?thesis
    by (auto simp: other_log.finished_def committed_stored written_def Let_def split: option.splits if_splits)
qed

text \<open>If the guest leaves the commit to the service, the outcome tells which: a migration reported as done has
  put the writes of its guest in the store, and after every other outcome the store is as it was.\<close>

theorem migration_outcome:
  assumes "ports_inv env (world s)" "\<And>tx. never_commits (p tx)"
    and "migrate (storage_port env) (external_audit verdict) i from to
      (\<lambda>tx. run_guest (storage_port env) (external_audit verdict) i (p tx)) s = (out, s')"
  shows "if reported out
    then out = Inr (Migrated from to) \<and> (\<exists>tx s1. guest_start (storage_port env) (external_audit verdict) i from to s = Some (tx, s1) \<and>
      stored s' = written i to (guest_writes (storage_port env) (external_audit verdict) i (p tx) s1) (stored s))
    else stored s' = stored s"
proof -
  have "\<forall>tx. never_commits (p tx)" using assms(2) by blast
  from on_disk_migrate [OF assms(1) _ assms(3), of False, simplified, OF this] show ?thesis
    by (auto simp: reported_def other_log.finished_def committed_stored Let_def split: option.splits if_splits)
qed

text \<open>C24: With the table of the database as audit log no state transaction can be begun: the table takes no
  event while a transaction is open, so every attempt ends in an error, and a transaction that was
  opened by it stays open.\<close>

theorem begin_transaction_own_log_fails:
  assumes "ports_inv env (world s)" "begin_transaction (storage_port env) (storage_append show_uuid env) i ver s = (r, s')"
  shows "(\<exists>e. r = Inl e) \<and> (transactions s' = transactions s \<or> open_tx (ports_abs (world s')) \<noteq> None)"
proof -
  obtain q t where c: "check_version (storage_port env) i ver s = (q, t)" by fastforce
  note cv = own_log.check_version_spec [OF assms(1) c]
  have fail: "(\<exists>e. r = Inl e) \<and> transactions s' = transactions u"
    if "ports_inv env (world u)" "fail_with (storage_append show_uuid env) i ''begin-transaction'' e u = (r, s')" for e u
    using own_log.fail_with_quiet [OF that] by blast
  show ?thesis
  proof (cases q)
    case (Inl e)
    with cv have "ports_inv env (world t)" "transactions t = transactions s" by (simp_all add: own_log.turned_down_def)
    with fail [of t e] assms(2) c Inl show ?thesis by (simp add: begin_transaction_def)
  next
    case (Inr u)
    with cv have inv: "ports_inv env (world t)" "transactions t = transactions s" by (simp_all add: own_log.quiet_def)
    obtain b v where b: "call (port_begin_transaction (storage_port env) i ver) t = (b, v)" by fastforce
    then have bp: "port_begin_transaction (storage_port env) i ver (world t) = (b, world v)" "v = t\<lparr>world := world v\<rparr>"
      by (simp_all add: own_log.call_eq)
    note law = storage.begin_law [OF inv(1) bp(1)]
    have tr: "transactions v = transactions s" by (subst bp(2)) (simp add: inv(2))
    show ?thesis
    proof (cases b)
      case (Inl e)
      with fail [of v "map_store_error e"] law tr assms(2) c Inr b show ?thesis by (simp add: begin_transaction_def)
    next
      case tx: (Inr tx)
      let ?w = "v\<lparr>transactions := (transactions v)(tx \<mapsto> \<lparr>ctx_installation = i, ctx_version = ver\<rparr>)\<rparr>"
      from law tx have op: "open_tx (ports_abs (world ?w)) \<noteq> None"
        by (auto dest: begun_open)
      from own_log_open [OF this, of show_uuid env "StateTxBegan i ver"] obtain e where
        "audit_event (storage_append show_uuid env) (StateTxBegan i ver) ?w = (Inl (StateAuditFailure e), ?w)" by blast
      with assms(2) c Inr b tx have "r = Inl (StateAuditFailure e)" "s' = ?w" by (simp_all add: begin_transaction_def)
      with op show ?thesis by simp
    qed
  qed
qed

section \<open>Witnesses\<close>

lemma cas_exact_witness:
  "stored (snd (cas (storage_port demo_env) all_accepted (InstallationId 1) 1 (StateKey ''k'') None (Some (StateValue [7]))
     ports_start)) = stored ports_start"
proof -
  obtain r s' where c: "cas (storage_port demo_env) all_accepted (InstallationId 1) 1 (StateKey ''k'') None
      (Some (StateValue [7])) ports_start = (r, s')" by fastforce
  with demo_cas have "r = Inr Rejected" by simp
  with cas_exact [OF ports_start_inv c] show ?thesis by (simp add: Let_def c)
qed

definition demo_guest :: "u64 \<Rightarrow> guest" where
  "demo_guest tx = Ask (Guest_tx_put tx (StateKey ''k'') (StateValue [9])) (\<lambda>_. Finish (Inr ()))"

abbreviation demo_migration :: "(MigrationError + MigrationOutcome) \<times> StoragePorts services" where
  "demo_migration \<equiv> migrate (storage_port demo_env) all_accepted (InstallationId 1) 1 2
     (\<lambda>tx. run_guest (storage_port demo_env) all_accepted (InstallationId 1) (demo_guest tx)) ports_start"

lemma demo_migrated: "fst demo_migration = Inr (Migrated 1 2)"
  by (simp add: service_eval serve_eval record_eval demo_guest_def word_le_nat_alt)

lemma demo_start: "\<exists>tx s1. guest_start (storage_port demo_env) all_accepted (InstallationId 1) 1 2 ports_start = Some (tx, s1) \<and>
    guest_writes (storage_port demo_env) all_accepted (InstallationId 1) (demo_guest tx) s1 = [(''k'', Some [9])]"
  by (simp add: guest_start_def window_start_def service_eval serve_eval record_eval demo_guest_def word_less_nat_alt word_le_nat_alt)

lemma migration_all_or_nothing_witness:
  "stored (snd demo_migration) =
     (stored ports_start)(InstallationId 1 := \<lparr>view_version = Some 2, view_values = [''k'' \<mapsto> [9]]\<rparr>)"
proof -
  obtain out s' where m: "demo_migration = (out, s')" by fastforce
  have free: "InstallationId 1 \<notin> migrating ports_start" by (simp add: ports_start_def services_new_def)
  have "reported out" using demo_migrated m by (simp add: reported_def)
  moreover obtain tx s1 where "guest_start (storage_port demo_env) all_accepted (InstallationId 1) 1 2 ports_start = Some (tx, s1)"
    "guest_writes (storage_port demo_env) all_accepted (InstallationId 1) (demo_guest tx) s1 = [(''k'', Some [9])]"
    using demo_start by blast
  ultimately show ?thesis
    using migration_all_or_nothing [OF ports_start_inv free m] ports_start_stored(2) by (simp add: m)
qed

lemma migration_outcome_witness:
  "\<exists>tx s1. guest_start (storage_port demo_env) all_accepted (InstallationId 1) 1 2 ports_start = Some (tx, s1) \<and>
     stored (snd demo_migration) = written (InstallationId 1) 2
       (guest_writes (storage_port demo_env) all_accepted (InstallationId 1) (demo_guest tx) s1) (stored ports_start)"
proof -
  obtain s' where m: "demo_migration = (Inr (Migrated 1 2), s')" using demo_migrated by (metis prod.collapse)
  have "never_commits (demo_guest tx)" for tx by (simp add: demo_guest_def)
  from migration_outcome [OF ports_start_inv this m] show ?thesis by (simp add: m reported_def)
qed

lemma begin_transaction_own_log_fails_witness:
  "\<exists>e. fst (begin_transaction (storage_port demo_env) (storage_append demo_uuid demo_env) (InstallationId 1) 1 ports_start) = Inl e"
proof -
  obtain r s' where b: "begin_transaction (storage_port demo_env) (storage_append demo_uuid demo_env) (InstallationId 1) 1 ports_start = (r, s')"
    by fastforce
  from begin_transaction_own_log_fails [OF ports_start_inv b] show ?thesis by (simp add: b)
qed

lemma begin_leaks_transaction:
  "open_tx (ports_abs (world (snd (begin_transaction (storage_port demo_env) (storage_append demo_uuid demo_env) (InstallationId 1) 1
     ports_start)))) \<noteq> None"
  by (simp add: service_eval serve_eval record_eval ports_abs_def abs_worker_def to_storage_stateful_audit_def audit_text_def
      AuditEvent_new_def validate_text_def demo_uuid_def shown_def decimal.simps MAX_TEXT_LEN_def)

end
