(* ===== verification/StateDisk.thy ===== *)
theory StateDisk
  imports StateSpec
begin

text \<open>
  What stays true of the rows on disk when SQLite is not orderly: when a failed statement may end the
  transaction it is in, and a \<open>ROLLBACK\<close> may fail, so that the worker and its connection disagree on
  whether a transaction is open.

  The operations are classified by what they do to a part of the tables (\<open>quiet\<close>) and to a transaction
  that is open on the connection; each is a composition of statements, and the classification follows
  the composition. \<open>run_tx\<close> is all or nothing on disk whatever SQLite answers. Two results rest on it:
  the schema version of an installation, and the configuration and the secrets.
\<close>

section \<open>Statements, whatever SQLite answers\<close>

lemma execute_Inr:
  "execute env ctx stmt c = (Inr x, c') \<Longrightarrow> stmt (contents c) = (x, contents c') \<and> at_begin c' = at_begin c"
  by (auto simp: execute_def Let_def split: if_splits prod.splits)

lemma execute_Inl:
  "execute env ctx stmt c = (Inl e, c') \<Longrightarrow>
     contents c' = contents c \<and> at_begin c' = at_begin c \<or> contents c' = durable c \<and> at_begin c' = None"
  by (auto simp: execute_def Let_def sql_failed_def durable_def split: if_splits prod.splits option.splits)

lemma query_Inr: "query env ctx f c = (Inr x, c') \<Longrightarrow> x = f (contents c) \<and> same_conn c c'"
  unfolding query_def by (auto dest: execute_Inr simp: same_conn_def)

lemma begin_sql_any:
  assumes "begin_sql env ctx c = (r, c')"
  shows "r = Inr u \<Longrightarrow> at_begin c = None \<and> contents c' = contents c \<and> at_begin c' = Some (contents c)"
    and "r = Inl e \<Longrightarrow> contents c' = contents c \<and> at_begin c' = at_begin c \<or> contents c' = durable c \<and> at_begin c' = None"
  using assms by (auto simp: begin_sql_def Let_def sql_failed_def durable_def split: if_splits option.splits)

lemma commit_sql_any:
  assumes "commit_sql env ctx c = (r, c')"
  shows "r = Inr u \<Longrightarrow> contents c' = contents c \<and> at_begin c' = None"
    and "r = Inl e \<Longrightarrow> contents c' = contents c \<and> at_begin c' = at_begin c \<or> contents c' = durable c \<and> at_begin c' = None"
  using assms by (auto simp: commit_sql_def Let_def sql_failed_def durable_def split: if_splits option.splits)

lemma rollback_sql_any:
  assumes "rollback_sql env ctx c = (r, c')"
  shows "contents c' = contents c \<and> at_begin c' = at_begin c \<or> contents c' = durable c \<and> at_begin c' = None"
    and "r = Inr u \<Longrightarrow> contents c' = durable c \<and> at_begin c' = None"
  using assms by (auto simp: rollback_sql_def Let_def durable_def split: if_splits option.splits)

lemma drop_tx_any:
  "contents (drop_tx env c) = contents c \<and> at_begin (drop_tx env c) = at_begin c \<or>
   contents (drop_tx env c) = durable c \<and> at_begin (drop_tx env c) = None"
proof (cases "rollback_sql env ''rollback'' c")
  case (Pair r c')
  with rollback_sql_any(1) [OF Pair] show ?thesis by (simp add: drop_tx_def)
qed

text \<open>What is on disk does not change by these.\<close>

lemma durable_or:
  "contents c' = contents c \<and> at_begin c' = at_begin c \<or> contents c' = durable c \<and> at_begin c' = None \<Longrightarrow>
    durable c' = durable c"
  by (auto simp: durable_def split: option.split)

lemma durable_closed [simp]: "at_begin c = None \<Longrightarrow> durable c = contents c"
  by (simp add: durable_def)

section \<open>Operations that leave a part of the tables alone\<close>

text \<open>
  \<open>p\<close> reads the part. The first half is about a connection on which the part has no change that is not
  on disk; the second says that a transaction found open is not written to disk, and is still the
  same one when the operation succeeds.
\<close>

definition quiet :: "('audit tables \<Rightarrow> 'p) \<Rightarrow> ('audit conn \<Rightarrow> (StorageError + 'r) \<times> 'audit conn) \<Rightarrow> bool" where
  "quiet p f \<longleftrightarrow> (\<forall>c r c'. f c = (r, c') \<longrightarrow>
     (p (contents c) = p (durable c) \<longrightarrow> p (contents c') = p (durable c) \<and> p (durable c') = p (durable c)) \<and>
     (at_begin c \<noteq> None \<longrightarrow> durable c' = durable c \<and> (is_ok r \<longrightarrow> at_begin c' = at_begin c)))"

lemma quietD:
  assumes "quiet p f" "f c = (r, c')"
  shows "p (contents c) = p (durable c) \<Longrightarrow> p (contents c') = p (durable c) \<and> p (durable c') = p (durable c)"
    and "at_begin c \<noteq> None \<Longrightarrow> durable c' = durable c"
    and "at_begin c \<noteq> None \<Longrightarrow> r = Inr x \<Longrightarrow> at_begin c' = at_begin c"
  using assms unfolding quiet_def by fastforce+

lemma quiet_execute:
  assumes "\<And>t. p (snd (stmt t)) = p t"
  shows "quiet p (execute env ctx stmt)"
  unfolding quiet_def
proof (intro allI impI)
  fix c r c' assume ex: "execute env ctx stmt c = (r, c')"
  show "(p (contents c) = p (durable c) \<longrightarrow> p (contents c') = p (durable c) \<and> p (durable c') = p (durable c)) \<and>
    (at_begin c \<noteq> None \<longrightarrow> durable c' = durable c \<and> (is_ok r \<longrightarrow> at_begin c' = at_begin c))"
  proof (cases r)
    case (Inl e)
    with execute_Inl [of env ctx stmt c e c'] ex show ?thesis by (auto simp: durable_def split: option.splits)
  next
    case (Inr x)
    with execute_Inr [of env ctx stmt c x c'] ex have "stmt (contents c) = (x, contents c')" "at_begin c' = at_begin c" by auto
    with assms [of "contents c"] show ?thesis by (auto simp: durable_def split: option.splits)
  qed
qed

lemma quiet_same: "(\<And>c r c'. f c = (r, c') \<Longrightarrow> same_conn c c') \<Longrightarrow> quiet p f"
  unfolding quiet_def
proof (intro allI impI)
  fix c r c' assume s: "\<And>c r c'. f c = (r, c') \<Longrightarrow> same_conn c c'" and f: "f c = (r, c')"
  have "contents c' = contents c" "at_begin c' = at_begin c" "durable c' = durable c"
    using s [OF f] by (simp_all add: same_conn_def durable_def split: option.split)
  then show "(p (contents c) = p (durable c) \<longrightarrow> p (contents c') = p (durable c) \<and> p (durable c') = p (durable c)) \<and>
    (at_begin c \<noteq> None \<longrightarrow> durable c' = durable c \<and> (is_ok r \<longrightarrow> at_begin c' = at_begin c))"
    by simp
qed

lemma quiet_query: "quiet p (query env ctx f)"
  unfolding query_def by (rule quiet_execute) simp

lemma quiet_step_then:
  assumes "quiet p f" "\<And>x. quiet p (g x)"
  shows "quiet p (\<lambda>c. step_then (f c) g)"
  unfolding quiet_def
proof (intro allI impI)
  fix c r c' assume st: "step_then (f c) g = (r, c')"
  obtain q c1 where f: "f c = (q, c1)" by fastforce
  note one = quietD [OF assms(1) f]
  show "(p (contents c) = p (durable c) \<longrightarrow> p (contents c') = p (durable c) \<and> p (durable c') = p (durable c)) \<and>
    (at_begin c \<noteq> None \<longrightarrow> durable c' = durable c \<and> (is_ok r \<longrightarrow> at_begin c' = at_begin c))"
  proof (cases q)
    case (Inl e)
    with st f have "c' = c1" "r = Inl e" by simp_all
    with one show ?thesis by auto
  next
    case (Inr x)
    with st f have g: "g x c1 = (r, c')" by simp
    note two = quietD [OF assms(2) g]
    have first: "p (contents c') = p (durable c) \<and> p (durable c') = p (durable c)" if "p (contents c) = p (durable c)"
      using one(1) [OF that] two(1) by simp
    have second: "durable c' = durable c \<and> (is_ok r \<longrightarrow> at_begin c' = at_begin c)" if op: "at_begin c \<noteq> None"
    proof -
      have "at_begin c1 = at_begin c" by (rule one(3) [OF op Inr])
      with op one(2) [OF op] two(2) two(3) show ?thesis by (cases r) auto
    qed
    show ?thesis using first second by blast
  qed
qed

lemma quiet_if: "quiet p f \<Longrightarrow> quiet p g \<Longrightarrow> quiet p (\<lambda>c. if b then f c else g c)"
  by (cases b) simp_all

lemma quiet_option:
  "quiet p f \<Longrightarrow> (\<And>x. quiet p (g x)) \<Longrightarrow> quiet p (\<lambda>c. case m of None \<Rightarrow> f c | Some x \<Rightarrow> g x c)"
  by (cases m) simp_all

lemma quiet_sum:
  "(\<And>e. quiet p (f e)) \<Longrightarrow> (\<And>x. quiet p (g x)) \<Longrightarrow> quiet p (\<lambda>c. case m of Inl e \<Rightarrow> f e c | Inr x \<Rightarrow> g x c)"
  by (cases m) simp_all

lemma quiet_pure: "quiet p (\<lambda>c. (x, c))"
  by (rule quiet_same) simp

lemma quiet_check: "quiet p (check_cancel b)"
  by (rule quiet_same) (simp add: check_cancel_def split: if_splits)

lemma quiet_now: "quiet p (sql_now env)"
  by (rule quiet_same) (auto dest: sql_now_conn)

text \<open>\<open>run_tx\<close>, whatever SQLite answers: nothing on disk, or all of it.\<close>

definition frozen :: "('audit conn \<Rightarrow> (StorageError + 'r) \<times> 'audit conn) \<Rightarrow> bool" where
  "frozen f \<longleftrightarrow> quiet (\<lambda>t. ()) f"

lemma quiet_frozen: "quiet p f \<Longrightarrow> frozen f"
  by (auto simp: frozen_def quiet_def)

lemma frozenD:
  assumes "frozen f" "f c = (r, c')" "at_begin c \<noteq> None"
  shows "durable c' = durable c" and "r = Inr x \<Longrightarrow> at_begin c' = at_begin c"
  using quietD [OF assms(1) [unfolded frozen_def] assms(2)] assms(3) by blast+

lemma run_tx_any:
  assumes "frozen f" "run_tx env ctx f c = (r, c')"
  shows "r = Inl e \<Longrightarrow> durable c' = durable c"
    and "r = Inr x \<Longrightarrow> at_begin c = None \<and> at_begin c' = None \<and>
      (\<exists>c1 c2. contents c1 = contents c \<and> f c1 = (Inr x, c2) \<and> contents c' = contents c2)"
proof -
  have "(\<forall>e. r = Inl e \<longrightarrow> durable c' = durable c) \<and> (\<forall>x. r = Inr x \<longrightarrow> at_begin c = None \<and> at_begin c' = None \<and>
      (\<exists>c1 c2. contents c1 = contents c \<and> f c1 = (Inr x, c2) \<and> contents c' = contents c2))"
  proof (cases "begin_sql env ctx c")
    case (Pair b c1)
    note beg = begin_sql_any [OF Pair]
    show ?thesis
    proof (cases b)
      case (Inl e)
      with assms(2) Pair have "r = Inl e" "c' = c1" by (simp_all add: run_tx_def)
      with durable_or [OF beg(2) [OF Inl]] show ?thesis by simp
    next
      case (Inr u)
      note c1 = beg(1) [OF Inr]
      obtain y c2 where f: "f c1 = (y, c2)" by fastforce
      have op1: "at_begin c1 \<noteq> None" using c1 by simp
      have dur: "durable c2 = durable c" using frozenD(1) [OF assms(1) f op1] c1 by (simp add: durable_def)
      have drop: "durable (drop_tx env c3) = durable c3" for c3 :: "'a conn" by (rule durable_or [OF drop_tx_any])
      show ?thesis
      proof (cases y)
        case (Inl e)
        with assms(2) Pair Inr f have "r = Inl e" "c' = drop_tx env c2" by (simp_all add: run_tx_def)
        with dur drop show ?thesis by simp
      next
        case y: (Inr x)
        obtain z c3 where com: "commit_sql env ctx c2 = (z, c3)" by fastforce
        note cs = commit_sql_any [OF com]
        show ?thesis
        proof (cases z)
          case (Inl e)
          with assms(2) Pair Inr f y com have "r = Inl e" "c' = drop_tx env c3" by (simp_all add: run_tx_def)
          with durable_or [OF cs(2) [OF Inl]] dur drop show ?thesis by simp
        next
          case z: (Inr v)
          with assms(2) Pair Inr f y com have "r = Inr x" "c' = c3" by (simp_all add: run_tx_def)
          with cs(1) [OF z] c1 f y show ?thesis by auto
        qed
      qed
    qed
  qed
  then show "r = Inl e \<Longrightarrow> durable c' = durable c" "r = Inr x \<Longrightarrow> at_begin c = None \<and> at_begin c' = None \<and>
      (\<exists>c1 c2. contents c1 = contents c \<and> f c1 = (Inr x, c2) \<and> contents c' = contents c2)" by blast+
qed

lemma frozenI:
  "(\<And>c r c'. f c = (r, c') \<Longrightarrow> at_begin c \<noteq> None \<Longrightarrow>
     durable c' = durable c \<and> (is_ok r \<longrightarrow> at_begin c' = at_begin c)) \<Longrightarrow> frozen f"
  by (simp add: frozen_def quiet_def)

lemma frozen_run_tx:
  assumes "frozen f"
  shows "frozen (run_tx env ctx f)"
proof (rule frozenI)
  fix c r c' assume run: "run_tx env ctx f c = (r, c')" and op: "at_begin c \<noteq> None"
  note any = run_tx_any [OF assms run]
  show "durable c' = durable c \<and> (is_ok r \<longrightarrow> at_begin c' = at_begin c)"
    using any op by (cases r) auto
qed

lemma settled_or:
  assumes "contents c' = contents c \<and> at_begin c' = at_begin c \<or> contents c' = durable c \<and> at_begin c' = None"
    and "p (contents c) = p (durable c)"
  shows "p (contents c') = p (durable c) \<and> p (durable c') = p (durable c)"
  using assms(1)
proof (elim disjE conjE)
  assume "contents c' = contents c" "at_begin c' = at_begin c"
  moreover from this have "durable c' = durable c" by (intro durable_or) simp
  ultimately show ?thesis using assms(2) by simp
next
  assume "contents c' = durable c" "at_begin c' = None"
  then show ?thesis by simp
qed

lemma quiet_run_tx:
  assumes "quiet p f"
  shows "quiet p (run_tx env ctx f)"
  unfolding quiet_def
proof (intro allI impI)
  fix c r c' assume run: "run_tx env ctx f c = (r, c')"
  have "p (contents c') = p (durable c) \<and> p (durable c') = p (durable c)" if p: "p (contents c) = p (durable c)"
  proof (cases "begin_sql env ctx c")
    case (Pair b c1)
    note beg = begin_sql_any [OF Pair]
    show ?thesis
    proof (cases b)
      case (Inl e)
      with run Pair have "c' = c1" by (simp add: run_tx_def)
      with settled_or [OF beg(2) [OF Inl], of p] p show ?thesis by simp
    next
      case (Inr u)
      have c1: "p (contents c1) = p (durable c1)" "p (durable c1) = p (durable c)"
        using beg(1) [OF Inr] by (simp_all add: durable_def)
      obtain y c2 where f: "f c1 = (y, c2)" by fastforce
      have c2: "p (contents c2) = p (durable c2)" "p (durable c2) = p (durable c)"
        using quietD(1) [OF assms f] c1 by simp_all
      have drop: "p (contents (drop_tx env c3)) = p (durable c) \<and> p (durable (drop_tx env c3)) = p (durable c)"
        if "p (contents c3) = p (durable c3)" "p (durable c3) = p (durable c)" for c3
        using settled_or [OF drop_tx_any, of p c3 env] that by simp
      show ?thesis
      proof (cases y)
        case (Inl e)
        with run Pair Inr f have "c' = drop_tx env c2" by (simp add: run_tx_def)
        with drop [OF c2] show ?thesis by simp
      next
        case y: (Inr x)
        obtain z c3 where com: "commit_sql env ctx c2 = (z, c3)" by fastforce
        note cs = commit_sql_any [OF com]
        show ?thesis
        proof (cases z)
          case (Inl e)
          with run Pair Inr f y com have "c' = drop_tx env c3" by (simp add: run_tx_def)
          with drop settled_or [OF cs(2) [OF Inl], of p] c2 show ?thesis by simp
        next
          case z: (Inr v)
          with run Pair Inr f y com have "c' = c3" by (simp add: run_tx_def)
          with cs(1) [OF z] c2 show ?thesis by simp
        qed
      qed
    qed
  qed
  moreover have "durable c' = durable c \<and> (is_ok r \<longrightarrow> at_begin c' = at_begin c)" if "at_begin c \<noteq> None"
    using frozenD [OF frozen_run_tx [OF quiet_frozen [OF assms]] run that] by (cases r) auto
  ultimately show "(p (contents c) = p (durable c) \<longrightarrow> p (contents c') = p (durable c) \<and> p (durable c') = p (durable c)) \<and>
    (at_begin c \<noteq> None \<longrightarrow> durable c' = durable c \<and> (is_ok r \<longrightarrow> at_begin c' = at_begin c))" by blast
qed

lemma quiet_read_installation: "quiet p (read_installation env i)"
  unfolding read_installation_def by (intro quiet_step_then quiet_query quiet_option quiet_pure)

lemmas quiet_intros = quiet_step_then quiet_if quiet_option quiet_pure quiet_check quiet_now quiet_query
  quiet_read_installation quiet_run_tx quiet_execute

lemma quiet_read_state_row: "quiet p (read_state_row env i k)"
  unfolding read_state_row_def by (intro quiet_intros quiet_sum)

lemma quiet_schema_version: "quiet p (get_state_schema_version env i)"
  unfolding get_state_schema_version_def by (intro quiet_intros)

lemma quiet_get_config: "quiet p (get_component_config env i)"
  unfolding get_component_config_def by (intro quiet_intros)

lemma quiet_get_secret: "quiet p (get_secret env i name)"
  unfolding get_secret_def by (intro quiet_intros)

lemma quiet_list_secrets: "quiet p (list_secret_names env i)"
  unfolding list_secret_names_def by (intro quiet_intros)

text \<open>The writes leave alone every part that their statements leave alone.\<close>

lemma quiet_append_audit:
  "(\<And>t x. p (t\<lparr>audit_table := x\<rparr>) = p t) \<Longrightarrow> quiet p (append_audit env ev)"
  unfolding append_audit_def insert_audit_def by (intro quiet_intros) simp_all

lemma quiet_put_config:
  "(\<And>t now. p (upsert_config i format v bytes now t) = p t) \<Longrightarrow> quiet p (put_component_config env i format v bytes b)"
  unfolding put_component_config_def by (intro quiet_intros) simp_all

lemma quiet_put_secret:
  "(\<And>t now. p (upsert_secret i (stored_secret_name name) bytes meta now t) = p t) \<Longrightarrow> quiet p (put_secret env i name bytes meta b)"
  unfolding put_secret_def by (intro quiet_intros) simp_all

lemma quiet_delete_secret:
  "(\<And>t. p (snd (delete_secret_row i (stored_secret_name name) t)) = p t) \<Longrightarrow> quiet p (delete_secret env i name b)"
  unfolding delete_secret_def by (intro quiet_intros) simp_all

lemma quiet_tx_put:
  "(\<And>t row. p (set_row i (storage_key_text k) row t) = p t) \<Longrightarrow> quiet p (tx_put_state env i k v bytes)"
  unfolding tx_put_state_def upsert_state_row_def set_row_def by (intro quiet_intros) simp_all

lemma quiet_tx_delete:
  "(\<And>t row. p (set_row i (storage_key_text k) row t) = p t) \<Longrightarrow> quiet p (tx_delete_state env i k)"
  unfolding tx_delete_state_def set_row_def by (intro quiet_intros) (simp_all add: delete_row_def)

lemma quiet_delete_state:
  "(\<And>t row. p (set_row i (storage_key_text k) row t) = p t) \<Longrightarrow> quiet p (delete_state env i k b)"
  unfolding delete_state_def set_row_def by (intro quiet_intros) (simp_all add: delete_row_def)

lemma quiet_put_rows:
  "(\<And>t k row. p (set_row i k row t) = p t) \<Longrightarrow> quiet p (put_rows env i k v bytes now)"
  unfolding put_rows_def upsert_state_row_def upsert_schema_marker_def set_row_def by (intro quiet_intros) simp_all

lemma quiet_put_state:
  "(\<And>t k row. p (set_row i k row t) = p t) \<Longrightarrow> quiet p (put_state env i k v bytes b)"
  unfolding put_state_def put_rows_def [symmetric] by (intro quiet_intros quiet_schema_version quiet_put_rows) simp_all

lemma quiet_finalize:
  "(\<And>t row. p (set_row i STATE_SCHEMA_MARKER_KEY row t) = p t) \<Longrightarrow> quiet p (tx_finalize env i v)"
  unfolding tx_finalize_def upsert_schema_marker_def set_row_def by (intro quiet_intros) simp_all

lemma quiet_execute_all: "(\<And>t stmt. stmt \<in> set stmts \<Longrightarrow> p (stmt t) = p t) \<Longrightarrow> quiet p (execute_all env ctx stmts)"
proof (induction stmts)
  case Nil
  have "execute_all env ctx [] = (\<lambda>c. (Inr (), c))" by (rule ext) simp
  then show ?case using quiet_pure [of p "Inr ()"] by simp
next
  case (Cons stmt stmts)
  have "execute_all env ctx (stmt # stmts) = (\<lambda>c. step_then (execute env ctx (\<lambda>t. ((), stmt t)) c) (\<lambda>_ c. execute_all env ctx stmts c))"
    by (rule ext) simp
  moreover have "quiet p (\<lambda>c. step_then (execute env ctx (\<lambda>t. ((), stmt t)) c) (\<lambda>_ c. execute_all env ctx stmts c))"
    using Cons by (intro quiet_intros) simp_all
  ultimately show ?case by simp
qed

lemma frozen_remove_rows: "frozen (remove_rows env i ev now)"
  unfolding frozen_def remove_rows_def insert_audit_def by (intro quiet_intros quiet_execute_all) simp_all

section \<open>The schema version\<close>

definition versions :: "'audit tables \<Rightarrow> InstallationId \<Rightarrow> u32 option" where
  "versions t i = view_version (view_of t i)"

lemma versions_eqI:
  "(\<And>i. state_table t' (i, STATE_SCHEMA_MARKER_KEY) = state_table t (i, STATE_SCHEMA_MARKER_KEY)) \<Longrightarrow> versions t' = versions t"
  by (intro ext) (simp add: versions_def view_of_def)

lemma versions_set_row:
  "k \<noteq> STATE_SCHEMA_MARKER_KEY \<Longrightarrow> versions (set_row i k row t) = versions t"
  "versions (set_row i STATE_SCHEMA_MARKER_KEY row t) = (versions t)(i := map_option (\<lambda>r. of_int (version_col r)) row)"
  by (auto simp: versions_def fun_eq_iff view_of_set_row)

lemma versions_other [simp]:
  "versions (t\<lparr>audit_table := x\<rparr>) = versions t"
  "versions (upsert_config i format v bytes now t) = versions t"
  "versions (upsert_secret i name bytes meta now t) = versions t"
  "versions (snd (delete_secret_row i name t)) = versions t"
  by (rule versions_eqI, simp add: upsert_config_def upsert_secret_def delete_secret_row_def)+

text \<open>A step of an operation that only reads, found with the connection in autocommit.\<close>

definition reads :: "('audit conn \<Rightarrow> (StorageError + 'r) \<times> 'audit conn) \<Rightarrow> bool" where
  "reads f \<longleftrightarrow> (\<forall>c r c'. f c = (r, c') \<longrightarrow> at_begin c = None \<longrightarrow> same_conn c c')"

lemma readsD: "reads f \<Longrightarrow> at_begin c = None \<Longrightarrow> f c = (r, c') \<Longrightarrow> contents c' = contents c \<and> at_begin c' = None"
  unfolding reads_def same_conn_def by metis

lemma reads_query: "reads (query env ctx f)"
  unfolding reads_def query_def
proof (intro allI impI)
  fix c r c' assume ex: "execute env ctx (\<lambda>t. (f t, t)) c = (r, c')" and none: "at_begin c = None"
  show "same_conn c c'"
    using execute_Inl [of env ctx _ c] execute_Inr [of env ctx _ c] ex none
    by (cases r) (fastforce simp: same_conn_def)+
qed

lemma reads_pure: "reads (\<lambda>c. (x, c))"
  by (simp add: reads_def)

lemma reads_check: "reads (check_cancel b)"
  by (simp add: reads_def check_cancel_def)

lemma reads_now: "reads (sql_now env)"
  unfolding reads_def by (auto dest: sql_now_conn)

lemma reads_then:
  assumes "reads f" "\<And>x. reads (g x)"
  shows "reads (\<lambda>c. step_then (f c) g)"
  unfolding reads_def
proof (intro allI impI)
  fix c r c' assume st: "step_then (f c) g = (r, c')" and none: "at_begin c = None"
  obtain q c1 where f: "f c = (q, c1)" by fastforce
  note one = readsD [OF assms(1) none f]
  show "same_conn c c'"
  proof (cases q)
    case (Inl e)
    with st f one none show ?thesis by (auto simp: same_conn_def)
  next
    case (Inr x)
    with st f have "g x c1 = (r, c')" by simp
    from readsD [OF assms(2) _ this] one none show ?thesis by (simp add: same_conn_def)
  qed
qed

lemma reads_option: "reads f \<Longrightarrow> (\<And>x. reads (g x)) \<Longrightarrow> reads (\<lambda>c. case m of None \<Rightarrow> f c | Some x \<Rightarrow> g x c)"
  by (cases m) simp_all

lemma reads_installation: "reads (read_installation env i)"
  unfolding read_installation_def by (intro reads_then reads_query reads_option reads_pure)

lemma reads_version: "reads (get_state_schema_version env i)"
  unfolding get_state_schema_version_def by (intro reads_then reads_query reads_option reads_pure)

lemma version_read:
  assumes "get_state_schema_version env i c = (Inr x, c')"
  shows "x = versions (contents c) i" and "same_conn c c'"
proof -
  from assms obtain v c1 where q: "query env ''read state schema version''
      (\<lambda>t. map_option version_col (state_table t (i, STATE_SCHEMA_MARKER_KEY))) c = (Inr v, c1)"
    and r: "(case v of None \<Rightarrow> (Inr None, c1) | Some v \<Rightarrow> (and_then (schema_version_from_i64 v) (\<lambda>v. Inr (Some v)), c1)) = (Inr x, c')"
    by (auto simp: get_state_schema_version_def result_simps)
  from query_Inr [OF q] r show "x = versions (contents c) i" "same_conn c c'"
    by (auto simp: versions_def view_of_def schema_version_from_i64_def result_simps same_conn_def split: option.splits if_splits)
qed

text \<open>An operation that leaves nothing on disk when it fails, found with the connection in autocommit.\<close>

definition atomic :: "('audit conn \<Rightarrow> (StorageError + 'r) \<times> 'audit conn) \<Rightarrow> bool" where
  "atomic f \<longleftrightarrow> (\<forall>c e c'. f c = (Inl e, c') \<longrightarrow> at_begin c = None \<longrightarrow> durable c' = contents c)"

lemma atomicD: "atomic f \<Longrightarrow> at_begin c = None \<Longrightarrow> f c = (Inl e, c') \<Longrightarrow> durable c' = contents c"
  unfolding atomic_def by blast

lemma reads_atomic: "reads f \<Longrightarrow> atomic f"
  unfolding atomic_def using readsD by (metis durable_closed)

lemma atomic_then:
  assumes "reads f" "\<And>x. atomic (g x)"
  shows "atomic (\<lambda>c. step_then (f c) g)"
  unfolding atomic_def
proof (intro allI impI)
  fix c e c' assume st: "step_then (f c) g = (Inl e, c')" and none: "at_begin c = None"
  obtain q c1 where f: "f c = (q, c1)" by fastforce
  note one = readsD [OF assms(1) none f]
  show "durable c' = contents c"
  proof (cases q)
    case (Inl e')
    with st f one show ?thesis by auto
  next
    case (Inr x)
    with st f have "g x c1 = (Inl e, c')" by simp
    from atomicD [OF assms(2) _ this] one show ?thesis by simp
  qed
qed

lemma atomic_if: "atomic f \<Longrightarrow> atomic g \<Longrightarrow> atomic (\<lambda>c. if b then f c else g c)"
  by (cases b) simp_all

lemma atomic_pure: "atomic (\<lambda>c. (x, c))"
  by (rule reads_atomic) (rule reads_pure)

lemma atomic_run_tx: "frozen f \<Longrightarrow> atomic (run_tx env ctx f)"
  unfolding atomic_def using run_tx_any(1) by (metis durable_closed)

lemmas atomic_intros = atomic_then atomic_if atomic_pure atomic_run_tx reads_check reads_installation
  reads_version reads_now

lemma frozen_put_rows: "frozen (put_rows env i k v bytes now)"
  unfolding frozen_def by (rule quiet_put_rows) simp

lemma atomic_put_state: "atomic (put_state env i k v bytes b)"
  unfolding put_state_def put_rows_def [symmetric] by (intro atomic_intros frozen_put_rows)

lemma remove_rows_eta: "(\<lambda>c. step_then (execute_all env ''delete uninstall rows'' (uninstall_statements i) c) (\<lambda>_ c.
    step_then (insert_audit env ev now c) (\<lambda>_ c. (Inr (), c)))) = remove_rows env i ev now"
  by (rule ext) (simp add: remove_rows_def)

lemma atomic_remove: "atomic (remove_installation env i ev b)"
  unfolding remove_installation_def remove_rows_eta by (intro atomic_intros frozen_remove_rows)

lemma upsert_state_row_any:
  "upsert_state_row env i k v value now c = (Inr u, c') \<Longrightarrow> contents c' = set_row i (storage_key_text k)
     (Some \<lparr>version_col = uint v, value_col = value, stamp_col = now\<rparr>) (contents c)"
  unfolding upsert_state_row_def set_row_def by (drule execute_Inr) simp

lemma upsert_schema_marker_any:
  "upsert_schema_marker env i v now c = (Inr u, c') \<Longrightarrow> contents c' = set_row i STATE_SCHEMA_MARKER_KEY
     (Some \<lparr>version_col = uint v, value_col = [], stamp_col = now\<rparr>) (contents c) \<and> at_begin c' = at_begin c"
  unfolding upsert_schema_marker_def set_row_def by (drule execute_Inr) simp

text \<open>A write outside a transaction that succeeds gives the version it names, a removal takes it away.\<close>

lemma put_state_versions:
  assumes "put_state env i k v bytes b c = (Inr u, c')" "at_begin c = None" "key_ok k"
  shows "versions (contents c) i \<in> {None, Some v} \<and> versions (durable c') = (versions (contents c))(i := Some v)"
proof -
  from assms(1) obtain inst c1 current c2 now c3 where read: "read_installation env i c = (Inr inst, c1)"
    and ver: "get_state_schema_version env i c1 = (Inr current, c2)" and cur: "current \<in> {None, Some v}"
    and now: "sql_now env c2 = (Inr now, c3)"
    and run: "run_tx env ''begin state put transaction'' (put_rows env i k v bytes now) c3 = (Inr u, c')"
    by (auto simp: put_state_def put_rows_def [symmetric] result_simps split: if_splits)
  have c1: "contents c1 = contents c" "at_begin c1 = None" using readsD [OF reads_installation assms(2) read] by simp_all
  have c3: "contents c3 = contents c" using readsD [OF reads_version c1(2) ver] sql_now_conn [OF now] c1(1) by simp
  from run_tx_any(2) [OF frozen_put_rows run refl] obtain c4 c5 where none: "at_begin c' = None"
    and rows: "contents c4 = contents c3" "put_rows env i k v bytes now c4 = (Inr u, c5)" "contents c' = contents c5" by blast
  from rows(2) obtain u1 c6 where "upsert_state_row env i k v bytes now c4 = (Inr u1, c6)"
    "upsert_schema_marker env i v now c6 = (Inr u, c5)" by (auto simp: put_rows_def result_simps)
  from upsert_state_row_any [OF this(1)] upsert_schema_marker_any [OF this(2)]
  have "contents c5 = set_row i STATE_SCHEMA_MARKER_KEY (Some \<lparr>version_col = uint v, value_col = [], stamp_col = now\<rparr>)
     (set_row i (storage_key_text k) (Some \<lparr>version_col = uint v, value_col = bytes, stamp_col = now\<rparr>) (contents c4))"
    by simp
  then have "versions (durable c') = (versions (contents c))(i := Some v)"
    using none rows(1,3) c3 key_ok_not_marker [OF assms(3)] by (simp add: versions_set_row)
  with cur version_read(1) [OF ver] c1(1) show ?thesis by simp
qed

lemma execute_all_any:
  "execute_all env ctx stmts c = (Inr u, c') \<Longrightarrow> contents c' = fold (\<lambda>stmt t. stmt t) stmts (contents c)"
proof (induction stmts arbitrary: c)
  case (Cons stmt stmts)
  from Cons.prems obtain c1 where one: "execute env ctx (\<lambda>t. ((), stmt t)) c = (Inr (), c1)"
    and rest: "execute_all env ctx stmts c1 = (Inr u, c')" by (auto simp: result_simps)
  from execute_Inr [OF one] Cons.IH [OF rest] show ?case by simp
qed simp

lemma remove_installation_contents:
  assumes "remove_installation env i ev b c = (Inr u, c')" "at_begin c = None"
  shows "at_begin c' = None \<and> (\<exists>rows. contents c' =
    (fold (\<lambda>stmt t. stmt t) (uninstall_statements i) (contents c))\<lparr>audit_table := rows\<rparr>)"
proof -
  from assms(1) obtain inst c1 now c2 where read: "read_installation env i c = (Inr inst, c1)"
    and now: "sql_now env c1 = (Inr now, c2)"
    and run: "run_tx env ''begin uninstall transaction'' (remove_rows env i ev now) c2 = (Inr u, c')"
    by (auto simp: remove_installation_def remove_rows_eta result_simps split: if_splits)
  have c2: "contents c2 = contents c"
    using readsD [OF reads_installation assms(2) read] sql_now_conn [OF now] by simp
  from run_tx_any(2) [OF frozen_remove_rows run refl] obtain c3 c4 where none: "at_begin c' = None"
    and rows: "contents c3 = contents c2" "remove_rows env i ev now c3 = (Inr u, c4)" "contents c' = contents c4" by blast
  from rows(2) obtain u1 c5 n where all: "execute_all env ''delete uninstall rows'' (uninstall_statements i) c3 = (Inr u1, c5)"
    and ins: "insert_audit env ev now c5 = (Inr n, c4)" by (auto simp: remove_rows_def result_simps)
  have "contents c4 = (contents c5)\<lparr>audit_table := audit_table (contents c5) @ [(ev, now)]\<rparr>"
    using execute_Inr [OF ins [unfolded insert_audit_def]] by simp
  with execute_all_any [OF all] none rows(1,3) c2 show ?thesis by auto
qed

lemma remove_installation_versions:
  assumes "remove_installation env i ev b c = (Inr u, c')" "at_begin c = None" "j \<noteq> i"
  shows "versions (durable c') j = versions (contents c) j"
  using remove_installation_contents [OF assms(1,2)] assms(3)
  by (auto simp: versions_def view_of_def uninstall_statements_def)

text \<open>
  The worker. While it holds a transaction, the version the transaction is bound to is not below the one
  on disk, and no version has changed that is not on disk; the connection may have no transaction any
  more. When it holds none, the connection may still have one, which nothing will commit.
\<close>

definition versions_inv :: "'audit worker \<Rightarrow> bool" where
  "versions_inv w \<longleftrightarrow>
     (case state_tx w of
        None \<Rightarrow> True
      | Some a \<Rightarrow> versions (contents (conn w)) = versions (on_disk w) \<and>
          (\<forall>cur. versions (on_disk w) (tx_installation a) = Some cur \<longrightarrow> cur \<le> tx_version a))"

fun removes :: "InstallationId \<Rightarrow> 'audit Command \<times> (StorageError + Response) \<Rightarrow> bool" where
  "removes i (RemoveInstallation j e, Inr x) \<longleftrightarrow> i = j"
| "removes i _ \<longleftrightarrow> False"

definition no_loss :: "'audit Command \<times> (StorageError + Response) \<Rightarrow> 'audit tables \<Rightarrow> 'audit tables \<Rightarrow> bool" where
  "no_loss e t t' \<longleftrightarrow> (\<forall>i v. \<not> removes i e \<longrightarrow> versions t i = Some v \<longrightarrow> (\<exists>v'. versions t' i = Some v' \<and> v \<le> v'))"

lemma no_loss_same: "versions t' = versions t \<Longrightarrow> no_loss e t t'"
  by (simp add: no_loss_def)

lemma no_loss_update:
  "versions t' = (versions t)(i := Some v) \<Longrightarrow> (\<forall>cur. versions t i = Some cur \<longrightarrow> cur \<le> v) \<Longrightarrow> no_loss e t t'"
  by (simp add: no_loss_def)

definition safe_step :: "'audit Command \<Rightarrow> 'audit worker \<Rightarrow> (StorageError + Response) \<times> 'audit worker \<Rightarrow> bool" where
  "safe_step cmd w out \<longleftrightarrow> versions_inv (snd out) \<and> no_loss (cmd, fst out) (on_disk w) (on_disk (snd out))"

lemma safe_idle: "versions_inv w \<Longrightarrow> safe_step cmd w (r, w)"
  by (simp add: safe_step_def no_loss_same)

lemma safe_quiet:
  assumes "versions_inv w" "quiet versions f"
  shows "safe_step cmd w (on_conn resp f w)"
proof -
  obtain r c where f: "f (conn w) = (r, c)" by fastforce
  note q = quietD [OF assms(2) f]
  have disk: "versions (durable c) = versions (on_disk w)"
  proof (cases "at_begin (conn w)")
    case None
    then show ?thesis using q(1) by (simp add: on_disk_def)
  next
    case (Some t)
    then show ?thesis using q(2) by (simp add: on_disk_def)
  qed
  have "versions_inv (w\<lparr>conn := c\<rparr>)"
    using assms(1) q(1) by (auto simp: versions_inv_def on_disk_def split: option.splits)
  with disk f show ?thesis
    by (cases r) (auto simp: on_conn_def safe_step_def on_disk_def intro: no_loss_same)
qed

lemma safe_mark_dirty: "safe_step cmd w (on_conn resp f w) \<Longrightarrow> safe_step cmd w (mark_dirty (on_conn resp f w))"
  by (auto simp: mark_dirty_def safe_step_def versions_inv_def on_disk_def split: prod.splits sum.splits option.splits)

lemma safe_rollback:
  assumes "versions_inv w"
  shows "safe_step cmd w (Inl e, rollback_state_tx env w)"
proof (cases "rollback_sql env ''rollback'' (conn w)")
  case (Pair r c)
  have "durable c = durable (conn w)" by (rule durable_or [OF rollback_sql_any(1) [OF Pair]])
  then show ?thesis
    using assms Pair by (auto simp: safe_step_def rollback_state_tx_def versions_inv_def on_disk_def intro: no_loss_same)
qed

text \<open>The two operations that set or take away a version work in autocommit or not at all.\<close>

lemma safe_put_state:
  assumes "state_tx w = None" "key_ok k"
  shows "safe_step cmd w (on_conn resp (put_state env i k v bytes b) w)"
proof -
  obtain r c where f: "put_state env i k v bytes b (conn w) = (r, c)" by fastforce
  have "frozen (put_state env i k v bytes b)" by (rule quiet_frozen [OF quiet_put_state [of "\<lambda>t. ()"]]) simp
  note frozen = frozenD [OF this f]
  have "no_loss (cmd, out) (on_disk w) (durable c)" for out
  proof (cases "at_begin (conn w)")
    case (Some t)
    then show ?thesis using frozen(1) by (simp add: on_disk_def no_loss_same)
  next
    case None
    show ?thesis
    proof (cases r)
      case (Inl e)
      with atomicD [OF atomic_put_state None] f None show ?thesis by (simp add: on_disk_def no_loss_same)
    next
      case (Inr u)
      with put_state_versions [OF f [unfolded Inr] None assms(2)] None
      show ?thesis by (intro no_loss_update [of _ _ i v]) (auto simp: on_disk_def)
    qed
  qed
  with f assms(1) show ?thesis
    by (cases r) (auto simp: on_conn_def safe_step_def versions_inv_def on_disk_def)
qed

lemma safe_remove:
  assumes "state_tx w = None"
  shows "safe_step (RemoveInstallation i ev) w (on_conn (\<lambda>_. Removed) (remove_installation env i ev b) w)"
proof -
  obtain r c where f: "remove_installation env i ev b (conn w) = (r, c)" by fastforce
  have "frozen (remove_installation env i ev b)"
    unfolding frozen_def remove_installation_def remove_rows_eta
    by (intro quiet_intros frozen_remove_rows [unfolded frozen_def])
  note frozen = frozenD [OF this f]
  have inv: "versions_inv (w\<lparr>conn := c\<rparr>)" using assms by (simp add: versions_inv_def)
  show ?thesis
  proof (cases r)
    case (Inl e)
    have "durable c = durable (conn w)"
      using frozen(1) atomicD [OF atomic_remove _ f [unfolded Inl]] by (cases "at_begin (conn w)") simp_all
    with Inl f inv show ?thesis by (simp add: on_conn_def safe_step_def on_disk_def no_loss_same)
  next
    case (Inr u)
    have "versions (durable c) j = versions (durable (conn w)) j" if "j \<noteq> i" for j
      using frozen(1) remove_installation_versions [OF f [unfolded Inr] _ that] by (cases "at_begin (conn w)") simp_all
    with Inr f inv show ?thesis by (auto simp: on_conn_def safe_step_def on_disk_def no_loss_def)
  qed
qed

lemma safe_begin:
  assumes "versions_inv w"
  shows "safe_step cmd w (begin_state_transaction env i v mode b w)"
proof (cases "state_tx w")
  case (Some a)
  with assms show ?thesis by (simp add: begin_state_transaction_def safe_idle)
next
  case None
  obtain q c1 where ver: "get_state_schema_version env i (conn w) = (q, c1)" by fastforce
  note q = quietD [OF quiet_schema_version [where p = "\<lambda>t. t"] ver]
  have dur1: "durable c1 = on_disk w"
    using q(1,2) by (cases "at_begin (conn w)") (simp_all add: on_disk_def)
  have idle: "safe_step cmd w (Inl e, w\<lparr>conn := c\<rparr>)" if "durable c = on_disk w" for e c
    using None that by (simp add: safe_step_def versions_inv_def no_loss_same on_disk_def)
  let ?allowed = "\<lambda>cur. case mode of Normal \<Rightarrow> cur \<in> {None, Some v}
      | Migration \<Rightarrow> (case cur of None \<Rightarrow> False | Some x \<Rightarrow> x < v)"
  show ?thesis
  proof (cases "\<exists>cur. q = Inr cur \<and> ?allowed cur \<and> \<not> b")
    case False
    with None ver idle [OF dur1] show ?thesis
      by (cases q) (auto simp: begin_state_transaction_def check_cancel_def split: StateTxMode.splits option.splits)
  next
    case True
    then obtain cur where cur: "q = Inr cur" "?allowed cur" "\<not> b" by blast
    obtain r c2 where beg: "begin_sql env ''begin state transaction'' c1 = (r, c2)" by fastforce
    note bs = begin_sql_any [OF beg]
    let ?n = "saturating_add (tx_counter w) 1"
    have out: "begin_state_transaction env i v mode b w =
        (case r of Inl e \<Rightarrow> (Inl e, w\<lparr>conn := c2\<rparr>)
         | Inr _ \<Rightarrow> (Inr (StateTransactionBegan ?n), w\<lparr>conn := c2, tx_counter := ?n,
            state_tx := Some \<lparr>tx_handle = ?n, tx_installation = i, tx_version = v, dirty = False\<rparr>\<rparr>))"
      using None ver cur beg
      by (auto simp: begin_state_transaction_def check_cancel_def Let_def split: StateTxMode.splits option.splits sum.splits)
    show ?thesis
    proof (cases r)
      case (Inl e)
      with durable_or [OF bs(2) [OF Inl]] dur1 idle [of c2] show ?thesis by (simp add: out)
    next
      case (Inr u)
      note c2 = bs(1) [OF Inr]
      have "cur = versions (on_disk w) i"
        using version_read [OF ver [unfolded cur(1)]] c2 by (simp add: same_conn_def on_disk_def)
      then have bound: "\<forall>x. versions (on_disk w) i = Some x \<longrightarrow> x \<le> v"
        using cur(2) by (auto split: StateTxMode.splits option.splits)
      have "contents c2 = on_disk w" "durable c2 = on_disk w" using c2 dur1 by (simp_all add: durable_def)
      with bound show ?thesis
        by (simp add: out Inr safe_step_def versions_inv_def on_disk_def no_loss_same)
    qed
  qed
qed

text \<open>The commit: the marker is written first, then the transaction is committed, if there is one.\<close>

lemma tx_finalize_any:
  assumes "tx_finalize env i v c = (Inr u, c')"
  shows "versions (contents c') = (versions (contents c))(i := Some v) \<and> at_begin c' = at_begin c"
proof -
  from assms obtain now c1 where now: "sql_now env c = (Inr now, c1)" "upsert_schema_marker env i v now c1 = (Inr u, c')"
    by (auto simp: tx_finalize_def result_simps)
  with upsert_schema_marker_any [OF now(2)] sql_now_conn [OF now(1)] show ?thesis by (simp add: versions_set_row)
qed

lemma tx_finalize_fails:
  assumes "tx_finalize env i v c = (Inl e, c')"
  shows "durable c' = durable c"
proof (cases "sql_now env c")
  case (Pair q c1)
  note c1 = sql_now_conn [OF Pair]
  show ?thesis
  proof (cases q)
    case (Inl e')
    with assms Pair c1 show ?thesis by (simp add: tx_finalize_def)
  next
    case (Inr now)
    with assms Pair c1 have "upsert_schema_marker env i v now c = (Inl e, c')" by (simp add: tx_finalize_def)
    from execute_Inl [OF this [unfolded upsert_schema_marker_def]] show ?thesis by (rule durable_or)
  qed
qed

lemma safe_rolled_back:
  assumes "no_loss (cmd, Inl e) (on_disk w) (durable c)" "state_tx w \<noteq> None"
  shows "safe_step cmd w (Inl e, rollback_state_tx env (w\<lparr>conn := c\<rparr>))"
proof (cases "rollback_sql env ''rollback'' c")
  case (Pair r c')
  have "durable c' = durable c" by (rule durable_or [OF rollback_sql_any(1) [OF Pair]])
  with assms Pair show ?thesis
    by (simp add: safe_step_def rollback_state_tx_def versions_inv_def on_disk_def)
qed

lemma safe_commit:
  assumes "versions_inv w"
  shows "safe_step cmd w (commit_state_transaction env h b w)"
proof (cases "state_tx w")
  case None
  with assms show ?thesis by (simp add: commit_state_transaction_def safe_idle)
next
  case (Some a)
  let ?fin = "if dirty a then tx_finalize env (tx_installation a) (tx_version a) (conn w) else (Inr (), conn w)"
  let ?v = "(versions (on_disk w))(tx_installation a := Some (tx_version a))"
  have inv: "versions (contents (conn w)) = versions (on_disk w)"
    "\<forall>cur. versions (on_disk w) (tx_installation a) = Some cur \<longrightarrow> cur \<le> tx_version a"
    using assms Some by (auto simp: versions_inv_def)
  have ok: "no_loss e (on_disk w) t" if "versions t \<in> {versions (on_disk w), ?v}" for e t
    using that inv(2) by (blast intro: no_loss_same no_loss_update)
  obtain q c1 where fin: "?fin = (q, c1)" by fastforce
  have fin1: "versions (contents c1) \<in> {versions (on_disk w), ?v} \<and> versions (durable c1) \<in> {versions (on_disk w), ?v}"
    if q: "q = Inr u" for u
  proof (cases "dirty a")
    case False
    with fin inv(1) show ?thesis by (simp add: on_disk_def)
  next
    case True
    with fin q have "tx_finalize env (tx_installation a) (tx_version a) (conn w) = (Inr u, c1)" by simp
    from tx_finalize_any [OF this] have c1: "versions (contents c1) = ?v" "at_begin c1 = at_begin (conn w)"
      by (simp_all only: inv(1))
    show ?thesis
    proof (cases "at_begin (conn w)")
      case None
      with c1 show ?thesis by simp
    next
      case (Some t)
      with c1(2) have "durable c1 = on_disk w" by (simp add: on_disk_def durable_def)
      with c1(1) show ?thesis by simp
    qed
  qed
  have fin2: "durable c1 = on_disk w" if "q = Inl e" for e
    using fin that tx_finalize_fails [of env "tx_installation a" "tx_version a" "conn w" e c1]
    by (auto simp: on_disk_def split: if_splits)
  consider "tx_handle a \<noteq> h" | "tx_handle a = h" "b" | e where "tx_handle a = h" "\<not> b" "q = Inl e"
    | "tx_handle a = h" "\<not> b" "q = Inr ()" by (cases q) auto
  then show ?thesis
  proof cases
    case 1
    with Some assms show ?thesis by (simp add: commit_state_transaction_def safe_idle)
  next
    case 2
    with Some assms show ?thesis by (simp add: commit_state_transaction_def safe_rollback)
  next
    case (3 e)
    with Some fin fin2 [OF 3(3)] show ?thesis
      by (auto simp: commit_state_transaction_def no_loss_same intro!: safe_rolled_back)
  next
    case 4
    note fin1 = fin1 [OF 4(3)]
    obtain r c2 where com: "commit_sql env ''commit state transaction'' c1 = (r, c2)" by fastforce
    note cs = commit_sql_any [OF com]
    show ?thesis
    proof (cases r)
      case (Inl e)
      have "durable c2 = durable c1" by (rule durable_or [OF cs(2) [OF Inl]])
      with fin1 have "no_loss (cmd, Inl e) (on_disk w) (durable c2)" by (intro ok) simp
      from safe_rolled_back [OF this] Some 4 fin com Inl show ?thesis by (simp add: commit_state_transaction_def)
    next
      case (Inr u)
      with cs(1) [OF Inr] fin1 have "no_loss (cmd, Inr StateCommitted) (on_disk w) (durable c2)" by (intro ok) simp
      with Some 4 fin com Inr show ?thesis
        by (simp add: commit_state_transaction_def safe_step_def versions_inv_def on_disk_def)
    qed
  qed
qed

lemma safe_abort:
  assumes "versions_inv w"
  shows "safe_step cmd w (abort_state_transaction env h w)"
proof (cases "map_option tx_handle (state_tx w) = Some h")
  case False
  with assms show ?thesis by (simp add: abort_state_transaction_def safe_idle)
next
  case True
  obtain r c where rb: "rollback_sql env ''abort state transaction'' (conn w) = (r, c)" by fastforce
  note any = rollback_sql_any(1) [OF rb]
  have dur: "durable c = durable (conn w)" by (rule durable_or [OF any])
  have "versions (contents c) = versions (durable (conn w))" if "versions (contents (conn w)) = versions (durable (conn w))"
    using settled_or [OF any that] by simp
  then have "versions_inv (w\<lparr>conn := c\<rparr>)"
    using assms dur by (auto simp: versions_inv_def on_disk_def split: option.splits)
  with True rb dur show ?thesis
    by (cases r) (auto simp: abort_state_transaction_def safe_step_def no_loss_same on_disk_def versions_inv_def)
qed

lemma versions_state_key: "key_ok k \<Longrightarrow> versions (set_row i (storage_key_text k) row t) = versions t"
  by (rule versions_set_row(1)) (rule key_ok_not_marker)

lemma tx_get_state_quiet: "quiet p (tx_get_state env i k)"
  unfolding tx_get_state_eq by (rule quiet_read_state_row)

lemma serve_safe:
  assumes "versions_inv w" "command_ok cmd"
  shows "safe_step cmd w (serve env cancel cmd w)"
proof (cases "cancel 0")
  case True
  then show ?thesis by (simp add: serve_def safe_rollback [OF assms(1)])
next
  case False
  note q = safe_quiet [OF assms(1)] and idle = safe_idle [OF assms(1)] and undo = safe_rollback [OF assms(1)]
  show ?thesis
  proof (cases cmd)
    case (GetState i k tx)
    show ?thesis
      by (cases rule: require_active_tx_cases [OF refl, of w tx i])
        (use False idle q [OF tx_get_state_quiet] q [OF quiet_read_state_row] GetState in
          \<open>simp_all add: serve_def dispatch_stateful_def\<close>)
  next
    case (PutState i k ver bytes tx)
    with assms(2) have k: "key_ok k" by simp
    show ?thesis
    proof (cases rule: require_active_tx_cases [OF refl, of w tx i])
      case (1 e)
      with PutState False idle show ?thesis by (simp add: serve_def dispatch_stateful_def)
    next
      case (2 a)
      with PutState False idle undo safe_mark_dirty [OF q [OF quiet_tx_put [OF versions_state_key [OF k]]]] show ?thesis
        by (auto simp: serve_def dispatch_stateful_def)
    next
      case 3
      with PutState False idle safe_put_state [OF 3(2) k] show ?thesis
        by (auto simp: serve_def dispatch_stateful_def split: option.splits)
    qed
  next
    case (DeleteState i k tx)
    with assms(2) have k: "key_ok k" by simp
    show ?thesis
    proof (cases rule: require_active_tx_cases [OF refl, of w tx i])
      case (1 e)
      with DeleteState False idle show ?thesis by (simp add: serve_def dispatch_stateful_def)
    next
      case (2 a)
      with DeleteState False undo safe_mark_dirty [OF q [OF quiet_tx_delete [OF versions_state_key [OF k]]]] show ?thesis
        by (auto simp: serve_def dispatch_stateful_def)
    next
      case 3
      with DeleteState False idle q [OF quiet_delete_state [OF versions_state_key [OF k]]] show ?thesis
        by (auto simp: serve_def dispatch_stateful_def check_cancel_def)
    qed
  next
    case (RemoveInstallation i ev)
    with False idle safe_remove [of w i ev env "cancel 1"] show ?thesis by (simp add: serve_def)
  qed (use False idle safe_begin [OF assms(1)] safe_commit [OF assms(1)] safe_abort [OF assms(1)]
      q [OF quiet_schema_version] q [OF quiet_get_config] q [OF quiet_put_config] q [OF quiet_put_secret]
      q [OF quiet_get_secret] q [OF quiet_list_secrets] q [OF quiet_delete_secret] q [OF quiet_append_audit]
    in \<open>simp_all add: serve_def dispatch_stateful_def check_cancel_def\<close>)
qed

section \<open>Configuration and secrets\<close>

text \<open>What the rows hold, apart from the moment they were written.\<close>

definition config_of :: "'audit tables \<Rightarrow> InstallationId \<Rightarrow> (string \<times> int \<times> int \<times> u8 list) option" where
  "config_of t i =
     map_option (\<lambda>r. (format_col r, config_version_col r, revision_col r, config_value_col r)) (config_table t i)"

definition secret_of :: "'audit tables \<Rightarrow> InstallationId \<Rightarrow> string \<Rightarrow> (int \<times> u8 list \<times> string) option" where
  "secret_of t i name =
     map_option (\<lambda>r. (secret_version_col r, ciphertext_col r, metadata_col r)) (map_of (secret_table t i) name)"

text \<open>What an answered command does to them.\<close>

fun ack_config :: "InstallationId \<Rightarrow> 'audit Command \<times> (StorageError + Response) \<Rightarrow>
    (string \<times> int \<times> int \<times> u8 list) option \<Rightarrow> (string \<times> int \<times> int \<times> u8 list) option" where
  "ack_config i (PutComponentConfig j format v bytes, Inr x) cur =
     (if j = i then Some (format_display format, uint v, (case cur of None \<Rightarrow> 1 | Some (_, _, n, _) \<Rightarrow> n + 1), bytes)
      else cur)"
| "ack_config i (RemoveInstallation j e, Inr x) cur = (if j = i then None else cur)"
| "ack_config i _ cur = cur"

fun ack_secret :: "InstallationId \<Rightarrow> string \<Rightarrow> 'audit Command \<times> (StorageError + Response) \<Rightarrow>
    (int \<times> u8 list \<times> string) option \<Rightarrow> (int \<times> u8 list \<times> string) option" where
  "ack_secret i n (PutSecret j name bytes meta, Inr x) cur =
     (if j = i \<and> stored_secret_name name = n
      then Some (case cur of None \<Rightarrow> 1 | Some (ver, _) \<Rightarrow> ver + 1, bytes, meta) else cur)"
| "ack_secret i n (DeleteSecret j name, Inr x) cur = (if j = i \<and> stored_secret_name name = n then None else cur)"
| "ack_secret i n (RemoveInstallation j e, Inr x) cur = (if j = i then None else cur)"
| "ack_secret i n _ cur = cur"

type_synonym settings =
  "(InstallationId \<Rightarrow> (string \<times> int \<times> int \<times> u8 list) option) \<times>
   (InstallationId \<Rightarrow> string \<Rightarrow> (int \<times> u8 list \<times> string) option)"

definition settings_of :: "'audit tables \<Rightarrow> settings" where
  "settings_of t = (config_of t, secret_of t)"

definition ack :: "'audit Command \<times> (StorageError + Response) \<Rightarrow> settings \<Rightarrow> settings" where
  "ack e cur = ((\<lambda>i. ack_config i e (fst cur i)), (\<lambda>i n. ack_secret i n e (snd cur i n)))"

lemma settings_eqI: "config_table t' = config_table t \<Longrightarrow> secret_table t' = secret_table t \<Longrightarrow> settings_of t' = settings_of t"
  by (simp add: settings_of_def config_of_def [abs_def] secret_of_def [abs_def])

lemma settings_other [simp]:
  "settings_of (t\<lparr>audit_table := x\<rparr>) = settings_of t"
  "settings_of (set_row i k row t) = settings_of t"
  by (rule settings_eqI, simp_all add: set_row_def)+

lemma map_of_insert_any: "map_of (bt_insert k v m) = (map_of m)(k \<mapsto> v)"
  by (induction m) (auto simp: fun_eq_iff)

lemma settings_written:
  "settings_of (upsert_config i format v bytes now t) = ack (PutComponentConfig i format v bytes, Inr x) (settings_of t)"
  "settings_of (upsert_secret i (stored_secret_name name) bytes meta now t) = ack (PutSecret i name bytes meta, Inr x) (settings_of t)"
  "settings_of (snd (delete_secret_row i (stored_secret_name name) t)) = ack (DeleteSecret i name, Inr x) (settings_of t)"
  "settings_of ((fold (\<lambda>stmt t. stmt t) (uninstall_statements i) t)\<lparr>audit_table := rows\<rparr>) =
     ack (RemoveInstallation i e, Inr x) (settings_of t)"
  by (auto simp: settings_of_def ack_def config_of_def secret_of_def fun_eq_iff upsert_config_def upsert_secret_def
      delete_secret_row_def uninstall_statements_def map_of_insert_any map_of_filter_key split: option.splits)

text \<open>
  Outside a transaction of its own the connection holds no change of the settings that is not on disk.
  For this a \<open>ROLLBACK\<close> has to work; a transaction that SQLite ends by itself does no harm.
\<close>

definition settled :: "'audit worker \<Rightarrow> bool" where
  "settled w \<longleftrightarrow> settings_of (contents (conn w)) = settings_of (on_disk w)"

definition accounted :: "'audit Command \<Rightarrow> 'audit worker \<Rightarrow> (StorageError + Response) \<times> 'audit worker \<Rightarrow> bool" where
  "accounted cmd w out \<longleftrightarrow> settled (snd out) \<and>
     settings_of (on_disk (snd out)) = ack (cmd, fst out) (settings_of (on_disk w))"

lemma ack_failed [simp]: "ack (cmd, Inl e) cur = cur"
  by (simp add: ack_def)

fun sets :: "'audit Command \<Rightarrow> bool" where
  "sets (PutComponentConfig i format v bytes) \<longleftrightarrow> True"
| "sets (PutSecret i name bytes meta) \<longleftrightarrow> True"
| "sets (DeleteSecret i name) \<longleftrightarrow> True"
| "sets (RemoveInstallation i e) \<longleftrightarrow> True"
| "sets _ \<longleftrightarrow> False"

lemma ack_other: "\<not> sets cmd \<Longrightarrow> ack (cmd, r) cur = cur"
  by (cases cmd; cases r) (simp_all add: ack_def)

lemma accountedI:
  assumes "\<not> sets cmd \<or> (\<exists>e. fst out = Inl e)" "settled (snd out)" "settings_of (on_disk (snd out)) = settings_of (on_disk w)"
  shows "accounted cmd w out"
  using assms by (auto simp: accounted_def ack_other)

lemma accounted_idle: "settled w \<Longrightarrow> accounted cmd w (Inl e, w)"
  by (rule accountedI) simp_all

lemma accounted_quiet:
  assumes "settled w" "quiet settings_of f" "\<not> sets cmd"
  shows "accounted cmd w (on_conn resp f w)"
proof -
  obtain r c where f: "f (conn w) = (r, c)" by fastforce
  note q = quietD(1) [OF assms(2) f]
  have "settings_of (contents c) = settings_of (on_disk w) \<and> settings_of (durable c) = settings_of (on_disk w)"
    using q assms(1) by (simp add: settled_def on_disk_def)
  with f assms(3) show ?thesis
    by (cases r; intro accountedI) (simp_all add: on_conn_def settled_def on_disk_def)
qed

lemma accounted_mark_dirty: "accounted cmd w (on_conn resp f w) \<Longrightarrow> accounted cmd w (mark_dirty (on_conn resp f w))"
  by (auto simp: mark_dirty_def accounted_def settled_def on_disk_def split: prod.splits sum.splits)

lemma settled_conn:
  assumes "contents c = contents (conn w) \<and> at_begin c = at_begin (conn w) \<or> contents c = on_disk w \<and> at_begin c = None"
    and "settled w"
  shows "settled (w\<lparr>conn := c\<rparr>) \<and> settings_of (durable c) = settings_of (on_disk w)"
  using settled_or [of c "conn w" settings_of] assms by (simp add: settled_def on_disk_def)

lemma accounted_rollback:
  assumes "settled w"
  shows "accounted cmd w (Inl e, rollback_state_tx env w)"
proof (cases "rollback_sql env ''rollback'' (conn w)")
  case (Pair r c)
  from settled_conn [OF rollback_sql_any(1) [OF Pair, folded on_disk_def] assms] assms Pair show ?thesis
    by (intro accountedI) (simp_all add: rollback_state_tx_def settled_def on_disk_def)
qed

lemma run_tx_settles:
  assumes "\<forall>n. \<not> rollback_fails env n" "frozen f" "run_tx env ctx f c = (r, c')"
  shows "contents c' = contents c \<and> at_begin c' = at_begin c \<or> at_begin c' = None"
proof (cases "begin_sql env ctx c")
  case (Pair b c1)
  have drop: "at_begin (drop_tx env d) = None" for d :: "'a conn"
    using assms(1) by (simp add: drop_tx_def rollback_sql_def Let_def)
  show ?thesis
  proof (cases b)
    case (Inl e)
    with assms(3) Pair begin_sql_any(2) [OF Pair Inl] show ?thesis by (auto simp: run_tx_def)
  next
    case (Inr u)
    with assms(3) Pair drop have "at_begin c' = None"
      by (auto simp: run_tx_def commit_sql_any(1) split: prod.splits sum.splits)
    then show ?thesis ..
  qed
qed

definition acks :: "'audit Command \<Rightarrow> ('audit conn \<Rightarrow> (StorageError + 'r) \<times> 'audit conn) \<Rightarrow> bool" where
  "acks cmd f \<longleftrightarrow> (\<forall>c r c'. f c = (r, c') \<longrightarrow> settings_of (contents c) = settings_of (durable c) \<longrightarrow>
     (let s = (if is_ok r then ack (cmd, Inr Removed) (settings_of (durable c)) else settings_of (durable c))
      in settings_of (contents c') = s \<and> settings_of (durable c') = s))"

lemma acksD:
  assumes "acks cmd f" "f c = (r, c')" "settings_of (contents c) = settings_of (durable c)"
  shows "settings_of (contents c') =
      (if is_ok r then ack (cmd, Inr Removed) (settings_of (durable c)) else settings_of (durable c))"
    and "settings_of (durable c') = settings_of (contents c')"
  using assms unfolding acks_def Let_def by metis+

lemma acks_then:
  assumes "quiet settings_of f" "\<And>x. acks cmd (g x)"
  shows "acks cmd (\<lambda>c. step_then (f c) g)"
  unfolding acks_def
proof (intro allI impI)
  fix c r c' assume st: "step_then (f c) g = (r, c')" and eq: "settings_of (contents c) = settings_of (durable c)"
  obtain q c1 where f: "f c = (q, c1)" by fastforce
  note one = quietD(1) [OF assms(1) f eq]
  show "let s = (if is_ok r then ack (cmd, Inr Removed) (settings_of (durable c)) else settings_of (durable c))
      in settings_of (contents c') = s \<and> settings_of (durable c') = s"
  proof (cases q)
    case (Inl e)
    with st f have "r = Inl e" "c' = c1" by simp_all
    with one show ?thesis by (simp add: Let_def)
  next
    case (Inr x)
    with st f have "g x c1 = (r, c')" by simp
    with acksD [OF assms(2) this] one show ?thesis by (simp add: Let_def)
  qed
qed

lemma acks_if: "acks cmd f \<Longrightarrow> acks cmd g \<Longrightarrow> acks cmd (\<lambda>c. if b then f c else g c)"
  by (cases b) simp_all

lemma acks_refuse: "acks cmd (\<lambda>c. (Inl e, c))"
  by (simp add: acks_def)

lemma acks_run_tx:
  assumes "\<forall>n. \<not> rollback_fails env n" "frozen f"
    and "\<And>c x c'. f c = (Inr x, c') \<Longrightarrow> settings_of (contents c') = ack (cmd, Inr Removed) (settings_of (contents c))"
  shows "acks cmd (run_tx env ctx f)"
  unfolding acks_def
proof (intro allI impI)
  fix c r c' assume run: "run_tx env ctx f c = (r, c')" and eq: "settings_of (contents c) = settings_of (durable c)"
  note any = run_tx_any [OF assms(2) run]
  show "let s = (if is_ok r then ack (cmd, Inr Removed) (settings_of (durable c)) else settings_of (durable c))
      in settings_of (contents c') = s \<and> settings_of (durable c') = s"
  proof (cases r)
    case (Inl e)
    have "settings_of (contents c') = settings_of (durable c')"
      using run_tx_settles [OF assms(1,2) run]
    proof
      assume "contents c' = contents c \<and> at_begin c' = at_begin c"
      with any(1) [OF Inl] eq show ?thesis by simp
    qed simp
    with any(1) [OF Inl] Inl show ?thesis by (simp add: Let_def)
  next
    case (Inr x)
    from any(2) [OF Inr] obtain c1 c2 where "at_begin c' = None" "at_begin c = None" "contents c1 = contents c"
      "f c1 = (Inr x, c2)" "contents c' = contents c2" by blast
    with assms(3) [OF this(4)] Inr show ?thesis by (simp add: Let_def)
  qed
qed

lemma ack_any: "ack (cmd, Inr x) = ack (cmd, Inr Removed)"
  by (cases cmd) (simp_all add: ack_def [abs_def])

lemma accounted_acks:
  assumes "settled w" "acks cmd f"
  shows "accounted cmd w (on_conn resp f w)"
proof -
  obtain r c where f: "f (conn w) = (r, c)" by fastforce
  note s = acksD [OF assms(2) f assms(1) [unfolded settled_def on_disk_def]]
  show ?thesis
  proof (cases r)
    case (Inl e)
    with f s show ?thesis by (simp add: accounted_def settled_def on_conn_def on_disk_def)
  next
    case (Inr x)
    with f s show ?thesis by (simp add: accounted_def settled_def on_conn_def on_disk_def ack_any [of cmd "resp x"])
  qed
qed

text \<open>The writes, when a \<open>ROLLBACK\<close> works.\<close>

definition rollback_works :: "sql_env \<Rightarrow> bool" where
  "rollback_works env \<longleftrightarrow> (\<forall>n. \<not> rollback_fails env n)"

lemma acks_write:
  assumes rb: "rollback_works env" and stmt: "\<And>t. settings_of (snd (stmt t)) = ack (cmd, Inr Removed) (settings_of t)"
  shows "acks cmd (run_tx env ctx (execute env ctx' stmt))"
proof (rule acks_run_tx [OF rb [unfolded rollback_works_def]])
  show "frozen (execute env ctx' stmt)" unfolding frozen_def by (rule quiet_execute) simp
  fix c x c' assume "execute env ctx' stmt c = (Inr x, c')"
  from execute_Inr [OF this] stmt [of "contents c"] show "settings_of (contents c') = ack (cmd, Inr Removed) (settings_of (contents c))"
    by simp
qed

lemmas acks_intros = acks_then acks_if acks_refuse quiet_check quiet_read_installation quiet_now acks_write

lemma acks_put_config: "rollback_works env \<Longrightarrow> acks (PutComponentConfig i format v bytes) (put_component_config env i format v bytes b)"
  unfolding put_component_config_def by (intro acks_intros) (simp_all add: settings_written)

lemma acks_put_secret: "rollback_works env \<Longrightarrow> acks (PutSecret i name bytes meta) (put_secret env i name bytes meta b)"
  unfolding put_secret_def by (intro acks_intros) (simp_all add: settings_written)

lemma acks_delete_secret:
  assumes "rollback_works env"
  shows "acks (DeleteSecret i name) (delete_secret env i name b)"
  unfolding delete_secret_def
proof (intro acks_then quiet_check acks_run_tx [OF assms [unfolded rollback_works_def]])
  let ?f = "\<lambda>c. step_then (execute env ''delete secret'' (delete_secret_row i (stored_secret_name name)) c) (\<lambda>changed c.
       if changed = 0 then (Inl (NotFound (NoSecret (stored_secret_name name) i)), c) else (Inr (), c))"
  show "frozen ?f" unfolding frozen_def by (intro quiet_intros) simp
  fix c x c' assume "?f c = (Inr x, c')"
  then obtain n where "execute env ''delete secret'' (delete_secret_row i (stored_secret_name name)) c = (Inr n, c')"
    by (auto simp: result_simps split: if_splits)
  from execute_Inr [OF this] show "settings_of (contents c') = ack (DeleteSecret i name, Inr Removed) (settings_of (contents c))"
    using settings_written(3) [of i name "contents c"] by simp
qed

lemma acks_remove:
  assumes "rollback_works env"
  shows "acks (RemoveInstallation i ev) (remove_installation env i ev b)"
  unfolding remove_installation_def remove_rows_eta
proof (intro acks_then acks_if acks_refuse quiet_check quiet_read_installation quiet_now acks_run_tx [OF assms [unfolded rollback_works_def]] frozen_remove_rows)
  fix now c x c' assume rows: "remove_rows env i ev now c = (Inr x, c')"
  then obtain u1 c1 n where all: "execute_all env ''delete uninstall rows'' (uninstall_statements i) c = (Inr u1, c1)"
    and ins: "insert_audit env ev now c1 = (Inr n, c')" by (auto simp: remove_rows_def result_simps)
  have "contents c' = (contents c1)\<lparr>audit_table := audit_table (contents c1) @ [(ev, now)]\<rparr>"
    using execute_Inr [OF ins [unfolded insert_audit_def]] by simp
  then show "settings_of (contents c') = ack (RemoveInstallation i ev, Inr Removed) (settings_of (contents c))"
    by (simp only: execute_all_any [OF all] settings_written(4) [where i = i and e = ev and x = Removed])
qed

text \<open>The commands that do not set anything.\<close>

lemma accounted_conn:
  assumes "settled w" "\<not> sets cmd"
    and "contents c = contents (conn w) \<and> at_begin c = at_begin (conn w) \<or> contents c = on_disk w \<and> at_begin c = None"
    and "conn w' = c"
  shows "accounted cmd w (r, w')"
  using settled_conn [OF assms(3,1)] assms(2,4) by (intro accountedI) (simp_all add: settled_def on_disk_def)

lemma accounted_begin:
  assumes "settled w" "\<not> sets cmd"
  shows "accounted cmd w (begin_state_transaction env i v mode b w)"
proof -
  obtain q c1 where ver: "get_state_schema_version env i (conn w) = (q, c1)" by fastforce
  have s1: "settled (w\<lparr>conn := c1\<rparr>) \<and> settings_of (durable c1) = settings_of (on_disk w)"
    using quietD(1) [OF quiet_schema_version ver, of settings_of] assms(1) by (simp add: settled_def on_disk_def)
  obtain r c2 where beg: "begin_sql env ''begin state transaction'' c1 = (r, c2)" by fastforce
  have "contents c2 = contents c1 \<and> at_begin c2 = at_begin c1 \<or> contents c2 = durable c1 \<and> at_begin c2 = None \<or>
      contents c2 = contents c1 \<and> durable c2 = durable c1"
    using begin_sql_any [OF beg] by (cases r) (auto simp: durable_def)
  then have s2: "settings_of (contents c2) = settings_of (on_disk w) \<and> settings_of (durable c2) = settings_of (on_disk w)"
    using s1 by (auto simp: settled_def on_disk_def) (metis durable_or)+
  have "conn (snd (begin_state_transaction env i v mode b w)) \<in> {conn w, c1, c2}"
    using ver beg by (cases q) (auto simp: begin_state_transaction_def check_cancel_def Let_def
        split: StateTxMode.splits option.splits sum.splits prod.splits)
  with assms s1 s2 show ?thesis
    by (intro accountedI) (auto simp: settled_def on_disk_def)
qed

lemma accounted_rolled_back:
  assumes "settings_of (contents c) = settings_of (on_disk w)" "settings_of (durable c) = settings_of (on_disk w)"
    and "state_tx w \<noteq> None"
  shows "accounted cmd w (Inl e, rollback_state_tx env (w\<lparr>conn := c\<rparr>))"
proof (cases "rollback_sql env ''rollback'' c")
  case (Pair r c')
  have "settings_of (contents c') = settings_of (on_disk w) \<and> settings_of (durable c') = settings_of (on_disk w)"
    using settled_or [OF rollback_sql_any(1) [OF Pair], of settings_of] assms(1,2) by simp
  with assms(3) Pair show ?thesis
    by (intro accountedI) (auto simp: rollback_state_tx_def settled_def on_disk_def)
qed

lemma accounted_commit:
  assumes "settled w" "\<not> sets cmd"
  shows "accounted cmd w (commit_state_transaction env h b w)"
proof (cases "state_tx w")
  case None
  with assms show ?thesis by (simp add: commit_state_transaction_def accounted_idle)
next
  case (Some a)
  let ?fin = "\<lambda>c. if dirty a then tx_finalize env (tx_installation a) (tx_version a) c else (Inr (), c)"
  have "quiet settings_of ?fin" by (intro quiet_if quiet_finalize quiet_pure) simp
  note fq = quietD(1) [OF this]
  obtain q c1 where fin: "?fin (conn w) = (q, c1)" by fastforce
  have c1: "settings_of (contents c1) = settings_of (on_disk w)" "settings_of (durable c1) = settings_of (on_disk w)"
    using fq [OF fin] assms(1) by (simp_all add: settled_def on_disk_def)
  obtain r c2 where com: "commit_sql env ''commit state transaction'' c1 = (r, c2)" by fastforce
  note cs = commit_sql_any [OF com]
  have c2: "settings_of (contents c2) = settings_of (on_disk w) \<and> settings_of (durable c2) = settings_of (on_disk w)"
  proof (cases r)
    case (Inl e)
    from settled_or [OF cs(2) [OF Inl], of settings_of] c1 show ?thesis by simp
  next
    case (Inr u)
    with cs(1) c1 show ?thesis by simp
  qed
  show ?thesis
  proof (cases "tx_handle a \<noteq> h \<or> b")
    case True
    with Some assms show ?thesis
      by (auto simp: commit_state_transaction_def accounted_idle accounted_rollback)
  next
    case False
    show ?thesis
    proof (cases q)
      case (Inl e)
      with Some False fin accounted_rolled_back [of c1 w] c1 show ?thesis by (simp add: commit_state_transaction_def)
    next
      case (Inr u)
      note q = this
      show ?thesis
      proof (cases r)
        case (Inl e)
        with Some False fin q com accounted_rolled_back [of c2 w] c2 show ?thesis by (simp add: commit_state_transaction_def)
      next
        case (Inr u')
        with Some False fin q com c2 assms(2) show ?thesis
          by (intro accountedI) (simp_all add: commit_state_transaction_def settled_def on_disk_def)
      qed
    qed
  qed
qed

lemma accounted_abort:
  assumes "settled w" "\<not> sets cmd"
  shows "accounted cmd w (abort_state_transaction env h w)"
proof (cases "map_option tx_handle (state_tx w) = Some h")
  case False
  with assms show ?thesis by (auto simp: abort_state_transaction_def intro!: accountedI)
next
  case True
  obtain r c where rb: "rollback_sql env ''abort state transaction'' (conn w) = (r, c)" by fastforce
  from accounted_conn [OF assms rollback_sql_any(1) [OF rb, folded on_disk_def]] True rb show ?thesis
    by (cases r) (auto simp: abort_state_transaction_def)
qed

lemma serve_accounted:
  assumes "rollback_works env" "settled w"
  shows "accounted cmd w (serve env cancel cmd w)"
proof (cases "cancel 0")
  case True
  then show ?thesis by (simp add: serve_def accounted_rollback [OF assms(2)])
next
  case False
  note q = accounted_quiet [OF assms(2)] and idle = accounted_idle [OF assms(2)] and undo = accounted_rollback [OF assms(2)]
    and wr = accounted_acks [OF assms(2)]
  show ?thesis
  proof (cases cmd)
    case (GetState i k tx)
    show ?thesis
      by (cases rule: require_active_tx_cases [OF refl, of w tx i])
        (use False idle q [OF tx_get_state_quiet] q [OF quiet_read_state_row] GetState in
          \<open>simp_all add: serve_def dispatch_stateful_def\<close>)
  next
    case (PutState i k ver bytes tx)
    show ?thesis
    proof (cases rule: require_active_tx_cases [OF refl, of w tx i])
      case (2 a)
      with PutState False idle undo accounted_mark_dirty [OF q [OF quiet_tx_put]] show ?thesis
        by (auto simp: serve_def dispatch_stateful_def)
    next
      case 3
      with PutState False idle q [OF quiet_put_state] show ?thesis
        by (auto simp: serve_def dispatch_stateful_def split: option.splits)
    qed (use PutState False idle in \<open>simp add: serve_def dispatch_stateful_def\<close>)
  next
    case (DeleteState i k tx)
    show ?thesis
    proof (cases rule: require_active_tx_cases [OF refl, of w tx i])
      case (2 a)
      with DeleteState False undo accounted_mark_dirty [OF q [OF quiet_tx_delete]] show ?thesis
        by (auto simp: serve_def dispatch_stateful_def)
    next
      case 3
      with DeleteState False idle q [OF quiet_delete_state] show ?thesis
        by (auto simp: serve_def dispatch_stateful_def check_cancel_def)
    qed (use DeleteState False idle in \<open>simp add: serve_def dispatch_stateful_def\<close>)
  next
    case (BeginStateTransaction i v mode)
    with False accounted_begin [OF assms(2), of cmd] show ?thesis by (simp add: serve_def dispatch_stateful_def)
  next
    case (CommitStateTransaction h)
    with False accounted_commit [OF assms(2), of cmd] show ?thesis by (simp add: serve_def dispatch_stateful_def)
  next
    case (AbortStateTransaction h)
    with False accounted_abort [OF assms(2), of cmd] show ?thesis by (simp add: serve_def dispatch_stateful_def)
  qed (use False idle q [OF quiet_schema_version] q [OF quiet_get_config] q [OF quiet_get_secret]
      q [OF quiet_list_secrets] q [OF quiet_append_audit] wr [OF acks_put_config [OF assms(1)]]
      wr [OF acks_put_secret [OF assms(1)]] wr [OF acks_delete_secret [OF assms(1)]] wr [OF acks_remove [OF assms(1)]]
    in \<open>simp_all add: serve_def dispatch_stateful_def check_cancel_def\<close>)
qed

section \<open>Properties\<close>

lemma serve_all_versions:
  assumes "versions_inv w" "requests_ok reqs" "serve_all env reqs w = (tr, w')"
  shows "versions_inv w' \<and> (\<forall>i v. list_all (\<lambda>e. \<not> removes i e) tr \<longrightarrow> versions (on_disk w) i = Some v \<longrightarrow>
    (\<exists>v'. versions (on_disk w') i = Some v' \<and> v \<le> v'))"
  using assms
proof (induction reqs arbitrary: w tr)
  case (Cons q reqs)
  obtain cancel cmd where q: "q = (cancel, cmd)" by fastforce
  obtain r w1 where s: "serve env cancel cmd w = (r, w1)" by fastforce
  obtain rest where rest: "serve_all env reqs w1 = (rest, w')" "tr = (cmd, r) # rest"
    using Cons.prems(3) by (auto simp: q s split: prod.splits)
  have "command_ok cmd" "requests_ok reqs" using Cons.prems(2) q by (simp_all add: requests_ok_def)
  with serve_safe [OF Cons.prems(1), of cmd env cancel] s
  have one: "versions_inv w1" "no_loss (cmd, r) (on_disk w) (on_disk w1)" by (simp_all add: safe_step_def)
  from Cons.IH [OF one(1) \<open>requests_ok reqs\<close> rest(1)] one(2) show ?case
    unfolding rest(2) no_loss_def by simp (meson order_trans)
qed simp

lemma serve_all_settings:
  assumes "rollback_works env" "settled w" "serve_all env reqs w = (tr, w')"
  shows "settled w' \<and> settings_of (on_disk w') = fold ack tr (settings_of (on_disk w))"
  using assms(2,3)
proof (induction reqs arbitrary: w tr)
  case (Cons q reqs)
  obtain cancel cmd where q: "q = (cancel, cmd)" by fastforce
  obtain r w1 where s: "serve env cancel cmd w = (r, w1)" by fastforce
  obtain rest where rest: "serve_all env reqs w1 = (rest, w')" "tr = (cmd, r) # rest"
    using Cons.prems(2) by (auto simp: q s split: prod.splits)
  from serve_accounted [OF assms(1) Cons.prems(1), of cmd cancel] s
  have one: "settled w1" "settings_of (on_disk w1) = ack (cmd, r) (settings_of (on_disk w))"
    by (simp_all add: accounted_def)
  from Cons.IH [OF one(1) rest(1)] one(2) rest(2) show ?case by simp
qed simp

lemma fold_ack: "fold ack tr (cs, ss) = ((\<lambda>i. fold (ack_config i) tr (cs i)), (\<lambda>i n. fold (ack_secret i n) tr (ss i n)))"
  by (induction tr arbitrary: cs ss) (simp_all add: ack_def)

text \<open>C21: The schema version of an installation's state never goes back, and only the removal of the
  installation takes it away: whatever commands with acceptable keys are served, and whatever SQLite
  answers to their statements (it may end transactions on its own, and \<open>ROLLBACK\<close> may fail), what is on
  disk later has a version at least as high, unless a \<open>RemoveInstallation\<close> of that installation has
  been answered with success in between.\<close>

theorem schema_version_monotone:
  assumes "requests_ok reqs0" "requests_ok reqs"
    and "w = snd (serve_all env reqs0 (worker_new t))" "serve_all env reqs w = (tr, w')"
    and "list_all (\<lambda>e. \<not> removes i e) tr" "view_version (view_of (on_disk w) i) = Some v"
  shows "\<exists>v'. view_version (view_of (on_disk w') i) = Some v' \<and> v \<le> v'"
proof -
  have "versions_inv (worker_new t)" by (simp add: versions_inv_def worker_new_def)
  then have "versions_inv w"
    using serve_all_versions [OF _ assms(1) prod.collapse [symmetric]] assms(3) by blast
  from serve_all_versions [OF this assms(2,4)] assms(5,6) show ?thesis by (simp add: versions_def)
qed

text \<open>SQLite ends the transaction of three writes in the middle, after a first write outside.\<close>

definition late_env :: sql_env where
  "late_env = demo_env\<lparr>answer := (\<lambda>n. if n = 9 then Fails_and_rolls_back else Works)\<rparr>"

lemma schema_version_monotone_witness:
  "\<exists>v'. view_version (view_of (on_disk (snd (serve_all late_env three_writes
     (snd (serve_all late_env [((\<lambda>_. False), demo_put (Some 3) None)] (worker_new demo_tables)))))) (InstallationId 1)) = Some v' \<and> 3 \<le> v'"
proof -
  let ?w = "snd (serve_all late_env [((\<lambda>_. False), demo_put (Some 3) None)] (worker_new demo_tables))"
  obtain tr w' where run: "serve_all late_env three_writes ?w = (tr, w')" by fastforce
  have "view_version (view_of (on_disk ?w) (InstallationId 1)) = Some 3"
    by (simp add: serve_eval late_env_def view_of_def on_disk_def durable_def)
  moreover have "list_all (\<lambda>e. \<not> removes (InstallationId 1) e) tr"
  proof -
    have "map fst tr = map snd three_writes"
      using arg_cong [OF run, of fst] by (auto simp: three_writes_def split_beta)
    then show ?thesis by (auto simp: three_writes_def Cons_eq_map_conv list_all_iff map_eq_Cons_conv)
  qed
  moreover have "key_ok (StorageKey ''a'')" "key_ok (StorageKey ''b'')" "key_ok (StorageKey ''c'')" by code_simp+
  ultimately show ?thesis
    using schema_version_monotone [OF _ _ refl run] run
    by (simp add: requests_ok_def demo_put_def demo_key_ok three_writes_def)
qed

text \<open>C25: What the storage acknowledges about configuration and secrets is on disk, and nothing else is. Provided
  that \<open>ROLLBACK\<close> works, whatever statements fail, also by ending a transaction, and whatever state
  transactions are begun and left in between: the configuration on disk is what the successful
  \<open>PutComponentConfig\<close> and \<open>RemoveInstallation\<close> commands make of it in their order, with a revision that
  counts the successful writes, and the same holds of every secret and its version with \<open>PutSecret\<close>,
  \<open>DeleteSecret\<close> and \<open>RemoveInstallation\<close>; a command that reports an error has changed neither.\<close>

theorem acknowledged_settings_on_disk:
  assumes "rollback_works env" "w = snd (serve_all env reqs0 (worker_new t))" "serve_all env reqs w = (tr, w')"
  shows "config_of (on_disk w') i = fold (ack_config i) tr (config_of (on_disk w) i) \<and>
    secret_of (on_disk w') i name = fold (ack_secret i name) tr (secret_of (on_disk w) i name)"
proof -
  have "settled (worker_new t)" by (simp add: settled_def worker_new_def on_disk_def)
  then have "settled w"
    using serve_all_settings [OF assms(1) _ prod.collapse [symmetric]] assms(2) by blast
  from serve_all_settings [OF assms(1) this assms(3)] show ?thesis
    by (simp add: settings_of_def fold_ack)
qed

text \<open>Two writes of the configuration, the second while a state transaction is open: it is refused.\<close>

definition config_writes :: "unit request list" where
  "config_writes = map (Pair (\<lambda>_. False))
     [PutComponentConfig (InstallationId 1) FormatRaw 1 [7],
      BeginStateTransaction (InstallationId 1) 3 Normal,
      PutComponentConfig (InstallationId 1) FormatRaw 1 [8],
      AbortStateTransaction 1]"

lemma acknowledged_settings_on_disk_witness:
  "config_of (on_disk (snd (serve_all demo_env config_writes (worker_new demo_tables)))) (InstallationId 1) =
     Some (''raw'', 1, 1, [7])"
proof -
  obtain tr w' where run: "serve_all demo_env config_writes (worker_new demo_tables) = (tr, w')" by fastforce
  have "tr = [(PutComponentConfig (InstallationId 1) FormatRaw 1 [7], Inr ComponentConfigSet),
      (BeginStateTransaction (InstallationId 1) 3 Normal, Inr (StateTransactionBegan 1)),
      (PutComponentConfig (InstallationId 1) FormatRaw 1 [8], Inl (SqliteError (SqliteContext ''begin component config transaction''))),
      (AbortStateTransaction 1, Inr StateAborted)]"
    using run by (simp add: config_writes_def serve_eval put_component_config_def CONFIG_VALUE_MAX_BYTES_def upsert_config_def
        abort_state_transaction_def rollback_sql_def sql_failed_def durable_def saturating_add_def)
  moreover have "rollback_works demo_env" by (simp add: rollback_works_def demo_env_def)
  moreover have "config_of (on_disk (worker_new demo_tables)) (InstallationId 1) = None"
    by (simp add: config_of_def on_disk_def worker_new_def demo_tables_def)
  ultimately show ?thesis
    using acknowledged_settings_on_disk [OF _ _ run, of "[]" demo_tables "InstallationId 1"] by (simp add: run)
qed

end
