(* ===== verification/Session.thy ===== *)
theory Session
  imports Digest "HOL-Library.AList"
begin

text \<open>
  Server-side sessions (\<open>crates/security/src/session.rs\<close>, \<open>token.rs\<close>, \<open>csrf.rs\<close>): bearer tokens and their
  digests, CSRF secrets, the session store port with its in-memory implementation, and the session
  manager.

  SHA-256, the base64 codec, the random generator and the range of the \<open>time\<close> crate's instants are
  parameters (\<open>session_env\<close>). Instants and durations are nanoseconds; the \<open>n\<close>-th draw of the generator
  gives 32 bytes or fails. The port is a record of operations on a state, its contract the locale
  \<open>session_store\<close>; a mutex serializes the calls of the in-memory store, so each call is one step. A validation makes two
  such calls, and other requests may come in between (\<open>act_step\<close>).
\<close>

section \<open>Tokens and secrets\<close>

datatype SessionToken = SessionToken (token_bytes: "u8 list")
datatype TokenDigest = TokenDigest (token_digest_bytes: "u8 list")
datatype CsrfSecret = CsrfSecret (csrf_bytes: "u8 list")

definition SESSION_TOKEN_BYTES :: nat where "SESSION_TOKEN_BYTES = 32"
definition CSRF_SECRET_BYTES :: nat where "CSRF_SECRET_BYTES = 32"

datatype TokenError = TokenRng | TokenEncoding | TokenLength nat nat
datatype CsrfError = CsrfRng | CsrfEncoding | CsrfLength nat nat | CsrfMismatch

record session_env =
  sha256 :: "u8 list \<Rightarrow> u8 list"
  b64_decode :: "string \<Rightarrow> u8 list option"
  b64_encode :: "u8 list \<Rightarrow> string"
  random_bytes :: "nat \<Rightarrow> u8 list option"
  time_add :: "int \<Rightarrow> int \<Rightarrow> int option"

text \<open>The state behind a session store, and the number of draws from the generator.\<close>

record 's realm =
  sessions :: 's
  draws :: nat

definition token_generate :: "session_env \<Rightarrow> 's realm \<Rightarrow> (TokenError + SessionToken) \<times> 's realm" where
  "token_generate env s =
     (case random_bytes env (draws s) of
        None \<Rightarrow> (Inl TokenRng, s\<lparr>draws := draws s + 1\<rparr>)
      | Some bytes \<Rightarrow> (Inr (SessionToken bytes), s\<lparr>draws := draws s + 1\<rparr>))"

definition token_from_url_safe :: "session_env \<Rightarrow> string \<Rightarrow> TokenError + SessionToken" where
  "token_from_url_safe env encoded =
     and_then (ok_or (b64_decode env encoded) TokenEncoding) (\<lambda>bytes.
       if length bytes = SESSION_TOKEN_BYTES then Inr (SessionToken bytes)
       else Inl (TokenLength SESSION_TOKEN_BYTES (length bytes)))"

definition token_to_url_safe :: "session_env \<Rightarrow> SessionToken \<Rightarrow> string" where
  "token_to_url_safe env t = b64_encode env (token_bytes t)"

definition token_digest :: "session_env \<Rightarrow> SessionToken \<Rightarrow> TokenDigest" where
  "token_digest env t = TokenDigest (sha256 env (token_bytes t))"

definition token_digest_hex :: "TokenDigest \<Rightarrow> string" where
  "token_digest_hex d = concat (map hex_byte (token_digest_bytes d))"

definition csrf_generate :: "session_env \<Rightarrow> 's realm \<Rightarrow> (CsrfError + CsrfSecret) \<times> 's realm" where
  "csrf_generate env s =
     (case random_bytes env (draws s) of
        None \<Rightarrow> (Inl CsrfRng, s\<lparr>draws := draws s + 1\<rparr>)
      | Some bytes \<Rightarrow> (Inr (CsrfSecret bytes), s\<lparr>draws := draws s + 1\<rparr>))"

definition csrf_from_url_safe :: "session_env \<Rightarrow> string \<Rightarrow> CsrfError + CsrfSecret" where
  "csrf_from_url_safe env encoded =
     and_then (ok_or (b64_decode env encoded) CsrfEncoding) (\<lambda>bytes.
       if length bytes = CSRF_SECRET_BYTES then Inr (CsrfSecret bytes)
       else Inl (CsrfLength CSRF_SECRET_BYTES (length bytes)))"

definition csrf_to_url_safe :: "session_env \<Rightarrow> CsrfSecret \<Rightarrow> string" where
  "csrf_to_url_safe env c = b64_encode env (csrf_bytes c)"

definition csrf_verify :: "session_env \<Rightarrow> CsrfSecret \<Rightarrow> string \<Rightarrow> CsrfError + unit" where
  "csrf_verify env c presented =
     and_then (ok_or (b64_decode env presented) CsrfEncoding) (\<lambda>bytes.
       if length bytes \<noteq> CSRF_SECRET_BYTES then Inl (CsrfLength CSRF_SECRET_BYTES (length bytes))
       else if csrf_bytes c = bytes then Inr () else Inl CsrfMismatch)"

lemma csrf_verify_Inr:
  "csrf_verify env c presented = Inr u \<longleftrightarrow>
     b64_decode env presented = Some (csrf_bytes c) \<and> length (csrf_bytes c) = CSRF_SECRET_BYTES"
  by (auto simp: csrf_verify_def result_simps split: if_splits)

section \<open>Policy, records, store\<close>

record SessionPolicy =
  absolute_lifetime :: int
  idle_timeout :: int

datatype ExpiryReason = AbsoluteExpiry | IdleExpiry

fun expiry_display :: "ExpiryReason \<Rightarrow> string" where
  "expiry_display AbsoluteExpiry = ''absolute expiry''"
| "expiry_display IdleExpiry = ''idle expiry''"

datatype SessionError =
    InvalidPolicy int int
  | UnknownSession
  | ExpiredSession ExpiryReason
  | SessionTimeOverflow
  | TokenFailure TokenError
  | CsrfFailure CsrfError

definition nanos_per_minute :: int where "nanos_per_minute = 60 * 10 ^ 9"

definition policy_DEFAULT :: SessionPolicy where
  "policy_DEFAULT = \<lparr>absolute_lifetime = 12 * 60 * nanos_per_minute, idle_timeout = 30 * nanos_per_minute\<rparr>"

definition SessionPolicy_new :: "int \<Rightarrow> int \<Rightarrow> SessionError + SessionPolicy" where
  "SessionPolicy_new absolute idle =
     (if absolute \<le> 0 \<or> idle \<le> 0 then Inl (InvalidPolicy absolute idle)
      else Inr \<lparr>absolute_lifetime = absolute, idle_timeout = idle\<rparr>)"

record SessionRecord =
  record_digest :: TokenDigest
  record_subject :: string
  csrf_secret :: CsrfSecret
  opened_at :: int
  last_used_at :: int

definition SessionRecord_new :: "TokenDigest \<Rightarrow> string \<Rightarrow> CsrfSecret \<Rightarrow> int \<Rightarrow> int \<Rightarrow> SessionRecord" where
  "SessionRecord_new d subj c created used =
     \<lparr>record_digest = d, record_subject = subj, csrf_secret = c, opened_at = created, last_used_at = used\<rparr>"

definition touch :: "int \<Rightarrow> SessionRecord \<Rightarrow> SessionRecord" where
  "touch now r = r\<lparr>last_used_at := now\<rparr>"

record 's SessionStore =
  store_get :: "TokenDigest \<Rightarrow> 's \<Rightarrow> SessionRecord option"
  store_insert :: "SessionRecord \<Rightarrow> 's \<Rightarrow> 's"
  store_remove :: "TokenDigest \<Rightarrow> 's \<Rightarrow> bool \<times> 's"
  store_remove_all :: "string \<Rightarrow> 's \<Rightarrow> nat \<times> 's"

text \<open>The in-memory store: a map from digests to records.\<close>

type_synonym InMemorySessionStore = "(TokenDigest \<times> SessionRecord) list"

definition memory_get :: "TokenDigest \<Rightarrow> InMemorySessionStore \<Rightarrow> SessionRecord option" where
  "memory_get d m = map_of m d"

definition memory_insert :: "SessionRecord \<Rightarrow> InMemorySessionStore \<Rightarrow> InMemorySessionStore" where
  "memory_insert r m = AList.update (record_digest r) r m"

definition memory_remove :: "TokenDigest \<Rightarrow> InMemorySessionStore \<Rightarrow> bool \<times> InMemorySessionStore" where
  "memory_remove d m = (map_of m d \<noteq> None, AList.delete d m)"

definition memory_remove_all :: "string \<Rightarrow> InMemorySessionStore \<Rightarrow> nat \<times> InMemorySessionStore" where
  "memory_remove_all subj m =
     (let m' = filter (\<lambda>(d, r). record_subject r \<noteq> subj) m in (length m - length m', m'))"

definition memory_store :: "InMemorySessionStore SessionStore" where
  "memory_store = \<lparr>store_get = memory_get, store_insert = memory_insert, store_remove = memory_remove,
     store_remove_all = memory_remove_all\<rparr>"

section \<open>The manager\<close>

record IssuedSession =
  issued_token :: SessionToken
  issued_record :: SessionRecord

definition on_sessions :: "('s \<Rightarrow> 'a \<times> 's) \<Rightarrow> 's realm \<Rightarrow> 'a \<times> 's realm" where
  "on_sessions f s = (case f (sessions s) of (x, st) \<Rightarrow> (x, s\<lparr>sessions := st\<rparr>))"

definition session_create ::
  "session_env \<Rightarrow> 's SessionStore \<Rightarrow> string \<Rightarrow> int \<Rightarrow> 's realm \<Rightarrow> (SessionError + IssuedSession) \<times> 's realm" where
  "session_create env st subj now s =
     step_then (apfst (map_err TokenFailure) (token_generate env s)) (\<lambda>token s.
     step_then (apfst (map_err CsrfFailure) (csrf_generate env s)) (\<lambda>csrf s.
     let r = SessionRecord_new (token_digest env token) subj csrf now now in
     (Inr \<lparr>issued_token = token, issued_record = r\<rparr>, s\<lparr>sessions := store_insert st r (sessions s)\<rparr>)))"

text \<open>\<open>validate\<close> reads the record and then, by what was read, removes or writes it.\<close>

definition validate_write ::
  "session_env \<Rightarrow> 's SessionStore \<Rightarrow> SessionPolicy \<Rightarrow> SessionToken \<Rightarrow> int \<Rightarrow> SessionRecord option \<Rightarrow> 's realm \<Rightarrow>
    (SessionError + SessionRecord) \<times> 's realm" where
  "validate_write env st policy token now found s =
     (case found of
        None \<Rightarrow> (Inl UnknownSession, s)
      | Some r \<Rightarrow>
          (case time_add env (opened_at r) (absolute_lifetime policy) of
             None \<Rightarrow> (Inl SessionTimeOverflow, s)
           | Some absolute_expiry \<Rightarrow>
               if absolute_expiry \<le> now
               then (Inl (ExpiredSession AbsoluteExpiry), snd (on_sessions (store_remove st (token_digest env token)) s))
               else
                 (case time_add env (last_used_at r) (idle_timeout policy) of
                    None \<Rightarrow> (Inl SessionTimeOverflow, s)
                  | Some idle_cutoff \<Rightarrow>
                      if idle_cutoff \<le> now
                      then (Inl (ExpiredSession IdleExpiry), snd (on_sessions (store_remove st (token_digest env token)) s))
                      else (Inr (touch now r), s\<lparr>sessions := store_insert st (touch now r) (sessions s)\<rparr>))))"

definition session_validate ::
  "session_env \<Rightarrow> 's SessionStore \<Rightarrow> SessionPolicy \<Rightarrow> SessionToken \<Rightarrow> int \<Rightarrow> 's realm \<Rightarrow>
    (SessionError + SessionRecord) \<times> 's realm" where
  "session_validate env st policy token now s =
     validate_write env st policy token now (store_get st (token_digest env token) (sessions s)) s"

definition session_rotate ::
  "session_env \<Rightarrow> 's SessionStore \<Rightarrow> SessionToken option \<Rightarrow> string \<Rightarrow> int \<Rightarrow> 's realm \<Rightarrow>
    (SessionError + IssuedSession) \<times> 's realm" where
  "session_rotate env st previous subj now s =
     session_create env st subj now
       (case previous of
          None \<Rightarrow> s
        | Some t \<Rightarrow> snd (on_sessions (store_remove st (token_digest env t)) s))"

definition session_revoke :: "session_env \<Rightarrow> 's SessionStore \<Rightarrow> SessionToken \<Rightarrow> 's realm \<Rightarrow> bool \<times> 's realm" where
  "session_revoke env st token s = on_sessions (store_remove st (token_digest env token)) s"

definition revoke_all_for_subject :: "'s SessionStore \<Rightarrow> string \<Rightarrow> 's realm \<Rightarrow> nat \<times> 's realm" where
  "revoke_all_for_subject st subj s = on_sessions (store_remove_all st subj) s"

section \<open>The contract of a store\<close>

locale session_store =
  fixes st :: "'s SessionStore" and inv :: "'s \<Rightarrow> bool" and records :: "'s \<Rightarrow> TokenDigest \<rightharpoonup> SessionRecord"
  assumes get_law: "inv s \<Longrightarrow> store_get st d s = records s d"
    and insert_law: "inv s \<Longrightarrow> inv (store_insert st r s) \<and> records (store_insert st r s) = (records s)(record_digest r \<mapsto> r)"
    and remove_law: "inv s \<Longrightarrow> store_remove st d s = (b, s') \<Longrightarrow>
      inv s' \<and> records s' = (records s)(d := None) \<and> (b \<longleftrightarrow> records s d \<noteq> None)"
    and remove_all_law: "inv s \<Longrightarrow> store_remove_all st subj s = (n, s') \<Longrightarrow>
      inv s' \<and> (\<forall>d. records s' d = (case records s d of Some r \<Rightarrow> if record_subject r = subj then None else Some r | None \<Rightarrow> None)) \<and>
      n = card {d. \<exists>r. records s d = Some r \<and> record_subject r = subj}"
    and keyed_law: "inv s \<Longrightarrow> records s d = Some r \<Longrightarrow> record_digest r = d"

text \<open>A record that is neither past its absolute nor past its idle expiry.\<close>

definition live :: "session_env \<Rightarrow> SessionPolicy \<Rightarrow> int \<Rightarrow> SessionRecord \<Rightarrow> bool" where
  "live env policy now r \<longleftrightarrow>
     (case (time_add env (opened_at r) (absolute_lifetime policy), time_add env (last_used_at r) (idle_timeout policy)) of
        (Some a, Some b) \<Rightarrow> now < a \<and> now < b
      | _ \<Rightarrow> False)"

lemma touch_simps [simp]:
  "record_digest (touch now r) = record_digest r" "record_subject (touch now r) = record_subject r"
  "csrf_secret (touch now r) = csrf_secret r" "opened_at (touch now r) = opened_at r" "last_used_at (touch now r) = now"
  by (simp_all add: touch_def)

text \<open>Requests to the manager, and what it answers.\<close>

datatype session_op =
    Create string int
  | Validate SessionToken int
  | Rotate "SessionToken option" string int
  | Revoke SessionToken
  | Revoke_all string

datatype session_event =
    Issued SessionRecord
  | Validated SessionRecord
  | Session_refused SessionError
  | Revoked bool
  | Revoked_count nat

definition issue_event :: "SessionError + IssuedSession \<Rightarrow> session_event" where
  "issue_event r = (case r of Inr i \<Rightarrow> Issued (issued_record i) | Inl e \<Rightarrow> Session_refused e)"

fun session_step ::
  "session_env \<Rightarrow> 's SessionStore \<Rightarrow> SessionPolicy \<Rightarrow> session_op \<Rightarrow> 's realm \<Rightarrow> session_event \<times> 's realm" where
  "session_step env st p (Create subj now) s = apfst issue_event (session_create env st subj now s)"
| "session_step env st p (Validate t now) s =
     (case session_validate env st p t now s of
        (Inr r, s) \<Rightarrow> (Validated r, s) | (Inl e, s) \<Rightarrow> (Session_refused e, s))"
| "session_step env st p (Rotate prev subj now) s = apfst issue_event (session_rotate env st prev subj now s)"
| "session_step env st p (Revoke t) s = apfst Revoked (session_revoke env st t s)"
| "session_step env st p (Revoke_all subj) s = apfst Revoked_count (revoke_all_for_subject st subj s)"

fun session_run ::
  "session_env \<Rightarrow> 's SessionStore \<Rightarrow> SessionPolicy \<Rightarrow> session_op list \<Rightarrow> 's realm \<Rightarrow> session_event list \<times> 's realm" where
  "session_run env st p [] s = ([], s)"
| "session_run env st p (x # xs) s =
     (let (e, s) = session_step env st p x s; (es, s) = session_run env st p xs s in (e # es, s))"

lemma session_run_append:
  "session_run env st p (xs @ ys) s =
     (let (es, s) = session_run env st p xs s; (fs, s) = session_run env st p ys s in (es @ fs, s))"
  by (induction xs arbitrary: s) (auto simp: split_beta Let_def)

context session_store
begin

abbreviation rec :: "'s realm \<Rightarrow> TokenDigest \<rightharpoonup> SessionRecord" where
  "rec s \<equiv> records (sessions s)"

abbreviation ok :: "'s realm \<Rightarrow> bool" where
  "ok s \<equiv> inv (sessions s)"

lemma generate_sessions:
  "token_generate env s = (q, s') \<Longrightarrow> sessions s' = sessions s"
  "csrf_generate env s = (r, s') \<Longrightarrow> sessions s' = sessions s"
  by (auto simp: token_generate_def csrf_generate_def split: option.splits)

lemma create_spec:
  assumes "ok s" "session_create env st subj now s = (r, s')"
  shows "ok s' \<and> (case r of
      Inr i \<Rightarrow> record_subject (issued_record i) = subj \<and> opened_at (issued_record i) = now \<and>
        last_used_at (issued_record i) = now \<and> record_digest (issued_record i) = token_digest env (issued_token i) \<and>
        rec s' = (rec s)(record_digest (issued_record i) \<mapsto> issued_record i)
    | Inl e \<Rightarrow> rec s' = rec s)"
proof -
  obtain q t where g: "token_generate env s = (q, t)" by fastforce
  obtain c u where h: "csrf_generate env t = (c, u)" by fastforce
  from assms g h generate_sessions(1) [OF g] generate_sessions(2) [OF h] insert_law [of "sessions u"] show ?thesis
    by (cases q; cases c) (auto simp: session_create_def SessionRecord_new_def Let_def)
qed

lemma remove_spec:
  assumes "ok s" "on_sessions (store_remove st d) s = (b, s')"
  shows "ok s' \<and> rec s' = (rec s)(d := None) \<and> (b \<longleftrightarrow> rec s d \<noteq> None)"
  using assms remove_law [OF assms(1), of d] by (auto simp: on_sessions_def split: prod.splits)

lemma revoke_all_spec:
  assumes "ok s" "revoke_all_for_subject st subj s = (n, s')"
  shows "ok s' \<and> (\<forall>d. rec s' d = (case rec s d of Some r \<Rightarrow> if record_subject r = subj then None else Some r | None \<Rightarrow> None)) \<and>
    n = card {d. \<exists>r. rec s d = Some r \<and> record_subject r = subj}"
  using assms remove_all_law [OF assms(1), of subj] by (auto simp: revoke_all_for_subject_def on_sessions_def split: prod.splits)

lemma validate_spec:
  assumes "ok s" "session_validate env st p t now s = (r, s')"
  shows "ok s' \<and> (case r of
      Inr x \<Rightarrow> (\<exists>y. rec s (token_digest env t) = Some y \<and> live env p now y \<and> x = touch now y) \<and>
        rec s' = (rec s)(token_digest env t \<mapsto> x)
    | Inl e \<Rightarrow> (case rec s (token_digest env t) of
          None \<Rightarrow> e = UnknownSession
        | Some y \<Rightarrow> \<not> live env p now y \<and> (e = SessionTimeOverflow \<or> (\<exists>x. e = ExpiredSession x))) \<and>
        rec s' = (if \<exists>x. e = ExpiredSession x then (rec s)(token_digest env t := None) else rec s))"
proof (cases "rec s (token_digest env t)")
  case None
  with assms get_law [OF assms(1)] show ?thesis by (auto simp: session_validate_def validate_write_def)
next
  case (Some y)
  let ?d = "token_digest env t"
  have key: "record_digest y = ?d" using keyed_law [OF assms(1) Some] .
  obtain b u where rm: "on_sessions (store_remove st ?d) s = (b, u)" by fastforce
  note rs = remove_spec [OF assms(1) rm]
  have ins: "ok (s\<lparr>sessions := store_insert st (touch now y) (sessions s)\<rparr>)"
    "rec (s\<lparr>sessions := store_insert st (touch now y) (sessions s)\<rparr>) = (rec s)(?d \<mapsto> touch now y)"
    using insert_law [OF assms(1), of "touch now y"] key by simp_all
  have v: "validate_write env st p t now (Some y) s = (r, s')"
    using assms(2) get_law [OF assms(1)] Some by (simp add: session_validate_def)
  show ?thesis
    using v rs ins assms(1) Some rm
    by (auto simp: validate_write_def live_def split: option.splits if_splits)
qed

end

text \<open>The same session: only the time of its last use differs.\<close>

definition same_session :: "SessionRecord \<Rightarrow> SessionRecord \<Rightarrow> bool" where
  "same_session a b \<longleftrightarrow> record_digest a = record_digest b \<and> record_subject a = record_subject b \<and>
     csrf_secret a = csrf_secret b \<and> opened_at a = opened_at b"

lemma same_session_refl [simp]: "same_session a a"
  by (simp add: same_session_def)

lemma same_session_touch [simp]: "same_session a (touch now b) = same_session a b"
  by (simp add: same_session_def)

lemma same_session_trans: "same_session a b \<Longrightarrow> same_session b c \<Longrightarrow> same_session a c"
  by (simp add: same_session_def)

context session_store
begin

text \<open>Every record after a step was there before, up to its last use, or was just issued.\<close>

lemma step_origin:
  assumes "ok s" "session_step env st p x s = (e, s')"
  shows "ok s' \<and> (\<forall>d r. rec s' d = Some r \<longrightarrow> (\<exists>y. rec s d = Some y \<and> same_session y r) \<or> e = Issued r \<and> record_digest r = d)"
proof (cases x)
  case (Create subj now)
  obtain q t where c: "session_create env st subj now s = (q, t)" by fastforce
  from create_spec [OF assms(1) c] c assms(2) Create show ?thesis
    by (cases q) (auto simp: issue_event_def fun_upd_def split: if_splits)
next
  case (Validate tk now)
  obtain q t where v: "session_validate env st p tk now s = (q, t)" by fastforce
  from validate_spec [OF assms(1) v] v assms(2) Validate show ?thesis
    by (cases q) (auto simp: fun_upd_def split: if_splits)
next
  case (Rotate prev subj now)
  define u where "u = (case prev of None \<Rightarrow> s | Some t \<Rightarrow> snd (on_sessions (store_remove st (token_digest env t)) s))"
  have u: "ok u \<and> (\<forall>d r. rec u d = Some r \<longrightarrow> rec s d = Some r)"
  proof (cases prev)
    case (Some t)
    obtain b v where "on_sessions (store_remove st (token_digest env t)) s = (b, v)" by fastforce
    with remove_spec [OF assms(1) this] Some show ?thesis by (auto simp: u_def fun_upd_def split: if_splits)
  qed (use assms(1) u_def in simp)
  obtain q t where c: "session_create env st subj now u = (q, t)" by fastforce
  from create_spec [OF _ c] u c assms(2) Rotate show ?thesis
    by (cases q) (auto simp: issue_event_def session_rotate_def u_def [symmetric] fun_upd_def split: if_splits)
next
  case (Revoke t)
  obtain b v where "on_sessions (store_remove st (token_digest env t)) s = (b, v)" by fastforce
  with remove_spec [OF assms(1) this] assms(2) Revoke show ?thesis
    by (auto simp: session_revoke_def fun_upd_def split: if_splits)
next
  case (Revoke_all subj)
  obtain n v where r: "revoke_all_for_subject st subj s = (n, v)" by fastforce
  from revoke_all_spec [OF assms(1) r] r assms(2) Revoke_all show ?thesis
    by (auto split: option.splits if_splits)
qed

lemma run_origin:
  assumes "ok s" "session_run env st p xs s = (es, s')"
  shows "ok s' \<and> (\<forall>d r. rec s' d = Some r \<longrightarrow> (\<exists>y. rec s d = Some y \<and> same_session y r) \<or>
    (\<exists>y. Issued y \<in> set es \<and> record_digest y = d \<and> same_session y r))"
  using assms
proof (induction xs arbitrary: s es)
  case Nil
  then show ?case by auto
next
  case (Cons x xs)
  obtain e t where x: "session_step env st p x s = (e, t)" by fastforce
  obtain fs u where xs: "session_run env st p xs t = (fs, u)" by fastforce
  from Cons.prems(2) x xs have es: "es = e # fs" "u = s'" by simp_all
  note so = step_origin [OF Cons.prems(1) x]
  have ih: "ok s'" "\<And>d r. rec s' d = Some r \<Longrightarrow> (\<exists>y. rec t d = Some y \<and> same_session y r) \<or>
      (\<exists>y. Issued y \<in> set fs \<and> record_digest y = d \<and> same_session y r)"
    using Cons.IH [of t fs] so xs es by blast+
  have "(\<exists>y. rec s d = Some y \<and> same_session y r) \<or> (\<exists>y. Issued y \<in> set es \<and> record_digest y = d \<and> same_session y r)"
    if r: "rec s' d = Some r" for d r
    using ih(2) [OF r]
  proof
    assume "\<exists>y. rec t d = Some y \<and> same_session y r"
    then obtain y where y: "rec t d = Some y" "same_session y r" by blast
    from so y(1) consider z where "rec s d = Some z" "same_session z y" | "e = Issued y" "record_digest y = d" by blast
    then show ?thesis using y(2) es(1) by cases (auto intro: same_session_trans)
  qed (use es(1) in auto)
  with ih(1) show ?case by blast
qed

end

section \<open>The in-memory store keeps the contract\<close>

definition memory_inv :: "InMemorySessionStore \<Rightarrow> bool" where
  "memory_inv m \<longleftrightarrow> distinct (map fst m) \<and> (\<forall>d r. map_of m d = Some r \<longrightarrow> record_digest r = d)"

lemma memory_remove_all_count:
  assumes "distinct (map fst m)"
  shows "length m - length (filter (\<lambda>(d, r). record_subject r \<noteq> subj) m) =
    card {d. \<exists>r. map_of m d = Some r \<and> record_subject r = subj}"
proof -
  let ?hit = "filter (\<lambda>(d, r). record_subject r = subj) m"
  have "{d. \<exists>r. map_of m d = Some r \<and> record_subject r = subj} = set (map fst ?hit)"
    unfolding map_of_eq_Some_iff [OF assms] by force
  moreover have "distinct (map fst ?hit)" using assms by (rule distinct_map_filter)
  moreover have "length m = length ?hit + length (filter (\<lambda>(d, r). record_subject r \<noteq> subj) m)"
    by (induction m) auto
  ultimately show ?thesis using distinct_card [of "map fst ?hit"] by simp
qed

lemma map_of_filter_subject:
  "distinct (map fst m) \<Longrightarrow> map_of (filter (\<lambda>(d, r). record_subject r \<noteq> subj) m) d =
     (case map_of m d of Some r \<Rightarrow> if record_subject r = subj then None else Some r | None \<Rightarrow> None)"
  by (induction m) (auto simp: map_of_eq_None_iff split: option.splits)

interpretation memory: session_store memory_store memory_inv map_of
proof
  fix m :: InMemorySessionStore and r :: SessionRecord and d :: TokenDigest and b and m' and subj :: string and n
  show "store_get memory_store d m = map_of m d" by (simp add: memory_store_def memory_get_def)
  assume inv: "memory_inv m"
  show "memory_inv (store_insert memory_store r m) \<and> map_of (store_insert memory_store r m) = (map_of m)(record_digest r \<mapsto> r)"
    using inv by (auto simp: memory_store_def memory_insert_def memory_inv_def distinct_update update_conv')
  show "map_of m d = Some r \<Longrightarrow> record_digest r = d"
    using inv by (simp add: memory_inv_def)
  show "memory_inv m' \<and> map_of m' = (map_of m)(d := None) \<and> (b \<longleftrightarrow> map_of m d \<noteq> None)"
    if "store_remove memory_store d m = (b, m')"
    using inv that by (auto simp: memory_store_def memory_remove_def memory_inv_def distinct_delete delete_conv' split: if_splits)
  show "memory_inv m' \<and> (\<forall>d. map_of m' d = (case map_of m d of Some r \<Rightarrow> if record_subject r = subj then None else Some r
      | None \<Rightarrow> None)) \<and> n = card {d. \<exists>r. map_of m d = Some r \<and> record_subject r = subj}"
    if "store_remove_all memory_store subj m = (n, m')"
    using inv that memory_remove_all_count [of m subj] map_of_filter_subject [of m subj]
    by (auto simp: memory_store_def memory_remove_all_def memory_inv_def Let_def distinct_map_filter
        split: option.splits if_splits)
qed

section \<open>Overlapping requests\<close>

text \<open>
  Requests that overlap: a validation is two accesses to the store, so others may come in between. The
  validations that have read and not yet written are \<open>in_flight\<close>, with the token, the time and the
  record they found.
\<close>

type_synonym in_flight = "nat \<rightharpoonup> SessionToken \<times> int \<times> SessionRecord option"

datatype session_act = Request session_op | Read_record nat SessionToken int | Write_record nat

fun act_step ::
  "session_env \<Rightarrow> 's SessionStore \<Rightarrow> SessionPolicy \<Rightarrow> session_act \<Rightarrow> 's realm \<times> in_flight \<Rightarrow>
    session_event list \<times> 's realm \<times> in_flight" where
  "act_step env st p (Request x) (s, fl) = (case session_step env st p x s of (e, s) \<Rightarrow> ([e], s, fl))"
| "act_step env st p (Read_record k t now) (s, fl) =
     ([], s, fl(k \<mapsto> (t, now, store_get st (token_digest env t) (sessions s))))"
| "act_step env st p (Write_record k) (s, fl) =
     (case fl k of
        None \<Rightarrow> ([], s, fl)
      | Some (t, now, found) \<Rightarrow>
          (case validate_write env st p t now found s of
             (Inr r, s) \<Rightarrow> ([Validated r], s, fl(k := None))
           | (Inl e, s) \<Rightarrow> ([Session_refused e], s, fl(k := None))))"

fun act_run ::
  "session_env \<Rightarrow> 's SessionStore \<Rightarrow> SessionPolicy \<Rightarrow> session_act list \<Rightarrow> 's realm \<times> in_flight \<Rightarrow>
    session_event list \<times> 's realm \<times> in_flight" where
  "act_run env st p [] c = ([], c)"
| "act_run env st p (x # xs) c =
     (let (es, c) = act_step env st p x c; (fs, c) = act_run env st p xs c in (es @ fs, c))"

text \<open>A validation in flight holds a record of its own token.\<close>

definition flight_ok :: "session_env \<Rightarrow> in_flight \<Rightarrow> bool" where
  "flight_ok env fl \<longleftrightarrow> (\<forall>k t now r. fl k = Some (t, now, Some r) \<longrightarrow> record_digest r = token_digest env t)"

definition flying :: "in_flight \<Rightarrow> SessionRecord \<Rightarrow> bool" where
  "flying fl r \<longleftrightarrow> (\<exists>k t now z. fl k = Some (t, now, Some z) \<and> same_session z r)"

context session_store
begin

text \<open>Where a record of the store, or one in flight, comes from.\<close>

definition descends :: "'s realm \<times> in_flight \<Rightarrow> session_event list \<Rightarrow> SessionRecord \<Rightarrow> bool" where
  "descends c es r \<longleftrightarrow>
     (\<exists>y. rec (fst c) (record_digest r) = Some y \<and> same_session y r) \<or>
     (\<exists>y. Issued y \<in> set es \<and> same_session y r) \<or> flying (snd c) r"

lemma validate_write_spec:
  assumes "ok s" "validate_write env st p t now found s = (q, s')"
    and "\<And>y. found = Some y \<Longrightarrow> record_digest y = token_digest env t"
  shows "ok s'" and "rec s' d = Some r \<Longrightarrow> rec s d = Some r \<or>
    (\<exists>y. found = Some y \<and> r = touch now y \<and> d = token_digest env t)"
proof -
  obtain b u where rm: "on_sessions (store_remove st (token_digest env t)) s = (b, u)" by fastforce
  note rs = remove_spec [OF assms(1) rm]
  show "ok s'"
    using assms rs rm insert_law [OF assms(1)]
    by (auto simp: validate_write_def split: option.splits if_splits)
  show "rec s' d = Some r \<Longrightarrow> rec s d = Some r \<or> (\<exists>y. found = Some y \<and> r = touch now y \<and> d = token_digest env t)"
    using assms rs rm insert_law [OF assms(1)]
    by (auto simp: validate_write_def fun_upd_def split: option.splits if_splits)
qed

lemma act_step_origin:
  assumes "ok (fst c)" "flight_ok env (snd c)" "act_step env st p x c = (es, c')"
  shows "ok (fst c') \<and> flight_ok env (snd c') \<and>
    (\<forall>r. descends c' [] r \<longrightarrow> descends c es r)"
proof -
  obtain s fl where c: "c = (s, fl)" by fastforce
  show ?thesis
  proof (cases x)
    case (Request op)
    obtain e s' where st: "session_step env st p op s = (e, s')" by fastforce
    with assms(3) Request c have c': "c' = (s', fl)" "es = [e]" by auto
    from step_origin [OF _ st] assms(1) c have so: "ok s'"
      "\<And>d r. rec s' d = Some r \<Longrightarrow> (\<exists>y. rec s d = Some y \<and> same_session y r) \<or> e = Issued r \<and> record_digest r = d"
      by auto
    have "descends c es r" if r: "descends c' [] r" for r
    proof (cases "flying fl r")
      case False
      with r c' obtain y where y: "rec s' (record_digest r) = Some y" "same_session y r" by (auto simp: descends_def)
      from so(2) [OF y(1)] y(2) c' c show ?thesis
        by (auto simp: descends_def intro: same_session_trans)
    qed (simp add: descends_def c)
    with so(1) assms(2) c c' show ?thesis by simp
  next
    case (Read_record k t now)
    let ?f = "store_get st (token_digest env t) (sessions s)"
    from assms(3) Read_record c have c': "c' = (s, fl(k \<mapsto> (t, now, ?f)))" "es = []" by auto
    have f: "?f = rec s (token_digest env t)" using get_law [of "sessions s"] assms(1) c by simp
    have key: "record_digest z = token_digest env t" if "?f = Some z" for z
      using keyed_law [of "sessions s"] assms(1) c that f by simp
    have "flying fl r \<or> (\<exists>y. rec s (record_digest r) = Some y \<and> same_session y r)" if "flying (fl(k \<mapsto> (t, now, ?f))) r" for r
      using that f key unfolding flying_def by (auto split: if_splits simp: same_session_def)
    then have "\<forall>r. descends c' [] r \<longrightarrow> descends c es r" using c c' by (auto simp: descends_def)
    moreover have "flight_ok env (snd c')" using assms(2) c c' key by (auto simp: flight_ok_def)
    ultimately show ?thesis using assms(1) c c' by simp
  next
    case (Write_record k)
    show ?thesis
    proof (cases "fl k")
      case None
      with assms Write_record c show ?thesis by auto
    next
      case (Some v)
      obtain t now found where v: "fl k = Some (t, now, found)" using Some by (cases v) auto
      obtain q s' where w: "validate_write env st p t now found s = (q, s')" by fastforce
      with assms(3) Write_record c v have c': "c' = (s', fl(k := None))" "\<forall>y. Issued y \<notin> set es"
        by (auto split: sum.splits)
      have key: "record_digest y = token_digest env t" if "found = Some y" for y
        using assms(2) v that c unfolding flight_ok_def by auto
      note vw = validate_write_spec [OF _ w key]
      have fl: "flying (fl(k := None)) r \<Longrightarrow> flying fl r" for r unfolding flying_def by (auto split: if_splits)
      have "descends c es r" if r: "descends c' [] r" for r
      proof (cases "flying fl r")
        case False
        with r c' fl obtain y where y: "rec s' (record_digest r) = Some y" "same_session y r" by (auto simp: descends_def)
        from vw(2) [OF _ _ y(1)] assms(1) c
        have "rec s (record_digest r) = Some y \<or> (\<exists>z. found = Some z \<and> y = touch now z)" by auto
        then show ?thesis
        proof
          assume "\<exists>z. found = Some z \<and> y = touch now z"
          then obtain z where z: "fl k = Some (t, now, Some z)" "y = touch now z" using v by blast
          with y(2) have "same_session z r" by (simp add: same_session_def)
          with z(1) have "flying fl r" unfolding flying_def by blast
          with False show ?thesis by blast
        qed (use y(2) c in \<open>auto simp: descends_def\<close>)
      qed (simp add: descends_def c)
      moreover have "flight_ok env (fl(k := None))" using assms(2) c by (auto simp: flight_ok_def)
      ultimately show ?thesis using vw(1) assms(1) c c' by auto
    qed
  qed
qed

lemma act_run_origin:
  assumes "ok (fst c)" "flight_ok env (snd c)" "act_run env st p xs c = (es, c')"
  shows "ok (fst c') \<and> flight_ok env (snd c') \<and> (\<forall>r. descends c' [] r \<longrightarrow> descends c es r)"
  using assms
proof (induction xs arbitrary: c es)
  case (Cons x xs)
  obtain es1 c1 where x: "act_step env st p x c = (es1, c1)" by (cases "act_step env st p x c")
  obtain es2 c2 where xs: "act_run env st p xs c1 = (es2, c2)" by (cases "act_run env st p xs c1")
  from Cons.prems(3) x xs have es: "es = es1 @ es2" "c2 = c'" by auto
  note so = act_step_origin [OF Cons.prems(1,2) x]
  with Cons.IH [of c1 es2] xs es have ih: "ok (fst c')" "flight_ok env (snd c')"
    "\<forall>r. descends c' [] r \<longrightarrow> descends c1 es2 r" by auto
  have "descends c es r" if "descends c1 es2 r" for r
  proof (cases "\<exists>y. Issued y \<in> set es2 \<and> same_session y r")
    case False
    with that have "descends c1 [] r" by (auto simp: descends_def)
    with so have "descends c es1 r" by blast
    with es show ?thesis by (auto simp: descends_def)
  qed (use es in \<open>auto simp: descends_def\<close>)
  with ih show ?case by blast
qed auto

end

text \<open>
  \<open>validate\<close> reads the record and writes it back without holding the store in between: a session revoked
  between the two is in the store again, and its token is accepted.
\<close>

lemma validate_race_resurrects:
  assumes "memory_inv (sessions s)" "memory_get (token_digest env t) (sessions s) = Some r" "live env p now r"
    and "session_revoke env memory_store t s = (b, s1)"
    and "validate_write env memory_store p t now (memory_get (token_digest env t) (sessions s)) s1 = (v, s2)"
  shows "b \<and> memory_get (token_digest env t) (sessions s1) = None \<and> v = Inr (touch now r) \<and>
    memory_get (token_digest env t) (sessions s2) = Some (touch now r)"
proof -
  have r: "map_of (sessions s) (token_digest env t) = Some r" using assms(2) by (simp add: memory_get_def)
  then have d: "record_digest r = token_digest env t" using assms(1) by (simp add: memory_inv_def)
  from memory.remove_spec [OF assms(1), of "token_digest env t"] assms(4) r
  have s1: "memory_inv (sessions s1)" "map_of (sessions s1) (token_digest env t) = None" b
    by (auto simp: session_revoke_def)
  from memory.insert_law [OF s1(1), of "touch now r"] assms(2,3,5) s1 d show ?thesis
    by (auto simp: validate_write_def live_def memory_get_def split: option.splits)
qed

section \<open>Properties\<close>

definition realm_new :: "InMemorySessionStore realm" where
  "realm_new = \<lparr>sessions = [], draws = 0\<rparr>"

lemma realm_new_inv: "memory_inv (sessions realm_new)"
  by (simp add: realm_new_def memory_inv_def)

text \<open>C27: A token is accepted exactly when the store holds a record for its digest that is past neither of
  its two expiries; then the time of the last use is the only thing that changes in the store. A record
  that has expired is removed, and every other refusal changes nothing.\<close>

theorem session_validate_exact:
  assumes "memory_inv (sessions s)" "session_validate env memory_store p t now s = (r, s')"
  shows "(case memory_get (token_digest env t) (sessions s) of
      None \<Rightarrow> r = Inl UnknownSession
    | Some y \<Rightarrow> if live env p now y then r = Inr (touch now y)
        else r = Inl SessionTimeOverflow \<or> (\<exists>x. r = Inl (ExpiredSession x))) \<and>
    (\<forall>d. memory_get d (sessions s') =
      (if d = token_digest env t \<and> is_ok r then map_option (touch now) (memory_get d (sessions s))
       else if d = token_digest env t \<and> (\<exists>x. r = Inl (ExpiredSession x)) then None
       else memory_get d (sessions s)))"
proof -
  note v = memory.validate_spec [OF assms]
  show ?thesis
  proof (cases r)
    case (Inl e)
    with v show ?thesis by (auto simp: memory_get_def split: option.splits)
  next
    case (Inr x)
    with v show ?thesis by (auto simp: memory_get_def)
  qed
qed

text \<open>C28: Wherever requests to the manager lead from an empty store, however they overlap, a token that is
  accepted belongs to a session issued by one of them, with the same subject and CSRF secret, and not
  longer ago than the absolute lifetime. The hypothesis states the addition of the time crate.\<close>

theorem session_provenance:
  assumes "\<And>t d u. time_add env t d = Some u \<Longrightarrow> u = t + d"
    and "act_run env memory_store p acts (realm_new, Map.empty) = (events, s, fl)"
    and "session_validate env memory_store p token now s = (Inr x, s')"
  shows "\<exists>r. Issued r \<in> set events \<and> record_digest r = token_digest env token \<and>
    record_subject r = record_subject x \<and> csrf_secret r = csrf_secret x \<and> now < opened_at r + absolute_lifetime p"
proof -
  have "flight_ok env Map.empty" by (simp add: flight_ok_def)
  with memory.act_run_origin [of "(realm_new, Map.empty)", OF _ _ assms(2)] realm_new_inv
  have ok: "memory_inv (sessions s)" and origin: "memory.descends (s, fl) [] x \<Longrightarrow> memory.descends (realm_new, Map.empty) events x"
    by simp_all
  from memory.validate_spec [OF ok assms(3)] obtain y where y: "map_of (sessions s) (token_digest env token) = Some y"
    "live env p now y" "x = touch now y" by auto
  have key: "record_digest x = token_digest env token" using memory.keyed_law [OF ok y(1)] y(3) by simp
  with y have "memory.descends (s, fl) [] x" by (auto simp: memory.descends_def same_session_def)
  from origin [OF this] obtain z where z: "Issued z \<in> set events" "same_session z x"
    by (auto simp: memory.descends_def flying_def realm_new_def)
  from y(2) obtain a where "time_add env (opened_at y) (absolute_lifetime p) = Some a" "now < a"
    by (auto simp: live_def split: option.splits)
  with assms(1) y(3) z(2) have "now < opened_at z + absolute_lifetime p" by (fastforce simp: same_session_def)
  with z key show ?thesis by (auto simp: same_session_def)
qed

text \<open>C29: After a logout, a rotation or the revocation of a subject no request brings a session back, however the
  requests overlap, save one: a token that is accepted later under the digest that was removed, or for
  the subject that was revoked, belongs to a session issued by the rotation or later, or to one that a
  validation had read before the removal and not yet written back.\<close>

theorem revoked_session_stays_out:
  assumes "memory_inv (sessions s0)" "flight_ok env fl" "session_step env memory_store p op s0 = (e, s1)"
    and "act_run env memory_store p acts (s1, fl) = (events, s2, fl')"
    and "session_validate env memory_store p token now s2 = (Inr x, s3)"
    and "op = Revoke t \<and> record_digest x = token_digest env t \<or>
      op = Rotate (Some t) subj at \<and> record_digest x = token_digest env t \<or> op = Revoke_all (record_subject x)"
  shows "(\<exists>r. Issued r \<in> set (e # events) \<and> same_session r x) \<or>
    (\<exists>k t' now' r. fl k = Some (t', now', Some r) \<and> same_session r x)"
proof -
  have inv: "memory_inv (sessions s1)" using memory.step_origin [OF assms(1,3)] by blast
  note ro = memory.act_run_origin [of "(s1, fl)", OF _ _ assms(4)]
  have ok2: "memory_inv (sessions s2)" using ro inv assms(2) by simp
  from memory.validate_spec [OF ok2 assms(5)] obtain y where y: "map_of (sessions s2) (token_digest env token) = Some y"
    "x = touch now y" by auto
  have "record_digest x = token_digest env token" using memory.keyed_law [OF ok2 y(1)] y(2) by simp
  with y have "memory.descends (s2, fl') [] x" by (auto simp: memory.descends_def same_session_def)
  with ro inv assms(2) have "memory.descends (s1, fl) events x" by simp
  moreover have "e = Issued z \<and> same_session z x" if z: "map_of (sessions s1) (record_digest x) = Some z" "same_session z x" for z
    using assms(6)
  proof (elim disjE)
    assume op: "op = Revoke t \<and> record_digest x = token_digest env t"
    with assms(3) memory.remove_spec [OF assms(1), of "token_digest env t"] z show ?thesis
      by (auto simp: session_revoke_def apfst_def map_prod_def split: prod.splits)
  next
    assume op: "op = Rotate (Some t) subj at \<and> record_digest x = token_digest env t"
    obtain b u where rm: "on_sessions (store_remove memory_store (token_digest env t)) s0 = (b, u)" by fastforce
    obtain q v where c: "session_create env memory_store subj at u = (q, v)" by fastforce
    note rs = memory.remove_spec [OF assms(1) rm]
    from memory.create_spec [OF _ c] rs z op assms(3) rm c show ?thesis
      by (cases q) (auto simp: session_rotate_def issue_event_def split: if_splits)
  next
    assume op: "op = Revoke_all (record_subject x)"
    obtain n u where "revoke_all_for_subject memory_store (record_subject x) s0 = (n, u)" by fastforce
    with memory.revoke_all_spec [OF assms(1) this] op assms(3) z show ?thesis
      by (auto simp: same_session_def split: option.splits if_splits)
  qed
  ultimately show ?thesis by (auto simp: memory.descends_def flying_def)
qed

section \<open>Witnesses\<close>

text \<open>A generator that gives its index, and digests that are the bytes themselves.\<close>

definition demo_session_env :: session_env where
  "demo_session_env = \<lparr>sha256 = id, b64_decode = (\<lambda>s. Some (map byte_of s)), b64_encode = map char_of_byte,
     random_bytes = (\<lambda>n. Some (replicate 32 (of_nat n))), time_add = (\<lambda>t d. Some (t + d))\<rparr>"

abbreviation demo_policy :: SessionPolicy where
  "demo_policy \<equiv> \<lparr>absolute_lifetime = 100, idle_timeout = 10\<rparr>"

definition demo_token :: SessionToken where
  "demo_token = SessionToken (replicate 32 0)"

definition demo_record :: SessionRecord where
  "demo_record = SessionRecord_new (TokenDigest (replicate 32 0)) ''alice'' (CsrfSecret (replicate 32 1)) 5 5"

definition demo_realm :: "InMemorySessionStore realm" where
  "demo_realm = \<lparr>sessions = [(TokenDigest (replicate 32 0), demo_record)], draws = 2\<rparr>"

lemmas session_eval = demo_session_env_def demo_token_def demo_record_def demo_realm_def realm_new_def
  session_create_def token_generate_def csrf_generate_def session_validate_def validate_write_def memory_store_def
  memory_get_def memory_insert_def memory_remove_def memory_remove_all_def token_digest_def SessionRecord_new_def
  issue_event_def touch_def on_sessions_def session_revoke_def revoke_all_for_subject_def

lemma demo_create: "session_run demo_session_env memory_store demo_policy [Create ''alice'' 5] realm_new =
    ([Issued demo_record], demo_realm)"
  by (simp add: session_eval Let_def)

lemma demo_realm_inv: "memory_inv (sessions demo_realm)"
  using memory.run_origin [OF realm_new_inv demo_create] by simp

lemma demo_validate: "session_validate demo_session_env memory_store demo_policy demo_token 12 demo_realm =
    (Inr (touch 12 demo_record), \<lparr>sessions = [(TokenDigest (replicate 32 0), touch 12 demo_record)], draws = 2\<rparr>)"
  by (simp add: session_eval)

lemma session_validate_exact_witness:
  "fst (session_validate demo_session_env memory_store demo_policy demo_token 16 demo_realm) = Inl SessionTimeOverflow \<or>
   (\<exists>x. fst (session_validate demo_session_env memory_store demo_policy demo_token 16 demo_realm) = Inl (ExpiredSession x))"
proof -
  obtain r s' where v: "session_validate demo_session_env memory_store demo_policy demo_token 16 demo_realm = (r, s')"
    by fastforce
  from session_validate_exact [OF demo_realm_inv v] show ?thesis
    by (simp add: v) (simp add: session_eval live_def)
qed

lemma session_provenance_witness:
  "\<exists>r. Issued r \<in> {Issued demo_record} \<and> record_digest r = token_digest demo_session_env demo_token \<and>
     record_subject r = ''alice'' \<and> 12 < opened_at r + 100"
proof -
  have "u = t + d" if "time_add demo_session_env t d = Some u" for t d u
    using that by (simp add: demo_session_env_def)
  note add = this
  have "act_run demo_session_env memory_store demo_policy [Request (Create ''alice'' 5)] (realm_new, Map.empty) =
      ([Issued demo_record], demo_realm, Map.empty)"
    using demo_create by (auto split: prod.splits)
  from session_provenance [OF add this demo_validate] show ?thesis
    by (simp add: demo_record_def SessionRecord_new_def)
qed

lemma revoked_session_stays_out_witness:
  "\<exists>r. Issued r \<in> set (fst (act_run demo_session_env memory_store demo_policy [Request (Create ''alice'' 5)]
       (\<lparr>sessions = [], draws = 0\<rparr>, Map.empty))) \<and> same_session r (touch 12 demo_record)"
proof -
  have st: "session_step demo_session_env memory_store demo_policy (Revoke_all ''alice'') realm_new = (Revoked_count 0, realm_new)"
    by (simp add: session_eval)
  have run: "act_run demo_session_env memory_store demo_policy [Request (Create ''alice'' 5)] (realm_new, Map.empty) =
      ([Issued demo_record], demo_realm, Map.empty)"
    using demo_create by (auto split: prod.splits)
  have fl: "flight_ok demo_session_env Map.empty" by (simp add: flight_ok_def)
  have op: "Revoke_all ''alice'' = Revoke_all (record_subject (touch 12 demo_record))"
    by (simp add: demo_record_def SessionRecord_new_def)
  from revoked_session_stays_out [OF realm_new_inv fl st run demo_validate disjI2 [OF disjI2 [OF op]]]
  have "\<exists>r. Issued r \<in> {Issued demo_record} \<and> same_session r (touch 12 demo_record)" by auto
  with run show ?thesis by (simp add: realm_new_def)
qed

text \<open>The exception is needed: here the validation had read the session before it was revoked.\<close>

lemma overlapping_validation_witness:
  "fst (session_validate demo_session_env memory_store demo_policy demo_token 13
     (fst (snd (act_run demo_session_env memory_store demo_policy
       [Read_record 0 demo_token 12, Request (Revoke demo_token), Write_record 0] (demo_realm, Map.empty))))) =
   Inr (touch 13 demo_record)"
  by (simp add: session_eval live_def)

end
