(* ===== verification/AdminGuard.thy ===== *)
theory AdminGuard
  imports Session Strings
begin

text \<open>
  The guard of the Root Admin pages (\<open>crates/web-admin/src/auth.rs\<close>, \<open>csrf.rs\<close>, \<open>routes/login.rs\<close>,
  \<open>routes/mod.rs\<close>, and \<open>crates/security/src/session_cookie.rs\<close>): session cookies, the middleware that
  demands a session, the middleware against cross-site requests, the order in which they run, and the
  login, logout and login-page handlers, over the sessions of \<open>Session\<close>.

  A request is what the code reads of it: method, path, headers (the first value of a name; \<open>Some None\<close>
  for one that is not visible ASCII), and body (\<open>None\<close> when reading it fails). The cookie parser, the
  form decoder, UTF-8 validation and the user store answer through \<open>admin_env\<close>.
\<close>

section \<open>Requests\<close>

record request =
  req_method :: string
  req_path :: string
  req_headers :: "string \<Rightarrow> string option option"
  req_body :: "string option"

record admin_env =
  session_env :: session_env
  manager_policy :: SessionPolicy
  cookie_parse :: "string \<Rightarrow> (string \<times> string) option"
  utf8_valid :: "string \<Rightarrow> bool"
  login_form :: "request \<Rightarrow> (string \<times> string) option"
  user_enabled :: "string \<Rightarrow> bool option"
  verify_credentials :: "string \<Rightarrow> string \<Rightarrow> bool option"
  insecure_dev :: bool
  max_body_bytes :: nat

definition header_str :: "request \<Rightarrow> string \<Rightarrow> string option" where
  "header_str req name = (case req_headers req name of Some (Some v) \<Rightarrow> Some v | _ \<Rightarrow> None)"

text \<open>\<open>Method::is_safe\<close> of the http crate.\<close>

definition is_safe_method :: "string \<Rightarrow> bool" where
  "is_safe_method m \<longleftrightarrow> m \<in> {''GET'', ''HEAD'', ''OPTIONS'', ''TRACE''}"

text \<open>\<open>trim\<close>, \<open>split_once\<close> and \<open>contains\<close> of the standard library, on header values.\<close>

definition is_blank :: "char \<Rightarrow> bool" where
  "is_blank c \<longleftrightarrow> c = CHR '' '' \<or> c = CHR 0x09"

definition trim :: "string \<Rightarrow> string" where
  "trim s = rev (dropWhile is_blank (rev (dropWhile is_blank s)))"

fun split_once_str :: "string \<Rightarrow> string \<Rightarrow> (string \<times> string) option" where
  "split_once_str pat s =
     (case strip_prefix pat s of
        Some rest \<Rightarrow> Some ([], rest)
      | None \<Rightarrow>
          (case s of
             [] \<Rightarrow> None
           | c # cs \<Rightarrow> map_option (apfst ((#) c)) (split_once_str pat cs)))"

declare split_once_str.simps [simp del]

definition contains_str :: "string \<Rightarrow> string \<Rightarrow> bool" where
  "contains_str pat s \<longleftrightarrow> split_once_str pat s \<noteq> None"

section \<open>Cookies\<close>

datatype SameSite = Strict | Lax | NoSameSite

record Cookie =
  cookie_name :: string
  cookie_value :: string
  cookie_secure :: "bool option"
  cookie_http_only :: "bool option"
  cookie_same_site :: "SameSite option"
  cookie_path :: "string option"
  cookie_domain :: "string option"
  cookie_expires :: int
  cookie_max_age :: int

definition SESSION_COOKIE_NAME :: string where "SESSION_COOKIE_NAME = ''__Host-operune-session''"
definition DEV_SESSION_COOKIE_NAME :: string where "DEV_SESSION_COOKIE_NAME = ''operune-dev-session''"
definition ANONYMOUS_SUBJECT :: string where "ANONYMOUS_SUBJECT = ''anonymous''"

datatype SessionCookieError = NameMismatch | NotSecure | NotHttpOnly | SameSiteNotStrict | PathNotRoot | DomainSet
datatype CookieBuildError = CookieTimeOverflow | ProductionContract SessionCookieError

definition build_session_cookie :: "session_env \<Rightarrow> SessionToken \<Rightarrow> int \<Rightarrow> int \<Rightarrow> Cookie" where
  "build_session_cookie env token expires max_age =
     \<lparr>cookie_name = SESSION_COOKIE_NAME, cookie_value = token_to_url_safe env token, cookie_secure = Some True,
      cookie_http_only = Some True, cookie_same_site = Some Strict, cookie_path = Some ''/'', cookie_domain = None,
      cookie_expires = expires, cookie_max_age = max_age\<rparr>"

definition build_session_cookie_removal :: Cookie where
  "build_session_cookie_removal =
     \<lparr>cookie_name = SESSION_COOKIE_NAME, cookie_value = [], cookie_secure = Some True,
      cookie_http_only = Some True, cookie_same_site = Some Strict, cookie_path = Some ''/'', cookie_domain = None,
      cookie_expires = 0, cookie_max_age = 0\<rparr>"

definition validate_production_cookie :: "Cookie \<Rightarrow> SessionCookieError + unit" where
  "validate_production_cookie c =
     (if cookie_name c \<noteq> SESSION_COOKIE_NAME then Inl NameMismatch
      else if cookie_secure c \<noteq> Some True then Inl NotSecure
      else if cookie_http_only c \<noteq> Some True then Inl NotHttpOnly
      else if cookie_same_site c \<noteq> Some Strict then Inl SameSiteNotStrict
      else if cookie_path c \<noteq> Some ''/'' then Inl PathNotRoot
      else if cookie_domain c \<noteq> None then Inl DomainSet
      else Inr ())"

definition session_cookie_name :: "bool \<Rightarrow> string" where
  "session_cookie_name dev = (if dev then DEV_SESSION_COOKIE_NAME else SESSION_COOKIE_NAME)"

text \<open>The expiry of the cookie is that of the default policy.\<close>

definition build_login_cookie :: "session_env \<Rightarrow> SessionToken \<Rightarrow> int \<Rightarrow> bool \<Rightarrow> CookieBuildError + Cookie" where
  "build_login_cookie env token now dev =
     and_then (ok_or (time_add env now (absolute_lifetime policy_DEFAULT)) CookieTimeOverflow) (\<lambda>expires.
       let c = build_session_cookie env token expires (absolute_lifetime policy_DEFAULT) in
       if dev
       then Inr (c\<lparr>cookie_name := DEV_SESSION_COOKIE_NAME, cookie_secure := Some False\<rparr>)
       else and_then (map_err ProductionContract (validate_production_cookie c)) (\<lambda>_. Inr c))"

definition build_removal_cookie :: "bool \<Rightarrow> Cookie" where
  "build_removal_cookie dev =
     (if dev then build_session_cookie_removal\<lparr>cookie_name := DEV_SESSION_COOKIE_NAME, cookie_secure := Some False\<rparr>
      else build_session_cookie_removal)"

text \<open>The loop over the parts of the \<open>Cookie\<close> header: the first that does not parse ends it.\<close>

fun find_session_cookie :: "admin_env \<Rightarrow> string \<Rightarrow> string list \<Rightarrow> SessionToken option" where
  "find_session_cookie env name [] = None"
| "find_session_cookie env name (part # parts) =
     (case cookie_parse env (trim part) of
        None \<Rightarrow> None
      | Some (n, v) \<Rightarrow>
          if n = name
          then (case token_from_url_safe (session_env env) v of Inr t \<Rightarrow> Some t | Inl _ \<Rightarrow> None)
          else find_session_cookie env name parts)"

definition session_token_from_headers :: "admin_env \<Rightarrow> request \<Rightarrow> string \<Rightarrow> SessionToken option" where
  "session_token_from_headers env req name =
     (case header_str req ''cookie'' of
        None \<Rightarrow> None
      | Some v \<Rightarrow> find_session_cookie env name (split_on CHR '';'' v))"

section \<open>The session middleware\<close>

record Authenticated =
  auth_subject :: string
  auth_record :: SessionRecord
  auth_token :: SessionToken

datatype gate = Forward "Authenticated option" | To_login

definition usable_record ::
  "admin_env \<Rightarrow> 's SessionStore \<Rightarrow> SessionRecord option \<Rightarrow> 's realm \<Rightarrow> SessionRecord option \<times> 's realm" where
  "usable_record env st validated s =
     (case validated of
        None \<Rightarrow> (None, s)
      | Some r \<Rightarrow>
          if record_subject r = ANONYMOUS_SUBJECT \<or> user_enabled env (record_subject r) = Some True
          then (Some r, s)
          else (None, snd (revoke_all_for_subject st (record_subject r) s)))"

definition require_session ::
  "admin_env \<Rightarrow> 's SessionStore \<Rightarrow> int \<Rightarrow> request \<Rightarrow> 's realm \<Rightarrow> gate \<times> 's realm" where
  "require_session env st now req s =
     (let token = session_token_from_headers env req (session_cookie_name (insecure_dev env));
          (validated, s) =
            (case token of
               Some t \<Rightarrow>
                 (case session_validate (session_env env) st (manager_policy env) t now s of
                    (Inr r, s) \<Rightarrow> (Some r, s)
                  | (Inl _, s) \<Rightarrow> (None, s))
             | None \<Rightarrow> (None, s));
          (usable, s) = usable_record env st validated s
      in case usable of
           None \<Rightarrow> (if req_path req = ''/login'' then Forward None else To_login, s)
         | Some r \<Rightarrow>
             (Forward (map_option (\<lambda>t. \<lparr>auth_subject = record_subject r, auth_record = r, auth_token = t\<rparr>) token), s))"

section \<open>The cross-site middleware\<close>

definition CSRF_HEADER :: string where "CSRF_HEADER = ''x-csrf-token''"
definition CSRF_FIELD :: string where "CSRF_FIELD = ''_csrf''"

datatype csrf_verdict = Run | Forbidden string | PayloadTooLarge

definition split_origin :: "string \<Rightarrow> (string \<times> string) option" where
  "split_origin v =
     (case split_once_str ''://'' v of
        None \<Rightarrow> None
      | Some (scheme, rest) \<Rightarrow>
          if scheme \<noteq> ''http'' \<and> scheme \<noteq> ''https'' then None
          else
            let authority = hd (split_on CHR ''/'' rest) in
            if authority = [] \<or> CHR ''@'' \<in> set authority then None else Some (scheme, authority))"

definition origin_matches :: "string \<Rightarrow> string \<Rightarrow> bool \<Rightarrow> bool" where
  "origin_matches v host dev =
     (case split_origin v of
        None \<Rightarrow> False
      | Some (scheme, authority) \<Rightarrow> (if dev then scheme \<in> {''http'', ''https''} else scheme = ''https'') \<and> authority = host)"

definition origin_or_referer_allowed :: "request \<Rightarrow> string option \<Rightarrow> bool \<Rightarrow> bool" where
  "origin_or_referer_allowed req host dev =
     (case host of
        None \<Rightarrow> False
      | Some h \<Rightarrow>
          (case header_str req ''origin'' of
             Some v \<Rightarrow> origin_matches v h dev
           | None \<Rightarrow>
               (case header_str req ''referer'' of
                  Some v \<Rightarrow> origin_matches v h dev
                | None \<Rightarrow> False)))"

fun find_field :: "(string \<Rightarrow> bool) \<Rightarrow> string \<Rightarrow> string list \<Rightarrow> string option" where
  "find_field utf8 field [] = None"
| "find_field utf8 field (pair # pairs) =
     (case split_once CHR ''='' pair of
        None \<Rightarrow> find_field utf8 field pairs
      | Some (k, v) \<Rightarrow> if k = field then (if utf8 v then Some v else None) else find_field utf8 field pairs)"

definition extract_form_field :: "(string \<Rightarrow> bool) \<Rightarrow> string \<Rightarrow> string \<Rightarrow> string option" where
  "extract_form_field utf8 body field = find_field utf8 field (split_on CHR ''&'' body)"

definition is_form :: "request \<Rightarrow> bool" where
  "is_form req =
     (case header_str req ''content-type'' of
        None \<Rightarrow> False
      | Some v \<Rightarrow> contains_str ''application/x-www-form-urlencoded'' v)"

text \<open>The token a request presents: its header, or the field of its form; \<open>None\<close> for a body over the limit.\<close>

definition presented_token :: "admin_env \<Rightarrow> request \<Rightarrow> string option option" where
  "presented_token env req =
     (case header_str req CSRF_HEADER of
        Some t \<Rightarrow> Some (Some t)
      | None \<Rightarrow>
          if is_form req
          then (case req_body req of
                  Some bytes \<Rightarrow>
                    if length bytes \<le> max_body_bytes env
                    then Some (extract_form_field (utf8_valid env) bytes CSRF_FIELD) else None
                | None \<Rightarrow> None)
          else Some None)"

definition csrf_guard :: "admin_env \<Rightarrow> request \<Rightarrow> Authenticated option \<Rightarrow> csrf_verdict" where
  "csrf_guard env req auth =
     (if is_safe_method (req_method req) then Run
      else if \<not> origin_or_referer_allowed req (header_str req ''host'') (insecure_dev env) then Forbidden ''origin/referer''
      else
        case presented_token env req of
          None \<Rightarrow> PayloadTooLarge
        | Some token \<Rightarrow>
            (case auth of
               None \<Rightarrow> Forbidden ''no session''
             | Some a \<Rightarrow>
                 (case token of
                    Some presented \<Rightarrow>
                      if is_ok (csrf_verify (session_env env) (csrf_secret (auth_record a)) presented) then Run
                      else Forbidden ''token mismatch''
                  | None \<Rightarrow> Forbidden ''missing token'')))"

text \<open>The stack of \<open>admin_router\<close>: the session middleware outside, the cross-site middleware inside.\<close>

datatype admission = Handled "Authenticated option" | Redirected | Denied string | Too_large

definition admit ::
  "admin_env \<Rightarrow> 's SessionStore \<Rightarrow> int \<Rightarrow> request \<Rightarrow> 's realm \<Rightarrow> admission \<times> 's realm" where
  "admit env st now req s =
     (case require_session env st now req s of
        (To_login, s) \<Rightarrow> (Redirected, s)
      | (Forward auth, s) \<Rightarrow>
          (case csrf_guard env req auth of
             Run \<Rightarrow> Handled auth
           | Forbidden why \<Rightarrow> Denied why
           | PayloadTooLarge \<Rightarrow> Too_large, s))"

section \<open>Login and logout\<close>

datatype page =
    Home "Cookie option"
  | Login_form string bool "Cookie option"
  | Login_redirect Cookie
  | Session_failed SessionError
  | Cookie_failed CookieBuildError
  | Users_failed
  | Form_rejected

definition login_page ::
  "admin_env \<Rightarrow> 's SessionStore \<Rightarrow> int \<Rightarrow> Authenticated option \<Rightarrow> 's realm \<Rightarrow> page \<times> 's realm" where
  "login_page env st now existing s =
     (case existing of
        Some a \<Rightarrow>
          (if auth_subject a \<noteq> ANONYMOUS_SUBJECT then Home None
           else Login_form (csrf_to_url_safe (session_env env) (csrf_secret (auth_record a))) False None, s)
      | None \<Rightarrow>
          (case session_create (session_env env) st ANONYMOUS_SUBJECT now s of
             (Inl e, s) \<Rightarrow> (Session_failed e, s)
           | (Inr issued, s) \<Rightarrow>
               (case build_login_cookie (session_env env) (issued_token issued) now (insecure_dev env) of
                  Inl e \<Rightarrow> Cookie_failed e
                | Inr c \<Rightarrow> Login_form (csrf_to_url_safe (session_env env) (csrf_secret (issued_record issued))) False (Some c), s)))"

definition login_post ::
  "admin_env \<Rightarrow> 's SessionStore \<Rightarrow> int \<Rightarrow> request \<Rightarrow> Authenticated option \<Rightarrow> 's realm \<Rightarrow> page \<times> 's realm" where
  "login_post env st now req auth s =
     (case login_form env req of
        None \<Rightarrow> (Form_rejected, s)
      | Some (username, password) \<Rightarrow>
          (case verify_credentials env username password of
             None \<Rightarrow> (Users_failed, s)
           | Some False \<Rightarrow>
               (case auth of
                  Some a \<Rightarrow> (Login_form (csrf_to_url_safe (session_env env) (csrf_secret (auth_record a))) True None, s)
                | None \<Rightarrow>
                    (case session_create (session_env env) st ANONYMOUS_SUBJECT now s of
                       (Inl e, s) \<Rightarrow> (Session_failed e, s)
                     | (Inr issued, s) \<Rightarrow>
                         (Login_form (csrf_to_url_safe (session_env env) (csrf_secret (issued_record issued))) True
                            (case build_login_cookie (session_env env) (issued_token issued) now (insecure_dev env) of
                               Inr c \<Rightarrow> Some c | Inl _ \<Rightarrow> None), s)))
           | Some True \<Rightarrow>
               (case session_rotate (session_env env) st (map_option auth_token auth) username now s of
                  (Inl e, s) \<Rightarrow> (Session_failed e, s)
                | (Inr issued, s) \<Rightarrow>
                    (case build_login_cookie (session_env env) (issued_token issued) now (insecure_dev env) of
                       Inl e \<Rightarrow> Cookie_failed e
                     | Inr c \<Rightarrow> Home (Some c), s))))"

definition logout :: "admin_env \<Rightarrow> 's SessionStore \<Rightarrow> Authenticated \<Rightarrow> 's realm \<Rightarrow> page \<times> 's realm" where
  "logout env st a s =
     (Login_redirect (build_removal_cookie (insecure_dev env)), snd (session_revoke (session_env env) st (auth_token a) s))"

section \<open>Texts\<close>

lemma split_once_str_Some: "split_once_str pat s = Some (a, b) \<Longrightarrow> s = a @ pat @ b"
proof (induction pat s arbitrary: a b rule: split_once_str.induct)
  case (1 pat s)
  note eq = 1(2) [unfolded split_once_str.simps [of pat s]]
  show ?case
  proof (cases "strip_prefix pat s")
    case None
    with eq 1(1) show ?thesis by (cases s) auto
  next
    case (Some r)
    with eq show ?thesis by (auto simp: strip_prefix_Some)
  qed
qed

lemma hd_split_on: "hd (split_on c s) = takeWhile (\<lambda>x. x \<noteq> c) s"
  by (induction s) (auto split: list.split)

text \<open>A URL whose scheme is allowed and whose authority is the given host.\<close>

definition url_of_host :: "string \<Rightarrow> string \<Rightarrow> bool \<Rightarrow> bool" where
  "url_of_host v host dev \<longleftrightarrow> host \<noteq> [] \<and> CHR ''@'' \<notin> set host \<and>
     (\<exists>scheme rest. v = scheme @ ''://'' @ rest \<and> (scheme = ''https'' \<or> dev \<and> scheme = ''http'') \<and>
        takeWhile (\<lambda>c. c \<noteq> CHR ''/'') rest = host)"

lemma origin_matches_url:
  assumes "origin_matches v host dev"
  shows "url_of_host v host dev"
proof -
  from assms obtain scheme where o: "split_origin v = Some (scheme, host)" "scheme = ''https'' \<or> dev \<and> scheme = ''http''"
    by (auto simp: origin_matches_def split: option.splits if_splits)
  from o(1) obtain rest where "split_once_str ''://'' v = Some (scheme, rest)" "hd (split_on CHR ''/'' rest) = host"
    "host \<noteq> []" "CHR ''@'' \<notin> set host"
    by (auto simp: split_origin_def Let_def split: option.splits if_splits)
  with o(2) split_once_str_Some [of "''://''" v scheme rest] show ?thesis
    unfolding url_of_host_def hd_split_on by blast
qed

lemma production_cookie_ok:
  "validate_production_cookie (build_session_cookie env t x m) = Inr ()"
  "validate_production_cookie build_session_cookie_removal = Inr ()"
  by (simp_all add: validate_production_cookie_def build_session_cookie_def build_session_cookie_removal_def)

lemma build_login_cookie_cases:
  "build_login_cookie env t now dev = Inl e \<Longrightarrow> e = CookieTimeOverflow"
  "build_login_cookie env t now False = Inr c \<Longrightarrow> validate_production_cookie c = Inr ()"
  by (auto simp: build_login_cookie_def Let_def production_cookie_ok result_simps split: if_splits)

section \<open>What the middleware lets through\<close>

context session_store
begin

text \<open>The session a request is made in: its token names a live record of an anonymous or enabled subject.\<close>

definition request_session :: "admin_env \<Rightarrow> int \<Rightarrow> request \<Rightarrow> 's realm \<Rightarrow> SessionToken \<Rightarrow> SessionRecord \<Rightarrow> bool" where
  "request_session env now req s t y \<longleftrightarrow>
     session_token_from_headers env req (session_cookie_name (insecure_dev env)) = Some t \<and>
     rec s (token_digest (session_env env) t) = Some y \<and> live (session_env env) (manager_policy env) now y \<and>
     (record_subject y = ANONYMOUS_SUBJECT \<or> user_enabled env (record_subject y) = Some True)"

lemma require_session_spec:
  assumes "ok s" "require_session env st now req s = (g, s')"
  shows "ok s' \<and> (case g of
      Forward (Some a) \<Rightarrow> (\<exists>y. request_session env now req s (auth_token a) y \<and>
        auth_record a = touch now y \<and> auth_subject a = record_subject y)
    | Forward None \<Rightarrow> req_path req = ''/login'' \<and> (\<nexists>t y. request_session env now req s t y)
    | To_login \<Rightarrow> req_path req \<noteq> ''/login'' \<and> (\<nexists>t y. request_session env now req s t y))"
proof (cases "session_token_from_headers env req (session_cookie_name (insecure_dev env))")
  case None
  with assms show ?thesis by (auto simp: require_session_def usable_record_def request_session_def)
next
  case (Some t)
  obtain r u where v: "session_validate (session_env env) st (manager_policy env) t now s = (r, u)" by fastforce
  note vs = validate_spec [OF assms(1) v]
  show ?thesis
  proof (cases r)
    case (Inl e)
    with vs have "\<nexists>y. request_session env now req s t y" by (auto simp: request_session_def split: option.splits)
    moreover have "t' = t" if "request_session env now req s t' y" for t' y
      using that Some by (simp add: request_session_def)
    ultimately show ?thesis
      using assms(2) Some v Inl vs by (auto simp: require_session_def usable_record_def)
  next
    case (Inr x)
    with vs obtain y where y: "rec s (token_digest (session_env env) t) = Some y"
      "live (session_env env) (manager_policy env) now y" "x = touch now y" "ok u" by auto
    show ?thesis
    proof (cases "record_subject y = ANONYMOUS_SUBJECT \<or> user_enabled env (record_subject y) = Some True")
      case True
      with y Some have "request_session env now req s t y" by (simp add: request_session_def)
      with True assms(2) Some v Inr y show ?thesis
        by (auto simp: require_session_def usable_record_def intro!: exI [of _ y])
    next
      case False
      obtain n w where rv: "revoke_all_for_subject st (record_subject y) u = (n, w)" by fastforce
      with revoke_all_spec [OF y(4) rv] have "ok w" by blast
      moreover have "\<nexists>t y. request_session env now req s t y"
        using False y(1) Some by (auto simp: request_session_def)
      ultimately show ?thesis
        using False assms(2) Some v Inr y rv by (auto simp: require_session_def usable_record_def)
    qed
  qed
qed

lemma admit_spec:
  assumes "ok s" "admit env st now req s = (Handled auth, s')"
  shows "(case auth of
      Some a \<Rightarrow> (\<exists>y. request_session env now req s (auth_token a) y \<and> auth_record a = touch now y \<and>
        auth_subject a = record_subject y)
    | None \<Rightarrow> req_path req = ''/login'' \<and> (\<nexists>t y. request_session env now req s t y)) \<and>
    csrf_guard env req auth = Run"
proof -
  obtain g u where r: "require_session env st now req s = (g, u)" by fastforce
  from assms(2) r have "g = Forward auth" "csrf_guard env req auth = Run"
    by (auto simp: admit_def split: gate.splits csrf_verdict.splits)
  with require_session_spec [OF assms(1) r] show ?thesis by (auto split: option.splits)
qed

text \<open>The path decides only what happens without a session.\<close>

lemma require_session_path:
  assumes "ok s" "request_session env now req s t y"
  shows "require_session env st now (req\<lparr>req_path := p\<rparr>) s = require_session env st now req s"
proof -
  have tk: "session_token_from_headers env (req\<lparr>req_path := p\<rparr>) (session_cookie_name (insecure_dev env)) = Some t"
    "session_token_from_headers env req (session_cookie_name (insecure_dev env)) = Some t"
    using assms(2) by (simp_all add: request_session_def session_token_from_headers_def header_str_def)
  obtain r u where v: "session_validate (session_env env) st (manager_policy env) t now s = (r, u)" by fastforce
  from validate_spec [OF assms(1) v] assms(2) obtain x where "r = Inr x" "record_subject x = record_subject y"
    by (cases r) (auto simp: request_session_def)
  with tk v assms(2) show ?thesis by (auto simp: require_session_def usable_record_def request_session_def)
qed

end

text \<open>Where a request says it comes from: its \<open>Origin\<close> and, only without one, its \<open>Referer\<close>.\<close>

definition source_of :: "request \<Rightarrow> string option" where
  "source_of req = (case header_str req ''origin'' of Some v \<Rightarrow> Some v | None \<Rightarrow> header_str req ''referer'')"

lemma csrf_guard_Run:
  assumes "csrf_guard env req auth = Run" "\<not> is_safe_method (req_method req)"
  obtains a presented host v where "auth = Some a" "presented_token env req = Some (Some presented)"
    "b64_decode (session_env env) presented = Some (csrf_bytes (csrf_secret (auth_record a)))"
    "header_str req ''host'' = Some host" "source_of req = Some v" "url_of_host v host (insecure_dev env)"
proof -
  from assms have o: "origin_or_referer_allowed req (header_str req ''host'') (insecure_dev env)"
    by (auto simp: csrf_guard_def split: if_splits)
  from assms obtain a presented where "auth = Some a" "presented_token env req = Some (Some presented)"
    "is_ok (csrf_verify (session_env env) (csrf_secret (auth_record a)) presented)"
    by (auto simp: csrf_guard_def split: if_splits option.splits)
  moreover from o obtain host v where "header_str req ''host'' = Some host"
    "source_of req = Some v" "origin_matches v host (insecure_dev env)"
    by (auto simp: origin_or_referer_allowed_def source_of_def split: option.splits)
  ultimately show thesis
    using that origin_matches_url by (auto simp: result_simps csrf_verify_Inr)
qed

lemma csrf_guard_path: "csrf_guard env (req\<lparr>req_path := p\<rparr>) auth = csrf_guard env req auth"
  by (simp add: csrf_guard_def origin_or_referer_allowed_def presented_token_def is_form_def header_str_def
      split: option.split)

section \<open>Properties\<close>

text \<open>C30: A state-changing request reaches a handler only in the session its cookie names: the store holds a
  record for the digest of the token, past neither expiry, of the anonymous subject or an enabled user;
  the request presents the CSRF secret of that record; and its \<open>Origin\<close>, or its \<open>Referer\<close> when it has no
  \<open>Origin\<close> that can be read, is a URL of the host it is sent to, over https outside the development mode.
  A \<open>Referer\<close> does not make up for an \<open>Origin\<close> of another host. There is no way round it, not even for the
  login page.\<close>

theorem state_change_guarded:
  assumes "memory_inv (sessions s)" "\<not> is_safe_method (req_method req)"
    and "admit env memory_store now req s = (Handled auth, s')"
  shows "\<exists>a y presented host v. auth = Some a \<and>
    session_token_from_headers env req (session_cookie_name (insecure_dev env)) = Some (auth_token a) \<and>
    memory_get (token_digest (session_env env) (auth_token a)) (sessions s) = Some y \<and>
    live (session_env env) (manager_policy env) now y \<and>
    (record_subject y = ANONYMOUS_SUBJECT \<or> user_enabled env (record_subject y) = Some True) \<and>
    auth_subject a = record_subject y \<and>
    presented_token env req = Some (Some presented) \<and>
    b64_decode (session_env env) presented = Some (csrf_bytes (csrf_secret y)) \<and>
    header_str req ''host'' = Some host \<and>
    (case header_str req ''origin'' of Some origin \<Rightarrow> v = origin | None \<Rightarrow> header_str req ''referer'' = Some v) \<and>
    url_of_host v host (insecure_dev env)"
proof -
  note ad = memory.admit_spec [OF assms(1,3)]
  then have "csrf_guard env req auth = Run" by blast
  then obtain a presented host v where c: "auth = Some a" "presented_token env req = Some (Some presented)"
    "b64_decode (session_env env) presented = Some (csrf_bytes (csrf_secret (auth_record a)))"
    "header_str req ''host'' = Some host" "source_of req = Some v" "url_of_host v host (insecure_dev env)"
    using assms(2) by (rule csrf_guard_Run)
  from c(5) have "case header_str req ''origin'' of Some origin \<Rightarrow> v = origin | None \<Rightarrow> header_str req ''referer'' = Some v"
    by (auto simp: source_of_def split: option.splits)
  with c ad show ?thesis by (auto simp: memory.request_session_def memory_get_def)
qed

text \<open>Without a session that can be used, every path but the login page is answered with the redirection
  to it, and on the login page nothing but reading is let through.\<close>

theorem no_session_no_entry:
  assumes "memory_inv (sessions s)" "admit env memory_store now req s = (out, s')"
    and "\<nexists>t y. session_token_from_headers env req (session_cookie_name (insecure_dev env)) = Some t \<and>
      memory_get (token_digest (session_env env) t) (sessions s) = Some y \<and> live (session_env env) (manager_policy env) now y \<and>
      (record_subject y = ANONYMOUS_SUBJECT \<or> user_enabled env (record_subject y) = Some True)"
  shows "if req_path req \<noteq> ''/login'' then out = Redirected
    else if is_safe_method (req_method req) then out = Handled None else \<not> (\<exists>auth. out = Handled auth)"
proof -
  obtain g u where r: "require_session env memory_store now req s = (g, u)" by fastforce
  have none: "\<nexists>t y. memory.request_session env now req s t y"
    using assms(3) by (simp add: memory.request_session_def memory_get_def)
  from memory.require_session_spec [OF assms(1) r] none
  have g: "g = (if req_path req = ''/login'' then Forward None else To_login)"
    by (auto split: gate.splits option.splits)
  have "csrf_guard env req None = Run \<longleftrightarrow> is_safe_method (req_method req)"
    by (auto simp: csrf_guard_def split: option.splits)
  with assms(2) r g show ?thesis
    by (auto simp: admit_def split: csrf_verdict.splits if_splits)
qed

text \<open>C31: The guard does not keep the anonymous session on the login page: a request that is let through in a
  session is let through in it on every path, whatever the subject of the session. With the session the
  login page gives to every visitor a request to create a user reaches its handler.\<close>

theorem session_reaches_every_path:
  assumes "memory_inv (sessions s)" "admit env memory_store now req s = (Handled (Some a), s')"
  shows "admit env memory_store now (req\<lparr>req_path := p\<rparr>) s = (Handled (Some a), s')"
proof -
  from memory.admit_spec [OF assms] obtain y where y: "memory.request_session env now req s (auth_token a) y" by auto
  obtain g u where r: "require_session env memory_store now req s = (g, u)" by fastforce
  with memory.require_session_path [OF assms(1) y, of p]
  have "require_session env memory_store now (req\<lparr>req_path := p\<rparr>) s = (g, u)" by simp
  with r assms(2) show ?thesis
    by (auto simp: admit_def csrf_guard_path split: gate.splits)
qed

text \<open>C32: A login with verified credentials leaves no way back to the session it was made in: its record is
  gone whatever happens next. When no new session can be made nothing else changes; otherwise one new
  session is stored, of the name that was verified and opened now, also when its cookie then cannot be
  built and the visitor never learns of it. A login whose form or credentials are refused, or whose
  credentials cannot be checked, leaves the store as it was.\<close>

theorem login_rotates_session:
  assumes "memory_inv (sessions s)" "login_post env memory_store now req (Some a) s = (out, s')"
  shows "(case login_form env req of
      Some (username, password) \<Rightarrow>
        if verify_credentials env username password = Some True
        then (\<exists>e. out = Session_failed e) \<and>
            (\<forall>d. memory_get d (sessions s') =
              (if d = token_digest (session_env env) (auth_token a) then None else memory_get d (sessions s))) \<or>
          ((\<exists>c. out = Home (Some c)) \<or> (\<exists>e. out = Cookie_failed e)) \<and>
            (\<exists>r. record_subject r = username \<and> opened_at r = now \<and>
              (\<forall>d. memory_get d (sessions s') = (if d = record_digest r then Some r
                 else if d = token_digest (session_env env) (auth_token a) then None else memory_get d (sessions s))))
        else s' = s \<and> (out = Users_failed \<or> (\<exists>t. out = Login_form t True None))
    | None \<Rightarrow> s' = s \<and> out = Form_rejected)"
proof (cases "login_form env req")
  case None
  with assms(2) show ?thesis by (simp add: login_post_def)
next
  case (Some up)
  obtain username password where f: "login_form env req = Some (username, password)" using Some by (cases up) auto
  show ?thesis
  proof (cases "verify_credentials env username password = Some True")
    case False
    with assms(2) f show ?thesis by (auto simp: login_post_def split: option.splits bool.splits)
  next
    case True
    let ?d = "token_digest (session_env env) (auth_token a)"
    obtain b u where rm: "on_sessions (store_remove memory_store ?d) s = (b, u)" by fastforce
    obtain q t where c: "session_create (session_env env) memory_store username now u = (q, t)" by fastforce
    note rs = memory.remove_spec [OF assms(1) rm]
    then have cs: "memory_inv (sessions t) \<and> (case q of
        Inr i \<Rightarrow> record_subject (issued_record i) = username \<and> opened_at (issued_record i) = now \<and>
          last_used_at (issued_record i) = now \<and> record_digest (issued_record i) = token_digest (session_env env) (issued_token i) \<and>
          map_of (sessions t) = (map_of (sessions u))(record_digest (issued_record i) \<mapsto> issued_record i)
      | Inl e \<Rightarrow> map_of (sessions t) = map_of (sessions u))"
      using memory.create_spec [OF _ c] by blast
    have gone: "memory_get d (sessions u) = (if d = ?d then None else memory_get d (sessions s))" for d
      using rs by (auto simp: memory_get_def)
    from True assms(2) f rm c have out: "(case q of
         Inl e \<Rightarrow> (Session_failed e, t)
       | Inr i \<Rightarrow> (case build_login_cookie (session_env env) (issued_token i) now (insecure_dev env) of
            Inl e \<Rightarrow> Cookie_failed e | Inr c \<Rightarrow> Home (Some c), t)) = (out, s')"
      by (auto simp: login_post_def session_rotate_def split: sum.splits)
    show ?thesis
    proof (cases q)
      case (Inl e)
      with out cs gone True f show ?thesis by (auto simp: memory_get_def)
    next
      case (Inr i)
      let ?r = "issued_record i"
      have "memory_get d (sessions s') = (if d = record_digest ?r then Some ?r
         else if d = ?d then None else memory_get d (sessions s))" for d
        using out cs Inr gone [of d] by (auto simp: memory_get_def)
      moreover have "(\<exists>c. out = Home (Some c)) \<or> (\<exists>e. out = Cookie_failed e)"
        using out Inr by (auto split: sum.splits)
      ultimately show ?thesis using cs Inr True f by auto
    qed
  qed
qed

section \<open>A visitor\<close>

text \<open>A development server; the visitor opens the login page at time 5 and keeps cookie and secret.\<close>

definition demo_admin_env :: admin_env where
  "demo_admin_env = \<lparr>session_env = demo_session_env\<lparr>b64_decode := (\<lambda>s. Some (replicate 32 (if s = ''T'' then 0 else 1)))\<rparr>, manager_policy = \<lparr>absolute_lifetime = 100, idle_timeout = 10\<rparr>,
     cookie_parse = split_once CHR ''='', utf8_valid = (\<lambda>_. True),
     login_form = (\<lambda>req. Some (''alice'', ''secret'')), user_enabled = (\<lambda>u. Some (u = ''alice'')),
     verify_credentials = (\<lambda>u w. Some (w = ''secret'')), insecure_dev = True, max_body_bytes = 65536\<rparr>"

definition visitor_record :: SessionRecord where
  "visitor_record = SessionRecord_new (TokenDigest (replicate 32 0)) ANONYMOUS_SUBJECT (CsrfSecret (replicate 32 1)) 5 5"

definition visitor_realm :: "InMemorySessionStore realm" where
  "visitor_realm = \<lparr>sessions = [(TokenDigest (replicate 32 0), visitor_record)], draws = 2\<rparr>"

definition visitor_auth :: Authenticated where
  "visitor_auth = \<lparr>auth_subject = ANONYMOUS_SUBJECT, auth_record = touch 6 visitor_record, auth_token = demo_token\<rparr>"

definition visitor_request :: "string \<Rightarrow> string \<Rightarrow> request" where
  "visitor_request m path = \<lparr>req_method = m, req_path = path,
     req_headers = [''cookie'' \<mapsto> Some (''operune-dev-session=T''), ''host'' \<mapsto> Some ''h'',
       ''origin'' \<mapsto> Some ''https://h'', ''x-csrf-token'' \<mapsto> Some ''C''],
     req_body = Some []\<rparr>"

lemmas guard_eval = session_eval demo_admin_env_def visitor_record_def visitor_realm_def visitor_auth_def visitor_request_def
  ANONYMOUS_SUBJECT_def SESSION_COOKIE_NAME_def DEV_SESSION_COOKIE_NAME_def session_cookie_name_def
  header_str_def session_token_from_headers_def trim_def is_blank_def

lemma visitor_login_page:
  "snd (login_page demo_admin_env memory_store 5 None realm_new) = visitor_realm"
  by (simp add: login_page_def guard_eval Let_def split: sum.split)

lemma visitor_token: "session_token_from_headers demo_admin_env (visitor_request m path) ''operune-dev-session'' = Some demo_token"
  by (simp add: guard_eval token_from_url_safe_def SESSION_TOKEN_BYTES_def)

lemma visitor_realm_inv: "memory_inv (sessions visitor_realm)"
  by (simp add: visitor_realm_def memory_inv_def visitor_record_def SessionRecord_new_def)

lemma visitor_session: "require_session demo_admin_env memory_store 6 (visitor_request m path) visitor_realm =
    (Forward (Some visitor_auth), \<lparr>sessions = [(TokenDigest (replicate 32 0), touch 6 visitor_record)], draws = 2\<rparr>)"
proof -
  have n: "session_cookie_name (insecure_dev demo_admin_env) = ''operune-dev-session''" by (simp add: guard_eval)
  show ?thesis unfolding require_session_def n visitor_token
    by (simp add: guard_eval usable_record_def)
qed

lemma visitor_login_post: "admit demo_admin_env memory_store 6 (visitor_request ''POST'' ''/login'') visitor_realm =
    (Handled (Some visitor_auth), \<lparr>sessions = [(TokenDigest (replicate 32 0), touch 6 visitor_record)], draws = 2\<rparr>)"
proof -
  have "origin_or_referer_allowed (visitor_request ''POST'' ''/login'')
      (header_str (visitor_request ''POST'' ''/login'') ''host'') (insecure_dev demo_admin_env)"
    by (simp add: guard_eval origin_or_referer_allowed_def origin_matches_def split_origin_def split_once_str.simps strip_prefix_def)
  then have "csrf_guard demo_admin_env (visitor_request ''POST'' ''/login'') (Some visitor_auth) = Run"
    unfolding csrf_guard_def
    by (simp add: guard_eval presented_token_def CSRF_HEADER_def csrf_verify_def CSRF_SECRET_BYTES_def is_safe_method_def)
  then show ?thesis by (simp add: admit_def visitor_session)
qed

lemma state_change_guarded_witness:
  "\<exists>y. memory_get (token_digest (session_env demo_admin_env) demo_token) (sessions visitor_realm) = Some y \<and>
     b64_decode (session_env demo_admin_env) ''C'' = Some (csrf_bytes (csrf_secret y)) \<and> url_of_host ''https://h'' ''h'' True"
proof -
  have i: "insecure_dev demo_admin_env" by (simp add: demo_admin_env_def)
  have p: "presented_token demo_admin_env (visitor_request ''POST'' ''/login'') = Some (Some ''C'')"
    by (simp add: presented_token_def guard_eval CSRF_HEADER_def)
  have u: "\<not> is_safe_method (req_method (visitor_request ''POST'' ''/login''))"
    by (simp add: visitor_request_def is_safe_method_def)
  from state_change_guarded [OF visitor_realm_inv u visitor_login_post] show ?thesis
    by (simp add: p i visitor_auth_def) (auto simp: header_str_def visitor_request_def)
qed

lemma session_reaches_every_path_witness:
  "fst (admit demo_admin_env memory_store 6 (visitor_request ''POST'' ''/users'')
     (snd (login_page demo_admin_env memory_store 5 None realm_new))) = Handled (Some visitor_auth) \<and>
   auth_subject visitor_auth = ''anonymous''"
proof -
  have "visitor_request ''POST'' ''/login''\<lparr>req_path := ''/users''\<rparr> = visitor_request ''POST'' ''/users''"
    by (simp add: visitor_request_def)
  with session_reaches_every_path [OF visitor_realm_inv visitor_login_post, of "''/users''"] show ?thesis
    by (simp add: visitor_login_page visitor_auth_def ANONYMOUS_SUBJECT_def)
qed

lemma no_session_no_entry_witness:
  "fst (admit demo_admin_env memory_store 6 (visitor_request ''POST'' ''/users'') realm_new) = Redirected"
proof -
  obtain out s' where a: "admit demo_admin_env memory_store 6 (visitor_request ''POST'' ''/users'') realm_new = (out, s')"
    by fastforce
  have "memory_get d (sessions realm_new) = None" for d by (simp add: realm_new_def memory_get_def)
  then have "\<nexists>t y. session_token_from_headers demo_admin_env (visitor_request ''POST'' ''/users'')
        (session_cookie_name (insecure_dev demo_admin_env)) = Some t \<and>
      memory_get (token_digest (session_env demo_admin_env) t) (sessions realm_new) = Some y \<and>
      live (session_env demo_admin_env) (manager_policy demo_admin_env) 6 y \<and>
      (record_subject y = ANONYMOUS_SUBJECT \<or> user_enabled demo_admin_env (record_subject y) = Some True)" by simp
  from no_session_no_entry [OF realm_new_inv a this] show ?thesis by (simp add: a) (simp add: visitor_request_def)
qed

lemma login_rotates_session_witness:
  "\<exists>r. record_subject r = ''alice'' \<and> memory_get (record_digest r) (sessions
     (snd (login_post demo_admin_env memory_store 7 (visitor_request ''POST'' ''/login'') (Some visitor_auth) visitor_realm))) = Some r"
proof -
  obtain out s' where l: "login_post demo_admin_env memory_store 7 (visitor_request ''POST'' ''/login'')
      (Some visitor_auth) visitor_realm = (out, s')" by fastforce
  have f: "login_form demo_admin_env (visitor_request ''POST'' ''/login'') = Some (''alice'', ''secret'')"
    and v: "verify_credentials demo_admin_env ''alice'' ''secret'' = Some True" by (simp_all add: demo_admin_env_def)
  have o: "\<nexists>e. out = Session_failed e"
    using l by (auto simp: login_post_def guard_eval Let_def session_rotate_def split: sum.splits)
  from login_rotates_session [OF visitor_realm_inv l]
  have "\<exists>r. record_subject r = ''alice'' \<and> opened_at r = 7 \<and>
      (\<forall>d. memory_get d (sessions s') = (if d = record_digest r then Some r
         else if d = token_digest (session_env demo_admin_env) (auth_token visitor_auth) then None
         else memory_get d (sessions visitor_realm)))"
    using o unfolding f v option.case prod.case by simp
  then show ?thesis unfolding l snd_conv by metis
qed

end
