(* ===== verification/Contract.thy ===== *)
theory Contract
  imports Web
begin

text \<open>
  The boundary to the guest components (\<open>crates/application/src/contract.rs\<close>): the values of the component
  model (\<open>wasmtime::component::Val\<close>), their read-only accessors, the mirror types of the WIT contracts with
  the parsers of what a guest returns, the encoders of what it is given, and the limits of the host.

  \<open>Val\<close> has the constructors the file uses; every other shape of wasmtime's type is \<open>VOther\<close>. Texts are
  their bytes and an \<open>f64\<close> is its bit pattern, as in \<open>Web\<close>. The encoders of return values are those of
  the file's test build; the parsers are stated against them.
\<close>

section \<open>Values and errors\<close>

datatype 'o Val =
    VBool bool
  | VU8 u8
  | VU32 u32
  | VU64 u64
  | VS64 "64 word"
  | VFloat64 "64 word"
  | VString string
  | VList "'o Val list"
  | VRecord "(string \<times> 'o Val) list"
  | VVariant string "'o Val option"
  | VEnum string
  | VOption "'o Val option"
  | VResult "'o Val option + 'o Val option"
  | VFlags "string list"
  | VOther 'o

definition MAX_COMPONENT_ID_LEN :: nat where "MAX_COMPONENT_ID_LEN = 255"
definition MAX_DISPLAY_TEXT_LEN :: nat where "MAX_DISPLAY_TEXT_LEN = 2048"
definition MAX_WEB_ASSET_PATH_LEN :: nat where "MAX_WEB_ASSET_PATH_LEN = 4096"
definition MAX_ASSET_LIST_LEN :: nat where "MAX_ASSET_LIST_LEN = 1024"
definition MAX_APP_PERMISSIONS_LEN :: nat where "MAX_APP_PERMISSIONS_LEN = 256"
definition MAX_APP_PAGES_LEN :: nat where "MAX_APP_PAGES_LEN = 512"
definition MAX_APP_ROUTES_LEN :: nat where "MAX_APP_ROUTES_LEN = 1024"
definition MAX_APP_ROUTE_PARAMS_LEN :: nat where "MAX_APP_ROUTE_PARAMS_LEN = 64"
definition MAX_APP_REQUEST_PARAMS_LEN :: nat where "MAX_APP_REQUEST_PARAMS_LEN = 64"

datatype ContractValueError =
    MissingField string
  | ShapeMismatch string string
  | InvalidVariant string
  | ValueTooLarge string nat

type_synonym 'a parsed = "ContractValueError + 'a"

section \<open>Accessors\<close>

definition as_result_ok :: "'o Val \<Rightarrow> string \<Rightarrow> 'o Val parsed" where
  "as_result_ok v what = (case v of VResult (Inr (Some x)) \<Rightarrow> Inr x | _ \<Rightarrow> Inl (ShapeMismatch what ''result with Ok payload''))"

definition as_result_err :: "'o Val \<Rightarrow> string \<Rightarrow> 'o Val parsed" where
  "as_result_err v what = (case v of VResult (Inl (Some x)) \<Rightarrow> Inr x | _ \<Rightarrow> Inl (ShapeMismatch what ''result with Err payload''))"

definition as_record :: "'o Val \<Rightarrow> string \<Rightarrow> (string \<times> 'o Val) list parsed" where
  "as_record v what = (case v of VRecord fs \<Rightarrow> Inr fs | _ \<Rightarrow> Inl (ShapeMismatch what ''record''))"

definition as_string :: "'o Val \<Rightarrow> string \<Rightarrow> string parsed" where
  "as_string v what = (case v of VString s \<Rightarrow> Inr s | _ \<Rightarrow> Inl (ShapeMismatch what ''string''))"

definition as_enum :: "'o Val \<Rightarrow> string \<Rightarrow> string parsed" where
  "as_enum v what = (case v of VEnum s \<Rightarrow> Inr s | _ \<Rightarrow> Inl (ShapeMismatch what ''enum''))"

definition as_flags :: "'o Val \<Rightarrow> string \<Rightarrow> string list parsed" where
  "as_flags v what = (case v of VFlags ns \<Rightarrow> Inr ns | _ \<Rightarrow> Inl (ShapeMismatch what ''flags''))"

definition as_list :: "'o Val \<Rightarrow> string \<Rightarrow> 'o Val list parsed" where
  "as_list v what = (case v of VList xs \<Rightarrow> Inr xs | _ \<Rightarrow> Inl (ShapeMismatch what ''list''))"

definition field :: "(string \<times> 'o Val) list \<Rightarrow> nat \<Rightarrow> string \<Rightarrow> 'o Val parsed" where
  "field fs i expected =
     (if i < length fs
      then (case fs ! i of (n, v) \<Rightarrow> if n \<noteq> expected then Inl (MissingField expected) else Inr v)
      else Inl (MissingField expected))"

definition string_field :: "(string \<times> 'o Val) list \<Rightarrow> nat \<Rightarrow> string \<Rightarrow> nat \<Rightarrow> string parsed" where
  "string_field fs i n limit =
     and_then (field fs i n) (\<lambda>v.
     and_then (as_string v n) (\<lambda>s.
     if length s > limit then Inl (ValueTooLarge n limit) else Inr s))"

definition u32_field :: "(string \<times> 'o Val) list \<Rightarrow> nat \<Rightarrow> string \<Rightarrow> u32 parsed" where
  "u32_field fs i n =
     and_then (field fs i n) (\<lambda>v. case v of VU32 x \<Rightarrow> Inr x | _ \<Rightarrow> Inl (ShapeMismatch n ''u32''))"

definition u64_field :: "(string \<times> 'o Val) list \<Rightarrow> nat \<Rightarrow> string \<Rightarrow> u64 parsed" where
  "u64_field fs i n =
     and_then (field fs i n) (\<lambda>v. case v of VU64 x \<Rightarrow> Inr x | _ \<Rightarrow> Inl (ShapeMismatch n ''u64''))"

definition option_field :: "(string \<times> 'o Val) list \<Rightarrow> nat \<Rightarrow> string \<Rightarrow> 'o Val option parsed" where
  "option_field fs i n =
     and_then (field fs i n) (\<lambda>v. case v of VOption x \<Rightarrow> Inr x | _ \<Rightarrow> Inl (ShapeMismatch n ''option''))"

text \<open>
  The three ways the parsers read an optional field: a text of any length, a text up to a limit, and a
  record \<open>{ value: string }\<close>.
\<close>

definition option_text :: "(string \<times> 'o Val) list \<Rightarrow> nat \<Rightarrow> string \<Rightarrow> string \<Rightarrow> string option parsed" where
  "option_text fs i n what =
     and_then (option_field fs i n) (\<lambda>x.
     case x of
       None \<Rightarrow> Inr None
     | Some v \<Rightarrow> and_then (as_string v what) (\<lambda>s. Inr (Some s)))"

definition bounded_option_text :: "(string \<times> 'o Val) list \<Rightarrow> nat \<Rightarrow> string \<Rightarrow> string \<Rightarrow> nat \<Rightarrow> string option parsed" where
  "bounded_option_text fs i n what limit =
     and_then (option_field fs i n) (\<lambda>x.
     case x of
       None \<Rightarrow> Inr None
     | Some v \<Rightarrow> and_then (as_string v what) (\<lambda>s. if length s > limit then Inl (ValueTooLarge n limit) else Inr (Some s)))"

definition option_name :: "(string \<times> 'o Val) list \<Rightarrow> nat \<Rightarrow> string \<Rightarrow> string \<Rightarrow> string option parsed" where
  "option_name fs i n what =
     and_then (option_field fs i n) (\<lambda>x.
     case x of
       None \<Rightarrow> Inr None
     | Some v \<Rightarrow>
         and_then (as_record v what) (\<lambda>r.
         and_then (string_field r 0 ''value'' MAX_COMPONENT_ID_LEN) (\<lambda>s. Inr (Some s))))"

text \<open>A field that is a record \<open>{ value: string }\<close>.\<close>

definition wrapped_field :: "(string \<times> 'o Val) list \<Rightarrow> nat \<Rightarrow> string \<Rightarrow> string \<Rightarrow> nat \<Rightarrow> string parsed" where
  "wrapped_field fs i n what limit =
     and_then (field fs i n) (\<lambda>v.
     and_then (as_record v what) (\<lambda>r. string_field r 0 ''value'' limit))"

text \<open>The loop \<open>for item in list { ..?; items.push(..) }\<close>.\<close>

fun parse_items :: "('a \<Rightarrow> 'b parsed) \<Rightarrow> 'a list \<Rightarrow> 'b list parsed" where
  "parse_items f [] = Inr []"
| "parse_items f (x # xs) = and_then (f x) (\<lambda>y. and_then (parse_items f xs) (\<lambda>ys. Inr (y # ys)))"

definition parse_bounded :: "('o Val \<Rightarrow> 'b parsed) \<Rightarrow> 'o Val \<Rightarrow> string \<Rightarrow> string \<Rightarrow> nat \<Rightarrow> 'b list parsed" where
  "parse_bounded f v what name limit =
     and_then (as_list v what) (\<lambda>xs.
     if length xs > limit then Inl (ValueTooLarge name limit) else parse_items f xs)"

text \<open>Encoders of the same shapes.\<close>

definition opt_string :: "string option \<Rightarrow> 'o Val" where
  "opt_string x = VOption (map_option VString x)"

definition value_record :: "string \<Rightarrow> 'o Val" where
  "value_record s = VRecord [(''value'', VString s)]"

definition opt_permission_name :: "string option \<Rightarrow> 'o Val" where
  "opt_permission_name x = VOption (map_option value_record x)"

definition ok_val :: "'o Val \<Rightarrow> 'o Val" where "ok_val v = VResult (Inr (Some v))"
definition err_val :: "string \<Rightarrow> 'o Val" where "err_val n = VResult (Inl (Some (VEnum n)))"

section \<open>Component descriptor\<close>

record GuestAuthorInfo =
  author_display_name :: string
  homepage :: "string option"
  author_description :: "string option"

record GuestComponentDescriptor =
  guest_component_id :: string
  guest_major :: u32
  guest_minor :: u32
  guest_patch :: u32
  component_display_name :: string
  guest_author :: "GuestAuthorInfo option"

datatype GuestDescriptorError = DescriptorMalformed | DescriptorUnsupported | DescriptorInternal

definition build_author_val :: "GuestAuthorInfo \<Rightarrow> 'o Val" where
  "build_author_val a =
     VRecord [(''display-name'', VString (author_display_name a)), (''homepage'', opt_string (homepage a)),
       (''description'', opt_string (author_description a))]"

definition build_component_descriptor_val :: "GuestComponentDescriptor \<Rightarrow> 'o Val" where
  "build_component_descriptor_val d =
     ok_val (VRecord
       [(''component-id'', value_record (guest_component_id d)),
        (''version'', VRecord [(''major'', VU32 (guest_major d)), (''minor'', VU32 (guest_minor d)), (''patch'', VU32 (guest_patch d))]),
        (''display-name'', VString (component_display_name d)),
        (''author'', VOption (map_option build_author_val (guest_author d)))])"

fun descriptor_error_name :: "GuestDescriptorError \<Rightarrow> string" where
  "descriptor_error_name DescriptorMalformed = ''malformed''"
| "descriptor_error_name DescriptorUnsupported = ''unsupported-contract-version''"
| "descriptor_error_name DescriptorInternal = ''internal''"

definition build_descriptor_error_val :: "GuestDescriptorError \<Rightarrow> 'o Val" where
  "build_descriptor_error_val e = err_val (descriptor_error_name e)"

definition parse_author_val :: "'o Val \<Rightarrow> GuestAuthorInfo parsed" where
  "parse_author_val v =
     and_then (as_record v ''author-info'') (\<lambda>fs.
     and_then (string_field fs 0 ''display-name'' MAX_DISPLAY_TEXT_LEN) (\<lambda>dn.
     and_then (option_text fs 1 ''homepage'' ''author-info.homepage'') (\<lambda>hp.
     and_then (option_text fs 2 ''description'' ''author-info.description'') (\<lambda>ds.
     Inr \<lparr>author_display_name = dn, homepage = hp, author_description = ds\<rparr>))))"

definition parse_component_descriptor_val :: "'o Val \<Rightarrow> GuestComponentDescriptor parsed" where
  "parse_component_descriptor_val v =
     and_then (as_result_ok v ''get-descriptor'') (\<lambda>inner.
     and_then (as_record inner ''component-descriptor'') (\<lambda>fs.
     and_then (wrapped_field fs 0 ''component-id'' ''component-id'' MAX_COMPONENT_ID_LEN) (\<lambda>i.
     and_then (field fs 1 ''version'') (\<lambda>ver.
     and_then (as_record ver ''component-version'') (\<lambda>vs.
     and_then (u32_field vs 0 ''major'') (\<lambda>ma.
     and_then (u32_field vs 1 ''minor'') (\<lambda>mi.
     and_then (u32_field vs 2 ''patch'') (\<lambda>pa.
     and_then (string_field fs 2 ''display-name'' MAX_DISPLAY_TEXT_LEN) (\<lambda>dn.
     and_then (option_field fs 3 ''author'') (\<lambda>au.
     and_then (case au of None \<Rightarrow> Inr None | Some a \<Rightarrow> and_then (parse_author_val a) (\<lambda>x. Inr (Some x))) (\<lambda>auth.
     Inr \<lparr>guest_component_id = i, guest_major = ma, guest_minor = mi, guest_patch = pa, component_display_name = dn, guest_author = auth\<rparr>)))))))))))"

definition parse_descriptor_error_val :: "'o Val \<Rightarrow> GuestDescriptorError parsed" where
  "parse_descriptor_error_val v =
     and_then (as_result_err v ''get-descriptor'') (\<lambda>p.
     and_then (as_enum p ''descriptor-error'') (\<lambda>n.
     if n = ''malformed'' then Inr DescriptorMalformed
     else if n = ''unsupported-contract-version'' then Inr DescriptorUnsupported
     else if n = ''internal'' then Inr DescriptorInternal
     else Inl (InvalidVariant n)))"

section \<open>State declaration\<close>

record GuestStateDeclaration =
  state_name :: "string option"
  declared_schema_version :: u32

datatype GuestStateDeclarationError = StateMalformed | StateUnsupported | StateInternal

definition parse_state_declaration_val :: "'o Val \<Rightarrow> GuestStateDeclaration parsed" where
  "parse_state_declaration_val v =
     and_then (as_result_ok v ''get-state-declaration'') (\<lambda>inner.
     and_then (as_record inner ''state-declaration'') (\<lambda>fs.
     and_then (bounded_option_text fs 0 ''name'' ''state-declaration.name'' MAX_DISPLAY_TEXT_LEN) (\<lambda>n.
     and_then (field fs 1 ''schema-version'') (\<lambda>sv.
     and_then (as_record sv ''state-schema-version'') (\<lambda>r.
     and_then (u32_field r 0 ''value'') (\<lambda>x.
     Inr \<lparr>state_name = n, declared_schema_version = x\<rparr>))))))"

definition build_state_declaration_val :: "GuestStateDeclaration \<Rightarrow> 'o Val" where
  "build_state_declaration_val d =
     ok_val (VRecord
       [(''name'', opt_string (state_name d)),
        (''schema-version'', VRecord [(''value'', VU32 (declared_schema_version d))])])"

fun state_error_name :: "GuestStateDeclarationError \<Rightarrow> string" where
  "state_error_name StateMalformed = ''malformed''"
| "state_error_name StateUnsupported = ''unsupported-contract-version''"
| "state_error_name StateInternal = ''internal''"

definition build_state_declaration_error_val :: "GuestStateDeclarationError \<Rightarrow> 'o Val" where
  "build_state_declaration_error_val e = err_val (state_error_name e)"

definition parse_state_declaration_error_val :: "'o Val \<Rightarrow> GuestStateDeclarationError parsed" where
  "parse_state_declaration_error_val v =
     and_then (as_result_err v ''get-state-declaration'') (\<lambda>p.
     and_then (as_enum p ''state-declaration-error'') (\<lambda>n.
     if n = ''malformed'' then Inr StateMalformed
     else if n = ''unsupported-contract-version'' then Inr StateUnsupported
     else if n = ''internal'' then Inr StateInternal
     else Inl (InvalidVariant n)))"

section \<open>Web descriptor, assets and actions (\<open>operune:web@0.1\<close>)\<close>

record GuestWebFeatures =
  web_static_assets :: bool
  web_backend_actions :: bool

record GuestWebDescriptor =
  web_entry :: string
  web_features :: GuestWebFeatures
  web_display_name :: "string option"

definition build_web_descriptor_val :: "GuestWebDescriptor \<Rightarrow> 'o Val" where
  "build_web_descriptor_val d =
     ok_val (VRecord
       [(''entry'', value_record (web_entry d)),
        (''features'', VFlags
           ((if web_static_assets (web_features d) then [''static-assets''] else []) @
            (if web_backend_actions (web_features d) then [''backend-actions''] else []))),
        (''display-name'', opt_string (web_display_name d))])"

definition parse_web_descriptor_val :: "'o Val \<Rightarrow> GuestWebDescriptor parsed" where
  "parse_web_descriptor_val v =
     and_then (as_result_ok v ''get-web-descriptor'') (\<lambda>inner.
     and_then (as_record inner ''web-descriptor'') (\<lambda>fs.
     and_then (wrapped_field fs 0 ''entry'' ''asset-path'' MAX_WEB_ASSET_PATH_LEN) (\<lambda>e.
     and_then (field fs 1 ''features'') (\<lambda>fv.
     and_then (as_flags fv ''web-features'') (\<lambda>flags.
     and_then (option_text fs 2 ''display-name'' ''web-descriptor.display-name'') (\<lambda>dn.
     Inr \<lparr>web_entry = e,
       web_features = \<lparr>web_static_assets = ''static-assets'' \<in> set flags, web_backend_actions = ''backend-actions'' \<in> set flags\<rparr>,
       web_display_name = dn\<rparr>))))))"

record GuestAssetMetadata =
  asset_path :: string
  asset_size :: u64
  content_type :: "string option"

definition build_asset_val :: "GuestAssetMetadata \<Rightarrow> 'o Val" where
  "build_asset_val a =
     VRecord [(''path'', value_record (asset_path a)), (''size'', VU64 (asset_size a)),
       (''content-type'', opt_string (content_type a))]"

definition build_asset_list_val :: "GuestAssetMetadata list \<Rightarrow> 'o Val" where
  "build_asset_list_val as = ok_val (VList (map build_asset_val as))"

definition parse_asset_val :: "'o Val \<Rightarrow> GuestAssetMetadata parsed" where
  "parse_asset_val item =
     and_then (as_record item ''asset-metadata'') (\<lambda>fs.
     and_then (wrapped_field fs 0 ''path'' ''asset-path'' MAX_WEB_ASSET_PATH_LEN) (\<lambda>p.
     and_then (u64_field fs 1 ''size'') (\<lambda>sz.
     and_then (option_text fs 2 ''content-type'' ''asset-metadata.content-type'') (\<lambda>ct.
     Inr \<lparr>asset_path = p, asset_size = sz, content_type = ct\<rparr>))))"

definition parse_asset_list_val :: "'o Val \<Rightarrow> GuestAssetMetadata list parsed" where
  "parse_asset_list_val v =
     and_then (as_result_ok v ''list-assets'') (\<lambda>inner.
     parse_bounded parse_asset_val inner ''asset-metadata list'' ''assets'' MAX_ASSET_LIST_LEN)"

datatype GuestActionPayload = JsonPayload string | RawPayload "u8 list"

record GuestActionRequest =
  action :: string
  action_payload :: GuestActionPayload

datatype GuestActionError = ActionNotFound | ActionInvalidPayload | ActionInternal

fun build_action_payload_val :: "GuestActionPayload \<Rightarrow> 'o Val" where
  "build_action_payload_val (JsonPayload s) = VVariant ''json'' (Some (VString s))"
| "build_action_payload_val (RawPayload bs) = VVariant ''raw'' (Some (VList (map VU8 bs)))"

definition build_action_request_val :: "GuestActionRequest \<Rightarrow> 'o Val" where
  "build_action_request_val r =
     VRecord [(''action'', value_record (action r)), (''payload'', build_action_payload_val (action_payload r))]"

fun parse_bytes :: "'o Val list \<Rightarrow> u8 list option" where
  "parse_bytes [] = Some []"
| "parse_bytes (v # vs) =
     (case v of VU8 b \<Rightarrow> map_option (\<lambda>bs. b # bs) (parse_bytes vs) | _ \<Rightarrow> None)"

definition parse_action_result_val :: "'o Val \<Rightarrow> GuestActionError + u8 list" where
  "parse_action_result_val v =
     (case v of
        VResult (Inr (Some (VList items))) \<Rightarrow>
          (case parse_bytes items of Some bs \<Rightarrow> Inr bs | None \<Rightarrow> Inl ActionInvalidPayload)
      | VResult (Inl (Some (VEnum n))) \<Rightarrow>
          Inl (if n = ''not-found'' then ActionNotFound
               else if n = ''invalid-payload'' then ActionInvalidPayload
               else ActionInternal)
      | _ \<Rightarrow> Inl ActionInvalidPayload)"

section \<open>App descriptor (\<open>operune:web@0.2\<close>)\<close>

record GuestAppFeatures =
  app_static_assets :: bool
  app_backend_actions :: bool
  app_navigation :: bool
  app_typed_routes :: bool
  app_permissions :: bool

record GuestPermissionDeclaration =
  guest_permission :: string
  guest_permission_text :: "string option"

record GuestPageDeclaration =
  guest_page_id :: string
  guest_page_path :: string
  guest_page_name :: "string option"
  guest_page_permission :: "string option"

record GuestRouteParamDecl =
  guest_param :: string
  guest_value_type :: string

record GuestRouteDeclaration =
  guest_route_id :: string
  guest_method :: string
  guest_route_path :: string
  guest_params :: "GuestRouteParamDecl list"
  guest_route_permission :: "string option"

record GuestAppDescriptor =
  app_entry :: string
  app_features :: GuestAppFeatures
  app_name :: "string option"
  guest_permissions :: "GuestPermissionDeclaration list"
  guest_pages :: "GuestPageDeclaration list"
  guest_routes :: "GuestRouteDeclaration list"
  guest_default_page :: "string option"

datatype GuestAppDescriptorError =
    AppMalformed | AppUnsupported | AppRouteIdConflict | AppPageIdConflict | AppPathConflict
  | AppInvalidPathTemplate | AppParamMismatch | AppInvalidPermission | AppInternal

definition app_flags :: "GuestAppFeatures \<Rightarrow> string list" where
  "app_flags f =
     (if app_static_assets f then [''static-assets''] else []) @
     (if app_backend_actions f then [''backend-actions''] else []) @
     (if app_navigation f then [''navigation''] else []) @
     (if app_typed_routes f then [''typed-routes''] else []) @
     (if app_permissions f then [''permissions''] else [])"

definition features_of_flags :: "string list \<Rightarrow> GuestAppFeatures" where
  "features_of_flags ns =
     \<lparr>app_static_assets = ''static-assets'' \<in> set ns, app_backend_actions = ''backend-actions'' \<in> set ns,
      app_navigation = ''navigation'' \<in> set ns, app_typed_routes = ''typed-routes'' \<in> set ns,
      app_permissions = ''permissions'' \<in> set ns\<rparr>"

definition build_permission_val :: "GuestPermissionDeclaration \<Rightarrow> 'o Val" where
  "build_permission_val p =
     VRecord [(''name'', value_record (guest_permission p)), (''description'', opt_string (guest_permission_text p))]"

definition build_page_val :: "GuestPageDeclaration \<Rightarrow> 'o Val" where
  "build_page_val p =
     VRecord [(''page-id'', value_record (guest_page_id p)), (''path'', value_record (guest_page_path p)),
       (''display-name'', opt_string (guest_page_name p)), (''required-permission'', opt_permission_name (guest_page_permission p))]"

definition build_route_param_val :: "GuestRouteParamDecl \<Rightarrow> 'o Val" where
  "build_route_param_val p = VRecord [(''name'', VString (guest_param p)), (''value-type'', VEnum (guest_value_type p))]"

definition build_route_val :: "GuestRouteDeclaration \<Rightarrow> 'o Val" where
  "build_route_val r =
     VRecord [(''route-id'', value_record (guest_route_id r)), (''method'', VEnum (guest_method r)),
       (''path'', value_record (guest_route_path r)), (''params'', VList (map build_route_param_val (guest_params r))),
       (''required-permission'', opt_permission_name (guest_route_permission r))]"

definition build_app_descriptor_val :: "GuestAppDescriptor \<Rightarrow> 'o Val" where
  "build_app_descriptor_val d =
     ok_val (VRecord
       [(''entry'', value_record (app_entry d)), (''features'', VFlags (app_flags (app_features d))),
        (''display-name'', opt_string (app_name d)),
        (''permissions'', VList (map build_permission_val (guest_permissions d))),
        (''pages'', VList (map build_page_val (guest_pages d))),
        (''routes'', VList (map build_route_val (guest_routes d))),
        (''default-page'', opt_permission_name (guest_default_page d))])"

fun app_error_name :: "GuestAppDescriptorError \<Rightarrow> string" where
  "app_error_name AppMalformed = ''malformed''"
| "app_error_name AppUnsupported = ''unsupported-contract-version''"
| "app_error_name AppRouteIdConflict = ''route-id-conflict''"
| "app_error_name AppPageIdConflict = ''page-id-conflict''"
| "app_error_name AppPathConflict = ''path-conflict''"
| "app_error_name AppInvalidPathTemplate = ''invalid-path-template''"
| "app_error_name AppParamMismatch = ''param-mismatch''"
| "app_error_name AppInvalidPermission = ''invalid-permission''"
| "app_error_name AppInternal = ''internal''"

definition build_app_descriptor_error_val :: "GuestAppDescriptorError \<Rightarrow> 'o Val" where
  "build_app_descriptor_error_val e = err_val (app_error_name e)"

definition parse_permission_val :: "'o Val \<Rightarrow> GuestPermissionDeclaration parsed" where
  "parse_permission_val item =
     and_then (as_record item ''permission-declaration'') (\<lambda>fs.
     and_then (wrapped_field fs 0 ''name'' ''permission-name'' MAX_COMPONENT_ID_LEN) (\<lambda>n.
     and_then (bounded_option_text fs 1 ''description'' ''permission-declaration.description'' MAX_DISPLAY_TEXT_LEN) (\<lambda>d.
     Inr \<lparr>guest_permission = n, guest_permission_text = d\<rparr>)))"

definition parse_permission_list :: "'o Val \<Rightarrow> GuestPermissionDeclaration list parsed" where
  "parse_permission_list v =
     parse_bounded parse_permission_val v ''permission-declaration list'' ''permissions'' MAX_APP_PERMISSIONS_LEN"

definition parse_page_val :: "'o Val \<Rightarrow> GuestPageDeclaration parsed" where
  "parse_page_val item =
     and_then (as_record item ''page-declaration'') (\<lambda>fs.
     and_then (wrapped_field fs 0 ''page-id'' ''page-id'' MAX_COMPONENT_ID_LEN) (\<lambda>i.
     and_then (wrapped_field fs 1 ''path'' ''page-path'' MAX_WEB_ASSET_PATH_LEN) (\<lambda>p.
     and_then (bounded_option_text fs 2 ''display-name'' ''page-declaration.display-name'' MAX_DISPLAY_TEXT_LEN) (\<lambda>dn.
     and_then (option_name fs 3 ''required-permission'' ''permission-name'') (\<lambda>rp.
     Inr \<lparr>guest_page_id = i, guest_page_path = p, guest_page_name = dn, guest_page_permission = rp\<rparr>)))))"

definition parse_page_list :: "'o Val \<Rightarrow> GuestPageDeclaration list parsed" where
  "parse_page_list v = parse_bounded parse_page_val v ''page-declaration list'' ''pages'' MAX_APP_PAGES_LEN"

definition enum_field :: "(string \<times> 'o Val) list \<Rightarrow> nat \<Rightarrow> string \<Rightarrow> string parsed" where
  "enum_field fs i n = and_then (field fs i n) (\<lambda>v. as_enum v n)"

definition parse_route_param_val :: "'o Val \<Rightarrow> GuestRouteParamDecl parsed" where
  "parse_route_param_val item =
     and_then (as_record item ''route-param'') (\<lambda>fs.
     and_then (string_field fs 0 ''name'' MAX_COMPONENT_ID_LEN) (\<lambda>n.
     and_then (enum_field fs 1 ''value-type'') (\<lambda>t.
     Inr \<lparr>guest_param = n, guest_value_type = t\<rparr>)))"

definition parse_route_val :: "'o Val \<Rightarrow> GuestRouteDeclaration parsed" where
  "parse_route_val item =
     and_then (as_record item ''route-declaration'') (\<lambda>fs.
     and_then (wrapped_field fs 0 ''route-id'' ''route-id'' MAX_COMPONENT_ID_LEN) (\<lambda>i.
     and_then (enum_field fs 1 ''method'') (\<lambda>m.
     and_then (wrapped_field fs 2 ''path'' ''path-template'' MAX_WEB_ASSET_PATH_LEN) (\<lambda>p.
     and_then (field fs 3 ''params'') (\<lambda>pv.
     and_then (parse_bounded parse_route_param_val pv ''params'' ''params'' MAX_APP_ROUTE_PARAMS_LEN) (\<lambda>ps.
     and_then (option_name fs 4 ''required-permission'' ''permission-name'') (\<lambda>rp.
     Inr \<lparr>guest_route_id = i, guest_method = m, guest_route_path = p, guest_params = ps, guest_route_permission = rp\<rparr>)))))))"

definition parse_route_list :: "'o Val \<Rightarrow> GuestRouteDeclaration list parsed" where
  "parse_route_list v = parse_bounded parse_route_val v ''route-declaration list'' ''routes'' MAX_APP_ROUTES_LEN"

definition parse_app_descriptor_val :: "'o Val \<Rightarrow> GuestAppDescriptor parsed" where
  "parse_app_descriptor_val v =
     and_then (as_result_ok v ''get-app-descriptor'') (\<lambda>inner.
     and_then (as_record inner ''app-descriptor'') (\<lambda>fs.
     and_then (wrapped_field fs 0 ''entry'' ''asset-path'' MAX_WEB_ASSET_PATH_LEN) (\<lambda>e.
     and_then (field fs 1 ''features'') (\<lambda>fv.
     and_then (as_flags fv ''app-features'') (\<lambda>flags.
     and_then (bounded_option_text fs 2 ''display-name'' ''app-descriptor.display-name'' MAX_DISPLAY_TEXT_LEN) (\<lambda>dn.
     and_then (field fs 3 ''permissions'') (\<lambda>pv. and_then (parse_permission_list pv) (\<lambda>perms.
     and_then (field fs 4 ''pages'') (\<lambda>gv. and_then (parse_page_list gv) (\<lambda>pgs.
     and_then (field fs 5 ''routes'') (\<lambda>rv. and_then (parse_route_list rv) (\<lambda>rts.
     and_then (option_name fs 6 ''default-page'' ''page-id'') (\<lambda>dp.
     Inr \<lparr>app_entry = e, app_features = features_of_flags flags, app_name = dn, guest_permissions = perms,
       guest_pages = pgs, guest_routes = rts, guest_default_page = dp\<rparr>)))))))))))))"

definition parse_app_descriptor_error_val :: "'o Val \<Rightarrow> GuestAppDescriptorError parsed" where
  "parse_app_descriptor_error_val v =
     and_then (as_result_err v ''get-app-descriptor'') (\<lambda>p.
     and_then (as_enum p ''app-descriptor-error'') (\<lambda>n.
     if n = ''malformed'' then Inr AppMalformed
     else if n = ''unsupported-contract-version'' then Inr AppUnsupported
     else if n = ''route-id-conflict'' then Inr AppRouteIdConflict
     else if n = ''page-id-conflict'' then Inr AppPageIdConflict
     else if n = ''path-conflict'' then Inr AppPathConflict
     else if n = ''invalid-path-template'' then Inr AppInvalidPathTemplate
     else if n = ''param-mismatch'' then Inr AppParamMismatch
     else if n = ''invalid-permission'' then Inr AppInvalidPermission
     else if n = ''internal'' then Inr AppInternal
     else Inl (InvalidVariant n)))"

section \<open>Route requests and results\<close>

datatype GuestParamValue =
    TextParam string | IntegerParam "64 word" | UnsignedParam u64 | BooleanParam bool | DecimalParam "64 word"

fun guest_param_type :: "GuestParamValue \<Rightarrow> ParamType" where
  "guest_param_type (TextParam _) = TextType"
| "guest_param_type (IntegerParam _) = IntegerType"
| "guest_param_type (UnsignedParam _) = UnsignedType"
| "guest_param_type (BooleanParam _) = BooleanType"
| "guest_param_type (DecimalParam _) = DecimalType"

record GuestTypedParam =
  request_param :: string
  request_value :: GuestParamValue

record GuestRouteRequest =
  request_route :: string
  request_params :: "GuestTypedParam list"
  request_payload :: "GuestActionPayload option"

datatype GuestRouteError = RouteErrNotFound | RouteErrInvalidParams | RouteErrInvalidPayload | RouteErrInternal

fun build_param_value_val :: "GuestParamValue \<Rightarrow> 'o Val" where
  "build_param_value_val (TextParam s) = VVariant ''text'' (Some (VString s))"
| "build_param_value_val (IntegerParam x) = VVariant ''integer'' (Some (VS64 x))"
| "build_param_value_val (UnsignedParam x) = VVariant ''unsigned'' (Some (VU64 x))"
| "build_param_value_val (BooleanParam b) = VVariant ''boolean'' (Some (VBool b))"
| "build_param_value_val (DecimalParam x) = VVariant ''decimal'' (Some (VFloat64 x))"

definition build_typed_param_val :: "GuestTypedParam \<Rightarrow> 'o Val" where
  "build_typed_param_val p =
     VRecord [(''name'', VString (request_param p)), (''value'', build_param_value_val (request_value p))]"

definition build_route_request_val :: "GuestRouteRequest \<Rightarrow> 'o Val" where
  "build_route_request_val r =
     VRecord [(''route-id'', value_record (request_route r)), (''params'', VList (map build_typed_param_val (request_params r))),
       (''payload'', VOption (map_option build_action_payload_val (request_payload r)))]"

definition parse_route_result_val :: "'o Val \<Rightarrow> GuestRouteError + u8 list" where
  "parse_route_result_val v =
     (case v of
        VResult (Inr (Some (VList items))) \<Rightarrow>
          (case parse_bytes items of Some bs \<Rightarrow> Inr bs | None \<Rightarrow> Inl RouteErrInvalidPayload)
      | VResult (Inl (Some (VEnum n))) \<Rightarrow>
          Inl (if n = ''not-found'' then RouteErrNotFound
               else if n = ''invalid-params'' then RouteErrInvalidParams
               else if n = ''invalid-payload'' then RouteErrInvalidPayload
               else RouteErrInternal)
      | _ \<Rightarrow> Inl RouteErrInvalidPayload)"

section \<open>What the accessors accept\<close>

lemma as_Inr [result_simps]:
  "as_result_ok v w = Inr x \<longleftrightarrow> v = VResult (Inr (Some x))"
  "as_result_err v w = Inr x \<longleftrightarrow> v = VResult (Inl (Some x))"
  "as_record v w = Inr fs \<longleftrightarrow> v = VRecord fs"
  "as_string v w = Inr s \<longleftrightarrow> v = VString s"
  "as_enum v w = Inr s \<longleftrightarrow> v = VEnum s"
  "as_flags v w = Inr ns \<longleftrightarrow> v = VFlags ns"
  "as_list v w = Inr xs \<longleftrightarrow> v = VList xs"
  by (auto simp: as_result_ok_def as_result_err_def as_record_def as_string_def as_enum_def as_flags_def as_list_def
      split: Val.splits sum.splits option.splits)

lemma as_simps [simp]:
  "as_result_ok (VResult (Inr (Some x))) w = Inr x"
  "as_result_err (VResult (Inl (Some x))) w = Inr x"
  "as_record (VRecord fs) w = Inr fs"
  "as_string (VString s) w = Inr s"
  "as_enum (VEnum s) w = Inr s"
  "as_flags (VFlags ns) w = Inr ns"
  "as_list (VList xs) w = Inr xs"
  by (simp_all add: as_Inr)

lemma field_simps [simp]:
  "field ((n, v) # fs) 0 n = Inr v"
  "field (f # fs) (Suc i) n = field fs i n"
  by (simp_all add: field_def)

lemma field_numeral [simp]: "field (f # fs) (numeral k) n = field fs (pred_numeral k) n"
  by (simp add: numeral_eq_Suc)

lemma field_one [simp]: "field (f # fs) 1 n = field fs 0 n"
  by (simp add: field_def)

lemma string_field_Inr: "string_field fs i n l = Inr s \<longleftrightarrow> field fs i n = Inr (VString s) \<and> length s \<le> l"
  by (auto simp: string_field_def result_simps split: if_splits intro!: exI [of _ s])

lemma wrapped_field_value [simp]:
  "wrapped_field ((n, value_record s) # fs) 0 n w l = (if length s > l then Inl (ValueTooLarge ''value'' l) else Inr s)"
  "wrapped_field (f # fs) (Suc i) n w l = wrapped_field fs i n w l"
  by (simp_all add: wrapped_field_def value_record_def string_field_def)

lemma parse_items_Inr: "parse_items f xs = Inr ys \<longleftrightarrow> list_all2 (\<lambda>x y. f x = Inr y) xs ys"
  by (induction xs arbitrary: ys) (auto simp: result_simps list_all2_Cons1)

lemma wrapped_field_Inr: "wrapped_field fs i n w l = Inr s \<Longrightarrow> length s \<le> l"
  by (auto simp: wrapped_field_def result_simps string_field_Inr)

lemma bounded_option_text_Inr: "bounded_option_text fs i n w l = Inr x \<Longrightarrow> (\<forall>s. x = Some s \<longrightarrow> length s \<le> l)"
  by (auto simp: bounded_option_text_def result_simps split: option.splits if_splits)

lemma option_name_Inr: "option_name fs i n w = Inr x \<Longrightarrow> (\<forall>s. x = Some s \<longrightarrow> length s \<le> MAX_COMPONENT_ID_LEN)"
  by (auto simp: option_name_def result_simps string_field_Inr split: option.splits)

lemma option_simps [simp]:
  "option_text ((n, opt_string x) # fs) 0 n w = Inr x"
  "option_text (f # fs) (Suc i) n w = option_text fs i n w"
  "bounded_option_text ((n, opt_string x) # fs) 0 n w l =
     (case x of Some s \<Rightarrow> if length s > l then Inl (ValueTooLarge n l) else Inr x | None \<Rightarrow> Inr x)"
  "bounded_option_text (f # fs) (Suc i) n w l = bounded_option_text fs i n w l"
  "option_name ((n, opt_permission_name x) # fs) 0 n w =
     (case x of Some s \<Rightarrow> if length s > MAX_COMPONENT_ID_LEN then Inl (ValueTooLarge ''value'' MAX_COMPONENT_ID_LEN) else Inr x
      | None \<Rightarrow> Inr x)"
  "option_name (f # fs) (Suc i) n w = option_name fs i n w"
  by (cases x; simp add: option_text_def option_field_def bounded_option_text_def option_name_def opt_string_def
      opt_permission_name_def value_record_def string_field_def)+

lemma at_numeral [simp]:
  "wrapped_field (f # fs) (numeral k) n w l = wrapped_field fs (pred_numeral k) n w l"
  "string_field (f # fs) (numeral k) n l = string_field fs (pred_numeral k) n l"
  "string_field (f # fs) (Suc i) n l = string_field fs i n l"
  "string_field ((n, VString s) # fs) 0 n l = (if length s > l then Inl (ValueTooLarge n l) else Inr s)"
  "option_text (f # fs) (numeral k) n w = option_text fs (pred_numeral k) n w"
  "bounded_option_text (f # fs) (numeral k) n w l = bounded_option_text fs (pred_numeral k) n w l"
  "option_name (f # fs) (numeral k) n w = option_name fs (pred_numeral k) n w"
  "option_field (f # fs) (numeral k) n = option_field fs (pred_numeral k) n"
  "option_field (f # fs) (Suc i) n = option_field fs i n"
  "option_field ((n, VOption x) # fs) 0 n = Inr x"
  "u32_field (f # fs) (numeral k) n = u32_field fs (pred_numeral k) n"
  "u32_field (f # fs) (Suc i) n = u32_field fs i n"
  "u32_field ((n, VU32 y) # fs) 0 n = Inr y"
  "u64_field (f # fs) (Suc i) n = u64_field fs i n"
  "u64_field ((n, VU64 z) # fs) 0 n = Inr z"
  "enum_field (f # fs) (Suc i) n = enum_field fs i n"
  "enum_field ((n, VEnum s) # fs) 0 n = Inr s"
  by (simp_all add: wrapped_field_def string_field_def option_text_def bounded_option_text_def option_name_def
      option_field_def u32_field_def u64_field_def enum_field_def numeral_eq_Suc)

section \<open>Parsers with limits\<close>

text \<open>
  What a parser owes to the encoder of its type: it accepts nothing beyond the limits, it reads back what
  is encoded within them, and what is encoded beyond them it refuses for its size.
\<close>

definition too_large :: "'a parsed \<Rightarrow> bool" where
  "too_large r \<longleftrightarrow> (\<exists>f l. r = Inl (ValueTooLarge f l))"

lemma too_large_simps [simp]:
  "too_large (Inl (ValueTooLarge f l))" "\<not> too_large (Inr x)"
  by (simp_all add: too_large_def)

lemma too_large_and_then: "too_large r \<Longrightarrow> too_large (and_then r k)"
  by (auto simp: too_large_def)

locale bounded_codec =
  fixes parse :: "'o Val \<Rightarrow> 'a parsed" and build :: "'a \<Rightarrow> 'o Val" and ok :: "'a \<Rightarrow> bool"
  assumes parsed_ok: "parse v = Inr x \<Longrightarrow> ok x"
    and build_ok: "ok x \<Longrightarrow> parse (build x) = Inr x"
    and build_large: "\<not> ok x \<Longrightarrow> too_large (parse (build x))"
begin

lemma accepts_iff: "(\<exists>v. parse v = Inr x) \<longleftrightarrow> ok x"
  using parsed_ok build_ok by blast

lemma reads_back_iff: "parse (build x) = Inr x \<longleftrightarrow> ok x"
  using parsed_ok build_ok by blast

lemma build_inj: "ok x \<Longrightarrow> ok y \<Longrightarrow> build x = build y \<longleftrightarrow> x = y"
  by (metis build_ok sum.inject(2))

lemma items_ok: "parse_items parse vs = Inr xs \<Longrightarrow> list_all ok xs"
  by (induction vs arbitrary: xs) (auto simp: result_simps parsed_ok)

lemma items_build: "list_all ok xs \<Longrightarrow> parse_items parse (map build xs) = Inr xs"
  by (induction xs) (auto simp: build_ok)

lemma items_large: "\<not> list_all ok xs \<Longrightarrow> too_large (parse_items parse (map build xs))"
proof (induction xs)
  case (Cons x xs)
  show ?case
  proof (cases "ok x")
    case True
    with Cons show ?thesis by (auto simp: build_ok intro: too_large_and_then)
  next
    case False
    then show ?thesis by (auto intro: too_large_and_then build_large)
  qed
qed simp

end

text \<open>The parser of a bounded list.\<close>

locale bounded_list = bounded_codec +
  fixes what name :: string and limit :: nat

sublocale bounded_list \<subseteq> items: bounded_codec
  "\<lambda>v. parse_bounded parse v what name limit" "\<lambda>xs. VList (map build xs)" "\<lambda>xs. length xs \<le> limit \<and> list_all ok xs"
proof unfold_locales
  show "parse_bounded parse v what name limit = Inr xs \<Longrightarrow> length xs \<le> limit \<and> list_all ok xs" for v xs
    using items_ok
    by (auto simp: parse_bounded_def result_simps parse_items_Inr split: if_splits dest: list_all2_lengthD)
  show "length xs \<le> limit \<and> list_all ok xs \<Longrightarrow> parse_bounded parse (VList (map build xs)) what name limit = Inr xs" for xs
    by (simp add: parse_bounded_def items_build)
  show "\<not> (length xs \<le> limit \<and> list_all ok xs) \<Longrightarrow> too_large (parse_bounded parse (VList (map build xs)) what name limit)" for xs
    by (cases "length xs \<le> limit") (auto simp: parse_bounded_def items_large)
qed

section \<open>The limits of each type\<close>

definition fits :: "nat \<Rightarrow> string option \<Rightarrow> bool" where
  "fits l x \<longleftrightarrow> (case x of Some s \<Rightarrow> length s \<le> l | None \<Rightarrow> True)"

lemma fits_simps [simp]: "fits l None" "fits l (Some s) \<longleftrightarrow> length s \<le> l"
  by (simp_all add: fits_def)

lemma fits_split: "(case x of Some s \<Rightarrow> if length s > l then a else b | None \<Rightarrow> b) = (if fits l x then b else a)"
  by (cases x) auto

lemma fits_Inr:
  "bounded_option_text fs i n w l = Inr x \<Longrightarrow> fits l x"
  "option_name fs i n w = Inr x \<Longrightarrow> fits MAX_COMPONENT_ID_LEN x"
  using bounded_option_text_Inr option_name_Inr by (fastforce simp: fits_def split: option.split)+

definition author_fits :: "GuestAuthorInfo \<Rightarrow> bool" where
  "author_fits a \<longleftrightarrow> length (author_display_name a) \<le> MAX_DISPLAY_TEXT_LEN"

definition descriptor_fits :: "GuestComponentDescriptor \<Rightarrow> bool" where
  "descriptor_fits d \<longleftrightarrow> length (guest_component_id d) \<le> MAX_COMPONENT_ID_LEN \<and>
     length (component_display_name d) \<le> MAX_DISPLAY_TEXT_LEN \<and> pred_option author_fits (guest_author d)"

definition asset_fits :: "GuestAssetMetadata \<Rightarrow> bool" where
  "asset_fits a \<longleftrightarrow> length (asset_path a) \<le> MAX_WEB_ASSET_PATH_LEN"

definition permission_fits :: "GuestPermissionDeclaration \<Rightarrow> bool" where
  "permission_fits p \<longleftrightarrow> length (guest_permission p) \<le> MAX_COMPONENT_ID_LEN \<and> fits MAX_DISPLAY_TEXT_LEN (guest_permission_text p)"

definition page_fits :: "GuestPageDeclaration \<Rightarrow> bool" where
  "page_fits p \<longleftrightarrow> length (guest_page_id p) \<le> MAX_COMPONENT_ID_LEN \<and> length (guest_page_path p) \<le> MAX_WEB_ASSET_PATH_LEN \<and>
     fits MAX_DISPLAY_TEXT_LEN (guest_page_name p) \<and> fits MAX_COMPONENT_ID_LEN (guest_page_permission p)"

definition route_param_fits :: "GuestRouteParamDecl \<Rightarrow> bool" where
  "route_param_fits p \<longleftrightarrow> length (guest_param p) \<le> MAX_COMPONENT_ID_LEN"

definition route_fits :: "GuestRouteDeclaration \<Rightarrow> bool" where
  "route_fits r \<longleftrightarrow> length (guest_route_id r) \<le> MAX_COMPONENT_ID_LEN \<and> length (guest_route_path r) \<le> MAX_WEB_ASSET_PATH_LEN \<and>
     (length (guest_params r) \<le> MAX_APP_ROUTE_PARAMS_LEN \<and> list_all route_param_fits (guest_params r)) \<and>
     fits MAX_COMPONENT_ID_LEN (guest_route_permission r)"

definition app_fits :: "GuestAppDescriptor \<Rightarrow> bool" where
  "app_fits d \<longleftrightarrow> length (app_entry d) \<le> MAX_WEB_ASSET_PATH_LEN \<and> fits MAX_DISPLAY_TEXT_LEN (app_name d) \<and>
     (length (guest_permissions d) \<le> MAX_APP_PERMISSIONS_LEN \<and> list_all permission_fits (guest_permissions d)) \<and>
     (length (guest_pages d) \<le> MAX_APP_PAGES_LEN \<and> list_all page_fits (guest_pages d)) \<and>
     (length (guest_routes d) \<le> MAX_APP_ROUTES_LEN \<and> list_all route_fits (guest_routes d)) \<and>
     fits MAX_COMPONENT_ID_LEN (guest_default_page d)"

lemmas build_simps = build_component_descriptor_val_def build_state_declaration_val_def
  build_web_descriptor_val_def build_asset_val_def build_asset_list_val_def build_permission_val_def build_page_val_def
  build_route_param_val_def build_route_val_def build_app_descriptor_val_def ok_val_def err_val_def

interpretation author: bounded_codec parse_author_val build_author_val author_fits
proof unfold_locales
  show "parse_author_val v = Inr a \<Longrightarrow> author_fits a" for v :: "'o Val" and a
    by (auto simp: parse_author_val_def author_fits_def result_simps string_field_Inr)
  show "author_fits a \<Longrightarrow> parse_author_val (build_author_val a) = Inr a"
    and "\<not> author_fits a \<Longrightarrow> too_large (parse_author_val (build_author_val a))" for a
    by (simp_all add: parse_author_val_def build_author_val_def author_fits_def)
qed

interpretation descriptor: bounded_codec parse_component_descriptor_val build_component_descriptor_val descriptor_fits
proof unfold_locales
  show "descriptor_fits d" if "parse_component_descriptor_val v = Inr d" for v :: "'o Val" and d
  proof -
    from that show ?thesis
      by (auto simp: parse_component_descriptor_val_def descriptor_fits_def result_simps string_field_Inr
          dest!: wrapped_field_Inr author.parsed_ok split: option.splits)
  qed
  show "descriptor_fits d \<Longrightarrow> parse_component_descriptor_val (build_component_descriptor_val d) = Inr d"
    and "\<not> descriptor_fits d \<Longrightarrow> too_large (parse_component_descriptor_val (build_component_descriptor_val d))" for d
    by (auto simp: parse_component_descriptor_val_def build_simps descriptor_fits_def author.build_ok author.build_large
        intro!: too_large_and_then split: option.split)
qed

interpretation state_declaration: bounded_codec parse_state_declaration_val build_state_declaration_val
  "\<lambda>d. fits MAX_DISPLAY_TEXT_LEN (state_name d)"
proof unfold_locales
  show "parse_state_declaration_val v = Inr d \<Longrightarrow> fits MAX_DISPLAY_TEXT_LEN (state_name d)" for v :: "'o Val" and d
    by (auto simp: parse_state_declaration_val_def result_simps fits_Inr)
  show "fits MAX_DISPLAY_TEXT_LEN (state_name d) \<Longrightarrow> parse_state_declaration_val (build_state_declaration_val d) = Inr d"
    and "\<not> fits MAX_DISPLAY_TEXT_LEN (state_name d) \<Longrightarrow> too_large (parse_state_declaration_val (build_state_declaration_val d))" for d
    by (simp_all add: parse_state_declaration_val_def build_simps fits_split)
qed

interpretation web_descriptor: bounded_codec parse_web_descriptor_val build_web_descriptor_val
  "\<lambda>d. length (web_entry d) \<le> MAX_WEB_ASSET_PATH_LEN"
proof unfold_locales
  show "parse_web_descriptor_val v = Inr d \<Longrightarrow> length (web_entry d) \<le> MAX_WEB_ASSET_PATH_LEN" for v :: "'o Val" and d
    by (auto simp: parse_web_descriptor_val_def result_simps dest: wrapped_field_Inr)
  show "length (web_entry d) \<le> MAX_WEB_ASSET_PATH_LEN \<Longrightarrow> parse_web_descriptor_val (build_web_descriptor_val d) = Inr d"
    and "\<not> length (web_entry d) \<le> MAX_WEB_ASSET_PATH_LEN \<Longrightarrow> too_large (parse_web_descriptor_val (build_web_descriptor_val d))" for d
    by (simp_all add: parse_web_descriptor_val_def build_simps)
qed

interpretation asset: bounded_list parse_asset_val build_asset_val asset_fits
  "''asset-metadata list''" "''assets''" MAX_ASSET_LIST_LEN
proof unfold_locales
  show "parse_asset_val v = Inr a \<Longrightarrow> asset_fits a" for v :: "'o Val" and a
    by (auto simp: parse_asset_val_def asset_fits_def result_simps dest: wrapped_field_Inr)
  show "asset_fits a \<Longrightarrow> parse_asset_val (build_asset_val a) = Inr a"
    and "\<not> asset_fits a \<Longrightarrow> too_large (parse_asset_val (build_asset_val a))" for a
    by (simp_all add: parse_asset_val_def build_simps asset_fits_def)
qed

interpretation permission: bounded_list parse_permission_val build_permission_val permission_fits
  "''permission-declaration list''" "''permissions''" MAX_APP_PERMISSIONS_LEN
proof unfold_locales
  show "parse_permission_val v = Inr p \<Longrightarrow> permission_fits p" for v :: "'o Val" and p
    by (auto simp: parse_permission_val_def permission_fits_def result_simps fits_Inr dest: wrapped_field_Inr)
  show "permission_fits p \<Longrightarrow> parse_permission_val (build_permission_val p) = Inr p"
    and "\<not> permission_fits p \<Longrightarrow> too_large (parse_permission_val (build_permission_val p))" for p
    by (auto simp: parse_permission_val_def build_simps permission_fits_def fits_split)
qed

interpretation page: bounded_list parse_page_val build_page_val page_fits
  "''page-declaration list''" "''pages''" MAX_APP_PAGES_LEN
proof unfold_locales
  show "parse_page_val v = Inr p \<Longrightarrow> page_fits p" for v :: "'o Val" and p
    by (auto simp: parse_page_val_def page_fits_def result_simps fits_Inr dest: wrapped_field_Inr)
  show "page_fits p \<Longrightarrow> parse_page_val (build_page_val p) = Inr p"
    and "\<not> page_fits p \<Longrightarrow> too_large (parse_page_val (build_page_val p))" for p
    by (auto simp: parse_page_val_def build_simps page_fits_def fits_split)
qed

interpretation route_param: bounded_list parse_route_param_val build_route_param_val route_param_fits
  "''params''" "''params''" MAX_APP_ROUTE_PARAMS_LEN
proof unfold_locales
  show "parse_route_param_val v = Inr p \<Longrightarrow> route_param_fits p" for v :: "'o Val" and p
    by (auto simp: parse_route_param_val_def route_param_fits_def result_simps string_field_Inr)
  show "route_param_fits p \<Longrightarrow> parse_route_param_val (build_route_param_val p) = Inr p"
    and "\<not> route_param_fits p \<Longrightarrow> too_large (parse_route_param_val (build_route_param_val p))" for p
    by (auto simp: parse_route_param_val_def build_simps route_param_fits_def)
qed

interpretation route: bounded_list parse_route_val build_route_val route_fits
  "''route-declaration list''" "''routes''" MAX_APP_ROUTES_LEN
proof unfold_locales
  show "parse_route_val v = Inr r \<Longrightarrow> route_fits r" for v :: "'o Val" and r
    by (auto simp: parse_route_val_def route_fits_def result_simps fits_Inr
        dest!: wrapped_field_Inr route_param.items.parsed_ok)
  show "route_fits r \<Longrightarrow> parse_route_val (build_route_val r) = Inr r" for r
    by (simp add: parse_route_val_def build_route_val_def route_fits_def fits_split route_param.items.build_ok)
  show "too_large (parse_route_val (build_route_val r))" if "\<not> route_fits r" for r
  proof (cases "length (guest_params r) \<le> MAX_APP_ROUTE_PARAMS_LEN \<and> list_all route_param_fits (guest_params r)")
    case True
    with that show ?thesis
      by (auto simp: parse_route_val_def build_route_val_def route_fits_def fits_split route_param.items.build_ok)
  next
    case False
    from route_param.items.build_large [OF this] show ?thesis
      by (auto simp: parse_route_val_def build_route_val_def intro!: too_large_and_then)
  qed
qed

lemma features_of_app_flags [simp]: "features_of_flags (app_flags f) = f"
  by (cases f) (simp add: features_of_flags_def app_flags_def)

lemmas app_eval = parse_app_descriptor_val_def build_app_descriptor_val_def ok_val_def parse_permission_list_def
  parse_page_list_def parse_route_list_def

interpretation app: bounded_codec parse_app_descriptor_val build_app_descriptor_val app_fits
proof unfold_locales
  show "parse_app_descriptor_val v = Inr d \<Longrightarrow> app_fits d" for v :: "'o Val" and d
    by (auto simp: parse_app_descriptor_val_def parse_permission_list_def parse_page_list_def parse_route_list_def
        app_fits_def result_simps fits_Inr
        dest!: wrapped_field_Inr permission.items.parsed_ok page.items.parsed_ok route.items.parsed_ok)
  show "app_fits d \<Longrightarrow> parse_app_descriptor_val (build_app_descriptor_val d) = Inr d" for d
    by (simp add: app_eval app_fits_def fits_split permission.items.build_ok page.items.build_ok route.items.build_ok)
  show "too_large (parse_app_descriptor_val (build_app_descriptor_val d))" if "\<not> app_fits d" for d
  proof -
    let ?p = "length (guest_permissions d) \<le> MAX_APP_PERMISSIONS_LEN \<and> list_all permission_fits (guest_permissions d)"
    let ?g = "length (guest_pages d) \<le> MAX_APP_PAGES_LEN \<and> list_all page_fits (guest_pages d)"
    let ?r = "length (guest_routes d) \<le> MAX_APP_ROUTES_LEN \<and> list_all route_fits (guest_routes d)"
    consider "?p" "?g" "?r" | "\<not> ?p" | "?p" "\<not> ?g" | "?p" "?g" "\<not> ?r" by blast
    then show ?thesis
    proof cases
      case 1
      with that show ?thesis
        by (auto simp: app_eval app_fits_def fits_split permission.items.build_ok page.items.build_ok route.items.build_ok)
    next
      case 2
      from permission.items.build_large [OF this] show ?thesis
        by (auto simp: app_eval fits_split intro!: too_large_and_then)
    next
      case 3
      from page.items.build_large [OF this(2)] show ?thesis
        by (auto simp: app_eval fits_split permission.items.build_ok [OF 3(1)] intro!: too_large_and_then)
    next
      case 4
      from route.items.build_large [OF this(3)] show ?thesis
        by (auto simp: app_eval fits_split permission.items.build_ok [OF 4(1)] page.items.build_ok [OF 4(2)]
            intro!: too_large_and_then)
    qed
  qed
qed

lemma error_names:
  "parse_descriptor_error_val (build_descriptor_error_val e1) = Inr e1"
  "parse_state_declaration_error_val (build_state_declaration_error_val e2) = Inr e2"
  "parse_app_descriptor_error_val (build_app_descriptor_error_val e3) = Inr e3"
  by (cases e1; cases e2; cases e3;
      simp add: parse_descriptor_error_val_def build_descriptor_error_val_def parse_state_declaration_error_val_def
        build_state_declaration_error_val_def parse_app_descriptor_error_val_def build_app_descriptor_error_val_def err_val_def)+

lemma parse_bytes_Some: "parse_bytes vs = Some bs \<longleftrightarrow> vs = map VU8 bs"
  by (induction vs arbitrary: bs) (auto simp: Cons_eq_map_conv split: Val.splits)

lemma parse_bytes_VU8 [simp]: "parse_bytes (map VU8 bs) = Some bs"
  by (simp add: parse_bytes_Some)

lemma map_VU8_eq [simp]: "map VU8 bs = map VU8 bs' \<longleftrightarrow> bs = bs'"
  by (simp add: inj_map_eq_map inj_def)

lemma build_payload_eq [simp]: "build_action_payload_val p = build_action_payload_val q \<longleftrightarrow> p = q"
  by (cases p; cases q) simp_all

lemma build_value_eq [simp]: "build_param_value_val x = build_param_value_val y \<longleftrightarrow> x = y"
  by (cases x; cases y) simp_all

lemma build_typed_eq: "build_typed_param_val p = build_typed_param_val q \<longleftrightarrow> p = q"
  by (cases p; cases q) (simp add: build_typed_param_val_def)

section \<open>Properties\<close>

text \<open>C36: What a guest declares as its web application is taken over exactly: whatever it returns, a descriptor is
  read from it only within the limits of the host (texts, and the numbers of permissions, pages, routes
  and parameters); every descriptor within the limits is read back from its encoding as it was; and one
  beyond them is refused because of its size.\<close>

theorem app_descriptor_codec:
  "((\<exists>v :: 'o Val. parse_app_descriptor_val v = Inr d) \<longleftrightarrow> app_fits d) \<and>
   (if app_fits d then parse_app_descriptor_val (build_app_descriptor_val d :: 'o Val) = Inr d
    else \<exists>f l. parse_app_descriptor_val (build_app_descriptor_val d :: 'o Val) = Inl (ValueTooLarge f l))"
  using app.accepts_iff app.build_ok app.build_large by (auto simp: too_large_def)

text \<open>C37: The limits of a component descriptor: the identifier, the name shown and the name of the author are bounded,
  and that is all; the homepage and the description of the author are taken over at any length. Within
  the limits a descriptor is read back from its encoding as it was.\<close>

theorem component_descriptor_limits:
  "((\<exists>v :: 'o Val. parse_component_descriptor_val v = Inr d) \<longleftrightarrow>
     length (guest_component_id d) \<le> 255 \<and> length (component_display_name d) \<le> 2048 \<and>
     pred_option (\<lambda>a. length (author_display_name a) \<le> 2048) (guest_author d)) \<and>
   (parse_component_descriptor_val (build_component_descriptor_val d :: 'o Val) = Inr d \<longleftrightarrow>
     length (guest_component_id d) \<le> 255 \<and> length (component_display_name d) \<le> 2048 \<and>
     pred_option (\<lambda>a. length (author_display_name a) \<le> 2048) (guest_author d))"
proof -
  have "author_fits = (\<lambda>a. length (author_display_name a) \<le> 2048)"
    by (simp add: fun_eq_iff author_fits_def MAX_DISPLAY_TEXT_LEN_def)
  then have "descriptor_fits d \<longleftrightarrow> length (guest_component_id d) \<le> 255 \<and> length (component_display_name d) \<le> 2048 \<and>
      pred_option (\<lambda>a. length (author_display_name a) \<le> 2048) (guest_author d)"
    by (simp add: descriptor_fits_def MAX_COMPONENT_ID_LEN_def MAX_DISPLAY_TEXT_LEN_def)
  then show ?thesis using descriptor.accepts_iff descriptor.reads_back_iff by blast
qed

text \<open>C38: Nothing is lost or invented between the host and a handler of the guest: two different requests never look
  the same to it, and the bytes of its answer are taken over exactly when it returns a list of bytes as
  the good case of its result.\<close>

theorem guest_calls_lossless:
  "((build_route_request_val r :: 'o Val) = build_route_request_val r' \<longleftrightarrow> r = r') \<and>
   ((build_action_request_val a :: 'o Val) = build_action_request_val a' \<longleftrightarrow> a = a') \<and>
   (parse_route_result_val (v :: 'o Val) = Inr bs \<longleftrightarrow> v = VResult (Inr (Some (VList (map VU8 bs))))) \<and>
   (parse_action_result_val v = Inr bs \<longleftrightarrow> v = VResult (Inr (Some (VList (map VU8 bs)))))"
proof -
  have "map build_typed_param_val ps = (map build_typed_param_val qs :: 'o Val list) \<longleftrightarrow> ps = qs" for ps qs
    by (simp add: inj_map_eq_map inj_def build_typed_eq)
  moreover have "map_option build_action_payload_val x = (map_option build_action_payload_val y :: 'o Val option) \<longleftrightarrow> x = y" for x y
    by (cases x; cases y) simp_all
  ultimately have "(build_route_request_val r :: 'o Val) = build_route_request_val r' \<longleftrightarrow> r = r'"
    by (cases r; cases r') (auto simp: build_route_request_val_def value_record_def)
  moreover have "(build_action_request_val a :: 'o Val) = build_action_request_val a' \<longleftrightarrow> a = a'"
    by (cases a; cases a') (auto simp: build_action_request_val_def value_record_def)
  moreover have "parse_route_result_val (v :: 'o Val) = Inr bs \<longleftrightarrow> v = VResult (Inr (Some (VList (map VU8 bs))))"
    "parse_action_result_val v = Inr bs \<longleftrightarrow> v = VResult (Inr (Some (VList (map VU8 bs))))"
    by (auto simp: parse_route_result_val_def parse_action_result_val_def parse_bytes_Some
        split: Val.splits sum.splits option.splits)
  ultimately show ?thesis by blast
qed

end
