(* ===== verification/Surface.thy ===== *)
theory Surface
  imports Contract Digest Interfaces
begin

text \<open>
  Types the installation pipeline and the web runtime share (\<open>crates/application/src/model.rs\<close>,
  \<open>error.rs\<close>, \<open>ports/audit.rs\<close>): grants and their audit shape, the observable contract surface of a
  binary, the classes of imports, the reasons for which an action is denied, the audit events of the
  life cycle and the errors of the engine (its own error type is the parameter \<open>'r\<close>).
\<close>

section \<open>Grants\<close>

datatype GrantScope =
    Unscoped
  | WasiPreopen (preopen_guest: string) (preopen_host: string) (preopen_read: bool) (preopen_write: bool)
  | WasiEnv (env_key: string) (env_value: string)
  | ActionScope string

record InstallationGrant =
  grant_capability :: CapabilityId
  grant_scope :: GrantScope

record GrantAuditShape =
  shape_capability :: CapabilityId
  scope_kind :: string
  env_value_redacted :: bool

definition audit_shape :: "InstallationGrant \<Rightarrow> GrantAuditShape" where
  "audit_shape g =
     (case grant_scope g of
        Unscoped \<Rightarrow> \<lparr>shape_capability = grant_capability g, scope_kind = ''unscoped'', env_value_redacted = False\<rparr>
      | WasiPreopen guest _ _ _ \<Rightarrow>
          \<lparr>shape_capability = grant_capability g, scope_kind = ''preopen:'' @ guest, env_value_redacted = False\<rparr>
      | WasiEnv key _ \<Rightarrow> \<lparr>shape_capability = grant_capability g, scope_kind = ''env:'' @ key, env_value_redacted = True\<rparr>
      | ActionScope n \<Rightarrow> \<lparr>shape_capability = grant_capability g, scope_kind = ''action:'' @ n, env_value_redacted = False\<rparr>)"

section \<open>Contract surface\<close>

record ContractSurface =
  surface_imports :: "string list"
  surface_exports :: "string list"

definition exports_any :: "string list \<Rightarrow> ContractSurface \<Rightarrow> bool" where
  "exports_any names s \<longleftrightarrow> (\<exists>n \<in> set (surface_exports s). n \<in> set names)"

definition exports_component_descriptor :: "ContractSurface \<Rightarrow> bool" where
  "exports_component_descriptor = exports_any [''descriptor'', ''operune:component/descriptor@0.1.0'']"

definition exports_web_assets :: "ContractSurface \<Rightarrow> bool" where
  "exports_web_assets = exports_any [''assets'']"

definition exports_web_actions :: "ContractSurface \<Rightarrow> bool" where
  "exports_web_actions = exports_any [''actions'']"

definition exports_web_assets_any :: "ContractSurface \<Rightarrow> bool" where
  "exports_web_assets_any = exports_any [''assets'', ''operune:web/assets@0.2.0'', ''operune:web/assets@0.1.0'']"

definition exports_web_actions_any :: "ContractSurface \<Rightarrow> bool" where
  "exports_web_actions_any = exports_any [''actions'', ''operune:web/actions@0.2.0'', ''operune:web/actions@0.1.0'']"

definition exports_web_app_descriptor :: "ContractSurface \<Rightarrow> bool" where
  "exports_web_app_descriptor = exports_any [''app-descriptor'', ''operune:web/app-descriptor@0.2.0'']"

definition exports_web_route_dispatch :: "ContractSurface \<Rightarrow> bool" where
  "exports_web_route_dispatch = exports_any [''route-dispatch'', ''operune:web/route-dispatch@0.2.0'']"

definition exports_web_navigation :: "ContractSurface \<Rightarrow> bool" where
  "exports_web_navigation = exports_any [''navigation'', ''operune:web/navigation@0.2.0'']"

definition exports_web_routes :: "ContractSurface \<Rightarrow> bool" where
  "exports_web_routes = exports_any [''routes'', ''operune:web/routes@0.2.0'']"

definition exports_web_permissions :: "ContractSurface \<Rightarrow> bool" where
  "exports_web_permissions = exports_any [''permissions'', ''operune:web/permissions@0.2.0'']"

datatype WebSurfaceKind = V020 | V010

definition web_surface :: "ContractSurface \<Rightarrow> WebSurfaceKind" where
  "web_surface s = (if exports_web_app_descriptor s \<or> exports_web_route_dispatch s then V020 else V010)"

datatype ImportClass = WasiImport | OperuneImport | UnsupportedImport

definition import_base :: "string \<Rightarrow> string" where
  "import_base import = hd (split_on CHR ''@'' import)"

definition ImportClass_normalize :: "string \<Rightarrow> ImportClass" where
  "ImportClass_normalize import =
     (if starts_with ''wasi:'' (import_base import) then WasiImport
      else if starts_with ''operune:'' (import_base import) then OperuneImport
      else UnsupportedImport)"

definition ImportClass_capability_id :: "string \<Rightarrow> DomainError + CapabilityId" where
  "ImportClass_capability_id import = CapabilityId_new (import_base import)"

section \<open>Denials, errors and audit events\<close>

datatype ActionDenied = DenyNotGranted | DenyRateLimited | DenyBodyTooLarge | DenyBusy | DenyUnknown

fun action_denied_display :: "ActionDenied \<Rightarrow> string" where
  "action_denied_display DenyNotGranted = ''action not granted for this installation''"
| "action_denied_display DenyRateLimited = ''action rate limit exceeded''"
| "action_denied_display DenyBodyTooLarge = ''action body exceeds the host-side limit''"
| "action_denied_display DenyBusy = ''action concurrency limit reached''"
| "action_denied_display DenyUnknown = ''action denied''"

datatype 'r RuntimeExecutionError =
    RuntimeFailure 'r
  | MissingOperuneExport string
  | MalformedGuestData ContractValueError
  | GuestDescriptorFailed GuestDescriptorError
  | GuestStateDeclarationFailed GuestStateDeclarationError
  | GuestAppDescriptorFailed GuestAppDescriptorError
  | GuestWebError string
  | DeadlineExceeded
  | ConfigUnavailable
  | RuntimeBusy
  | ResponseTooLarge
  | RuntimeInternal string

datatype RejectReason = Oversized | InvalidBytes | MissingComponentDescriptor | ContractSurfaceRejected

datatype AuditEvent =
    InstallRejected ContentDigest RejectReason
  | CandidatePersisted ContentDigest
  | DescriptorFailed ContentDigest string
  | DescriptorMismatch ContentDigest
  | IdentityRegistered InstallationId ComponentId ComponentVersion ContentDigest
  | VersionConflict ComponentId ComponentVersion ContentDigest ContentDigest
  | ResolutionRejected InstallationId "CapabilityId list"
  | GrantsApproved InstallationId "GrantAuditShape list"
  | ActivationStarted InstallationId
  | ActivationFailed InstallationId string
  | ActivationSucceeded InstallationId ComponentId ComponentVersion ContentDigest
  | UpgradeSwapped InstallationId ContentDigest ContentDigest
  | DrainBegun InstallationId ContentDigest nat
  | DrainEnded InstallationId ContentDigest
  | WebManifestLoaded InstallationId nat nat
  | ActionInvoked InstallationId ComponentVersion string
  | ActionRefused InstallationId string ActionDenied
  | RolledBack InstallationId ContentDigest ContentDigest
  | ProviderGraphRejected InstallationId string
  | GraphRecordsCommitted InstallationId
  | GraphRecordsRemoved InstallationId
  | GraphPolicyUpdated nat nat
  | UninstallCompleted InstallationId ComponentId ComponentVersion "ContentDigest option"

end
