(* ===== verification/WebQuota.thy ===== *)
theory WebQuota
  imports Idents
begin

text \<open>
  The admission of web requests per installation (\<open>crates/application/src/ports/web_quota.rs\<close>): a window
  of 60 seconds for the rate, and slots of calls admitted and of calls begun. A guard is a number; what
  \<open>admit\<close> returns to a caller, who may begin it any number of times and drops it once. The clock is a
  parameter of every admission, in nanoseconds; \<open>duration_since\<close> saturates at zero. A poisoned mutex
  (\<open>WebQuotaDenied::Unknown\<close>) is not modelled.
\<close>

definition RATE_WINDOW_NANOS :: nat where "RATE_WINDOW_NANOS = 60 * 10 ^ 9"

record WebQuotaLimits =
  max_requests_per_minute :: u32
  max_concurrent :: u32
  max_queued :: u32

definition web_quota_default :: WebQuotaLimits where
  "web_quota_default = \<lparr>max_requests_per_minute = 600, max_concurrent = 8, max_queued = 64\<rparr>"

definition limits_validate :: "WebQuotaLimits \<Rightarrow> string + unit" where
  "limits_validate l =
     (if max_requests_per_minute l = 0 then Inl ''max_requests_per_minute must be non-zero''
      else if max_concurrent l = 0 then Inl ''max_concurrent must be non-zero''
      else if max_queued l = 0 then Inl ''max_queued must be non-zero''
      else Inr ())"

datatype WebQuotaDenied = RateLimited | OverConcurrency | OverQueue | QuotaUnknown

fun quota_denied_display :: "WebQuotaDenied \<Rightarrow> string" where
  "quota_denied_display RateLimited = ''web request rate limit exceeded''"
| "quota_denied_display OverConcurrency = ''web request concurrency limit reached''"
| "quota_denied_display OverQueue = ''web request queue is full''"
| "quota_denied_display QuotaUnknown = ''web quota check failed''"

record QuotaWindow =
  win_start :: nat
  win_count :: u32
  win_queued :: u32
  win_in_flight :: u32

record WebQuotaGuard =
  guard_of :: InstallationId
  guard_begun :: bool

text \<open>The service, its windows, and the guards its callers hold.\<close>

record web_quota =
  quota_limits :: WebQuotaLimits
  quota_windows :: "InstallationId \<rightharpoonup> QuotaWindow"
  quota_guards :: "nat \<rightharpoonup> WebQuotaGuard"
  quota_next :: nat

definition web_quota_new :: "WebQuotaLimits \<Rightarrow> string + web_quota" where
  "web_quota_new l =
     and_then (limits_validate l) (\<lambda>_.
     Inr \<lparr>quota_limits = l, quota_windows = Map.empty, quota_guards = Map.empty, quota_next = 0\<rparr>)"

text \<open>\<open>created\<close>, \<open>checked\<close> and \<open>restarted\<close> are the three readings of the clock in their order.\<close>

definition window_new :: "nat \<Rightarrow> QuotaWindow" where
  "window_new created = \<lparr>win_start = created, win_count = 0, win_queued = 0, win_in_flight = 0\<rparr>"

definition window_refresh :: "nat \<Rightarrow> nat \<Rightarrow> QuotaWindow \<Rightarrow> QuotaWindow" where
  "window_refresh checked restarted w =
     (if RATE_WINDOW_NANOS \<le> checked - win_start w then w\<lparr>win_start := restarted, win_count := 0\<rparr> else w)"

definition quota_admit ::
  "InstallationId \<Rightarrow> nat \<Rightarrow> nat \<Rightarrow> nat \<Rightarrow> web_quota \<Rightarrow> (WebQuotaDenied + nat) \<times> web_quota" where
  "quota_admit i created checked restarted q =
     (let w = window_refresh checked restarted
           (case quota_windows q i of Some w \<Rightarrow> w | None \<Rightarrow> window_new created);
          q = q\<lparr>quota_windows := (quota_windows q)(i \<mapsto> w)\<rparr>;
          active = saturating_add (win_in_flight w) (win_queued w)
      in if max_requests_per_minute (quota_limits q) \<le> win_count w then (Inl RateLimited, q)
         else if max_queued (quota_limits q) \<le> win_queued w then (Inl OverQueue, q)
         else if max_concurrent (quota_limits q) \<le> active then (Inl OverConcurrency, q)
         else (Inr (quota_next q), q\<lparr>
           quota_windows := (quota_windows q)(i \<mapsto> w\<lparr>win_count := saturating_add (win_count w) 1,
             win_queued := saturating_add (win_queued w) 1\<rparr>),
           quota_guards := (quota_guards q)(quota_next q \<mapsto> \<lparr>guard_of = i, guard_begun = False\<rparr>),
           quota_next := quota_next q + 1\<rparr>))"

definition on_window :: "InstallationId \<Rightarrow> (QuotaWindow \<Rightarrow> QuotaWindow) \<Rightarrow> web_quota \<Rightarrow> web_quota" where
  "on_window i f q =
     (case quota_windows q i of
        Some w \<Rightarrow> q\<lparr>quota_windows := (quota_windows q)(i \<mapsto> f w)\<rparr>
      | None \<Rightarrow> q)"

definition guard_begin :: "nat \<Rightarrow> web_quota \<Rightarrow> web_quota" where
  "guard_begin g q =
     (case quota_guards q g of
        None \<Rightarrow> q
      | Some d \<Rightarrow>
          if guard_begun d then q
          else on_window (guard_of d)
            (\<lambda>w. w\<lparr>win_queued := saturating_sub (win_queued w) 1, win_in_flight := saturating_add (win_in_flight w) 1\<rparr>)
            (q\<lparr>quota_guards := (quota_guards q)(g \<mapsto> d\<lparr>guard_begun := True\<rparr>)\<rparr>))"

definition guard_drop :: "nat \<Rightarrow> web_quota \<Rightarrow> web_quota" where
  "guard_drop g q =
     (case quota_guards q g of
        None \<Rightarrow> q
      | Some d \<Rightarrow>
          on_window (guard_of d)
            (\<lambda>w. if guard_begun d then w\<lparr>win_in_flight := saturating_sub (win_in_flight w) 1\<rparr>
                 else w\<lparr>win_queued := saturating_sub (win_queued w) 1\<rparr>)
            (q\<lparr>quota_guards := (quota_guards q)(g := None)\<rparr>))"

section \<open>Runs\<close>

text \<open>The steps of all callers together, in any order.\<close>

inductive quota_run :: "WebQuotaLimits \<Rightarrow> web_quota \<Rightarrow> bool" for l where
  start: "web_quota_new l = Inr q \<Longrightarrow> quota_run l q"
| admitted: "quota_run l q \<Longrightarrow> quota_admit i a b c q = (r, q') \<Longrightarrow> quota_run l q'"
| begun: "quota_run l q \<Longrightarrow> quota_run l (guard_begin g q)"
| dropped: "quota_run l q \<Longrightarrow> quota_run l (guard_drop g q)"

text \<open>The guards of an installation that have begun, and those that have not.\<close>

definition held :: "InstallationId \<Rightarrow> bool \<Rightarrow> web_quota \<Rightarrow> nat set" where
  "held i b q = {g. quota_guards q g = Some \<lparr>guard_of = i, guard_begun = b\<rparr>}"

definition window_ok :: "WebQuotaLimits \<Rightarrow> web_quota \<Rightarrow> InstallationId \<Rightarrow> QuotaWindow \<Rightarrow> bool" where
  "window_ok l q i w \<longleftrightarrow>
     unat (win_queued w) = card (held i False q) \<and> unat (win_in_flight w) = card (held i True q) \<and>
     unat (win_queued w) + unat (win_in_flight w) \<le> unat (max_concurrent l) \<and>
     unat (win_queued w) \<le> unat (max_queued l) \<and> unat (win_count w) \<le> unat (max_requests_per_minute l)"

definition quota_inv :: "WebQuotaLimits \<Rightarrow> web_quota \<Rightarrow> bool" where
  "quota_inv l q \<longleftrightarrow>
     quota_limits q = l \<and>
     (\<forall>g. quota_next q \<le> g \<longrightarrow> quota_guards q g = None) \<and>
     (\<forall>g d. quota_guards q g = Some d \<longrightarrow> (\<exists>w. quota_windows q (guard_of d) = Some w)) \<and>
     (\<forall>i w. quota_windows q i = Some w \<longrightarrow> window_ok l q i w)"

lemma quota_invD:
  assumes "quota_inv l q"
  shows "quota_limits q = l" "quota_next q \<le> g \<Longrightarrow> quota_guards q g = None"
    "quota_guards q g = Some d \<Longrightarrow> \<exists>w. quota_windows q (guard_of d) = Some w"
    "quota_windows q i = Some w \<Longrightarrow> window_ok l q i w"
  using assms unfolding quota_inv_def by blast+

lemma held_finite:
  assumes "quota_inv l q"
  shows "finite (held i b q)"
proof (rule finite_subset)
  show "held i b q \<subseteq> {..< quota_next q}"
  proof
    fix g assume "g \<in> held i b q"
    then have "quota_guards q g \<noteq> None" by (simp add: held_def)
    with assms show "g \<in> {..< quota_next q}" by (auto simp: quota_inv_def not_le [symmetric])
  qed
qed simp

lemmas quota_window_inv = quota_invD(4) [unfolded window_ok_def]

lemma held_put:
  "held j b (q\<lparr>quota_guards := (quota_guards q)(g \<mapsto> \<lparr>guard_of = i, guard_begun = c\<rparr>)\<rparr>) =
    (if j = i \<and> b = c then insert g (held j b q) else held j b q - {g})"
  by (auto simp: held_def)

lemma held_remove: "held j b (q\<lparr>quota_guards := (quota_guards q)(g := None)\<rparr>) = held j b q - {g}"
  by (auto simp: held_def)

lemma held_windows [simp]:
  "held j b (q\<lparr>quota_windows := ws\<rparr>) = held j b q" "held j b (q\<lparr>quota_next := n\<rparr>) = held j b q"
  by (simp_all add: held_def)

lemma u32_less: "unat (x :: u32) < 2 ^ 32" using unsigned_less [of x] by simp

text \<open>A step touches the window and the guards of one installation.\<close>

lemma quota_inv_step:
  assumes inv: "quota_inv l q" and lim: "quota_limits q' = quota_limits q"
    and win: "quota_windows q' = (quota_windows q)(i \<mapsto> w)" "window_ok l q' i w"
    and held: "\<And>j b. j \<noteq> i \<Longrightarrow> held j b q' = held j b q"
    and fresh: "\<And>g. quota_next q' \<le> g \<Longrightarrow> quota_guards q' g = None"
    and known: "\<And>g d. quota_guards q' g = Some d \<Longrightarrow> guard_of d = i \<or> (\<exists>d'. quota_guards q g = Some d' \<and> guard_of d' = guard_of d)"
  shows "quota_inv l q'"
  unfolding quota_inv_def
proof (intro conjI allI impI)
  show "quota_limits q' = l" using quota_invD(1) [OF inv] lim by simp
  show "quota_next q' \<le> g \<Longrightarrow> quota_guards q' g = None" for g by (rule fresh)
  show "\<exists>w. quota_windows q' (guard_of d) = Some w" if "quota_guards q' g = Some d" for g d
    using known [OF that] quota_invD(3) [OF inv] by (fastforce simp: win)
  show "window_ok l q' j v" if "quota_windows q' j = Some v" for j v
  proof (cases "j = i")
    case True
    with that win show ?thesis by simp
  next
    case False
    with that quota_invD(4) [OF inv, of j v] held show ?thesis by (simp add: win window_ok_def)
  qed
qed

lemma quota_new_inv: "web_quota_new l = Inr q \<Longrightarrow> quota_inv l q"
  by (auto simp: web_quota_new_def result_simps quota_inv_def)

lemma quota_admit_inv:
  assumes inv: "quota_inv l q" and ad: "quota_admit i a b c q = (r, q')"
  shows "quota_inv l q'"
proof -
  define w where "w = window_refresh b c (case quota_windows q i of Some w \<Rightarrow> w | None \<Rightarrow> window_new a)"
  define q1 where "q1 = q\<lparr>quota_windows := (quota_windows q)(i \<mapsto> w)\<rparr>"
  have none: "held i x q = {}" if "quota_windows q i = None" for x
    using quota_invD(3) [OF inv] that by (fastforce simp: held_def)
  have w: "unat (win_queued w) = card (held i False q)" "unat (win_in_flight w) = card (held i True q)"
    "unat (win_queued w) + unat (win_in_flight w) \<le> unat (max_concurrent l)"
    "unat (win_queued w) \<le> unat (max_queued l)" "unat (win_count w) \<le> unat (max_requests_per_minute l)"
    using none quota_window_inv [OF inv, of i]
    by (cases "quota_windows q i"; simp add: w_def window_refresh_def window_new_def)+
  show ?thesis
  proof (cases r)
    case (Inl e)
    with ad have "q' = q1" by (auto simp: quota_admit_def Let_def w_def [symmetric] q1_def split: if_splits)
    then show ?thesis
      using quota_invD(2) [OF inv] w by (intro quota_inv_step [OF inv, of _ i w]) (simp_all add: q1_def window_ok_def)
  next
    case (Inr g)
    let ?w = "w\<lparr>win_count := saturating_add (win_count w) 1, win_queued := saturating_add (win_queued w) 1\<rparr>"
    have lim: "quota_limits q = l" and fresh: "quota_guards q g = None" if "quota_next q \<le> g" for g
      using quota_invD [OF inv] that by auto
    from ad Inr have q': "q' = q\<lparr>quota_windows := (quota_windows q)(i \<mapsto> ?w),
        quota_guards := (quota_guards q)(quota_next q \<mapsto> \<lparr>guard_of = i, guard_begun = False\<rparr>), quota_next := quota_next q + 1\<rparr>"
      and room: "win_count w < max_requests_per_minute l" "win_queued w < max_queued l"
        "saturating_add (win_in_flight w) (win_queued w) < max_concurrent l"
      by (auto simp: quota_admit_def Let_def w_def [symmetric] lim [OF order_refl] split: if_splits)
    from room have u: "unat (win_count w) < unat (max_requests_per_minute l)" "unat (win_queued w) < unat (max_queued l)"
      "unat (win_in_flight w) + unat (win_queued w) < unat (max_concurrent l)"
      using u32_less [of "max_concurrent l"] by (auto simp: word_less_nat_alt unat_saturating_add)
    with u32_less [of "max_requests_per_minute l"] u32_less [of "max_queued l"]
    have uw: "unat (win_count ?w) = unat (win_count w) + 1" "unat (win_queued ?w) = unat (win_queued w) + 1"
      by (auto simp: unat_saturating_add)
    have new: "quota_next q \<notin> held j x q" for j x using fresh [OF order_refl] by (simp add: held_def)
    have h: "held j x q' = (if j = i \<and> \<not> x then insert (quota_next q) (held j x q) else held j x q)" for j x
      using new [of j x] by (auto simp: q' held_def)
    show ?thesis
    proof (rule quota_inv_step [OF inv, of _ i ?w])
      show "window_ok l q' i ?w" using w u uw new held_finite [OF inv] by (simp add: window_ok_def h)
    qed (use fresh h in \<open>auto simp: q' split: if_splits\<close>)
  qed
qed

lemma guard_begin_inv:
  assumes inv: "quota_inv l q"
  shows "quota_inv l (guard_begin g q)"
proof (cases "\<exists>d. quota_guards q g = Some d \<and> \<not> guard_begun d")
  case False
  then have "guard_begin g q = q" by (auto simp: guard_begin_def split: option.split)
  with inv show ?thesis by simp
next
  case True
  then obtain i where g: "quota_guards q g = Some \<lparr>guard_of = i, guard_begun = False\<rparr>"
    by (metis (full_types) WebQuotaGuard.surjective old.unit.exhaust)
  with quota_invD(3) [OF inv] obtain w where w: "quota_windows q i = Some w" by fastforce
  note W = quota_window_inv [OF inv w]
  let ?w = "w\<lparr>win_queued := saturating_sub (win_queued w) 1, win_in_flight := saturating_add (win_in_flight w) 1\<rparr>"
  define q' where "q' = q\<lparr>quota_guards := (quota_guards q)(g \<mapsto> \<lparr>guard_of = i, guard_begun = True\<rparr>),
      quota_windows := (quota_windows q)(i \<mapsto> ?w)\<rparr>"
  have eq: "guard_begin g q = q'" using g w by (simp add: guard_begin_def on_window_def q'_def)
  have h: "held j x q' =
      (if j = i then if x then insert g (held i True q) else held i False q - {g} else held j x q)" for j x
    using g by (auto simp: q'_def held_def)
  have gin: "g \<in> held i False q" "g \<notin> held i True q" using g by (simp_all add: held_def)
  then have pos: "0 < card (held i False q)" using held_finite [OF inv] card_gt_0_iff by blast
  have "unat (win_queued ?w) = unat (win_queued w) - 1" "unat (win_in_flight ?w) = unat (win_in_flight w) + 1"
    using W pos u32_less [of "max_concurrent l"] by (auto simp: unat_saturating_sub unat_saturating_add)
  with W pos gin have "window_ok l q' i ?w"
    using held_finite [OF inv] by (auto simp: window_ok_def h)
  moreover have "quota_guards q g' = None" if "quota_next q \<le> g'" for g' using quota_invD(2) [OF inv] that .
  ultimately show ?thesis
    unfolding eq using h g by (intro quota_inv_step [OF inv, of _ i ?w]) (auto simp: q'_def split: if_splits)
qed

lemma guard_drop_inv:
  assumes inv: "quota_inv l q"
  shows "quota_inv l (guard_drop g q)"
proof (cases "quota_guards q g")
  case None
  with inv show ?thesis by (simp add: guard_drop_def)
next
  case (Some d)
  obtain i b where d: "d = \<lparr>guard_of = i, guard_begun = b\<rparr>" by (cases d)
  with Some quota_invD(3) [OF inv] obtain w where w: "quota_windows q i = Some w" by fastforce
  note W = quota_window_inv [OF inv w]
  let ?w = "if b then w\<lparr>win_in_flight := saturating_sub (win_in_flight w) 1\<rparr>
    else w\<lparr>win_queued := saturating_sub (win_queued w) 1\<rparr>"
  define q' where "q' = q\<lparr>quota_guards := (quota_guards q)(g := None), quota_windows := (quota_windows q)(i \<mapsto> ?w)\<rparr>"
  have eq: "guard_drop g q = q'" using Some d w by (simp add: guard_drop_def on_window_def q'_def)
  have h: "held j x q' = (if j = i \<and> x = b then held i b q - {g} else held j x q)" for j x
    using Some d by (auto simp: q'_def held_def)
  have gin: "g \<in> held i b q" using Some d by (simp add: held_def)
  then have pos: "0 < card (held i b q)" using held_finite [OF inv] card_gt_0_iff by blast
  have "window_ok l q' i ?w"
    using W pos gin held_finite [OF inv] by (cases b) (auto simp: window_ok_def h unat_saturating_sub)
  moreover have "quota_guards q g' = None" if "quota_next q \<le> g'" for g' using quota_invD(2) [OF inv] that .
  ultimately show ?thesis
    unfolding eq using h Some d by (intro quota_inv_step [OF inv, of _ i ?w]) (auto simp: q'_def split: if_splits)
qed

lemma quota_run_inv: "quota_run l q \<Longrightarrow> quota_inv l q"
  by (induction rule: quota_run.induct) (auto intro: quota_new_inv quota_admit_inv guard_begin_inv guard_drop_inv)

section \<open>Properties\<close>

text \<open>C39: However the callers admit, begin and drop in parallel, the slots of an installation are the guards its callers
  hold: the queued ones are those not begun and the others are in flight, so a dropped guard gives its
  slot back and none is given back twice; and no limit of the three is ever exceeded.\<close>

theorem quota_slots_are_guards:
  assumes "quota_run l q" "quota_windows q i = Some w"
  shows "unat (win_queued w) = card {g. \<exists>d. quota_guards q g = Some d \<and> guard_of d = i \<and> \<not> guard_begun d} \<and>
    unat (win_in_flight w) = card {g. \<exists>d. quota_guards q g = Some d \<and> guard_of d = i \<and> guard_begun d} \<and>
    unat (win_queued w) + unat (win_in_flight w) \<le> unat (max_concurrent l) \<and>
    unat (win_queued w) \<le> unat (max_queued l) \<and> unat (win_count w) \<le> unat (max_requests_per_minute l)"
proof -
  have h: "held i b q = {g. \<exists>d. quota_guards q g = Some d \<and> guard_of d = i \<and> guard_begun d = b}" for b
    by (auto simp: held_def)
  from quota_window_inv [OF quota_run_inv [OF assms(1)] assms(2)] show ?thesis by (simp add: h)
qed

text \<open>C40: The limit of the queue is never what a caller is refused for when it is above the limit of the concurrent
  calls, as it is by default (64 against 8): calls that are queued count as concurrent ones.\<close>

theorem queue_limit_unreachable:
  assumes "quota_run l q" "max_concurrent l < max_queued l" "quota_admit i created checked restarted q = (Inl e, q')"
  shows "e = RateLimited \<or> e = OverConcurrency"
proof -
  note inv = quota_run_inv [OF assms(1)]
  define w where "w = window_refresh checked restarted
    (case quota_windows q i of Some w \<Rightarrow> w | None \<Rightarrow> window_new created)"
  have "unat (win_queued w) \<le> unat (max_concurrent l)"
    using quota_window_inv [OF inv, of i]
    by (cases "quota_windows q i") (auto simp: w_def window_refresh_def window_new_def)
  with assms(2) have "win_queued w < max_queued l" by (simp add: word_less_nat_alt)
  with assms(3) quota_invD(1) [OF inv] show ?thesis
    by (auto simp: quota_admit_def Let_def w_def [symmetric] split: if_splits)
qed

definition demo_quota_limits :: WebQuotaLimits where
  "demo_quota_limits = \<lparr>max_requests_per_minute = 1, max_concurrent = 1, max_queued = 2\<rparr>"

definition demo_quota :: web_quota where
  "demo_quota = \<lparr>quota_limits = demo_quota_limits,
     quota_windows = [InstallationId 1 \<mapsto> \<lparr>win_start = 0, win_count = 1, win_queued = 1, win_in_flight = 0\<rparr>],
     quota_guards = [0 \<mapsto> \<lparr>guard_of = InstallationId 1, guard_begun = False\<rparr>], quota_next = 1\<rparr>"

lemma demo_quota_run: "quota_run demo_quota_limits demo_quota"
proof -
  let ?q = "\<lparr>quota_limits = demo_quota_limits, quota_windows = Map.empty, quota_guards = Map.empty, quota_next = 0\<rparr>"
  have "web_quota_new demo_quota_limits = Inr ?q"
    by (simp add: web_quota_new_def limits_validate_def demo_quota_limits_def)
  then have "quota_run demo_quota_limits ?q" by (rule quota_run.start)
  moreover have "quota_admit (InstallationId 1) 0 0 0 ?q = (Inr 0, demo_quota)"
    by (simp add: quota_admit_def demo_quota_def demo_quota_limits_def window_refresh_def window_new_def RATE_WINDOW_NANOS_def
        Let_def saturating_add_def)
  ultimately show ?thesis by (rule quota_run.admitted)
qed

lemma quota_slots_are_guards_witness:
  "1 = card {g. \<exists>d. quota_guards demo_quota g = Some d \<and> guard_of d = InstallationId 1 \<and> \<not> guard_begun d}"
proof -
  have "quota_windows demo_quota (InstallationId 1) = Some \<lparr>win_start = 0, win_count = 1, win_queued = 1, win_in_flight = 0\<rparr>"
    by (simp add: demo_quota_def)
  from quota_slots_are_guards [OF demo_quota_run this] show ?thesis by simp
qed

lemma queue_limit_unreachable_witness:
  "\<exists>e. fst (quota_admit (InstallationId 1) 0 0 0 demo_quota) = Inl e \<and> e \<noteq> OverQueue"
proof -
  have l: "max_concurrent demo_quota_limits < max_queued demo_quota_limits" by (simp add: demo_quota_limits_def)
  obtain r q' where a: "quota_admit (InstallationId 1) 0 0 0 demo_quota = (r, q')" by fastforce
  then have "\<exists>e. r = Inl e"
    by (auto simp: quota_admit_def demo_quota_def demo_quota_limits_def window_refresh_def RATE_WINDOW_NANOS_def Let_def
        split: if_splits)
  with a queue_limit_unreachable [OF demo_quota_run l] show ?thesis by fastforce
qed

end
