(* ===== verification/WebApp.thy ===== *)
theory WebApp
  imports Surface Dispatch WebQuota
begin

text \<open>
  The web application runtime (\<open>crates/application/src/web_app.rs\<close>, \<open>ports/web.rs\<close>): the assembly of an app
  declaration from what the guest returned, the check of its features against the exports of the
  binary, the route registry with the resolution of requests, the check of page permissions and the
  call of a typed route with its guards.

  The ports answer through \<open>web_env\<close>; \<open>dispatch_route\<close> writes what it does to the outside into a trace.
  \<open>f64::from_str\<close> and \<open>f64::is_finite\<close> are parameters. Error texts are constructors.
\<close>

section \<open>Failures\<close>

datatype malformed =
    BadEntry | BadPermissionName string | BadPageId string | BadPagePath string | BadPagePermission
  | BadRouteId string | BadMethod string | BadParamType string | BadRouteParam string | BadRoutePermission
  | BadDefaultPage | NavigationNotDeclared | RoutesNotDeclared | PermissionsNotDeclared

datatype AppDescriptorFailure =
    Malformed malformed
  | DeclarationConflict WebDeclarationError
  | GuestFailed GuestAppDescriptorError
  | SurfaceViolation string

datatype invalid_param =
    NotCaptured | BadTypedName | NotAnInteger string | IntegerOverflow string | NotUnsigned string
  | UnsignedOverflow string | NotBoolean string | NotDecimal string | NotFinite string

datatype RouteMatchError =
    InvalidPath string
  | NotMatched HttpMethod string
  | InvalidParamValue string invalid_param

section \<open>Route registry\<close>

record RouteResolution =
  resolved_route :: RouteId
  resolved_params :: "TypedParam list"

record RouteRegistry =
  registered :: "RouteDeclaration list"
  by_id :: "RouteId \<rightharpoonup> nat"
  by_method :: "HttpMethod \<rightharpoonup> nat list"

definition candidates_of :: "RouteRegistry \<Rightarrow> HttpMethod \<Rightarrow> nat list" where
  "candidates_of r m = (case by_method r m of Some l \<Rightarrow> l | None \<Rightarrow> [])"

definition register_route :: "RouteDeclaration \<Rightarrow> RouteRegistry \<Rightarrow> RouteRegistry" where
  "register_route x r =
     (let index = length (registered r) in
      \<lparr>registered = registered r @ [x], by_id = (by_id r)(route_id x \<mapsto> index),
       by_method = (by_method r)(route_method x \<mapsto> candidates_of r (route_method x) @ [index])\<rparr>)"

fun register_routes :: "RouteDeclaration list \<Rightarrow> RouteRegistry \<Rightarrow> RouteRegistry" where
  "register_routes [] r = r"
| "register_routes (x # xs) r = register_routes xs (register_route x r)"

definition RouteRegistry_new :: "AppDeclaration \<Rightarrow> RouteRegistry" where
  "RouteRegistry_new d = register_routes (routes d) \<lparr>registered = [], by_id = Map.empty, by_method = Map.empty\<rparr>"

definition route_by_id :: "RouteRegistry \<Rightarrow> RouteId \<Rightarrow> RouteDeclaration option" where
  "route_by_id r i = map_option (\<lambda>k. registered r ! k) (by_id r i)"

definition normalize_request_path :: "string \<Rightarrow> RouteMatchError + string list" where
  "normalize_request_path path =
     (if path = [] then Inl (InvalidPath path)
      else if length path > 4096 then Inl (InvalidPath path)
      else if \<not> starts_with [slash] path then Inl (InvalidPath path)
      else if has_control path then Inl (InvalidPath path)
      else if backslash \<in> set path then Inl (InvalidPath path)
      else if \<exists>s \<in> set (tl (split_on slash path)). s = [] \<or> s = ''.'' \<or> s = ''..'' then Inl (InvalidPath path)
      else Inr (tl (split_on slash path)))"

fun capture :: "(PathSegment \<times> string) list \<Rightarrow> (string \<rightharpoonup> string) \<Rightarrow> (string \<rightharpoonup> string) option" where
  "capture [] m = Some m"
| "capture ((Literal l, v) # zs) m = (if l \<noteq> v then None else capture zs m)"
| "capture ((Param n, v) # zs) m = capture zs (m(n \<mapsto> v))"

definition match_template :: "PathTemplate \<Rightarrow> string list \<Rightarrow> (string \<rightharpoonup> string) option" where
  "match_template t segs =
     (if length (segments t) \<noteq> length segs then None else capture (zip (segments t) segs) Map.empty)"

text \<open>\<open>str::parse\<close> of \<open>i128\<close> and \<open>u128\<close>.\<close>

definition parse_i128 :: "string \<Rightarrow> int option" where
  "parse_i128 s =
     (case s of
        [] \<Rightarrow> None
      | c # r \<Rightarrow>
          if c = CHR ''-''
          then Option.bind (parse_digits r) (\<lambda>n. if n \<le> 2 ^ 127 then Some (- int n) else None)
          else Option.bind (parse_digits (if c = CHR ''+'' then r else s))
                 (\<lambda>n. if n < 2 ^ 127 then Some (int n) else None))"

definition parse_u128 :: "string \<Rightarrow> u128 option" where
  "parse_u128 s =
     Option.bind (parse_digits (case s of c # r \<Rightarrow> if c = CHR ''+'' then r else s | [] \<Rightarrow> s))
       (\<lambda>n. if n < 2 ^ 128 then Some (of_nat n) else None)"

definition parse_param_value ::
  "(string \<Rightarrow> 64 word option) \<Rightarrow> (64 word \<Rightarrow> bool) \<Rightarrow> RouteParam \<Rightarrow> string \<Rightarrow> RouteMatchError + ParamValue" where
  "parse_param_value parse_f64 is_finite declared raw =
     (let invalid = InvalidParamValue (param_name declared) in
      case value_type declared of
        TextType \<Rightarrow> Inr (TextValue raw)
      | IntegerType \<Rightarrow>
          and_then (ok_or (parse_i128 raw) (invalid (NotAnInteger raw))) (\<lambda>wide.
          map_err (\<lambda>_. invalid (IntegerOverflow raw)) (ParamValue_try_from_i128 wide))
      | UnsignedType \<Rightarrow>
          and_then (ok_or (parse_u128 raw) (invalid (NotUnsigned raw))) (\<lambda>wide.
          map_err (\<lambda>_. invalid (UnsignedOverflow raw)) (ParamValue_try_from_u128 wide))
      | BooleanType \<Rightarrow>
          if raw = ''true'' then Inr (BooleanValue True)
          else if raw = ''false'' then Inr (BooleanValue False)
          else Inl (invalid (NotBoolean raw))
      | DecimalType \<Rightarrow>
          and_then (ok_or (parse_f64 raw) (invalid (NotDecimal raw))) (\<lambda>v.
          if is_finite v then Inr (DecimalValue v) else Inl (invalid (NotFinite raw))))"

fun typed_params ::
  "(string \<Rightarrow> 64 word option) \<Rightarrow> (64 word \<Rightarrow> bool) \<Rightarrow> RouteParam list \<Rightarrow> (string \<rightharpoonup> string) \<Rightarrow>
    RouteMatchError + TypedParam list" where
  "typed_params pf fin [] captured = Inr []"
| "typed_params pf fin (p # ps) captured =
     and_then (ok_or (captured (param_name p)) (InvalidParamValue (param_name p) NotCaptured)) (\<lambda>raw.
     and_then (parse_param_value pf fin p raw) (\<lambda>v.
     and_then (map_err (\<lambda>_. InvalidParamValue (param_name p) BadTypedName) (TypedParam_new (param_name p) v)) (\<lambda>t.
     and_then (typed_params pf fin ps captured) (\<lambda>ts. Inr (t # ts)))))"

fun resolve_in ::
  "(string \<Rightarrow> 64 word option) \<Rightarrow> (64 word \<Rightarrow> bool) \<Rightarrow> RouteRegistry \<Rightarrow> nat list \<Rightarrow> HttpMethod \<Rightarrow> string \<Rightarrow> string list \<Rightarrow>
    RouteMatchError + RouteResolution" where
  "resolve_in pf fin reg [] m path segs = Inl (NotMatched m path)"
| "resolve_in pf fin reg (k # ks) m path segs =
     (let route = registered reg ! k in
      case match_template (route_path route) segs of
        None \<Rightarrow> resolve_in pf fin reg ks m path segs
      | Some captured \<Rightarrow>
          and_then (typed_params pf fin (params route) captured) (\<lambda>ts.
          Inr \<lparr>resolved_route = route_id route, resolved_params = ts\<rparr>))"

definition resolve_route ::
  "(string \<Rightarrow> 64 word option) \<Rightarrow> (64 word \<Rightarrow> bool) \<Rightarrow> RouteRegistry \<Rightarrow> HttpMethod \<Rightarrow> string \<Rightarrow> RouteMatchError + RouteResolution" where
  "resolve_route pf fin reg m path =
     and_then (normalize_request_path path) (\<lambda>segs.
     case by_method reg m of
       None \<Rightarrow> Inl (NotMatched m path)
     | Some candidates \<Rightarrow> resolve_in pf fin reg candidates m path segs)"

section \<open>Context of an application\<close>

record WebAppContext =
  app_declaration :: AppDeclaration
  app_registry :: RouteRegistry

definition WebAppContext_new :: "AppDeclaration \<Rightarrow> WebAppContext" where
  "WebAppContext_new d = \<lparr>app_declaration = d, app_registry = RouteRegistry_new d\<rparr>"

definition page_by_id :: "WebAppContext \<Rightarrow> PageId \<Rightarrow> PageDeclaration option" where
  "page_by_id c i = find (\<lambda>p. page_id p = i) (pages (app_declaration c))"

definition resolve_page :: "WebAppContext \<Rightarrow> string \<Rightarrow> PageDeclaration option" where
  "resolve_page c path =
     (case normalize_request_path path of
        Inl _ \<Rightarrow> None
      | Inr segs \<Rightarrow>
          find (\<lambda>p. page_path_text (page_path p) = slash # join_with slash segs) (pages (app_declaration c)))"

section \<open>Assembly of the declaration\<close>

text \<open>\<open>Option::map(f).transpose()\<close>, and the loop that pushes one result per element.\<close>

definition transpose_map :: "('a \<Rightarrow> 'e + 'b) \<Rightarrow> 'a option \<Rightarrow> 'e + 'b option" where
  "transpose_map f x = (case x of None \<Rightarrow> Inr None | Some a \<Rightarrow> and_then (f a) (\<lambda>b. Inr (Some b)))"

fun collect_all :: "('a \<Rightarrow> 'e + 'b) \<Rightarrow> 'a list \<Rightarrow> 'e + 'b list" where
  "collect_all f [] = Inr []"
| "collect_all f (x # xs) = and_then (f x) (\<lambda>y. and_then (collect_all f xs) (\<lambda>ys. Inr (y # ys)))"

definition build_permission :: "GuestPermissionDeclaration \<Rightarrow> AppDescriptorFailure + PermissionDeclaration" where
  "build_permission g =
     and_then (map_err (\<lambda>_. Malformed (BadPermissionName (guest_permission g))) (PermissionName_new (guest_permission g))) (\<lambda>n.
     Inr \<lparr>permission_name = n, permission_description = guest_permission_text g\<rparr>)"

definition build_page :: "GuestPageDeclaration \<Rightarrow> AppDescriptorFailure + PageDeclaration" where
  "build_page g =
     and_then (map_err (\<lambda>_. Malformed (BadPageId (guest_page_id g))) (PageId_new (guest_page_id g))) (\<lambda>i.
     and_then (map_err (\<lambda>_. Malformed (BadPagePath (guest_page_path g))) (PagePath_new (guest_page_path g))) (\<lambda>p.
     and_then (map_err (\<lambda>_. Malformed BadPagePermission) (transpose_map PermissionName_new (guest_page_permission g))) (\<lambda>req.
     Inr \<lparr>page_id = i, page_path = p, page_display_name = guest_page_name g, page_permission = req\<rparr>)))"

definition build_route_param :: "GuestRouteParamDecl \<Rightarrow> AppDescriptorFailure + RouteParam" where
  "build_route_param g =
     and_then (map_err (\<lambda>_. Malformed (BadParamType (guest_value_type g))) (param_type_from_str_checked (guest_value_type g))) (\<lambda>ty.
     map_err (\<lambda>_. Malformed (BadRouteParam (guest_param g))) (RouteParam_new (guest_param g) ty))"

definition build_route :: "GuestRouteDeclaration \<Rightarrow> AppDescriptorFailure + RouteDeclaration" where
  "build_route g =
     and_then (map_err (\<lambda>_. Malformed (BadRouteId (guest_route_id g))) (RouteId_new (guest_route_id g))) (\<lambda>i.
     and_then (map_err (\<lambda>_. Malformed (BadMethod (guest_method g))) (http_method_from_str_checked (guest_method g))) (\<lambda>m.
     and_then (map_err DeclarationConflict (PathTemplate_new (guest_route_path g))) (\<lambda>path.
     and_then (collect_all build_route_param (guest_params g)) (\<lambda>ps.
     and_then (map_err (\<lambda>_. Malformed BadRoutePermission) (transpose_map PermissionName_new (guest_route_permission g))) (\<lambda>req.
     map_err DeclarationConflict (RouteDeclaration_new i m path ps req))))))"

definition features_of_guest :: "GuestAppFeatures \<Rightarrow> AppFeatures" where
  "features_of_guest f =
     \<lparr>static_assets = app_static_assets f, backend_actions = app_backend_actions f, navigation = app_navigation f,
      typed_routes = app_typed_routes f, permissions_feature = app_permissions f\<rparr>"

definition references_permission :: "GuestAppDescriptor \<Rightarrow> bool" where
  "references_permission g \<longleftrightarrow>
     (\<exists>p \<in> set (guest_pages g). guest_page_permission p \<noteq> None) \<or>
     (\<exists>r \<in> set (guest_routes g). guest_route_permission r \<noteq> None)"

definition build_app_declaration :: "GuestAppDescriptor \<Rightarrow> AppDescriptorFailure + AppDeclaration" where
  "build_app_declaration g =
     and_then (map_err (\<lambda>_. Malformed BadEntry) (AssetPath_new (app_entry g))) (\<lambda>e.
     and_then (collect_all build_permission (guest_permissions g)) (\<lambda>perms.
     and_then (collect_all build_page (guest_pages g)) (\<lambda>ps.
     and_then (collect_all build_route (guest_routes g)) (\<lambda>rs.
     and_then (map_err (\<lambda>_. Malformed BadDefaultPage) (transpose_map PageId_new (guest_default_page g))) (\<lambda>dp.
     let f = features_of_guest (app_features g) in
     if \<not> navigation f \<and> (guest_pages g \<noteq> [] \<or> guest_default_page g \<noteq> None) then Inl (Malformed NavigationNotDeclared)
     else if \<not> typed_routes f \<and> guest_routes g \<noteq> [] then Inl (Malformed RoutesNotDeclared)
     else if \<not> permissions_feature f \<and> (guest_permissions g \<noteq> [] \<or> references_permission g)
       then Inl (Malformed PermissionsNotDeclared)
     else map_err DeclarationConflict (AppDeclaration_new e f (app_name g) perms ps rs dp))))))"

definition validate_contract_surface :: "AppDeclaration \<Rightarrow> ContractSurface \<Rightarrow> AppDescriptorFailure + unit" where
  "validate_contract_surface d s =
     (if navigation (features d) \<and> \<not> exports_web_navigation s
      then Inl (SurfaceViolation ''navigation feature requires the navigation interface export'')
      else if typed_routes (features d) \<and> \<not> exports_web_route_dispatch s
      then Inl (SurfaceViolation ''typed-routes feature requires the route-dispatch interface export'')
      else if permissions_feature (features d) \<and> \<not> exports_web_permissions s
      then Inl (SurfaceViolation ''permissions feature requires the permissions interface export'')
      else Inr ())"

section \<open>Permissions\<close>

definition WEB_PERMISSIONS_CAPABILITY :: string where "WEB_PERMISSIONS_CAPABILITY = ''operune:web/permissions''"

record WebPermissionContext =
  context_installation :: InstallationId
  context_version :: ComponentVersion
  context_permission :: PermissionName

datatype PermissionDenied = NotGranted | PermissionUnknown

fun permission_denied_display :: "PermissionDenied \<Rightarrow> string" where
  "permission_denied_display NotGranted = ''permission not granted for this installation''"
| "permission_denied_display PermissionUnknown = ''permission check failed''"

text \<open>The policy over the grants of the store; \<open>None\<close> when the store fails.\<close>

definition grants_permission :: "InstallationGrant \<Rightarrow> PermissionName \<Rightarrow> bool" where
  "grants_permission g p \<longleftrightarrow>
     capability_text (grant_capability g) = WEB_PERMISSIONS_CAPABILITY \<and>
     (case grant_scope g of
        Unscoped \<Rightarrow> True
      | ActionScope n \<Rightarrow> n = permission_text p
      | WasiPreopen _ _ _ _ \<Rightarrow> False
      | WasiEnv _ _ \<Rightarrow> False)"

definition check_permission ::
  "(InstallationId \<Rightarrow> InstallationGrant list option) \<Rightarrow> WebPermissionContext \<Rightarrow> PermissionDenied + unit" where
  "check_permission grants_for c =
     (case grants_for (context_installation c) of
        None \<Rightarrow> Inl PermissionUnknown
      | Some gs \<Rightarrow> if \<exists>g \<in> set gs. grants_permission g (context_permission c) then Inr () else Inl NotGranted)"

fun map_permission_denied :: "PermissionDenied \<Rightarrow> ActionDenied" where
  "map_permission_denied NotGranted = DenyNotGranted"
| "map_permission_denied PermissionUnknown = DenyUnknown"

section \<open>Calls\<close>

datatype 'r WebDispatchError =
    WebNotActive InstallationId
  | RouteUnavailable
  | InvalidRouteId string
  | RouteNotFound RouteId
  | InvalidParams
  | DispatchBodyTooLarge
  | DispatchPermissionDenied PermissionDenied
  | OverQuota WebQuotaDenied
  | DispatchCancelled
  | DispatchDeadlineExceeded
  | DispatchResponseTooLarge
  | DispatchBusy
  | DispatchGuestError string
  | DispatchRuntime "'r RuntimeExecutionError"

datatype WebPageDenied = PageNotActive InstallationId | PageDenied PermissionDenied

record WebEntry =
  entry_version :: ComponentVersion
  entry_web_app :: "WebAppContext option"

text \<open>
  The answers of the outside to one call: the active snapshot, the policy, the limit of the body (\<open>None\<close>
  when the snapshot of the configuration fails), the quota, the two probes of the cancellation token and
  the guest.
\<close>

record 'r web_env =
  web_active :: "InstallationId \<Rightarrow> WebEntry option"
  web_permission :: "WebPermissionContext \<Rightarrow> PermissionDenied + unit"
  web_body_limit :: "u64 option"
  web_quota_admit :: "WebQuotaDenied + unit"
  cancelled_before :: bool
  cancelled_after :: bool
  web_invoke :: "GuestRouteRequest \<Rightarrow> 'r RuntimeExecutionError + u8 list"

datatype web_event =
    Asked WebPermissionContext
  | Audited AuditEvent
  | SlotTaken
  | SlotBegun
  | GuestCalled GuestRouteRequest
  | SlotReleased

definition authorize_page ::
  "'r web_env \<Rightarrow> InstallationId \<Rightarrow> PageDeclaration \<Rightarrow> (WebPageDenied + unit) \<times> web_event list" where
  "authorize_page env i page =
     (case page_permission page of
        None \<Rightarrow> (Inr (), [])
      | Some required \<Rightarrow>
          (case web_active env i of
             None \<Rightarrow> (Inl (PageNotActive i), [])
           | Some e \<Rightarrow>
               let c = \<lparr>context_installation = i, context_version = entry_version e, context_permission = required\<rparr> in
               (case web_permission env c of
                  Inr _ \<Rightarrow> (Inr (), [Asked c])
                | Inl denied \<Rightarrow> (Inl (PageDenied denied), [Asked c,
                    Audited (ActionRefused i (''page:'' @ page_id_text (page_id page)) (map_permission_denied denied))]))))"

definition validate_request_params :: "RouteDeclaration \<Rightarrow> GuestTypedParam list \<Rightarrow> bool" where
  "validate_request_params r ps \<longleftrightarrow>
     length ps \<le> MAX_APP_REQUEST_PARAMS_LEN \<and> length ps = length (params r) \<and>
     list_all (\<lambda>(p, d). request_param p = param_name d \<and> guest_param_type (request_value p) = value_type d)
       (zip ps (params r))"

definition request_payload_size :: "GuestActionPayload option \<Rightarrow> nat" where
  "request_payload_size p =
     (case p of
        Some (JsonPayload s) \<Rightarrow> min (length s) (2 ^ 64 - 1)
      | Some (RawPayload bs) \<Rightarrow> min (length bs) (2 ^ 64 - 1)
      | None \<Rightarrow> 0)"

fun map_route_runtime_error :: "'r RuntimeExecutionError \<Rightarrow> 'r WebDispatchError" where
  "map_route_runtime_error DeadlineExceeded = DispatchDeadlineExceeded"
| "map_route_runtime_error ResponseTooLarge = DispatchResponseTooLarge"
| "map_route_runtime_error RuntimeBusy = DispatchBusy"
| "map_route_runtime_error (MissingOperuneExport _) = RouteUnavailable"
| "map_route_runtime_error e = DispatchRuntime e"

text \<open>The check of the permission, and what happens while the slot of the quota is held.\<close>

definition route_permission_check ::
  "'r web_env \<Rightarrow> InstallationId \<Rightarrow> WebEntry \<Rightarrow> RouteDeclaration \<Rightarrow> RouteId \<Rightarrow> web_event list \<Rightarrow>
    ('r WebDispatchError + unit) \<times> web_event list" where
  "route_permission_check env i e route rid t =
     (case route_permission route of
        None \<Rightarrow> (Inr (), t)
      | Some required \<Rightarrow>
          let c = \<lparr>context_installation = i, context_version = entry_version e, context_permission = required\<rparr> in
          (case web_permission env c of
             Inr _ \<Rightarrow> (Inr (), t @ [Asked c])
           | Inl denied \<Rightarrow>
               (Inl (DispatchPermissionDenied denied),
                t @ [Asked c, Audited (ActionRefused i (route_id_text rid) (map_permission_denied denied))])))"

definition call_guest ::
  "'r web_env \<Rightarrow> InstallationId \<Rightarrow> WebEntry \<Rightarrow> RouteId \<Rightarrow> GuestRouteRequest \<Rightarrow> web_event list \<Rightarrow>
    ('r WebDispatchError + u8 list) \<times> web_event list" where
  "call_guest env i e rid request t =
     (if cancelled_before env then (Inl DispatchCancelled, t)
      else
        let t = t @ [SlotBegun, GuestCalled request] in
        (case web_invoke env request of
           Inl err \<Rightarrow> (Inl (map_route_runtime_error err), t)
         | Inr response \<Rightarrow>
             let t = t @ [Audited (ActionInvoked i (entry_version e) (route_id_text rid))] in
             (if cancelled_after env then Inl DispatchCancelled else Inr response, t)))"

definition dispatch_route ::
  "'r web_env \<Rightarrow> InstallationId \<Rightarrow> GuestRouteRequest \<Rightarrow> ('r WebDispatchError + u8 list) \<times> web_event list" where
  "dispatch_route env i request =
     step_then (ok_or (web_active env i) (WebNotActive i), []) (\<lambda>e t.
     step_then (ok_or (entry_web_app e) RouteUnavailable, t) (\<lambda>c t.
     step_then (map_err (\<lambda>_. InvalidRouteId (request_route request)) (RouteId_new (request_route request)), t) (\<lambda>rid t.
     step_then (ok_or (route_by_id (app_registry c) rid) (RouteNotFound rid), t) (\<lambda>route t.
     step_then (route_permission_check env i e route rid t) (\<lambda>_ t.
     if \<not> validate_request_params route (request_params request) then (Inl InvalidParams, t)
     else
     step_then (ok_or (web_body_limit env) (DispatchRuntime ConfigUnavailable), t) (\<lambda>limit t.
     if request_payload_size (request_payload request) > unat limit then (Inl DispatchBodyTooLarge, t)
     else
     step_then (map_err OverQuota (web_quota_admit env), t) (\<lambda>_ t.
     (case call_guest env i e rid request (t @ [SlotTaken]) of
        (r, t) \<Rightarrow> (r, t @ [SlotReleased])))))))))"

section \<open>What the registry resolves\<close>

text \<open>The indices of the registry point at the declared routes, in their order.\<close>

definition registry_ok :: "RouteRegistry \<Rightarrow> bool" where
  "registry_ok r \<longleftrightarrow>
     (\<forall>m. list_all (\<lambda>k. k < length (registered r)) (candidates_of r m) \<and>
        map ((!) (registered r)) (candidates_of r m) = filter (\<lambda>x. route_method x = m) (registered r)) \<and>
     (\<forall>i. case by_id r i of
        None \<Rightarrow> i \<notin> route_id ` set (registered r)
      | Some k \<Rightarrow> k < length (registered r) \<and> route_id (registered r ! k) = i)"

lemma map_nth_append: "list_all (\<lambda>k. k < length xs) ks \<Longrightarrow> map ((!) (xs @ [x])) ks = map ((!) xs) ks"
  by (induction ks) (simp_all add: nth_append)

lemma list_all_less_Suc: "list_all (\<lambda>k. k < n) ks \<Longrightarrow> list_all (\<lambda>k. k < Suc n) ks"
  by (auto simp: list_all_iff)

lemma register_route_simps [simp]:
  "registered (register_route x r) = registered r @ [x]"
  "by_id (register_route x r) = (by_id r)(route_id x \<mapsto> length (registered r))"
  "candidates_of (register_route x r) m =
    candidates_of r m @ (if m = route_method x then [length (registered r)] else [])"
  by (simp_all add: register_route_def candidates_of_def Let_def)

lemma registry_ok_add:
  assumes "registry_ok r"
  shows "registry_ok (register_route x r)"
proof -
  have "case by_id (register_route x r) i of None \<Rightarrow> i \<notin> route_id ` set (registered (register_route x r))
      | Some k \<Rightarrow> k < length (registered (register_route x r)) \<and> route_id (registered (register_route x r) ! k) = i" for i
    using assms unfolding registry_ok_def
    by (cases "by_id r i"; cases "i = route_id x") (auto simp: nth_append dest: spec [of _ i])
  with assms show ?thesis by (simp add: registry_ok_def map_nth_append list_all_less_Suc)
qed

lemma registry_ok_all:
  "registry_ok r \<Longrightarrow> registry_ok (register_routes xs r) \<and> registered (register_routes xs r) = registered r @ xs"
  by (induction xs arbitrary: r) (simp_all add: registry_ok_add)

lemma RouteRegistry_ok:
  "registry_ok (RouteRegistry_new d)" "registered (RouteRegistry_new d) = routes d"
proof -
  have "registry_ok \<lparr>registered = [], by_id = Map.empty, by_method = Map.empty\<rparr>"
    by (simp add: registry_ok_def candidates_of_def)
  from registry_ok_all [OF this, of "routes d"]
  show "registry_ok (RouteRegistry_new d)" "registered (RouteRegistry_new d) = routes d"
    by (simp_all add: RouteRegistry_new_def)
qed

lemma find_filter: "find P (filter Q xs) = find (\<lambda>x. Q x \<and> P x) xs"
  by (induction xs) auto

text \<open>The captured parameters are the bindings of the template.\<close>

lemma capture_eq:
  "length ss = length vs \<Longrightarrow>
    capture (zip ss vs) m = (if list_all2 segment_matches ss vs then Some (m ++ map_of (rev (binds ss vs))) else None)"
proof (induction ss vs arbitrary: m rule: list_induct2)
  case (Cons s ss v vs)
  then show ?case by (cases s) (auto simp: map_add_def split: option.splits intro!: ext)
qed simp

lemma match_template_eq:
  "match_template t segs =
    (if template_matches t segs then Some (map_of (rev (binds (segments t) segs))) else None)"
proof (cases "length (segments t) = length segs")
  case True
  then show ?thesis by (simp add: match_template_def capture_eq template_matches_def)
next
  case False
  then have "\<not> template_matches t segs" by (auto simp: template_matches_def dest: list_all2_lengthD)
  with False show ?thesis by (simp add: match_template_def)
qed

lemma resolve_in_eq:
  "resolve_in pf fin reg ks m path segs =
    (case find (\<lambda>r. template_matches (route_path r) segs) (map ((!) (registered reg)) ks) of
       None \<Rightarrow> Inl (NotMatched m path)
     | Some r \<Rightarrow> and_then (typed_params pf fin (params r) (map_of (rev (binds (segments (route_path r)) segs))))
         (\<lambda>ts. Inr \<lparr>resolved_route = route_id r, resolved_params = ts\<rparr>))"
  by (induction ks) (auto simp: match_template_eq Let_def)

lemma resolve_route_eq:
  "normalize_request_path path = Inr segs \<Longrightarrow>
    resolve_route pf fin (RouteRegistry_new d) m path =
    (case match_in (routes d) m segs of
       None \<Rightarrow> Inl (NotMatched m path)
     | Some (r, ex) \<Rightarrow> and_then (typed_params pf fin (params r) (map_of (rev ex)))
         (\<lambda>ts. Inr \<lparr>resolved_route = route_id r, resolved_params = ts\<rparr>))"
proof -
  assume n: "normalize_request_path path = Inr segs"
  let ?reg = "RouteRegistry_new d"
  have "map ((!) (registered ?reg)) (candidates_of ?reg m) = filter (\<lambda>x. route_method x = m) (routes d)"
    using RouteRegistry_ok [of d] by (simp add: registry_ok_def)
  then have "resolve_in pf fin ?reg (candidates_of ?reg m) m path segs =
      (case match_in (routes d) m segs of
       None \<Rightarrow> Inl (NotMatched m path)
     | Some (r, ex) \<Rightarrow> and_then (typed_params pf fin (params r) (map_of (rev ex)))
         (\<lambda>ts. Inr \<lparr>resolved_route = route_id r, resolved_params = ts\<rparr>))"
    by (simp add: resolve_in_eq find_filter match_in_eq split: option.splits)
  moreover have "resolve_route pf fin ?reg m path = resolve_in pf fin ?reg (candidates_of ?reg m) m path segs"
    by (cases "by_method ?reg m") (simp_all add: resolve_route_def n candidates_of_def)
  ultimately show ?thesis by simp
qed

section \<open>What parameters it parses\<close>

text \<open>The registry refuses decimals that are not finite; the dispatch of the component takes them.\<close>

definition finite_only :: "('a \<Rightarrow> 'b option) \<Rightarrow> ('b \<Rightarrow> bool) \<Rightarrow> 'a \<Rightarrow> 'b option" where
  "finite_only pf fin s = (case pf s of Some v \<Rightarrow> if fin v then Some v else None | None \<Rightarrow> None)"

definition to_option :: "'e + 'a \<Rightarrow> 'a option" where
  "to_option r = (case r of Inl _ \<Rightarrow> None | Inr x \<Rightarrow> Some x)"

lemma to_option_simps [simp]:
  "to_option (Inl e) = None" "to_option (Inr x) = Some x"
  "to_option (and_then r f) = Option.bind (to_option r) (\<lambda>x. to_option (f x))"
  "to_option (map_err g r) = to_option r"
  "to_option (ok_or m e) = m"
  by (simp_all add: to_option_def and_then_def map_err_def ok_or_def split: sum.splits option.splits)

lemma to_option_Some: "to_option r = Some x \<longleftrightarrow> r = Inr x"
  by (auto simp: to_option_def split: sum.splits)

lemma integer_parsers_agree:
  "Option.bind (parse_i128 s) (\<lambda>w. to_option (ParamValue_try_from_i128 w)) = map_option IntegerValue (parse_i64 s)"
proof -
  have big: "n < 2 ^ 63 \<Longrightarrow> n < (2::nat) ^ 127" "n \<le> 2 ^ 63 \<Longrightarrow> n \<le> (2::nat) ^ 127" for n :: nat by simp_all
  have pos: "Option.bind (Option.bind m (\<lambda>n. if n < 2 ^ 127 then Some (int n) else None))
        (\<lambda>w. to_option (ParamValue_try_from_i128 w)) =
      map_option IntegerValue (Option.bind m (\<lambda>n. if n < 2 ^ 63 then Some (of_nat n) else None))" for m
    by (cases m) (auto simp: ParamValue_try_from_i128_def)
  have neg: "Option.bind (Option.bind m (\<lambda>n. if n \<le> 2 ^ 127 then Some (- int n) else None))
        (\<lambda>w. to_option (ParamValue_try_from_i128 w)) =
      map_option IntegerValue (Option.bind m (\<lambda>n. if n \<le> 2 ^ 63 then Some (- of_nat n) else None))" for m
    by (cases m) (auto simp: ParamValue_try_from_i128_def)
  show ?thesis
  proof (cases s)
    case Nil
    then show ?thesis by (simp add: parse_i128_def parse_i64_def)
  next
    case (Cons c r)
    show ?thesis
    proof (cases "c = CHR ''-''")
      case True
      show ?thesis unfolding parse_i128_def parse_i64_def Cons list.case if_P [OF True] by (rule neg)
    next
      case False
      show ?thesis unfolding parse_i128_def parse_i64_def Cons list.case if_not_P [OF False] by (rule pos)
    qed
  qed
qed

lemma unsigned_parsers_agree:
  "Option.bind (parse_u128 s) (\<lambda>w. to_option (ParamValue_try_from_u128 w)) = map_option UnsignedValue (parse_u64 s)"
proof -
  have "Option.bind (Option.bind m (\<lambda>n. if n < 2 ^ 128 then Some (of_nat n :: u128) else None))
        (\<lambda>w. to_option (ParamValue_try_from_u128 w)) =
      map_option UnsignedValue (Option.bind m (\<lambda>n. if n < 2 ^ 64 then Some (of_nat n) else None))" for m
  proof (cases m)
    case (Some n)
    have "n < 2 ^ 128 \<Longrightarrow> unat (word_of_nat n :: u128) = n" by (simp add: take_bit_nat_eq_self unsigned_of_nat)
    moreover have "ucast (word_of_nat n :: u128) = (word_of_nat n :: u64)"
      by (rule bit_word_eqI) (simp add: bit_simps)
    ultimately show ?thesis using Some by (auto simp: ParamValue_try_from_u128_def)
  qed simp
  then show ?thesis unfolding parse_u128_def parse_u64_def by blast
qed

lemma parse_param_value_agrees:
  "to_option (parse_param_value pf fin p raw) = parse_param (finite_only pf fin) raw (value_type p)"
proof (cases "value_type p")
  case IntegerType
  then show ?thesis
    using integer_parsers_agree [of raw] by (simp add: parse_param_value_def parse_param_def Let_def)
next
  case UnsignedType
  then show ?thesis
    using unsigned_parsers_agree [of raw] by (simp add: parse_param_value_def parse_param_def Let_def)
qed (auto simp: parse_param_value_def parse_param_def finite_only_def Let_def if_distrib [of to_option] split: option.splits)

lemma find_map_of: "map_option snd (find (\<lambda>e. fst e = n) ex) = map_of ex n"
  by (induction ex) auto

lemma map_of_rev_distinct: "distinct (map fst ex) \<Longrightarrow> map_of (rev ex) = map_of ex"
  by (rule map_of_eqI) (auto simp: rev_map [symmetric])

lemma typed_params_agree:
  "distinct (map fst ex) \<Longrightarrow>
    to_option (typed_params pf fin ps (map_of (rev ex))) = build_params (finite_only pf fin) ps ex"
proof (induction ps)
  case (Cons p ps)
  have t: "(case T of Inl e \<Rightarrow> None | Inr t \<Rightarrow> map_option ((#) t) m) =
      Option.bind (to_option T) (\<lambda>t. Option.bind m (\<lambda>ts. Some (t # ts)))" for T :: "DomainError + TypedParam" and m
    by (cases T; cases m) simp_all
  have "map_of ex (param_name p) = map_option snd (find (\<lambda>e. fst e = param_name p) ex)" by (simp add: find_map_of)
  with Cons show ?case
    by (cases "find (\<lambda>e. fst e = param_name p) ex")
      (auto simp: map_of_rev_distinct parse_param_value_agrees t)
qed simp

lemma typed_params_error: "typed_params pf fin ps c = Inl e \<Longrightarrow> \<exists>n w. e = InvalidParamValue n w"
proof (induction ps arbitrary: e)
  case (Cons p ps)
  have v: "\<exists>n w. e = InvalidParamValue n w" if "parse_param_value pf fin p raw = Inl e" for raw e
    using that by (cases "value_type p") (auto simp: parse_param_value_def Let_def result_simps split: if_splits)
  show ?case
  proof (cases "c (param_name p)")
    case (Some raw)
    show ?thesis
      using Cons v [of raw] by (cases "parse_param_value pf fin p raw") (auto simp: Some result_simps)
  qed (use Cons.prems in auto)
qed simp

section \<open>What the declaration is built from\<close>

lemma collect_all_Inr: "collect_all f xs = Inr ys \<longleftrightarrow> list_all2 (\<lambda>x y. f x = Inr y) xs ys"
  by (induction xs arbitrary: ys) (auto simp: result_simps list_all2_Cons1)

lemma transpose_map_Inr:
  "transpose_map f x = Inr y \<longleftrightarrow> rel_option (\<lambda>a b. f a = Inr b) x y"
  by (cases x; cases y) (auto simp: transpose_map_def result_simps)

text \<open>The descriptor that a declaration stands for.\<close>

definition guest_of_permission :: "PermissionDeclaration \<Rightarrow> GuestPermissionDeclaration" where
  "guest_of_permission p =
     \<lparr>guest_permission = permission_text (permission_name p), guest_permission_text = permission_description p\<rparr>"

definition guest_of_page :: "PageDeclaration \<Rightarrow> GuestPageDeclaration" where
  "guest_of_page p =
     \<lparr>guest_page_id = page_id_text (page_id p), guest_page_path = page_path_text (page_path p),
      guest_page_name = page_display_name p, guest_page_permission = map_option permission_text (page_permission p)\<rparr>"

definition guest_of_param :: "RouteParam \<Rightarrow> GuestRouteParamDecl" where
  "guest_of_param p = \<lparr>guest_param = param_name p, guest_value_type = param_type_as_str (value_type p)\<rparr>"

definition guest_of_route :: "RouteDeclaration \<Rightarrow> GuestRouteDeclaration" where
  "guest_of_route r =
     \<lparr>guest_route_id = route_id_text (route_id r), guest_method = http_method_as_str (route_method r),
      guest_route_path = template_text (route_path r), guest_params = map guest_of_param (params r),
      guest_route_permission = map_option permission_text (route_permission r)\<rparr>"

definition guest_of_features :: "AppFeatures \<Rightarrow> GuestAppFeatures" where
  "guest_of_features f =
     \<lparr>app_static_assets = static_assets f, app_backend_actions = backend_actions f, app_navigation = navigation f,
      app_typed_routes = typed_routes f, app_permissions = permissions_feature f\<rparr>"

definition guest_of_app :: "AppDeclaration \<Rightarrow> GuestAppDescriptor" where
  "guest_of_app d =
     \<lparr>app_entry = asset_path_text (entry d), app_features = guest_of_features (features d),
      app_name = app_display_name d, guest_permissions = map guest_of_permission (permissions d),
      guest_pages = map guest_of_page (pages d), guest_routes = map guest_of_route (routes d),
      guest_default_page = map_option page_id_text (default_page d)\<rparr>"

lemma guest_of_features_inverse: "guest_of_features (features_of_guest f) = f"
  by (simp add: guest_of_features_def features_of_guest_def)

lemma map_inverse: "list_all2 P xs ys \<Longrightarrow> (\<And>x y. P x y \<Longrightarrow> g y = x) \<Longrightarrow> map g ys = xs"
  by (induction rule: list_all2_induct) auto

lemma map_option_inverse: "rel_option P x y \<Longrightarrow> (\<And>a b. P a b \<Longrightarrow> g b = a) \<Longrightarrow> map_option g y = x"
  by (cases x; cases y) auto

lemma build_permission_inverse: "build_permission g = Inr p \<Longrightarrow> guest_of_permission p = g"
  by (auto simp: build_permission_def guest_of_permission_def result_simps dest: permission_name.new_text)

lemma permissions_inverse:
  "rel_option (\<lambda>a b. PermissionName_new a = Inr b) x y \<Longrightarrow> map_option permission_text y = x"
  by (erule map_option_inverse) (rule permission_name.new_text)

lemma build_page_inverse:
  assumes "build_page g = Inr p"
  shows "guest_of_page p = g"
proof -
  from assms have "PageId_new (guest_page_id g) = Inr (page_id p)" "PagePath_new (guest_page_path g) = Inr (page_path p)"
    "rel_option (\<lambda>a b. PermissionName_new a = Inr b) (guest_page_permission g) (page_permission p)"
    "page_display_name p = guest_page_name g"
    by (auto simp: build_page_def result_simps transpose_map_Inr)
  note facts = page_id.new_text [OF this(1)] page_path.new_text [OF this(2)] permissions_inverse [OF this(3)] this(4)
  show ?thesis by (simp add: guest_of_page_def facts)
qed

lemma build_route_param_inverse: "build_route_param g = Inr p \<Longrightarrow> guest_of_param p = g"
  by (auto simp: build_route_param_def guest_of_param_def RouteParam_new_def result_simps
      dest: param_type.print_parse split: option.splits)

lemma build_route_Inr:
  assumes "build_route g = Inr r"
  shows "guest_of_route r = g" "PathTemplate_new (guest_route_path g) = Inr (route_path r)"
    "RouteDeclaration_new (route_id r) (route_method r) (route_path r) (params r) (route_permission r) = Inr r"
proof -
  from assms obtain i m t ps req where
    i: "RouteId_new (guest_route_id g) = Inr i" and m: "http_method_from_str_checked (guest_method g) = Inr m"
    and t: "PathTemplate_new (guest_route_path g) = Inr t"
    and ps: "list_all2 (\<lambda>x y. build_route_param x = Inr y) (guest_params g) ps"
    and req: "rel_option (\<lambda>a b. PermissionName_new a = Inr b) (guest_route_permission g) req"
    and r: "RouteDeclaration_new i m t ps req = Inr r"
    by (auto simp: build_route_def result_simps collect_all_Inr transpose_map_Inr)
  then have r': "r = \<lparr>route_id = i, route_method = m, route_path = t, params = ps, route_permission = req\<rparr>"
    by (simp add: RouteDeclaration_new_Inr)
  show "guest_of_route r = g"
    using route_id.new_text [OF i] http_method.print_parse [OF m] PathTemplate_new_Inr(1) [OF t]
      map_inverse [OF ps build_route_param_inverse] permissions_inverse [OF req]
    by (simp add: guest_of_route_def r')
  show "PathTemplate_new (guest_route_path g) = Inr (route_path r)" by (simp add: r' t)
  show "RouteDeclaration_new (route_id r) (route_method r) (route_path r) (params r) (route_permission r) = Inr r"
    using r by (simp add: r')
qed

lemma build_app_declaration_Inr:
  assumes "build_app_declaration g = Inr d"
  shows "guest_of_app d = g"
    and "AppDeclaration_deserialize d = Inr d"
    and "list_all2 (\<lambda>x y. build_route x = Inr y) (guest_routes g) (routes d)"
    and "\<not> navigation (features d) \<Longrightarrow> guest_pages g = [] \<and> guest_default_page g = None"
    and "\<not> typed_routes (features d) \<Longrightarrow> guest_routes g = []"
    and "\<not> permissions_feature (features d) \<Longrightarrow> guest_permissions g = [] \<and> \<not> references_permission g"
proof -
  let ?f = "features_of_guest (app_features g)"
  from assms obtain e perms ps rs dp where
    e: "AssetPath_new (app_entry g) = Inr e"
    and perms: "list_all2 (\<lambda>x y. build_permission x = Inr y) (guest_permissions g) perms"
    and ps: "list_all2 (\<lambda>x y. build_page x = Inr y) (guest_pages g) ps"
    and rs: "list_all2 (\<lambda>x y. build_route x = Inr y) (guest_routes g) rs"
    and dp: "rel_option (\<lambda>a b. PageId_new a = Inr b) (guest_default_page g) dp"
    and nav: "navigation ?f \<or> guest_pages g = [] \<and> guest_default_page g = None"
    and tr: "typed_routes ?f \<or> guest_routes g = []"
    and pf: "permissions_feature ?f \<or> guest_permissions g = [] \<and> \<not> references_permission g"
    and d: "AppDeclaration_new e ?f (app_name g) perms ps rs dp = Inr d"
    by (auto simp: build_app_declaration_def result_simps collect_all_Inr transpose_map_Inr Let_def split: if_splits)
  from d have d': "d = \<lparr>entry = e, features = ?f, app_display_name = app_name g, permissions = perms, pages = ps,
      routes = rs, default_page = dp\<rparr>" by (simp add: AppDeclaration_new_Inr)
  show "guest_of_app d = g"
    using asset_path.new_text [OF e] map_inverse [OF perms build_permission_inverse]
      map_inverse [OF ps build_page_inverse] map_inverse [OF rs build_route_Inr(1)]
      map_option_inverse [OF dp page_id.new_text]
    by (simp add: guest_of_app_def d' guest_of_features_inverse)
  show "AppDeclaration_deserialize d = Inr d" using d by (simp add: AppDeclaration_deserialize_def d')
  show "list_all2 (\<lambda>x y. build_route x = Inr y) (guest_routes g) (routes d)" using rs by (simp add: d')
  show "\<not> navigation (features d) \<Longrightarrow> guest_pages g = [] \<and> guest_default_page g = None" using nav by (auto simp: d')
  show "\<not> typed_routes (features d) \<Longrightarrow> guest_routes g = []" using tr by (auto simp: d')
  show "\<not> permissions_feature (features d) \<Longrightarrow> guest_permissions g = [] \<and> \<not> references_permission g"
    using pf by (auto simp: d')
qed

lemma built_route:
  assumes "build_app_declaration g = Inr d" "r \<in> set (routes d)"
  obtains v where "PathTemplate_new v = Inr (route_path r)"
    "RouteDeclaration_new (route_id r) (route_method r) (route_path r) (params r) (route_permission r) = Inr r"
proof -
  from build_app_declaration_Inr(3) [OF assms(1)] assms(2) obtain x where "build_route x = Inr r"
    by (auto simp: in_set_conv_nth list_all2_conv_all_nth)
  from build_route_Inr(2,3) [OF this] that show thesis by blast
qed

section \<open>What happens on a call\<close>

text \<open>When the guest is called: every guard of the dispatch has passed.\<close>

definition call_allowed :: "'r web_env \<Rightarrow> InstallationId \<Rightarrow> GuestRouteRequest \<Rightarrow> bool" where
  "call_allowed env i request \<longleftrightarrow>
     (\<exists>e c rid route limit.
        web_active env i = Some e \<and> entry_web_app e = Some c \<and> RouteId_new (request_route request) = Inr rid \<and>
        route_by_id (app_registry c) rid = Some route \<and>
        (\<forall>p. route_permission route = Some p \<longrightarrow> web_permission env
           \<lparr>context_installation = i, context_version = entry_version e, context_permission = p\<rparr> = Inr ()) \<and>
        validate_request_params route (request_params request) \<and>
        web_body_limit env = Some limit \<and> request_payload_size (request_payload request) \<le> unat limit \<and>
        web_quota_admit env = Inr () \<and> \<not> cancelled_before env)"

lemma route_permission_check_cases:
  obtains (passed) t' where "route_permission_check env i e route rid t = (Inr (), t @ t')"
      "\<forall>p. route_permission route = Some p \<longrightarrow> web_permission env
         \<lparr>context_installation = i, context_version = entry_version e, context_permission = p\<rparr> = Inr ()"
      "\<forall>x \<in> set t'. \<exists>c. x = Asked c"
  | (denied) p d where "route_permission_check env i e route rid t =
        (Inl (DispatchPermissionDenied d), t @ [Asked \<lparr>context_installation = i, context_version = entry_version e,
           context_permission = p\<rparr>, Audited (ActionRefused i (route_id_text rid) (map_permission_denied d))])"
      "route_permission route = Some p" "web_permission env
         \<lparr>context_installation = i, context_version = entry_version e, context_permission = p\<rparr> = Inl d"
proof (cases "route_permission route")
  case None
  then show thesis by (intro passed [of "[]"]) (simp_all add: route_permission_check_def)
next
  case (Some p)
  let ?c = "\<lparr>context_installation = i, context_version = entry_version e, context_permission = p\<rparr>"
  show thesis
  proof (cases "web_permission env ?c")
    case (Inl d)
    with Some show thesis by (intro denied [of d p]) (simp_all add: route_permission_check_def)
  next
    case (Inr u)
    with Some show thesis by (intro passed [of "[Asked ?c]"]) (simp_all add: route_permission_check_def)
  qed
qed

text \<open>A call ends before the slot is taken, or takes it, calls the guest and gives it back.\<close>

lemma dispatch_route_cases:
  obtains (refused) "\<not> call_allowed env i request"
      "\<forall>x \<in> set (snd (dispatch_route env i request)). (\<exists>c. x = Asked c) \<or> (\<exists>a. x = Audited a)"
      "\<exists>e. fst (dispatch_route env i request) = Inl e"
  | (held) pre e rid where "dispatch_route env i request =
        (fst (call_guest env i e rid request (pre @ [SlotTaken])),
         snd (call_guest env i e rid request (pre @ [SlotTaken])) @ [SlotReleased])"
      "\<forall>x \<in> set pre. \<exists>c. x = Asked c" "call_allowed env i request \<longleftrightarrow> \<not> cancelled_before env"
proof -
  note [simp] = dispatch_route_def call_allowed_def
  show thesis
  proof (cases "web_active env i")
    case None
    then show thesis by (intro refused) auto
  next
    case e: (Some e)
    show thesis
    proof (cases "entry_web_app e")
      case None
      with e show thesis by (intro refused) auto
    next
      case c: (Some c)
      show thesis
      proof (cases "RouteId_new (request_route request)")
        case (Inl _)
        with e c show thesis by (intro refused) auto
      next
        case rid: (Inr rid)
        show thesis
        proof (cases "route_by_id (app_registry c) rid")
          case None
          with e c rid show thesis by (intro refused) auto
        next
          case route: (Some route)
          show thesis
          proof (cases rule: route_permission_check_cases [of env i e route rid "[]"])
            case (denied p d)
            with e c rid route show thesis by (intro refused) auto
          next
            case (passed t')
            show thesis
            proof (cases "validate_request_params route (request_params request)")
              case False
              with e c rid route passed show thesis by (intro refused) auto
            next
              case valid: True
              show thesis
              proof (cases "web_body_limit env")
                case None
                with e c rid route passed valid show thesis by (intro refused) auto
              next
                case limit: (Some limit)
                show thesis
                proof (cases "request_payload_size (request_payload request) \<le> unat limit \<and> is_ok (web_quota_admit env)")
                  case False
                  with e c rid route passed valid limit show thesis
                    by (intro refused; cases "web_quota_admit env") auto
                next
                  case True
                  with e c rid route passed valid limit show thesis
                    by (intro held [of e rid t']; cases "web_quota_admit env") (auto split: prod.splits)
                qed
              qed
            qed
          qed
        qed
      qed
    qed
  qed
qed

lemma call_guest_shape:
  obtains (cancelled) "cancelled_before env" "call_guest env i e rid request t = (Inl DispatchCancelled, t)"
  | (called) r t' where "\<not> cancelled_before env"
      "call_guest env i e rid request t = (r, t @ [SlotBegun, GuestCalled request] @ t')"
      "\<forall>x \<in> set t'. \<exists>a. x = Audited a"
proof (cases "cancelled_before env")
  case True
  then show thesis by (intro cancelled) (simp_all add: call_guest_def)
next
  case False
  then show thesis
  proof (cases "web_invoke env request")
    case (Inl err)
    with False show thesis by (intro called [of "Inl (map_route_runtime_error err)" "[]"]) (simp_all add: call_guest_def)
  next
    case (Inr response)
    with False show thesis
      by (intro called [of "if cancelled_after env then Inl DispatchCancelled else Inr response"
          "[Audited (ActionInvoked i (entry_version e) (route_id_text rid))]"]) (simp_all add: call_guest_def)
  qed
qed

section \<open>Properties\<close>

text \<open>C33: The registry of routes and the dispatch of the component agree: on a path that both admit, the registry
  built for an assembled declaration resolves a request exactly to the route that the dispatch matches, with the
  same typed parameters (decimals that are not finite being refused), reports \<open>NotMatched\<close> exactly when no route
  matches, and its lookup by id finds exactly the declared routes.\<close>

theorem registry_agrees_with_dispatch:
  assumes "build_app_declaration g = Inr d" "normalize_request_path path = Inr segs"
  shows "(resolve_route pf fin (RouteRegistry_new d) m path = Inr res \<longleftrightarrow>
      (\<exists>r ex ts. match_route (routes d) m path = Some (r, ex) \<and>
        build_typed_params (finite_only pf fin) r ex = Some ts \<and>
        res = \<lparr>resolved_route = route_id r, resolved_params = ts\<rparr>)) \<and>
    (resolve_route pf fin (RouteRegistry_new d) m path = Inl (NotMatched m path) \<longleftrightarrow>
      match_route (routes d) m path = None) \<and>
    (route_by_id (RouteRegistry_new d) i = Some r' \<longleftrightarrow> r' \<in> set (routes d) \<and> route_id r' = i)"
proof -
  have segs: "segs = tl (split_on slash path)"
    using assms(2) by (simp add: normalize_request_path_def split: if_splits)
  have look: "to_option (typed_params pf fin (params r) (map_of (rev ex))) = build_typed_params (finite_only pf fin) r ex"
    if m: "match_in (routes d) m segs = Some (r, ex)" for r ex
  proof -
    from m have r: "r \<in> set (routes d)" and t: "template_matches (route_path r) segs"
      and ex: "ex = binds (segments (route_path r)) segs"
      by (auto simp: match_in_eq find_Some_iff)
    from built_route [OF assms(1) r] obtain v where v: "PathTemplate_new v = Inr (route_path r)" by blast
    from t have "length (segments (route_path r)) = length segs" by (auto simp: template_matches_def dest: list_all2_lengthD)
    then have "distinct (map fst ex)"
      using PathTemplate_new_Inr(3) [OF v] by (simp add: ex map_fst_binds param_names_def)
    then show ?thesis by (simp add: typed_params_agree build_typed_params_def)
  qed
  have "resolve_route pf fin (RouteRegistry_new d) m path = Inr res \<longleftrightarrow>
      (\<exists>r ex ts. match_route (routes d) m path = Some (r, ex) \<and>
        build_typed_params (finite_only pf fin) r ex = Some ts \<and>
        res = \<lparr>resolved_route = route_id r, resolved_params = ts\<rparr>)"
    using look by (auto simp: resolve_route_eq [OF assms(2)] match_route_def segs [symmetric] result_simps
        to_option_Some [symmetric] bind_eq_Some_conv split: option.splits prod.splits)
  moreover have "resolve_route pf fin (RouteRegistry_new d) m path = Inl (NotMatched m path) \<longleftrightarrow>
      match_route (routes d) m path = None"
    by (auto simp: resolve_route_eq [OF assms(2)] match_route_def segs [symmetric] result_simps
        dest: typed_params_error split: option.splits prod.splits)
  moreover have "route_by_id (RouteRegistry_new d) i = Some r' \<longleftrightarrow> r' \<in> set (routes d) \<and> route_id r' = i"
  proof -
    from build_app_declaration_Inr(2) [OF assms(1)] have "inj_on route_id (set (routes d))"
      by (simp add: AppDeclaration_deserialize_def AppDeclaration_new_Inr distinct_map)
    moreover have "case by_id (RouteRegistry_new d) i of None \<Rightarrow> i \<notin> route_id ` set (routes d)
        | Some k \<Rightarrow> k < length (routes d) \<and> route_id (routes d ! k) = i"
      using RouteRegistry_ok(1) [of d] unfolding registry_ok_def RouteRegistry_ok(2) by blast
    ultimately show ?thesis
      by (cases "by_id (RouteRegistry_new d) i")
        (auto simp: route_by_id_def RouteRegistry_ok(2) dest: inj_onD)
  qed
  ultimately show ?thesis by blast
qed

text \<open>C35: The declaration assembled from a descriptor and checked against the exports of the binary is the guest's own:
  it says what the descriptor says, text by text, satisfies the conditions of a declaration, and declares pages,
  routes and permissions only when the binary exports the interface behind them.\<close>

theorem app_declaration_faithful:
  assumes "build_app_declaration g = Inr d" "validate_contract_surface d s = Inr ()"
  shows "guest_of_app d = g \<and> AppDeclaration_deserialize d = Inr d \<and>
    (pages d \<noteq> [] \<or> default_page d \<noteq> None \<longrightarrow> exports_web_navigation s) \<and>
    (routes d \<noteq> [] \<longrightarrow> exports_web_route_dispatch s) \<and>
    (permissions d \<noteq> [] \<or> references_permission g \<longrightarrow> exports_web_permissions s)"
proof -
  note b = build_app_declaration_Inr [OF assms(1)]
  from assms(2) have s: "navigation (features d) \<longrightarrow> exports_web_navigation s"
    "typed_routes (features d) \<longrightarrow> exports_web_route_dispatch s"
    "permissions_feature (features d) \<longrightarrow> exports_web_permissions s"
    by (auto simp: validate_contract_surface_def split: if_splits)
  have g: "guest_pages g = map guest_of_page (pages d)" "guest_routes g = map guest_of_route (routes d)"
    "guest_permissions g = map guest_of_permission (permissions d)"
    "guest_default_page g = map_option page_id_text (default_page d)"
    by (simp_all add: b(1) [symmetric] guest_of_app_def)
  show ?thesis
    using b(1,2) s b(4) b(5) b(6) by (auto simp: g)
qed

text \<open>C34: The guest is called exactly when every guard passed: the installation is active with a web application, the
  id names a route of its registry, the permission the route requires is granted, the parameters are the declared
  ones, the body is within the limit, the quota admits the call and it is not cancelled; the call carries the
  request unchanged, every slot that is taken is given back as the last act, and a caller that is refused gets an
  error.\<close>

theorem route_call_guarded:
  "(GuestCalled q \<in> set (snd (dispatch_route env i request)) \<longleftrightarrow> q = request \<and> call_allowed env i request) \<and>
   (SlotTaken \<in> set (snd (dispatch_route env i request)) \<longrightarrow>
      last (snd (dispatch_route env i request)) = SlotReleased) \<and>
   count_list (snd (dispatch_route env i request)) SlotTaken = count_list (snd (dispatch_route env i request)) SlotReleased \<and>
   (\<not> call_allowed env i request \<longrightarrow> (\<exists>e. fst (dispatch_route env i request) = Inl e))"
proof (cases rule: dispatch_route_cases [of env i request])
  case refused
  then have "x \<notin> set (snd (dispatch_route env i request))" if "x = SlotTaken \<or> x = SlotReleased \<or> x = GuestCalled q" for x
    using that by fastforce
  with refused show ?thesis by (auto simp: count_list_0_iff)
next
  case (held pre e rid)
  have pre: "x \<notin> set pre" if "x = SlotTaken \<or> x = SlotReleased \<or> x = GuestCalled q" for x
    using held(2) that by fastforce
  then have counts: "count_list pre SlotTaken = 0" "count_list pre SlotReleased = 0" by (simp_all add: count_list_0_iff)
  show ?thesis
  proof (cases rule: call_guest_shape [of env i e rid request "pre @ [SlotTaken]"])
    case cancelled
    with held pre counts show ?thesis by auto
  next
    case (called r t')
    then have "x \<notin> set t'" if "x = SlotTaken \<or> x = SlotReleased \<or> x = GuestCalled q" for x
      using that by fastforce
    moreover from this have "count_list t' SlotTaken = 0" "count_list t' SlotReleased = 0" by (simp_all add: count_list_0_iff)
    ultimately show ?thesis using called held pre counts by auto
  qed
qed

section \<open>Witnesses\<close>

definition demo_guest :: GuestAppDescriptor where
  "demo_guest =
     \<lparr>app_entry = ''/index.html'',
      app_features = \<lparr>app_static_assets = True, app_backend_actions = False, app_navigation = False,
        app_typed_routes = True, app_permissions = False\<rparr>,
      app_name = None, guest_permissions = [], guest_pages = [],
      guest_routes = [\<lparr>guest_route_id = ''r'', guest_method = ''get'', guest_route_path = ''/{x}'',
        guest_params = [\<lparr>guest_param = ''x'', guest_value_type = ''unsigned''\<rparr>], guest_route_permission = None\<rparr>],
      guest_default_page = None\<rparr>"

definition demo_route :: RouteDeclaration where
  "demo_route = \<lparr>route_id = RouteId ''r'', route_method = Get,
     route_path = \<lparr>template_text = ''/{x}'', segments = [Param ''x'']\<rparr>,
     params = [\<lparr>param_name = ''x'', value_type = UnsignedType\<rparr>], route_permission = None\<rparr>"

definition demo_declaration :: AppDeclaration where
  "demo_declaration = \<lparr>entry = AssetPath ''/index.html'', features = features_of_guest (app_features demo_guest),
     app_display_name = None, permissions = [], pages = [], routes = [demo_route], default_page = None\<rparr>"

lemma demo_path: "PathTemplate_new ''/{x}'' = Inr \<lparr>template_text = ''/{x}'', segments = [Param ''x'']\<rparr>"
  by (simp add: PathTemplate_new_def parse_template_def MAX_PATH_LEN_def starts_with_def strip_prefix_def
      strip_suffix_char_def param_name_error_def MAX_IDENTIFIER_LEN_def param_name_char_def is_lower_def
      dot_segment_def less_eq_char_def)

lemma demo_entry: "AssetPath_new ''/index.html'' = Inr (AssetPath ''/index.html'')"
  by (simp add: AssetPath_new_def validate_mount_path_def MAX_PATH_LEN_def starts_with_def strip_prefix_def dot_segment_def)

lemma demo_route_id: "RouteId_new ''r'' = Inr (RouteId ''r'')"
  by (simp add: RouteId_new_def validate_identifier_def MAX_IDENTIFIER_LEN_def)

lemma demo_param_name: "param_name_error ''x'' = None"
  by (simp add: param_name_error_def MAX_IDENTIFIER_LEN_def param_name_char_def is_lower_def less_eq_char_def)

lemma demo_build_route: "build_route (hd (guest_routes demo_guest)) = Inr demo_route"
proof -
  have "RouteDeclaration_new (RouteId ''r'') Get \<lparr>template_text = ''/{x}'', segments = [Param ''x'']\<rparr>
      [\<lparr>param_name = ''x'', value_type = UnsignedType\<rparr>] None = Inr demo_route"
    by (simp add: RouteDeclaration_new_Inr param_names_def List.map_filter_def demo_route_def)
  then show ?thesis
    by (simp add: demo_guest_def build_route_def demo_route_id http_method_from_str_checked_def demo_path
        build_route_param_def param_type_from_str_checked_def RouteParam_new_def demo_param_name transpose_map_def)
qed

lemma web_demo_built: "build_app_declaration demo_guest = Inr demo_declaration"
proof -
  have "AppDeclaration_new (AssetPath ''/index.html'') f None [] [] [demo_route] None =
      Inr \<lparr>entry = AssetPath ''/index.html'', features = f, app_display_name = None, permissions = [], pages = [],
        routes = [demo_route], default_page = None\<rparr>" for f
    by (simp add: AppDeclaration_new_Inr unambiguous_def) (simp add: demo_route_def)
  with demo_build_route show ?thesis
    by (simp add: build_app_declaration_def transpose_map_def Let_def references_permission_def demo_guest_def
        demo_entry features_of_guest_def demo_declaration_def)
qed

lemma registry_agrees_with_dispatch_witness:
  "build_app_declaration demo_guest = Inr demo_declaration \<and> normalize_request_path ''/7'' = Inr [''7''] \<and>
   (\<exists>res. resolve_route (\<lambda>_. None) (\<lambda>_. True) (RouteRegistry_new demo_declaration) Get ''/7'' = Inr res)"
proof -
  have n: "normalize_request_path ''/7'' = Inr [''7'']"
    by (simp add: normalize_request_path_def starts_with_def strip_prefix_def)
  have "match_route (routes demo_declaration) Get ''/7'' = Some (demo_route, [(''x'', ''7'')])"
    by (simp add: match_route_def demo_declaration_def demo_route_def)
  moreover have "build_typed_params (finite_only (\<lambda>_. None) (\<lambda>_. True)) demo_route [(''x'', ''7'')] =
      Some [\<lparr>typed_name = ''x'', typed_value = UnsignedValue 7\<rparr>]"
    by (simp add: build_typed_params_def demo_route_def parse_param_def parse_u64_def parse_digits_def is_digit_def
        less_eq_char_def TypedParam_new_def demo_param_name)
  ultimately show ?thesis
    using registry_agrees_with_dispatch [OF web_demo_built n, of "\<lambda>_. None" "\<lambda>_. True" Get
        "\<lparr>resolved_route = RouteId ''r'', resolved_params = [\<lparr>typed_name = ''x'', typed_value = UnsignedValue 7\<rparr>]\<rparr>"]
      web_demo_built n by (auto simp: demo_route_def)
qed

definition demo_surface :: ContractSurface where
  "demo_surface = \<lparr>surface_imports = [], surface_exports = [''route-dispatch'']\<rparr>"

lemma app_declaration_faithful_witness: "guest_of_app demo_declaration = demo_guest"
proof -
  have "validate_contract_surface demo_declaration demo_surface = Inr ()"
    by (simp add: validate_contract_surface_def demo_declaration_def features_of_guest_def demo_guest_def demo_surface_def
        exports_web_route_dispatch_def exports_any_def)
  from app_declaration_faithful [OF web_demo_built this] show ?thesis by blast
qed

definition demo_web_env :: "unit web_env" where
  "demo_web_env =
     \<lparr>web_active = (\<lambda>_. Some \<lparr>entry_version = ComponentVersion 1 0 0,
        entry_web_app = Some (WebAppContext_new demo_declaration)\<rparr>),
      web_permission = (\<lambda>_. Inl NotGranted), web_body_limit = Some 16, web_quota_admit = Inr (),
      cancelled_before = False, cancelled_after = False, web_invoke = (\<lambda>_. Inr [])\<rparr>"

definition demo_request :: GuestRouteRequest where
  "demo_request = \<lparr>request_route = ''r'', request_params = [\<lparr>request_param = ''x'', request_value = UnsignedParam 7\<rparr>],
     request_payload = None\<rparr>"

lemma route_call_guarded_witness:
  "GuestCalled demo_request \<in> set (snd (dispatch_route demo_web_env (InstallationId 1) demo_request)) \<and>
   count_list (snd (dispatch_route demo_web_env (InstallationId 1) demo_request)) SlotTaken =
     count_list (snd (dispatch_route demo_web_env (InstallationId 1) demo_request)) SlotReleased"
proof -
  have "route_by_id (RouteRegistry_new demo_declaration) (RouteId ''r'') = Some demo_route"
    by (simp add: route_by_id_def RouteRegistry_new_def register_route_def demo_declaration_def demo_route_def Let_def)
  then have "call_allowed demo_web_env (InstallationId 1) demo_request"
    by (simp add: call_allowed_def demo_web_env_def demo_request_def demo_route_id WebAppContext_new_def demo_route_def
        validate_request_params_def request_payload_size_def MAX_APP_REQUEST_PARAMS_LEN_def)
  then show ?thesis
    using route_call_guarded [of demo_request demo_web_env "InstallationId 1" demo_request] by blast
qed

end
