(* ===== verification/Spec2Isabelle.thy ===== *)
theory Spec2Isabelle
  imports Paths Quantities Digest Lifecycle Graph Quota Policy Rbac Chain SchedulerLive Dispatch StateServiceSpec StateDisk AdminGuard WebApp
begin

text \<open>
  operune is a runtime for WebAssembly components written in Rust. A component is installed from a
  binary, bound to the providers of the interfaces it imports, granted capabilities by policies,
  started, upgraded and removed; while it runs it keeps state in an SQLite file, has tasks fired by a
  scheduler, and answers requests to the pages of its web application; an administrator reaches the
  runtime through a web console that is guarded by sessions. This development models the code that
  decides these things and proves what it promises. All source paths are below \<open>crates/\<close>.

  \<^bold>\<open>How the parts interact.\<close> The crate \<open>domain\<close> holds values that validate on construction and pure
  rules over them. The crate \<open>application\<close> holds services that call ports (traits): the lifecycle
  controller, the scheduler, the state and migration services, the web runtime. \<open>storage-sqlite\<close>
  implements the ports of the state: a call of the port becomes a command sent to one worker thread
  that owns the connection. \<open>web-component\<close> maps HTTP requests to routes, \<open>security\<close> keeps
  sessions and \<open>web-admin\<close> guards the console with them. The development follows these lines: a
  port is a record of functions over a state of the world, a service is a function of its ports, and
  what a service relies on is stated as a law of the port and proved of the code that provides it.

  \<^bold>\<open>The theories and the code they model.\<close>

  \<^item> \<open>Base\<close>, \<open>Containers\<close>, \<open>Strings\<close>: the prelude. \<open>Result\<close> as a sum with \<open>and_then\<close>,
    \<open>map_err\<close>, \<open>ok_or\<close>; \<open>BTreeMap\<close> and \<open>BTreeSet\<close> as sorted lists (\<open>bt_*\<close>, \<open>bs_*\<close>) with the
    lemmas that read them as maps and sets; the string operations of the standard library; the
    locales \<open>validated_newtype\<close> and \<open>closed_enum\<close>, the contracts of the types coded as text, each
    interpreted on every type that has it.
  \<^item> \<open>Errors\<close> (\<open>domain/src/error.rs\<close>), \<open>Idents\<close> (\<open>id.rs\<close>, \<open>state.rs\<close>, \<open>secret.rs\<close>, \<open>event.rs\<close>,
    \<open>bytes.rs\<close>, parts of \<open>path.rs\<close> and \<open>web.rs\<close>), \<open>Paths\<close> (mount paths and hosts of \<open>policy.rs\<close>,
    \<open>path.rs\<close>), \<open>Quantities\<close> (\<open>size.rs\<close>, \<open>time.rs\<close>, words at their width), \<open>Digest\<close>
    (\<open>digest.rs\<close>), \<open>Interfaces\<close> (\<open>version.rs\<close>, \<open>interface.rs\<close>, \<open>provider.rs\<close>): the validated
    values. One definition per constructor, printer and parser; the lemmas show what is accepted,
    that the text forms are lossless (or, for interface identifiers, exactly when they are) and
    where arithmetic stops at the bounds.
  \<^item> \<open>Activation\<close>, \<open>Graph\<close> (\<open>graph.rs\<close>, \<open>upgrade.rs\<close>): the provider graph, from records to index,
    resolution, construction, activation order and upgrade analysis. The lemmas show that
    construction is total, when it accepts, what it resolves, that the order of the records does not
    matter and that the activation order is topological.
  \<^item> \<open>Lifecycle\<close> (\<open>domain/src/lifecycle.rs\<close>, \<open>application/src/lifecycle.rs\<close>): the state machine and
    the controller, one call as one step over a log of effects; the invariant orders teardown behind
    the audit.
  \<^item> \<open>Policy\<close> (\<open>policy.rs\<close>, \<open>impact.rs\<close>), \<open>Rbac\<close> (\<open>rbac.rs\<close>), \<open>Chain\<close> (\<open>chain.rs\<close>), \<open>Quota\<close>
    (\<open>quota.rs\<close>): scopes, policies, versions and their differences; roles and groups; the record of
    a decision and when it is well formed; the quota tree and the effective limit.
  \<^item> \<open>Scheduler\<close>, \<open>SchedulerLive\<close> (\<open>domain/src/scheduler.rs\<close>, \<open>application/src/scheduler.rs\<close>): the
    service and its driver as a step relation over calls and turns; accounting of every fire, the
    grid, silence after a cancel or a stop, and progress.
  \<^item> \<open>Web\<close> (\<open>domain/src/web.rs\<close>), \<open>Dispatch\<close> (\<open>web-component/src/dispatch.rs\<close>, \<open>quota.rs\<close>):
    declarations of pages and routes, templates and their conflicts, dispatch and typed parameters.
  \<^item> \<open>Contract\<close> (\<open>application/src/contract.rs\<close>): encoders and decoders between host types and the
    values of the component model, with their limits. \<open>Surface\<close> (parts of \<open>application/src/model.rs\<close>,
    \<open>error.rs\<close>, \<open>ports/audit.rs\<close>): grants, import classes and events the web runtime shares.
    \<open>WebQuota\<close> (\<open>application/src/ports/web_quota.rs\<close>): admission with guards. \<open>WebApp\<close>
    (\<open>application/src/web_app.rs\<close>, \<open>ports/web.rs\<close>): assembly of a declaration, registry, the guarded
    call of a route.
  \<^item> \<open>Sqlite\<close>, \<open>StateStore\<close> (\<open>storage-sqlite/src/executor.rs\<close>, \<open>repository.rs\<close>, \<open>schema.rs\<close>,
    \<open>error.rs\<close>, \<open>model.rs\<close>): the connection, rows, statements and the worker with the commands about
    state, configuration and secrets, the audit and the removal of an installation. \<open>StateSpec\<close>: the
    specification of the state without rows, and the simulation that the worker implements it. It
    holds for an SQLite that never ends a transaction on its own and whose \<open>ROLLBACK\<close> works
    (\<open>orderly\<close>), whichever statements fail; the lemma \<open>autorollback_splits_transaction\<close> shows that
    the first condition is needed. \<open>StateDisk\<close>: what holds of the rows on disk without it, the schema
    version (no condition at all) and the configuration and secrets (\<open>ROLLBACK\<close> works). \<open>StatePorts\<close>
    (\<open>application/src/ports/state.rs\<close>, \<open>ports/audit.rs\<close>, \<open>storage-sqlite/src/ports.rs\<close>), \<open>StateService\<close>
    (\<open>application/src/state.rs\<close>, \<open>migration.rs\<close>), \<open>StateServiceSpec\<close>: the ports with their contract
    as a locale, the services over it, and what they promise over any provider of the contract and
    over the worker (with an orderly SQLite).
  \<^item> \<open>Session\<close> (\<open>security/src/session.rs\<close>, \<open>token.rs\<close>, \<open>csrf.rs\<close>, \<open>session_cookie.rs\<close>) and
    \<open>AdminGuard\<close> (\<open>web-admin/src/auth.rs\<close>, \<open>csrf.rs\<close>, \<open>routes/login.rs\<close>, \<open>routes/mod.rs\<close>): the session
    manager over its store and the middleware of the console in its order; provenance of an accepted
    token, revocation, and what a request has passed when it reaches a handler. Requests overlap: a
    validation, which locks the store twice, is two steps of a run with other requests in between.
  \<^item> This theory joins the text forms of the domain crate.

  \<^bold>\<open>Conventions.\<close> A struct is a record, a tuple struct with derived order a datatype with a
  \<open>linorder\<close> instance, an enum a datatype with the source's constructors (with a prefix or suffix where
  two enums share one). Machine integers are words; \<open>usize\<close> lengths of lists are natural numbers. A
  fallible function returns \<open>Error + 'a\<close>; an operation that changes a state returns the result with
  the new state, so that what a failing call leaves behind is part of its meaning. \<open>Mutex\<close> regions are
  atomic steps; where code takes a lock twice the model has two steps.

  \<^bold>\<open>Bounds and termination.\<close> No definition has fuel the code does not have. The two loops of the
  activation order are \<open>partial_function (option)\<close>, where \<open>None\<close> is a run without end or an
  \<open>unreachable!\<close> of the source: \<open>Graph.try_build_total\<close> excludes both for every list of records.
  The grid of the scheduler is a \<open>function\<close> with a measure, the fires still due; every other loop is a
  structural recursion over the list it walks. Long runs of services are step relations, with
  invariants by rule induction. Arithmetic is checked or saturating exactly where the code's is;
  lengths of collections and degrees of nodes (\<open>usize\<close>) are natural numbers, since memory bounds them.

  \<^bold>\<open>Parameters.\<close> Code outside the repository is an argument of the definitions that use it: the
  parser, printer and matcher of \<open>semver\<close>, those of \<open>uuid\<close>, the parser of \<open>f64\<close>, SHA-256, base64 and
  the random generator, the checked addition of the \<open>time\<close> crate, the answers of SQLite to a
  statement, the clock, the parsers of cookies and forms, the guest (a function that may call the
  service), and the queue and runtime behind the scheduler. What a theorem needs of them is a named
  hypothesis, for instance that parsing inverts printing of a version, or that the digest of two tokens
  differs; its witness instantiates it.

  \<^bold>\<open>What is not modelled.\<close> The engine (\<open>runtime-wasm\<close>, \<open>runtime-wasi-p2\<close>), \<open>tokio\<close>, the HTTP
  handlers and templates, TLS and password hashing, logging and metrics, the file system side of
  the storage, the command line and the platform crates are input and output around the code
  modelled here. Poisoning of a mutex (a panic of another thread while it holds the lock) is left out
  throughout. The installation pipeline (\<open>install.rs\<close>, \<open>upgrade.rs\<close>,
  \<open>uninstall.rs\<close>, \<open>composition.rs\<close>) and the services of events, configuration and secrets are
  not modelled either.
\<close>

section \<open>Wire forms\<close>

text \<open>
  The types with one text and one validating constructor: what is parsed prints and serializes to a text
  that is read back as the same value. This is the instance of the two locales of \<open>Strings\<close> for every
  such type; what a constructor accepts is the subject of the lemmas of its own theory.
\<close>

theorem text_forms_lossless:
  "codec_ok ComponentId_impls \<and> codec_ok CapabilityId_impls \<and> codec_ok StateKey_impls \<and>
   codec_ok SecretName_impls \<and> codec_ok EventTopic_impls \<and> codec_ok PagePath_impls \<and>
   codec_ok AssetPath_impls \<and> codec_ok FileSystemPath_impls \<and> codec_ok HostName_impls \<and>
   codec_ok PackageName_impls \<and> codec_ok InterfaceName_impls \<and>
   codec_ok ComponentLifecycleState_impls \<and> codec_ok ComponentLifecycleEvent_impls \<and>
   codec_ok GroupId_impls \<and> codec_ok BudgetDimension_impls \<and>
   codec_ok NetworkScheme_impls \<and>
   codec_ok RoleId_impls \<and>
   codec_ok RoleName_impls \<and>
   codec_ok PermissionAction_impls \<and>
   codec_ok PolicyChainLayer_impls \<and>
   codec_ok PolicyDecision_impls"
  unfolding ComponentId_impls_def CapabilityId_impls_def StateKey_impls_def SecretName_impls_def
    EventTopic_impls_def PagePath_impls_def AssetPath_impls_def FileSystemPath_impls_def
    HostName_impls_def PackageName_impls_def InterfaceName_impls_def
    ComponentLifecycleState_impls_def ComponentLifecycleEvent_impls_def GroupId_impls_def
    BudgetDimension_impls_def NetworkScheme_impls_def RoleId_impls_def RoleName_impls_def PermissionAction_impls_def PolicyChainLayer_impls_def PolicyDecision_impls_def
  by (intro conjI component_id.codec capability_id.codec state_key.codec secret_name.codec
      event_topic.codec page_path.codec asset_path.codec fs_path.codec host_name.codec
      package_name.codec interface_name.codec lifecycle_state.codec lifecycle_event.codec
      group_id.codec budget_dimension.codec
      network_scheme.codec role_id.codec role_name.codec permission_action.codec policy_chain_layer.codec policy_decision.codec)

end
